(* ===== verification/Prelude.thy ===== *)
theory Prelude
  imports Main
    "HOL-Library.Word" "HOL-Library.AList" "HOL-Library.Char_ord"
    "HOL-Library.List_Lexorder" "HOL-Library.Sublist"
begin

text \<open>
  Shared vocabulary of the development: the outcome of a Go call that may return, fail or
  panic; Go strings as byte lists with the functions of the packages \<open>strings\<close> and
  \<open>strconv\<close> the sources call; signed 64-bit arithmetic; Go maps as association lists; and the
  interfaces (locales) several components instantiate: a run of an invariant-preserving
  step function, and a codec that reads back what it wrote.
\<close>

section \<open>Collections of facts\<close>

named_theorems go_simps \<open>evaluation of the Go string and number functions\<close>
named_theorems inv_intros \<open>preservation of a component's invariant by its operations\<close>

section \<open>Outcomes of a Go call\<close>

text \<open>A Go function returns a value, returns an error, or panics and takes the process with it.\<close>

datatype ('e, 'a) outcome = Ok 'a | Fail 'e | Panic

fun is_panic :: "('e, 'a) outcome \<Rightarrow> bool" where
  "is_panic Panic = True"
| "is_panic _ = False"

section \<open>Signed 64-bit integers\<close>

abbreviation MaxInt64 :: int where "MaxInt64 \<equiv> 9223372036854775807"
abbreviation MinInt64 :: int where "MinInt64 \<equiv> -9223372036854775808"

text \<open>The value a Go \<open>int64\<close> (and, on the platforms the service is built for, \<open>int\<close>)
  computation leaves behind: two's complement wrap-around.\<close>

definition wrap64 :: "int \<Rightarrow> int" where
  "wrap64 i = (i + 2 ^ 63) mod 2 ^ 64 - 2 ^ 63"

definition int64_range :: "int \<Rightarrow> bool" where
  "int64_range i \<longleftrightarrow> MinInt64 \<le> i \<and> i \<le> MaxInt64"

text \<open>Go's integer division truncates towards zero.\<close>

definition quot :: "int \<Rightarrow> int \<Rightarrow> int" where
  "quot a b = sgn a * sgn b * (\<bar>a\<bar> div \<bar>b\<bar>)"

section \<open>Strings\<close>

text \<open>A Go string is a sequence of bytes; \<^typ>\<open>char\<close> has 256 values, one per byte.\<close>

type_synonym gostring = string

definition is_digit :: "char \<Rightarrow> bool" where
  "is_digit c \<longleftrightarrow> CHR ''0'' \<le> c \<and> c \<le> CHR ''9''"

definition upper_char :: "char \<Rightarrow> char" where
  "upper_char c = (if CHR ''a'' \<le> c \<and> c \<le> CHR ''z'' then char_of (of_char c - 32 :: nat) else c)"

definition lower_char :: "char \<Rightarrow> char" where
  "lower_char c = (if CHR ''A'' \<le> c \<and> c \<le> CHR ''Z'' then char_of (of_char c + 32 :: nat) else c)"

text \<open>\<open>strings.ToUpper\<close> and \<open>strings.ToLower\<close> on ASCII text, which is all the code
  compares their results with; bytes above ASCII are left alone.\<close>

definition ToUpper :: "gostring \<Rightarrow> gostring" where "ToUpper = map upper_char"
definition ToLower :: "gostring \<Rightarrow> gostring" where "ToLower = map lower_char"

text \<open>\<open>strings.Cut\<close> for a separator of one byte: what is before the first separator, what is
  after it, and whether there was one.\<close>

definition Cut :: "gostring \<Rightarrow> char \<Rightarrow> gostring \<times> gostring \<times> bool" where
  "Cut s sep = (takeWhile (\<lambda>c. c \<noteq> sep) s, drop 1 (dropWhile (\<lambda>c. c \<noteq> sep) s), sep \<in> set s)"

definition CutSuffix :: "gostring \<Rightarrow> gostring \<Rightarrow> gostring \<times> bool" where
  "CutSuffix s suf =
     (if suffix suf s then (take (length s - length suf) s, True) else (s, False))"

definition TrimPrefix :: "gostring \<Rightarrow> gostring \<Rightarrow> gostring" where
  "TrimPrefix s pre = (if prefix pre s then drop (length pre) s else s)"

definition TrimSuffix :: "gostring \<Rightarrow> gostring \<Rightarrow> gostring" where
  "TrimSuffix s suf = (if suffix suf s then take (length s - length suf) s else s)"

text \<open>\<open>strings.Split\<close> for a separator of one byte.\<close>

fun Split_on :: "char \<Rightarrow> gostring \<Rightarrow> gostring list" where
  "Split_on sep [] = [[]]"
| "Split_on sep (c # cs) =
     (if c = sep then [] # Split_on sep cs
      else (case Split_on sep cs of [] \<Rightarrow> [[c]] | w # ws \<Rightarrow> (c # w) # ws))"

fun Join :: "gostring list \<Rightarrow> gostring \<Rightarrow> gostring" where
  "Join [] sep = []"
| "Join [w] sep = w"
| "Join (w # ws) sep = w @ sep @ Join ws sep"

section \<open>Numbers in decimal\<close>

definition digit_char :: "nat \<Rightarrow> char" where "digit_char d = char_of (48 + d)"

definition digit_val :: "char \<Rightarrow> nat" where "digit_val c = of_char c - 48"

fun format_nat :: "nat \<Rightarrow> gostring" where
  "format_nat n =
     (if n < 10 then [digit_char n] else format_nat (n div 10) @ [digit_char (n mod 10)])"

declare format_nat.simps [simp del]

text \<open>\<open>strconv.FormatInt\<close> and \<open>strconv.Itoa\<close> in base ten.\<close>

definition FormatInt :: "int \<Rightarrow> gostring" where
  "FormatInt i = (if i < 0 then CHR ''-'' # format_nat (nat (- i)) else format_nat (nat i))"

definition value_of_digits :: "gostring \<Rightarrow> nat" where
  "value_of_digits s = foldl (\<lambda>n c. 10 * n + digit_val c) 0 s"

definition parse_digits :: "gostring \<Rightarrow> nat option" where
  "parse_digits s =
     (if s \<noteq> [] \<and> list_all is_digit s then Some (value_of_digits s) else None)"

text \<open>\<open>strconv.ParseInt(s, 10, 64)\<close>, which on a 64-bit platform is also \<open>strconv.Atoi\<close>: an
  optional sign, at least one digit, nothing else, and a value an \<open>int64\<close> holds.\<close>

definition ParseInt :: "gostring \<Rightarrow> int option" where
  "ParseInt s =
     (let (neg, ds) = (case s of [] \<Rightarrow> (False, s)
                      | c # cs \<Rightarrow> if c = CHR ''-'' then (True, cs)
                                else if c = CHR ''+'' then (False, cs) else (False, s))
      in case parse_digits ds of
           None \<Rightarrow> None
         | Some n \<Rightarrow> (let i = (if neg then - int n else int n)
                    in if int64_range i then Some i else None))"

abbreviation Atoi :: "gostring \<Rightarrow> int option" where "Atoi \<equiv> ParseInt"

text \<open>\<open>strconv.ParseUint(s, 10, bits)\<close>: digits only.\<close>

definition ParseUint :: "nat \<Rightarrow> gostring \<Rightarrow> nat option" where
  "ParseUint bits s =
     (case parse_digits s of None \<Rightarrow> None | Some n \<Rightarrow> if n < 2 ^ bits then Some n else None)"

section \<open>Lists\<close>

text \<open>The last \<open>n\<close> elements, or all of them when there are fewer.\<close>

definition last_n :: "nat \<Rightarrow> 'a list \<Rightarrow> 'a list" where
  "last_n n xs = drop (length xs - n) xs"

text \<open>Go map iteration in \<open>slices.Sorted(maps.Keys(m))\<close> order.\<close>

definition sorted_keys :: "('k::linorder \<times> 'v) list \<Rightarrow> 'k list" where
  "sorted_keys m = sort (map fst m)"

abbreviation keys_distinct :: "('k \<times> 'v) list \<Rightarrow> bool" where
  "keys_distinct m \<equiv> distinct (map fst m)"

section \<open>Lemmas on arithmetic\<close>

lemma wrap64_word: "wrap64 i = sint (word_of_int i :: 64 word)"
  by (simp add: wrap64_def sint_uint signed_take_bit_eq_take_bit_shift uint_word_of_int
      take_bit_eq_mod)
    (simp add: mod_simps)

lemma wrap64_range: "int64_range (wrap64 i)"
proof -
  have "0 \<le> (i + 2 ^ 63) mod 2 ^ 64" "(i + 2 ^ 63) mod 2 ^ 64 < (2 ^ 64 :: int)" by simp_all
  then show ?thesis unfolding wrap64_def int64_range_def by simp
qed

lemma wrap64_id [simp]: "int64_range i \<Longrightarrow> wrap64 i = i"
  unfolding wrap64_def int64_range_def by simp

lemma wrap64_over:
  "MaxInt64 < i \<Longrightarrow> i \<le> MaxInt64 + 2 ^ 64 \<Longrightarrow> wrap64 i = i - 2 ^ 64"
  unfolding wrap64_def by (simp add: mod_pos_geq)

lemma wrap64_under:
  assumes "i < MinInt64" "MinInt64 - 2 ^ 64 \<le> i"
  shows "wrap64 i = i + 2 ^ 64"
proof -
  have "(i + 2 ^ 63) mod 2 ^ 64 = (i + 2 ^ 63 + 2 ^ 64) mod (2 ^ 64 :: int)"
    by (rule mod_add_self2 [symmetric])
  also have "\<dots> = i + 2 ^ 63 + 2 ^ 64" using assms by (intro mod_pos_pos_trivial) simp_all
  finally show ?thesis by (simp add: wrap64_def)
qed

lemma ceil_div:
  fixes m x :: int
  assumes "0 < m" "0 < x" and q: "q = (x + (m - 1)) div m"
  shows "0 < q \<and> (q - 1) * m < x \<and> x \<le> q * m"
proof -
  define r where "r = (x + (m - 1)) mod m"
  have r: "0 \<le> r" "r < m" using assms(1) by (simp_all add: r_def)
  have e: "q * m = x + (m - 1) - r" unfolding r_def q by (simp add: algebra_simps minus_mod_eq_mult_div)
  then have "0 < q * m" using r assms by simp
  then have "0 < q" using assms(1) by (simp add: zero_less_mult_iff)
  with e r show ?thesis by (simp add: left_diff_distrib)
qed

section \<open>Lemmas on lists and association lists\<close>

lemma length_last_n [simp]: "length (last_n n xs) = min n (length xs)"
  by (simp add: last_n_def)

lemma last_n_all [simp]: "length xs \<le> n \<Longrightarrow> last_n n xs = xs"
  by (simp add: last_n_def)

lemma last_n_last_n_append: "last_n n (last_n n xs @ ys) = last_n n (xs @ ys)"
proof (cases "length xs \<le> n")
  case False
  then have "length xs - (length xs - n) = n" by simp
  with False show ?thesis by (simp add: last_n_def add.commute)
qed simp

lemma last_n_snoc: "0 < n \<Longrightarrow> n \<le> length xs \<Longrightarrow> last_n n (xs @ [x]) = tl (last_n n xs) @ [x]"
  by (auto simp: last_n_def Suc_diff_le tl_drop drop_Suc)

lemma sorted_keys_sorted [simp]: "sorted (sorted_keys m)"
  by (simp add: sorted_keys_def)

lemma set_sorted_keys [simp]: "set (sorted_keys m) = dom (map_of m)"
  by (simp add: sorted_keys_def dom_map_of_conv_image_fst)

lemma distinct_sorted_keys [simp]: "distinct (sorted_keys m) \<longleftrightarrow> keys_distinct m"
  by (simp add: sorted_keys_def)

lemma map_of_update [simp]: "map_of (AList.update k v m) = (map_of m)(k \<mapsto> v)"
  by (rule update_conv')

lemma map_of_delete [simp]: "map_of (AList.delete k m) = (map_of m)(k := None)"
  by (rule delete_conv')

lemma keys_distinct_update [simp]: "keys_distinct m \<Longrightarrow> keys_distinct (AList.update k v m)"
  by (rule distinct_update)

lemma keys_distinct_delete [simp]: "keys_distinct m \<Longrightarrow> keys_distinct (AList.delete k m)"
  by (simp add: distinct_delete)

section \<open>Lemmas on decimal numbers\<close>

lemma digit_val_digit_char [simp]: "d < 10 \<Longrightarrow> digit_val (digit_char d) = d"
  by (simp add: digit_val_def digit_char_def)

lemma is_digit_digit_char [simp]: "d < 10 \<Longrightarrow> is_digit (digit_char d)"
  by (simp add: is_digit_def digit_char_def less_eq_char_def)

lemma is_digit_sign [simp]: "\<not> is_digit (CHR ''-'')" "\<not> is_digit (CHR ''+'')"
  by (simp_all add: is_digit_def less_eq_char_def)

lemma format_nat_nonempty [simp]: "format_nat n \<noteq> []"
  by (subst format_nat.simps) simp

lemma format_nat_digits: "list_all is_digit (format_nat n)"
proof (induction n rule: format_nat.induct)
  case (1 n)
  then show ?case by (subst format_nat.simps) simp
qed

lemma value_of_digits_snoc:
  "value_of_digits (s @ [c]) = 10 * value_of_digits s + digit_val c"
  by (simp add: value_of_digits_def)

lemma value_format_nat: "value_of_digits (format_nat n) = n"
proof (induction n rule: format_nat.induct)
  case (1 n)
  show ?case
  proof (cases "n < 10")
    case True
    then show ?thesis by (subst format_nat.simps) (simp add: value_of_digits_def)
  next
    case False
    then show ?thesis
      using "1.IH" by (subst format_nat.simps) (simp add: value_of_digits_snoc)
  qed
qed

lemma parse_format_nat [simp]: "parse_digits (format_nat n) = Some n"
  by (simp add: parse_digits_def format_nat_digits value_format_nat)

lemma format_nat_no_sign: "format_nat n \<noteq> CHR ''-'' # s" "format_nat n \<noteq> CHR ''+'' # s"
  using format_nat_digits [of n] by auto

lemma Parse_FormatInt [simp]: "int64_range i \<Longrightarrow> ParseInt (FormatInt i) = Some i"
proof (cases "i < 0")
  case True
  then show "int64_range i \<Longrightarrow> ?thesis" by (simp add: ParseInt_def FormatInt_def)
next
  case False
  obtain c s where s: "format_nat (nat i) = c # s" by (cases "format_nat (nat i)") simp_all
  moreover have "c \<noteq> CHR ''-''" "c \<noteq> CHR ''+''"
    using format_nat_no_sign [of "nat i" s] s by auto
  moreover have "parse_digits (c # s) = Some (nat i)" using s parse_format_nat by metis
  ultimately show "int64_range i \<Longrightarrow> ?thesis"
    using False by (simp add: ParseInt_def FormatInt_def)
qed

lemma ParseInt_range: "ParseInt s = Some i \<Longrightarrow> int64_range i"
  by (auto simp: ParseInt_def Let_def split: option.splits if_splits prod.splits)

section \<open>Runs of a step function\<close>

text \<open>Several components are a state and an operation that maps a state and a request to the
  next state. What the operation keeps, a whole sequence of requests keeps.\<close>

locale preserved =
  fixes step :: "'s \<Rightarrow> 'a \<Rightarrow> 's"
    and inv :: "'s \<Rightarrow> bool"
  assumes step_inv: "inv s \<Longrightarrow> inv (step s a)"
begin

lemma run_inv: "inv s \<Longrightarrow> inv (foldl step s as)"
  by (induction as arbitrary: s) (simp_all add: step_inv)

lemma run_prefix_inv: "inv s \<Longrightarrow> inv (foldl step s (take n as))"
  by (rule run_inv)

end

section \<open>Refinement\<close>

text \<open>The answers a component gives to a sequence of requests.\<close>

fun trace :: "('s \<Rightarrow> 'c \<Rightarrow> 'o \<times> 's) \<Rightarrow> 's \<Rightarrow> 'c list \<Rightarrow> 'o list" where
  "trace f s [] = []"
| "trace f s (c # cs) = (case f s c of (answer, s') \<Rightarrow> answer # trace f s' cs)"

text \<open>A component that keeps an invariant and, under it, answers and moves as a simpler specification
  does on the abstraction of its state. No client can then tell the two apart.\<close>

locale refinement =
  fixes abs :: "'s \<Rightarrow> 'a"
    and inv :: "'s \<Rightarrow> bool"
    and impl :: "'s \<Rightarrow> 'c \<Rightarrow> 'o \<times> 's"
    and spec :: "'a \<Rightarrow> 'c \<Rightarrow> 'o \<times> 'a"
  assumes impl_inv: "inv s \<Longrightarrow> inv (snd (impl s c))"
    and impl_spec: "inv s \<Longrightarrow> spec (abs s) c = (fst (impl s c), abs (snd (impl s c)))"
begin

lemma trace_refines: "inv s \<Longrightarrow> trace impl s cs = trace spec (abs s) cs"
  by (induction cs arbitrary: s) (simp_all add: split_beta impl_spec impl_inv)

end

section \<open>Codecs\<close>

text \<open>A wire format whose reader takes exactly what the writer wrote off the front of a stream
  and leaves the rest for whoever reads next. Reading a whole pipeline follows.\<close>

locale codec =
  fixes enc :: "'a \<Rightarrow> 'b list"
    and dec :: "'b list \<Rightarrow> ('a \<times> 'b list) option"
    and fits :: "'a \<Rightarrow> bool"
  assumes dec_enc: "fits x \<Longrightarrow> dec (enc x @ rest) = Some (x, rest)"
begin

lemma dec_enc_all: "fits x \<Longrightarrow> dec (enc x) = Some (x, [])"
  using dec_enc [of x "[]"] by simp

lemma enc_inj: "fits x \<Longrightarrow> fits y \<Longrightarrow> enc x @ r = enc y @ s \<Longrightarrow> x = y \<and> r = s"
  by (metis dec_enc option.inject prod.inject)

lemma enc_prefix_free: "fits x \<Longrightarrow> fits y \<Longrightarrow> prefix (enc x) (enc y) \<Longrightarrow> x = y"
  by (metis append_Nil2 enc_inj prefixE)

lemma enc_stream_inj:
  "\<lbrakk>list_all fits xs; list_all fits ys; length xs = length ys;
    concat (map enc xs) @ r = concat (map enc ys) @ s\<rbrakk> \<Longrightarrow> xs = ys \<and> r = s"
proof (induction xs arbitrary: ys)
  case (Cons x xs)
  then obtain y ys' where ys: "ys = y # ys'" by (cases ys) auto
  with Cons.prems have "x = y \<and> concat (map enc xs) @ r = concat (map enc ys') @ s"
    by (intro enc_inj) auto
  with Cons ys show ?case by auto
qed simp

end

end
