(* ===== verification/Oplog.thy ===== *)
theory Oplog
  imports Prelude
begin

text \<open>
  The op log of \<open>internal/oplog/oplog.go\<close>: a bounded ring of numbered entries. The record
  \<open>log\<close> is the Go struct \<open>Log\<close> (the capacity of its slice made a field of its own), and each
  operation is the method of that name. The mutex makes every method atomic, so a method is one
  function on the state. The lemmas show the ring is, at every moment, the last entries of the
  sequence of everything ever recorded, numbered from one without a gap.
\<close>

section \<open>The ring\<close>

definition DefaultLimit :: int where "DefaultLimit = 10000"

record entry =
  e_N :: nat
  e_Emulator :: gostring
  e_Op :: gostring
  e_Target :: gostring
  e_Fault :: gostring
  e_Control :: gostring

record log =
  l_entries :: "entry list"
  l_cap :: nat
  l_oldest :: nat
  l_next :: nat
  l_dropped :: nat

record dump =
  d_Entries :: "entry list"
  d_Dropped :: nat

definition New_log :: "int \<Rightarrow> log" where
  "New_log limit =
     (let limit = (if limit \<le> 0 then DefaultLimit else limit)
      in \<lparr>l_entries = [], l_cap = nat limit, l_oldest = 0, l_next = 1, l_dropped = 0\<rparr>)"

definition Record :: "entry \<Rightarrow> log \<Rightarrow> entry \<times> log" where
  "Record entry l =
     (let entry = entry\<lparr>e_N := l_next l\<rparr>;
          l = l\<lparr>l_next := l_next l + 1\<rparr>
      in if length (l_entries l) < l_cap l
         then (entry, l\<lparr>l_entries := l_entries l @ [entry]\<rparr>)
         else (entry, l\<lparr>l_entries := (l_entries l)[l_oldest l := entry],
                        l_oldest := (l_oldest l + 1) mod length (l_entries l),
                        l_dropped := l_dropped l + 1\<rparr>))"

definition snapshot :: "log \<Rightarrow> entry list" where
  "snapshot l = drop (l_oldest l) (l_entries l) @ take (l_oldest l) (l_entries l)"

definition Entries :: "log \<Rightarrow> entry list" where "Entries l = snapshot l"

definition Since :: "log \<Rightarrow> int \<Rightarrow> entry list" where
  "Since l ordinal = filter (\<lambda>entry. ordinal < int (e_N entry)) (snapshot l)"

definition Dropped :: "log \<Rightarrow> nat" where "Dropped l = l_dropped l"

text \<open>What \<open>DumpTo\<close> hands the JSON encoder; the encoding itself is the standard library's.\<close>

definition DumpTo :: "log \<Rightarrow> dump" where
  "DumpTo l = \<lparr>d_Entries = snapshot l, d_Dropped = l_dropped l\<rparr>"

definition record_entry :: "log \<Rightarrow> entry \<Rightarrow> log" where
  "record_entry l e = snd (Record e l)"

section \<open>The well-formed ring\<close>

definition log_ok :: "log \<Rightarrow> bool" where
  "log_ok l \<longleftrightarrow> 0 < l_cap l \<and> length (l_entries l) \<le> l_cap l \<and>
     (if length (l_entries l) < l_cap l then l_oldest l = 0 else l_oldest l < l_cap l)"

definition stamp :: "nat \<Rightarrow> entry \<Rightarrow> entry" where "stamp n e = e\<lparr>e_N := n\<rparr>"

lemma New_log_ok: "log_ok (New_log limit)"
  by (simp add: log_ok_def New_log_def DefaultLimit_def Let_def)

lemma record_entry_cap [simp]: "l_cap (record_entry l e) = l_cap l"
  by (simp add: record_entry_def Record_def Let_def)

lemma record_entry_next [simp]: "l_next (record_entry l e) = Suc (l_next l)"
  by (simp add: record_entry_def Record_def Let_def)

lemma fst_Record: "fst (Record e l) = stamp (l_next l) e"
  by (simp add: Record_def stamp_def Let_def)

lemma record_entry_ok [inv_intros]: "log_ok l \<Longrightarrow> log_ok (record_entry l e)"
  by (auto simp: log_ok_def record_entry_def Record_def Let_def split: if_splits)

text \<open>Overwriting the oldest slot of a full ring and moving the head rotates the ring.\<close>

lemma rotate_overwrite:
  assumes "k < length xs"
  shows "drop ((k + 1) mod length xs) (xs[k := x]) @ take ((k + 1) mod length xs) (xs[k := x])
       = tl (drop k xs @ take k xs) @ [x]"
proof (cases "k + 1 = length xs")
  case True
  then obtain ys y where xs: "xs = ys @ [y]" and "length ys = k"
    by (metis add_diff_cancel_right' append_butlast_last_id length_0_conv length_butlast
        add_is_0 zero_neq_one)
  then show ?thesis by (auto simp: list_update_append)
next
  case False
  with assms have "Suc k < length xs" by simp
  moreover from assms have "drop k xs = xs ! k # drop (Suc k) xs" by (rule Cons_nth_drop_Suc [symmetric])
  ultimately show ?thesis
    using assms by (simp add: take_Suc_conv_app_nth)
qed

lemma snapshot_record:
  assumes "log_ok l"
  shows "snapshot (record_entry l e) = last_n (l_cap l) (snapshot l @ [stamp (l_next l) e])"
proof (cases "length (l_entries l) < l_cap l")
  case True
  with assms show ?thesis
    by (simp add: snapshot_def record_entry_def Record_def Let_def log_ok_def stamp_def)
next
  case False
  with assms have full: "length (l_entries l) = l_cap l" "l_oldest l < length (l_entries l)"
    by (auto simp: log_ok_def)
  then have "snapshot (record_entry l e) = tl (snapshot l) @ [stamp (l_next l) e]"
    using rotate_overwrite [OF full(2)]
    by (simp add: snapshot_def record_entry_def Record_def Let_def stamp_def)
  moreover have "length (snapshot l) = l_cap l" using full by (simp add: snapshot_def)
  ultimately show ?thesis using assms by (simp add: last_n_snoc log_ok_def)
qed

lemma length_snapshot [simp]:
  "log_ok l \<Longrightarrow> length (snapshot l) = length (l_entries l)"
  by (auto simp: snapshot_def log_ok_def)

section \<open>The contract of a bounded log\<close>

text \<open>What a client of a log relies on: recording stamps the entry with the next ordinal, and
  the view keeps the last \<open>bound\<close> of what it was given. The view after any number of
  recordings, and the gap-free numbering, follow from the two laws.\<close>

locale bounded_log =
  fixes put :: "'l \<Rightarrow> 'e \<Rightarrow> 'l"
    and view :: "'l \<Rightarrow> 'e list"
    and bound :: "'l \<Rightarrow> nat"
    and tick :: "'l \<Rightarrow> nat"
    and stamp :: "nat \<Rightarrow> 'e \<Rightarrow> 'e"
    and ok :: "'l \<Rightarrow> bool"
  assumes put_ok: "ok l \<Longrightarrow> ok (put l e)"
    and put_bound: "bound (put l e) = bound l"
    and put_tick: "tick (put l e) = Suc (tick l)"
    and put_view: "ok l \<Longrightarrow> view (put l e) = last_n (bound l) (view l @ [stamp (tick l) e])"
    and view_bound: "ok l \<Longrightarrow> length (view l) \<le> bound l"
begin

lemma run_ok: "ok l \<Longrightarrow> ok (foldl put l es)"
  by (induction es arbitrary: l) (simp_all add: put_ok)

lemma run_bound: "bound (foldl put l es) = bound l"
  by (induction es arbitrary: l) (simp_all add: put_bound)

lemma run_tick: "tick (foldl put l es) = tick l + length es"
  by (induction es arbitrary: l) (simp_all add: put_tick)

lemma run_view:
  "ok l \<Longrightarrow> view (foldl put l es) =
     last_n (bound l) (view l @ map2 stamp [tick l ..< tick l + length es] es)"
proof (induction es arbitrary: l)
  case Nil
  then show ?case by (simp add: view_bound)
next
  case (Cons e es)
  have upt: "[tick l ..< tick l + length (e # es)]
    = tick l # [Suc (tick l) ..< Suc (tick l) + length es]"
    by (simp add: upt_rec [of "tick l"] del: upt_Suc)
  show ?case
    unfolding upt using Cons
    by (simp add: put_ok put_view put_bound put_tick last_n_last_n_append)
qed

end

interpretation ring: bounded_log record_entry snapshot l_cap l_next stamp log_ok
proof
  show "log_ok l \<Longrightarrow> length (snapshot l) \<le> l_cap l" for l
    by (auto simp: log_ok_def snapshot_def)
qed (simp_all add: record_entry_ok snapshot_record)

section \<open>Properties\<close>

lemma dropped_run:
  "log_ok l \<Longrightarrow> l_dropped (foldl record_entry l es) + length (l_entries (foldl record_entry l es))
     = l_dropped l + length (l_entries l) + length es"
proof (induction es arbitrary: l)
  case (Cons e es)
  have "l_dropped (record_entry l e) + length (l_entries (record_entry l e))
    = l_dropped l + length (l_entries l) + 1"
    by (simp add: record_entry_def Record_def Let_def)
  with Cons show ?case by (simp add: record_entry_ok)
qed simp

text \<open>C19. The op log, started with any limit and given any sequence of entries, holds exactly the
  last \<open>limit\<close> of them in order (10000 when the limit is not positive), numbered by their
  position in the whole sequence from one; the count of dropped entries is exactly how many
  are missing, so truncation is never silent.\<close>

theorem log_holds_last_entries:
  "Entries (foldl record_entry (New_log limit) es)
     = last_n (nat (if limit \<le> 0 then 10000 else limit)) (map2 stamp [1 ..< length es + 1] es)
   \<and> Dropped (foldl record_entry (New_log limit) es)
     = length es - nat (if limit \<le> 0 then 10000 else limit)"
proof -
  let ?l = "New_log limit" and ?l' = "foldl record_entry (New_log limit) es"
  define bound where "bound = nat (if limit \<le> 0 then 10000 else limit)"
  have cap: "l_cap ?l = bound" "l_next ?l = 1" "snapshot ?l = []" "l_dropped ?l = 0" "l_entries ?l = []"
    by (simp_all add: New_log_def bound_def DefaultLimit_def snapshot_def Let_def)
  have view: "snapshot ?l' = last_n bound (map2 stamp [1 ..< length es + 1] es)"
    using ring.run_view [OF New_log_ok, of limit es] by (simp add: cap)
  moreover have "length (l_entries ?l') = min bound (length es)"
    using arg_cong [OF view, of length] ring.run_ok [OF New_log_ok, of limit es]
    by (simp del: upt_Suc)
  moreover have "l_dropped ?l' + length (l_entries ?l') = length es"
    using dropped_run [OF New_log_ok, of limit es] by (simp add: cap)
  ultimately show ?thesis unfolding bound_def [symmetric] by (auto simp: Entries_def Dropped_def)
qed

end
