(* ===== verification/Rules.thy ===== *)
theory Rules
  imports Prelude
begin

text \<open>
  The fault rules of \<open>internal/control/op.go\<close> and \<open>internal/control/rules.go\<close>: operations,
  verdicts, rules with their validation, pattern and condition matching, and the counting that
  decides on which occurrence a rule acts. Go's \<open>error\<close> results are values of \<open>rule_error\<close>; a
  \<open>time.Duration\<close> is its number of nanoseconds. The lemmas characterise validation by what a
  valid rule looks like, matching segment by segment, and the counting by the arithmetic of
  occurrences a lesson author has in mind.
\<close>

section \<open>Operations and verdicts\<close>

record 'p op =
  op_Emulator :: gostring
  op_Kind :: gostring
  op_Target :: gostring
  op_Gauges :: "(gostring \<times> int) list"
  op_Payload :: 'p

definition op_Name :: "('p, 'm) op_scheme \<Rightarrow> gostring" where
  "op_Name o' = op_Emulator o' @ ''.'' @ op_Kind o'"

record FaultError =
  f_Code :: gostring
  f_Message :: gostring

record Verdict =
  v_Delay :: int
  v_DropConn :: bool
  v_Err :: "FaultError option"
  v_Fault :: gostring

definition zero_verdict :: Verdict where
  "zero_verdict = \<lparr>v_Delay = 0, v_DropConn = False, v_Err = None, v_Fault = []\<rparr>"

section \<open>Rules\<close>

definition ActionError :: gostring where "ActionError = ''error''"
definition ActionDelay :: gostring where "ActionDelay = ''delay''"
definition ActionDropConn :: gostring where "ActionDropConn = ''drop_conn''"
definition ActionCap :: gostring where "ActionCap = ''cap''"

lemmas action_defs = ActionError_def ActionDelay_def ActionDropConn_def ActionCap_def

definition Wildcard :: gostring where "Wildcard = ''*''"
definition patternSeparator :: char where "patternSeparator = CHR ''.''"
definition atLeast_suffix :: gostring where "atLeast_suffix = ''_gte''"
definition atMost_suffix :: gostring where "atMost_suffix = ''_lte''"

type_synonym Conditions = "(gostring \<times> int) list"

record Rule =
  r_Match :: gostring
  r_Action :: gostring
  r_After :: int
  r_Times :: int
  r_When :: Conditions
  r_Message :: gostring
  r_Code :: gostring
  r_Millis :: int
  r_Limit :: int

datatype rule_error =
    BadPattern gostring
  | BadCondition gostring
  | NegativeCount gostring
  | UnknownAction gostring gostring
  | UnusedField gostring gostring gostring
  | MissingField gostring gostring gostring

definition optionalFields :: "gostring list" where
  "optionalFields = [''after'', ''times'', ''ms'', ''limit'', ''message'', ''code'']"

definition fieldsPerAction :: "(gostring \<times> gostring list) list" where
  "fieldsPerAction =
     [(ActionError, [''after'', ''times'', ''message'', ''code'']),
      (ActionDropConn, [''after'', ''times'']),
      (ActionDelay, [''after'', ''times'', ''ms'']),
      (ActionCap, [''limit'', ''message'', ''code''])]"

definition requiredField :: "(gostring \<times> gostring) list" where
  "requiredField = [(ActionDelay, ''ms''), (ActionCap, ''limit'')]"

definition rule_field :: "Rule \<Rightarrow> gostring \<Rightarrow> int" where
  "rule_field r name =
     (if name = ''after'' then r_After r
      else if name = ''times'' then r_Times r
      else if name = ''ms'' then r_Millis r
      else if name = ''limit'' then r_Limit r
      else if name = ''message'' then (if r_Message r \<noteq> [] then 1 else 0)
      else if name = ''code'' then (if r_Code r \<noteq> [] then 1 else 0)
      else 0)"

definition threshold :: "Rule \<Rightarrow> int" where
  "threshold r = (if r_Action r = ActionCap then r_Limit r else r_After r)"

definition rule_delay :: "Rule \<Rightarrow> int" where
  "rule_delay r = wrap64 (r_Millis r * 1000000)"

definition rule_message :: "Rule \<Rightarrow> gostring" where
  "rule_message r =
     (if r_Message r \<noteq> [] then r_Message r
      else if r_Action r = ActionCap then ''limit of '' @ FormatInt (r_Limit r) @ '' reached''
      else ''injected fault'')"

section \<open>Conditions and patterns\<close>

definition splitCondition :: "gostring \<Rightarrow> gostring \<times> gostring" where
  "splitCondition key =
     (case CutSuffix key atLeast_suffix of (name, found) \<Rightarrow>
        if found \<and> name \<noteq> [] then (name, atLeast_suffix)
        else (case CutSuffix key atMost_suffix of (name, found) \<Rightarrow>
                if found \<and> name \<noteq> [] then (name, atMost_suffix) else (key, [])))"

fun conditions_validate :: "Conditions \<Rightarrow> rule_error option" where
  "conditions_validate [] = None"
| "conditions_validate ((key, _) # c) =
     (if snd (splitCondition key) = [] then Some (BadCondition key) else conditions_validate c)"

fun hold :: "Conditions \<Rightarrow> (gostring \<times> int) list \<Rightarrow> bool" where
  "hold [] gauges = True"
| "hold ((key, bound) # c) gauges =
     (case splitCondition key of (gauge, comparison) \<Rightarrow>
        (case map_of gauges gauge of
           None \<Rightarrow> False
         | Some v \<Rightarrow>
             if comparison = atLeast_suffix \<and> v < bound then False
             else if comparison = atMost_suffix \<and> v > bound then False
             else hold c gauges))"

definition validatePattern :: "gostring \<Rightarrow> rule_error option" where
  "validatePattern pattern =
     (if pattern = Wildcard then None
      else (case Cut pattern patternSeparator of (emulator, kind, found) \<Rightarrow>
              if \<not> found \<or> emulator = [] \<or> kind = [] then Some (BadPattern pattern) else None))"

definition PatternEmulator :: "gostring \<Rightarrow> gostring" where
  "PatternEmulator pattern =
     (if pattern = Wildcard then Wildcard else fst (Cut pattern patternSeparator))"

definition segmentMatches :: "gostring \<Rightarrow> gostring \<Rightarrow> bool" where
  "segmentMatches pattern segment \<longleftrightarrow> pattern = Wildcard \<or> pattern = segment"

definition matchName :: "gostring \<Rightarrow> gostring \<Rightarrow> bool" where
  "matchName pattern name =
     (if pattern = Wildcard then True
      else (case Cut pattern patternSeparator of (wantEmulator, wantKind, _) \<Rightarrow>
              case Cut name patternSeparator of (emulator, kind, _) \<Rightarrow>
                segmentMatches wantEmulator emulator \<and> segmentMatches wantKind kind))"

section \<open>Validation\<close>

fun unused_field :: "Rule \<Rightarrow> gostring list \<Rightarrow> gostring list \<Rightarrow> rule_error option" where
  "unused_field r used [] = None"
| "unused_field r used (name # names) =
     (if rule_field r name \<noteq> 0 \<and> name \<notin> set used
      then Some (UnusedField (r_Match r) (r_Action r) name) else unused_field r used names)"

definition validateAction :: "Rule \<Rightarrow> rule_error option" where
  "validateAction r =
     (case map_of fieldsPerAction (r_Action r) of
        None \<Rightarrow> Some (UnknownAction (r_Match r) (r_Action r))
      | Some used \<Rightarrow>
          (case unused_field r used optionalFields of
             Some e \<Rightarrow> Some e
           | None \<Rightarrow>
               (case map_of requiredField (r_Action r) of
                  Some required \<Rightarrow>
                    if rule_field r required \<le> 0
                    then Some (MissingField (r_Match r) (r_Action r) required) else None
                | None \<Rightarrow> None)))"

definition Validate :: "Rule \<Rightarrow> rule_error option" where
  "Validate r =
     (case validatePattern (r_Match r) of
        Some e \<Rightarrow> Some e
      | None \<Rightarrow>
          (case conditions_validate (r_When r) of
             Some e \<Rightarrow> Some e
           | None \<Rightarrow>
               if r_After r < 0 \<or> r_Times r < 0 then Some (NegativeCount (r_Match r))
               else validateAction r))"

section \<open>Armed rules\<close>

record armedRule =
  a_rule :: Rule
  a_matched :: int
  a_fired :: int

definition arm_rule :: "Rule \<Rightarrow> armedRule" where
  "arm_rule r = \<lparr>a_rule = r, a_matched = 0, a_fired = 0\<rparr>"

definition fire :: "('p, 'm) op_scheme \<Rightarrow> armedRule \<Rightarrow> bool \<times> armedRule" where
  "fire o' a =
     (if \<not> matchName (r_Match (a_rule a)) (op_Name o') \<or> \<not> hold (r_When (a_rule a)) (op_Gauges o')
      then (False, a)
      else let a = a\<lparr>a_matched := a_matched a + 1\<rparr>
           in if a_matched a \<le> threshold (a_rule a) then (False, a)
              else if r_Times (a_rule a) > 0 \<and> a_fired a \<ge> r_Times (a_rule a) then (False, a)
              else (True, a\<lparr>a_fired := a_fired a + 1\<rparr>))"

fun fire_run :: "('p, 'm) op_scheme list \<Rightarrow> armedRule \<Rightarrow> bool list \<times> armedRule" where
  "fire_run [] a = ([], a)"
| "fire_run (o' # os) a =
     (let (hit, a') = fire o' a; (hits, a'') = fire_run os a' in (hit # hits, a''))"

definition acts_on :: "Rule \<Rightarrow> ('p, 'm) op_scheme \<Rightarrow> bool" where
  "acts_on r o' \<longleftrightarrow> matchName (r_Match r) (op_Name o') \<and> hold (r_When r) (op_Gauges o')"

text \<open>The occurrences a rule fires on, counted from one.\<close>

definition due :: "Rule \<Rightarrow> int \<Rightarrow> bool" where
  "due r n \<longleftrightarrow> threshold r < n \<and> (r_Times r = 0 \<or> n \<le> threshold r + r_Times r)"

text \<open>Rules and an operation used as concrete inputs.\<close>

definition sample_rule :: Rule where
  "sample_rule = \<lparr>r_Match = ''*'', r_Action = ''cap'', r_After = 0, r_Times = 0, r_When = [],
     r_Message = [], r_Code = [], r_Millis = 0, r_Limit = 100\<rparr>"

definition third_commit :: Rule where
  "third_commit = \<lparr>r_Match = ''postgres.COMMIT'', r_Action = ''error'', r_After = 2, r_Times = 1,
     r_When = [], r_Message = ''could not serialize access'', r_Code = [], r_Millis = 0, r_Limit = 0\<rparr>"

definition commit_op :: "unit op" where
  "commit_op = \<lparr>op_Emulator = ''postgres'', op_Kind = ''COMMIT'', op_Target = [], op_Gauges = [],
     op_Payload = ()\<rparr>"

section \<open>Lemmas\<close>

lemma Cut_split: "sep \<notin> set e \<Longrightarrow> Cut (e @ sep # k) sep = (e, k, True)"
  by (auto simp: Cut_def takeWhile_append dropWhile_append)

lemma CutSuffix_eq: "CutSuffix s suf = (name, True) \<longleftrightarrow> s = name @ suf"
  by (auto simp: CutSuffix_def suffix_def)

lemma CutSuffix_found: "snd (CutSuffix s suf) \<longleftrightarrow> suffix suf s"
  by (simp add: CutSuffix_def)

lemma Cut_conv:
  "(\<exists>e k. Cut s sep = (e, k, True) \<and> P e k) \<longleftrightarrow> (\<exists>e k. s = e @ sep # k \<and> sep \<notin> set e \<and> P e k)"
proof
  assume "\<exists>e k. Cut s sep = (e, k, True) \<and> P e k"
  then obtain e k where c: "Cut s sep = (e, k, True)" and P: "P e k" by blast
  from c have mem: "sep \<in> set s" by (simp add: Cut_def)
  then obtain u v where "s = u @ sep # v" "sep \<notin> set u" by (meson split_list_first)
  with c P show "\<exists>e k. s = e @ sep # k \<and> sep \<notin> set e \<and> P e k" by (auto simp: Cut_split)
qed (auto simp: Cut_split)

lemma validatePattern_None:
  "validatePattern p = None \<longleftrightarrow>
     p = Wildcard \<or>
     (\<exists>e k. p = e @ patternSeparator # k \<and> patternSeparator \<notin> set e \<and> e \<noteq> [] \<and> k \<noteq> [])"
proof -
  have "validatePattern p = None \<longleftrightarrow>
      p = Wildcard \<or> (\<exists>e k. Cut p patternSeparator = (e, k, True) \<and> (e \<noteq> [] \<and> k \<noteq> []))"
    by (auto simp: validatePattern_def split: prod.splits)
  then show ?thesis unfolding Cut_conv by blast
qed

lemma splitCondition_conv:
  "snd (splitCondition key) \<noteq> [] \<longleftrightarrow>
     (\<exists>g. g \<noteq> [] \<and> (key = g @ atLeast_suffix \<or> key = g @ atMost_suffix))"
  unfolding splitCondition_def
  by (auto simp: CutSuffix_def suffix_def atLeast_suffix_def atMost_suffix_def)

lemma splitCondition_atLeast:
  "g \<noteq> [] \<Longrightarrow> splitCondition (g @ atLeast_suffix) = (g, atLeast_suffix)"
  by (simp add: splitCondition_def CutSuffix_def suffix_def)

lemma splitCondition_atMost:
  "g \<noteq> [] \<Longrightarrow> splitCondition (g @ atMost_suffix) = (g, atMost_suffix)"
  by (auto simp: splitCondition_def CutSuffix_def suffix_def atLeast_suffix_def atMost_suffix_def)

lemma conditions_validate_None:
  "conditions_validate c = None \<longleftrightarrow> (\<forall>key \<in> fst ` set c. snd (splitCondition key) \<noteq> [])"
  by (induction c rule: conditions_validate.induct) auto

lemma validateAction_None:
  "validateAction r = None \<longleftrightarrow>
     (r_Action r = ActionError \<and> r_Millis r = 0 \<and> r_Limit r = 0) \<or>
     (r_Action r = ActionDropConn \<and> r_Millis r = 0 \<and> r_Limit r = 0 \<and> r_Message r = [] \<and> r_Code r = []) \<or>
     (r_Action r = ActionDelay \<and> 0 < r_Millis r \<and> r_Limit r = 0 \<and> r_Message r = [] \<and> r_Code r = []) \<or>
     (r_Action r = ActionCap \<and> 0 < r_Limit r \<and> r_After r = 0 \<and> r_Times r = 0 \<and> r_Millis r = 0)"
  by (simp add: validateAction_def fieldsPerAction_def requiredField_def optionalFields_def
      rule_field_def action_defs)

lemma Validate_counts: "Validate r = None \<Longrightarrow> 0 \<le> threshold r \<and> 0 \<le> r_Times r"
  by (auto simp: Validate_def threshold_def validateAction_None action_defs
      split: option.splits if_splits)

lemma fire_rule [simp]: "a_rule (snd (fire o' a)) = a_rule a"
  by (simp add: fire_def Let_def)

lemma fire_skips: "\<not> acts_on (a_rule a) o' \<Longrightarrow> fire o' a = (False, a)"
  by (auto simp: fire_def acts_on_def)

text \<open>The counters of an armed rule after \<open>n\<close> occurrences.\<close>

definition counters :: "armedRule \<Rightarrow> int \<Rightarrow> bool" where
  "counters a n \<longleftrightarrow> 0 \<le> n \<and> a_matched a = n \<and>
     a_fired a = max 0 (if r_Times (a_rule a) > 0 then min (r_Times (a_rule a)) (n - threshold (a_rule a))
                        else n - threshold (a_rule a))"

lemma fire_acts:
  assumes "acts_on (a_rule a) o'" "counters a n" "0 \<le> threshold (a_rule a)" "0 \<le> r_Times (a_rule a)"
  shows "fst (fire o' a) = due (a_rule a) (n + 1) \<and> counters (snd (fire o' a)) (n + 1)"
  using assms by (auto simp: fire_def acts_on_def counters_def due_def Let_def)

lemma fire_run_schedule:
  assumes "counters a n" "0 \<le> threshold (a_rule a)" "0 \<le> r_Times (a_rule a)"
  shows "fst (fire_run os a) =
    map (\<lambda>i. acts_on (a_rule a) (os ! i) \<and>
             due (a_rule a) (n + int (length (filter (acts_on (a_rule a)) (take (Suc i) os)))))
        [0 ..< length os]"
  using assms
proof (induction os arbitrary: a n)
  case (Cons o' os)
  let ?m = "if acts_on (a_rule a) o' then n + 1 else n"
  have step: "fst (fire o' a) = (acts_on (a_rule a) o' \<and> due (a_rule a) ?m)"
      "counters (snd (fire o' a)) ?m"
    using fire_acts [of a o' n] fire_skips [of a o'] Cons.prems by auto
  have "fst (fire_run os (snd (fire o' a))) =
    map (\<lambda>i. acts_on (a_rule a) (os ! i) \<and>
             due (a_rule a) (?m + int (length (filter (acts_on (a_rule a)) (take (Suc i) os)))))
        [0 ..< length os]"
    using Cons.IH [OF step(2)] Cons.prems by simp
  then show ?case
    by (auto simp: split_beta Let_def step(1) map_upt_Suc algebra_simps
        simp del: upt_Suc)
qed simp

lemma op_Name_Cut:
  "patternSeparator \<notin> set (op_Emulator o') \<Longrightarrow>
     Cut (op_Name o') patternSeparator = (op_Emulator o', op_Kind o', True)"
  using Cut_split [of patternSeparator "op_Emulator o'" "op_Kind o'"]
  by (simp add: op_Name_def patternSeparator_def)

lemma hold_conv:
  "hold c gauges \<longleftrightarrow>
     (\<forall>(key, bound) \<in> set c.
        \<exists>v. map_of gauges (fst (splitCondition key)) = Some v \<and>
            (snd (splitCondition key) = atLeast_suffix \<longrightarrow> bound \<le> v) \<and>
            (snd (splitCondition key) = atMost_suffix \<longrightarrow> v \<le> bound))"
  by (induction c gauges rule: hold.induct) (auto split: option.splits prod.splits)

section \<open>Properties\<close>

text \<open>A rule can be armed exactly when its pattern is the wildcard or two non-empty segments,
  every condition names a gauge with one of the two comparison suffixes, the counts are not
  negative, and its action is one of the four with exactly the fields that action reads:
  no field is silently ignored and no required one is missing.\<close>

theorem Validate_iff:
  "Validate r = None \<longleftrightarrow>
     (r_Match r = ''*'' \<or> (\<exists>e k. r_Match r = e @ ''.'' @ k \<and> CHR ''.'' \<notin> set e \<and> e \<noteq> [] \<and> k \<noteq> [])) \<and>
     (\<forall>key \<in> fst ` set (r_When r). \<exists>g. g \<noteq> [] \<and> (key = g @ ''_gte'' \<or> key = g @ ''_lte'')) \<and>
     0 \<le> r_After r \<and> 0 \<le> r_Times r \<and>
     ((r_Action r = ''error'' \<and> r_Millis r = 0 \<and> r_Limit r = 0) \<or>
      (r_Action r = ''drop_conn'' \<and> r_Millis r = 0 \<and> r_Limit r = 0 \<and> r_Message r = [] \<and> r_Code r = []) \<or>
      (r_Action r = ''delay'' \<and> 0 < r_Millis r \<and> r_Limit r = 0 \<and> r_Message r = [] \<and> r_Code r = []) \<or>
      (r_Action r = ''cap'' \<and> 0 < r_Limit r \<and> r_After r = 0 \<and> r_Times r = 0 \<and> r_Millis r = 0))"
  (is "?valid \<longleftrightarrow> ?pattern \<and> ?conditions \<and> ?after \<and> ?times \<and> ?action")
proof -
  have p: "validatePattern (r_Match r) = None \<longleftrightarrow> ?pattern"
    by (simp add: validatePattern_None Wildcard_def patternSeparator_def)
  have c: "conditions_validate (r_When r) = None \<longleftrightarrow> ?conditions"
    by (simp add: conditions_validate_None splitCondition_conv atLeast_suffix_def atMost_suffix_def)
  have a: "validateAction r = None \<longleftrightarrow> ?action"
    by (simp only: validateAction_None action_defs)
  have "?valid \<longleftrightarrow> validatePattern (r_Match r) = None \<and>
      conditions_validate (r_When r) = None \<and> ?after \<and> ?times \<and> validateAction r = None"
    by (simp add: Validate_def not_less split: option.split)
  then show ?thesis by (simp only: p c a)
qed

theorem Validate_iff_witness: "Validate sample_rule = None"
  using Validate_iff [of sample_rule] by (simp add: sample_rule_def)

text \<open>A pattern of two segments matches an operation exactly when each segment is the wildcard or
  equals the operation's emulator and kind: \<open>redis.*\<close> covers every redis operation and a
  partial glob such as \<open>re*.SET\<close> covers none but an emulator of that very name.\<close>

theorem matchName_segments:
  assumes "CHR ''.'' \<notin> set e" "CHR ''.'' \<notin> set (op_Emulator o')"
  shows "matchName (e @ ''.'' @ k) (op_Name o') \<longleftrightarrow>
    (e = ''*'' \<or> e = op_Emulator o') \<and> (k = ''*'' \<or> k = op_Kind o')"
proof -
  have "e @ ''.'' @ k \<noteq> Wildcard" using assms(1) by (cases e) (auto simp: Wildcard_def)
  moreover have "Cut (e @ ''.'' @ k) patternSeparator = (e, k, True)"
    using Cut_split [of patternSeparator e k] assms(1) by (simp add: patternSeparator_def)
  ultimately show ?thesis
    using op_Name_Cut [of o'] assms(2)
    by (simp add: matchName_def segmentMatches_def Wildcard_def patternSeparator_def)
qed

theorem matchName_segments_witness:
  "matchName (''redis'' @ ''.'' @ ''*'')
     (op_Name \<lparr>op_Emulator = ''redis'', op_Kind = ''SET'', op_Target = [], op_Gauges = [], op_Payload = ()\<rparr>)"
  using matchName_segments [of "''redis''"
      "\<lparr>op_Emulator = ''redis'', op_Kind = ''SET'', op_Target = [], op_Gauges = [], op_Payload = ()\<rparr>" "''*''"]
  by simp

text \<open>A well-formed set of conditions holds exactly when every gauge it names was reported and is
  at least, respectively at most, its bound; in particular a condition on a gauge the
  backend did not report never holds, so a gated rule cannot fire by accident.\<close>

theorem hold_iff:
  assumes "\<And>key. key \<in> fst ` set c \<Longrightarrow> \<exists>g. g \<noteq> [] \<and> (key = g @ ''_gte'' \<or> key = g @ ''_lte'')"
  shows "hold c gauges \<longleftrightarrow>
    (\<forall>g bound. g \<noteq> [] \<longrightarrow>
       ((g @ ''_gte'', bound) \<in> set c \<longrightarrow> (\<exists>v. map_of gauges g = Some v \<and> bound \<le> v)) \<and>
       ((g @ ''_lte'', bound) \<in> set c \<longrightarrow> (\<exists>v. map_of gauges g = Some v \<and> v \<le> bound)))"
proof -
  have at: "splitCondition (g @ ''_gte'') = (g, ''_gte'')" "splitCondition (g @ ''_lte'') = (g, ''_lte'')"
    if "g \<noteq> []" for g
    using splitCondition_atLeast [OF that] splitCondition_atMost [OF that]
    by (simp_all add: atLeast_suffix_def atMost_suffix_def)
  show ?thesis
    unfolding hold_conv using assms
    by (fastforce simp: at atLeast_suffix_def atMost_suffix_def)
qed

theorem hold_iff_witness:
  "hold [(''depth'' @ ''_gte'', 100)] [(''depth'', 150)] \<and> \<not> hold [(''depth'' @ ''_gte'', 100)] []"
  using hold_iff [of "[(''depth'' @ ''_gte'', 100)]" "[(''depth'', 150)]"]
    hold_iff [of "[(''depth'' @ ''_gte'', 100)]" "[]"]
  by auto

text \<open>C20. The counting every fault rests on: an armed rule, shown any sequence of operations, fires on
  an operation exactly when the operation matches and is, among the matching ones, past the
  rule's threshold (its offset, or a cap's capacity) and, for a rule limited to \<open>times\<close>,
  within the next \<open>times\<close> occurrences. "Fail the third COMMIT once" is after 2, times 1.\<close>

theorem fire_schedule:
  assumes "Validate r = None" "i < length os"
  shows "fst (fire_run os (arm_rule r)) ! i \<longleftrightarrow>
    acts_on r (os ! i) \<and>
    (let n = int (length (filter (acts_on r) (take (Suc i) os)))
     in threshold r < n \<and> (r_Times r = 0 \<or> n \<le> threshold r + r_Times r))"
proof -
  have "counters (arm_rule r) 0"
    using Validate_counts [OF assms(1)] by (auto simp: counters_def arm_rule_def)
  from fire_run_schedule [OF this, of os] show ?thesis
    using Validate_counts [OF assms(1)] assms(2)
    by (simp add: arm_rule_def due_def Let_def)
qed

theorem fire_schedule_witness:
  "fst (fire_run (replicate 4 commit_op) (arm_rule third_commit)) ! 2 \<and>
   \<not> fst (fire_run (replicate 4 commit_op) (arm_rule third_commit)) ! 3"
proof -
  have "Validate third_commit = None" by code_simp
  moreover have "acts_on third_commit commit_op" by code_simp
  ultimately show ?thesis
    using fire_schedule [of third_commit 2 "replicate 4 commit_op"]
      fire_schedule [of third_commit 3 "replicate 4 commit_op"]
    by (simp add: threshold_def third_commit_def ActionCap_def)
qed

end
