(* ===== verification/Interceptor.thy ===== *)
theory Interceptor
  imports Oplog Rules
begin

text \<open>
  The control point of \<open>internal/control/interceptor.go\<close>: the armed rules, the op log, and the
  one decision every operation of every emulator passes through. Every method holds the mutex for
  its whole effect on the rules, so a method is one function on the state \<open>interceptor\<close>.
  The lemmas show that the two halves of a verdict (timing and outcome) are decided
  independently, that a rule whose half is taken keeps its budget, and that each operation
  leaves exactly one log entry.
\<close>

record interceptor =
  i_rules :: "armedRule list"
  i_log :: log

datatype control_error =
    ArmFailed rule_error
  | NoRuleAt int nat

section \<open>Deciding one operation\<close>

definition slotTaken :: "Verdict \<Rightarrow> gostring \<Rightarrow> bool" where
  "slotTaken v action =
     (if action = ActionDelay then v_Delay v > 0 else v_DropConn v \<or> v_Err v \<noteq> None)"

definition apply_rule :: "Verdict \<Rightarrow> Rule \<Rightarrow> Verdict" where
  "apply_rule v r =
     (if r_Action r = ActionDelay then v\<lparr>v_Delay := rule_delay r\<rparr>
      else if r_Action r = ActionDropConn then v\<lparr>v_DropConn := True\<rparr>
      else v\<lparr>v_Err := Some \<lparr>f_Code = r_Code r, f_Message = rule_message r\<rparr>\<rparr>)"

fun decide_loop ::
  "('p, 'm) op_scheme \<Rightarrow> Verdict \<Rightarrow> gostring list \<Rightarrow> armedRule list
     \<Rightarrow> Verdict \<times> gostring list \<times> armedRule list" where
  "decide_loop o' v fired [] = (v, fired, [])"
| "decide_loop o' v fired (a # as) =
     (if slotTaken v (r_Action (a_rule a))
      then (case decide_loop o' v fired as of (v', fired', as') \<Rightarrow> (v', fired', a # as'))
      else (case fire o' a of (hit, a') \<Rightarrow>
              if \<not> hit
              then (case decide_loop o' v fired as of (v', fired', as') \<Rightarrow> (v', fired', a' # as'))
              else (case decide_loop o' (apply_rule v (a_rule a)) (fired @ [r_Action (a_rule a)]) as of
                      (v', fired', as') \<Rightarrow> (v', fired', a' # as'))))"

definition decide :: "('p, 'm) op_scheme \<Rightarrow> interceptor \<Rightarrow> Verdict \<times> interceptor" where
  "decide o' i =
     (case decide_loop o' zero_verdict [] (i_rules i) of (v, fired, as) \<Rightarrow>
        (v\<lparr>v_Fault := Join fired ''+''\<rparr>, i\<lparr>i_rules := as\<rparr>))"

definition before :: "('p, 'm) op_scheme \<Rightarrow> gostring \<Rightarrow> interceptor \<Rightarrow> Verdict \<times> interceptor" where
  "before o' origin i =
     (case decide o' i of (v, i') \<Rightarrow>
        (v, i'\<lparr>i_log := record_entry (i_log i')
              \<lparr>e_N = 0, e_Emulator = op_Emulator o', e_Op = op_Kind o', e_Target = op_Target o',
               e_Fault = v_Fault v, e_Control = origin\<rparr>\<rparr>))"

definition Before :: "('p, 'm) op_scheme \<Rightarrow> interceptor \<Rightarrow> Verdict \<times> interceptor" where
  "Before o' i = before o' [] i"

definition Fire :: "('p, 'm) op_scheme \<Rightarrow> interceptor \<Rightarrow> Verdict \<times> interceptor" where
  "Fire o' i = before o' ''synthetic'' i"

section \<open>Arming and disarming\<close>

definition control_entry :: "gostring \<Rightarrow> entry" where
  "control_entry text = \<lparr>e_N = 0, e_Emulator = [], e_Op = [], e_Target = [], e_Fault = [],
     e_Control = text\<rparr>"

definition arm :: "Rule \<Rightarrow> interceptor \<Rightarrow> rule_error + interceptor" where
  "arm r i =
     (case Validate r of
        Some e \<Rightarrow> Inl e
      | None \<Rightarrow> Inr (i\<lparr>i_rules := i_rules i @ [arm_rule r]\<rparr>))"

fun arm_all :: "Rule list \<Rightarrow> interceptor \<Rightarrow> control_error + interceptor" where
  "arm_all [] i = Inr i"
| "arm_all (r # rs) i =
     (case arm r i of Inl e \<Rightarrow> Inl (ArmFailed e) | Inr i' \<Rightarrow> arm_all rs i')"

definition New_interceptor :: "Rule list \<Rightarrow> log \<Rightarrow> control_error + interceptor" where
  "New_interceptor rules l = arm_all rules \<lparr>i_rules = [], i_log = l\<rparr>"

definition AddRule :: "Rule \<Rightarrow> interceptor \<Rightarrow> rule_error option \<times> interceptor" where
  "AddRule r i =
     (case arm r i of
        Inl e \<Rightarrow> (Some e, i)
      | Inr i' \<Rightarrow>
          (None, i'\<lparr>i_log := record_entry (i_log i') (control_entry (''fault add '' @ r_Match r))\<rparr>))"

definition RemoveRule :: "int \<Rightarrow> interceptor \<Rightarrow> control_error option \<times> interceptor" where
  "RemoveRule index i =
     (if index < 0 \<or> index \<ge> int (length (i_rules i))
      then (Some (NoRuleAt index (length (i_rules i))), i)
      else let k = nat index; m = r_Match (a_rule (i_rules i ! k))
           in (None, i\<lparr>i_rules := take k (i_rules i) @ drop (Suc k) (i_rules i),
                       i_log := record_entry (i_log i) (control_entry (''fault remove '' @ m))\<rparr>))"

definition ResetRules :: "interceptor \<Rightarrow> interceptor" where
  "ResetRules i = i\<lparr>i_rules := [], i_log := record_entry (i_log i) (control_entry ''fault reset'')\<rparr>"

definition armed_rules :: "interceptor \<Rightarrow> Rule list" where
  "armed_rules i = map a_rule (i_rules i)"

section \<open>Runs\<close>

fun before_all :: "('p, 'm) op_scheme list \<Rightarrow> interceptor \<Rightarrow> Verdict list \<times> interceptor" where
  "before_all [] i = ([], i)"
| "before_all (o' # os) i =
     (case Before o' i of (v, i') \<Rightarrow> (case before_all os i' of (vs, i'') \<Rightarrow> (v # vs, i'')))"

definition is_delay :: "armedRule \<Rightarrow> bool" where
  "is_delay a \<longleftrightarrow> r_Action (a_rule a) = ActionDelay"

definition interceptor_ok :: "interceptor \<Rightarrow> bool" where
  "interceptor_ok i \<longleftrightarrow> log_ok (i_log i) \<and> (\<forall>r \<in> set (armed_rules i). Validate r = None)"

text \<open>Everything a client or the control plane can ask of an interceptor.\<close>

datatype 'p request =
    ClientOp "'p op"
  | SyntheticOp "'p op"
  | Add Rule
  | Remove int
  | Reset

fun control_step :: "interceptor \<Rightarrow> 'p request \<Rightarrow> interceptor" where
  "control_step i (ClientOp o') = snd (Before o' i)"
| "control_step i (SyntheticOp o') = snd (Fire o' i)"
| "control_step i (Add r) = snd (AddRule r i)"
| "control_step i (Remove k) = snd (RemoveRule k i)"
| "control_step i Reset = ResetRules i"

definition op_entry :: "('p, 'm) op_scheme \<Rightarrow> Verdict \<Rightarrow> entry" where
  "op_entry o' v = \<lparr>e_N = 0, e_Emulator = op_Emulator o', e_Op = op_Kind o',
     e_Target = op_Target o', e_Fault = v_Fault v, e_Control = []\<rparr>"

section \<open>Lemmas\<close>

lemma apply_rule_delay:
  "r_Action r = ActionDelay \<Longrightarrow> v_DropConn (apply_rule v r) = v_DropConn v \<and> v_Err (apply_rule v r) = v_Err v"
  "r_Action r \<noteq> ActionDelay \<Longrightarrow> v_Delay (apply_rule v r) = v_Delay v"
  by (simp_all add: apply_rule_def)

text \<open>The loop over all rules agrees, half by half, with the loop over the rules of that half.\<close>

lemma slotTaken_half:
  "v_Delay v = v_Delay vd \<Longrightarrow> slotTaken v ActionDelay = slotTaken vd ActionDelay"
  "v_DropConn v = v_DropConn vo \<Longrightarrow> v_Err v = v_Err vo \<Longrightarrow> action \<noteq> ActionDelay \<Longrightarrow>
     slotTaken v action = slotTaken vo action"
  by (simp_all add: slotTaken_def)

lemma apply_rule_half:
  "r_Action r = ActionDelay \<Longrightarrow> v_Delay (apply_rule v r) = rule_delay r"
  "r_Action r \<noteq> ActionDelay \<Longrightarrow> v_DropConn v = v_DropConn vo \<Longrightarrow>
     v_DropConn (apply_rule v r) = v_DropConn (apply_rule vo r)"
  "r_Action r \<noteq> ActionDelay \<Longrightarrow> v_Err v = v_Err vo \<Longrightarrow>
     v_Err (apply_rule v r) = v_Err (apply_rule vo r)"
  by (simp_all add: apply_rule_def)

lemma decide_loop_halves:
  assumes "v_Delay v = v_Delay vd" "v_DropConn v = v_DropConn vo" "v_Err v = v_Err vo"
  shows "v_Delay (fst (decide_loop o' v f as)) = v_Delay (fst (decide_loop o' vd fd (filter is_delay as)))
       \<and> v_DropConn (fst (decide_loop o' v f as)) = v_DropConn (fst (decide_loop o' vo fo (filter (\<lambda>a. \<not> is_delay a) as)))
       \<and> v_Err (fst (decide_loop o' v f as)) = v_Err (fst (decide_loop o' vo fo (filter (\<lambda>a. \<not> is_delay a) as)))
       \<and> filter is_delay (snd (snd (decide_loop o' v f as))) = snd (snd (decide_loop o' vd fd (filter is_delay as)))
       \<and> filter (\<lambda>a. \<not> is_delay a) (snd (snd (decide_loop o' v f as))) = snd (snd (decide_loop o' vo fo (filter (\<lambda>a. \<not> is_delay a) as)))"
  using assms
proof (induction as arbitrary: v vd vo f fd fo)
  case (Cons a as)
  have keeps: "is_delay (snd (fire o' a)) = is_delay a" by (simp add: is_delay_def)
  note skip = Cons.IH [OF Cons.prems, of f fd fo]
  show ?case
  proof (cases "is_delay a")
    case True
    then have d: "r_Action (a_rule a) = ActionDelay" by (simp add: is_delay_def)
    note hit = Cons.IH [of "apply_rule v (a_rule a)" "apply_rule vd (a_rule a)" vo
        "f @ [ActionDelay]" "fd @ [ActionDelay]" fo]
    show ?thesis
      using skip hit True keeps Cons.prems slotTaken_half(1) [OF Cons.prems(1)]
      by (simp add: d split_beta apply_rule_half apply_rule_delay)
  next
    case False
    then have d: "r_Action (a_rule a) \<noteq> ActionDelay" by (simp add: is_delay_def)
    note hit = Cons.IH [of "apply_rule v (a_rule a)" vd "apply_rule vo (a_rule a)"
        "f @ [r_Action (a_rule a)]" fd "fo @ [r_Action (a_rule a)]"]
    show ?thesis
      using skip hit False keeps Cons.prems slotTaken_half(2) [OF Cons.prems(2,3) d]
        apply_rule_half(2) [OF d Cons.prems(2)] apply_rule_half(3) [OF d Cons.prems(3)]
      by (simp add: split_beta apply_rule_delay(2) [OF d])
  qed
qed simp

lemma decide_loop_rules: "map a_rule (snd (snd (decide_loop o' v f as))) = map a_rule as"
proof (induction as arbitrary: v f)
  case (Cons a as)
  have "a_rule (snd (fire o' a)) = a_rule a" by simp
  with Cons show ?case by (auto simp: split_beta)
qed simp

lemma before_rules [simp]: "armed_rules (snd (before o' origin i)) = armed_rules i"
  using decide_loop_rules [of o' zero_verdict "[]" "i_rules i"]
  by (simp add: before_def decide_def armed_rules_def split_beta)

lemma before_log:
  "i_log (snd (before o' origin i)) = record_entry (i_log i)
     \<lparr>e_N = 0, e_Emulator = op_Emulator o', e_Op = op_Kind o', e_Target = op_Target o',
      e_Fault = v_Fault (fst (before o' origin i)), e_Control = origin\<rparr>"
  by (simp add: before_def decide_def split_beta)

lemma decide_loop_none:
  "list_all (\<lambda>a. \<not> acts_on (a_rule a) o') as \<Longrightarrow> decide_loop o' v f as = (v, f, as)"
  by (induction as) (simp_all add: fire_skips)

lemma arm_all_rules:
  "arm_all rs i = Inr i' \<Longrightarrow>
     i_rules i' = i_rules i @ map arm_rule rs \<and> i_log i' = i_log i \<and> (\<forall>r \<in> set rs. Validate r = None)"
proof (induction rs arbitrary: i)
  case (Cons r rs)
  from Cons.prems have valid: "Validate r = None" by (cases "Validate r") (simp_all add: arm_def)
  with Cons.prems have "arm_all rs (i\<lparr>i_rules := i_rules i @ [arm_rule r]\<rparr>) = Inr i'"
    by (simp add: arm_def)
  from Cons.IH [OF this] valid show ?case by simp
qed simp

lemma a_rule_arm_rule [simp]: "a_rule (arm_rule r) = r"
  by (simp add: arm_rule_def)

lemma control_step_ok: "interceptor_ok i \<Longrightarrow> interceptor_ok (control_step i c)"
proof (cases c)
  case (Add r)
  moreover assume "interceptor_ok i"
  ultimately show ?thesis
    by (auto simp: interceptor_ok_def AddRule_def arm_def armed_rules_def record_entry_ok
        split: option.splits)
next
  case (Remove k)
  moreover assume "interceptor_ok i"
  ultimately show ?thesis
    by (auto simp: interceptor_ok_def RemoveRule_def armed_rules_def record_entry_ok Let_def
        dest: in_set_takeD in_set_dropD)
next
  case Reset
  moreover assume "interceptor_ok i"
  ultimately show ?thesis
    by (simp add: interceptor_ok_def ResetRules_def armed_rules_def record_entry_ok)
qed (simp_all add: interceptor_ok_def Before_def Fire_def before_log record_entry_ok)

interpretation control: preserved control_step interceptor_ok
  by unfold_locales (rule control_step_ok)

lemma before_all_run:
  "i_log (snd (before_all os i)) = foldl record_entry (i_log i) (map2 op_entry os (fst (before_all os i)))
   \<and> length (fst (before_all os i)) = length os"
proof (induction os arbitrary: i)
  case (Cons o' os)
  then show ?case
    using before_log [of o' "[]" i] by (simp add: Before_def split_beta op_entry_def)
qed simp

text \<open>What the loop has decided so far agrees with the list of actions it says it applied.\<close>

definition fault_agrees :: "Verdict \<Rightarrow> gostring list \<Rightarrow> bool" where
  "fault_agrees v fired \<longleftrightarrow> 0 \<le> v_Delay v \<and> \<not> (v_DropConn v \<and> v_Err v \<noteq> None) \<and>
     (fired = [] \<longleftrightarrow> v_Delay v = 0 \<and> \<not> v_DropConn v \<and> v_Err v = None) \<and> [] \<notin> set fired \<and>
     length (filter (\<lambda>f. f = ActionDelay) fired) \<le> (if v_Delay v > 0 then 1 else 0) \<and>
     length (filter (\<lambda>f. f \<noteq> ActionDelay) fired) \<le> (if v_DropConn v \<or> v_Err v \<noteq> None then 1 else 0)"

lemma decide_loop_agrees:
  assumes "fault_agrees v f"
    and "\<And>a. a \<in> set as \<Longrightarrow> r_Action (a_rule a) \<noteq> [] \<and> (is_delay a \<longrightarrow> 0 < rule_delay (a_rule a))"
  shows "fault_agrees (fst (decide_loop o' v f as)) (fst (snd (decide_loop o' v f as)))"
  using assms
proof (induction as arbitrary: v f)
  case (Cons a as)
  have "fault_agrees (apply_rule v (a_rule a)) (f @ [r_Action (a_rule a)])"
    if "\<not> slotTaken v (r_Action (a_rule a))"
    using that Cons.prems(1) Cons.prems(2) [of a]
    by (auto simp: fault_agrees_def apply_rule_def slotTaken_def is_delay_def)
  then show ?case using Cons by (simp add: split_beta)
qed simp

lemma Join_Nil: "[] \<notin> set fs \<Longrightarrow> Join fs sep = [] \<longleftrightarrow> fs = []"
  by (cases "(fs, sep)" rule: Join.cases) auto

lemma valid_delay:
  "Validate r = None \<Longrightarrow> r_Action r = ActionDelay \<Longrightarrow> r_Millis r \<le> 9223372036854 \<Longrightarrow>
     rule_delay r = r_Millis r * 1000000 \<and> 0 < rule_delay r"
  by (auto simp: Validate_def validateAction_None action_defs rule_delay_def int64_range_def
      split: option.splits if_splits)

lemma valid_action: "Validate r = None \<Longrightarrow> r_Action r \<noteq> []"
  by (auto simp: Validate_def validateAction_None action_defs split: option.splits if_splits)

lemma fst_Before: "fst (Before o' i) =
    (fst (decide_loop o' zero_verdict [] (i_rules i)))
      \<lparr>v_Fault := Join (fst (snd (decide_loop o' zero_verdict [] (i_rules i)))) ''+''\<rparr>"
  by (simp add: Before_def before_def decide_def split_beta)

lemma Before_i_rules [simp]: "i_rules (snd (Before o' i)) = snd (snd (decide_loop o' zero_verdict [] (i_rules i)))"
  by (simp add: Before_def before_def decide_def split_beta)

text \<open>One armed rule on its own: the verdict is the rule's, on the occurrences it fires on.\<close>

lemma Before_single:
  assumes "i_rules i = [a]" "r_Action (a_rule a) \<noteq> []"
  shows "v_Fault (fst (Before o' i)) = (if fst (fire o' a) then r_Action (a_rule a) else []) \<and>
    i_rules (snd (Before o' i)) = [snd (fire o' a)]"
proof -
  have "\<not> slotTaken zero_verdict action" for action by (simp add: slotTaken_def zero_verdict_def)
  with assms show ?thesis by (simp add: fst_Before split_beta zero_verdict_def apply_rule_def)
qed

lemma before_all_single:
  assumes "i_rules i = [a]" "r_Action (a_rule a) \<noteq> []"
  shows "map v_Fault (fst (before_all os i))
    = map (\<lambda>hit. if hit then r_Action (a_rule a) else []) (fst (fire_run os a))"
  using assms
proof (induction os arbitrary: i a)
  case (Cons o' os)
  from Before_single [OF Cons.prems, of o'] Cons.IH [of "snd (Before o' i)" "snd (fire o' a)"] Cons.prems(2)
  show ?case by (simp add: split_beta Let_def)
qed simp

lemma third_commit_armed: "\<exists>i. New_interceptor [third_commit] (New_log 10) = Inr i"
proof -
  have "Validate third_commit = None" by code_simp
  then show ?thesis by (simp add: New_interceptor_def arm_def)
qed

section \<open>Properties\<close>

text \<open>The two halves of a verdict never interfere: with any rules armed, how long an operation is
  stalled is what the delay rules alone would decide, whether it is dropped or failed is
  what the other rules alone would decide, and the counters of each kind of rule move
  exactly as they would without the other kind. A blanket delay never shadows a specific
  error, and a rule whose half is taken spends nothing.\<close>

theorem verdict_halves_independent:
  "v_Delay (fst (Before o' i)) = v_Delay (fst (Before o' (i\<lparr>i_rules := filter is_delay (i_rules i)\<rparr>)))
   \<and> v_DropConn (fst (Before o' i))
       = v_DropConn (fst (Before o' (i\<lparr>i_rules := filter (\<lambda>a. \<not> is_delay a) (i_rules i)\<rparr>)))
   \<and> v_Err (fst (Before o' i))
       = v_Err (fst (Before o' (i\<lparr>i_rules := filter (\<lambda>a. \<not> is_delay a) (i_rules i)\<rparr>)))
   \<and> filter is_delay (i_rules (snd (Before o' i)))
       = i_rules (snd (Before o' (i\<lparr>i_rules := filter is_delay (i_rules i)\<rparr>)))
   \<and> filter (\<lambda>a. \<not> is_delay a) (i_rules (snd (Before o' i)))
       = i_rules (snd (Before o' (i\<lparr>i_rules := filter (\<lambda>a. \<not> is_delay a) (i_rules i)\<rparr>)))"
  using decide_loop_halves [OF refl refl refl, of o' zero_verdict "[]" "i_rules i" "[]" "[]"]
  by (simp add: fst_Before)

text \<open>Every operation leaves exactly one entry in the log, in order, naming the operation and the
  fault that was decided for it, whether or not one fired: after any sequence of operations
  on a fresh interceptor the log holds the last of these entries, numbered from one.\<close>

theorem every_operation_logged:
  assumes "New_interceptor rules (New_log limit) = Inr i"
  shows "Entries (i_log (snd (before_all os i))) =
    last_n (nat (if limit \<le> 0 then DefaultLimit else limit))
      (map2 stamp [1 ..< length os + 1] (map2 op_entry os (fst (before_all os i))))"
proof -
  from arm_all_rules [OF assms [unfolded New_interceptor_def]] have l: "i_log i = New_log limit" by simp
  have new: "l_cap (New_log limit) = nat (if limit \<le> 0 then DefaultLimit else limit)"
      "l_next (New_log limit) = 1" "snapshot (New_log limit) = []"
    by (simp_all add: New_log_def snapshot_def)
  have "snapshot (i_log (snd (before_all os i))) = last_n (l_cap (New_log limit))
      (snapshot (New_log limit) @ map2 stamp [l_next (New_log limit) ..< l_next (New_log limit) + length os]
        (map2 op_entry os (fst (before_all os i))))"
    using ring.run_view [OF New_log_ok, of limit "map2 op_entry os (fst (before_all os i))"]
      before_all_run [of os i] by (simp add: l)
  then show ?thesis by (simp add: Entries_def new)
qed

theorem every_operation_logged_witness:
  "\<exists>i. New_interceptor [third_commit] (New_log 10) = Inr i \<and>
     Entries (i_log (snd (before_all [commit_op] i))) =
       last_n 10 (map2 stamp [1 ..< 2] (map2 op_entry [commit_op] (fst (before_all [commit_op] i))))"
proof -
  obtain i where "New_interceptor [third_commit] (New_log 10) = Inr i"
    using third_commit_armed by blast
  with every_operation_logged [OF this, of "[commit_op]"] show ?thesis by (auto simp: numeral_2_eq_2)
qed

text \<open>Armed alone, a valid rule is reported by the interceptor on exactly the occurrences its
  threshold and budget say, and on no other operation.\<close>

theorem single_rule_schedule:
  assumes "New_interceptor [r] l = Inr i" "k < length os"
  shows "v_Fault (fst (before_all os i) ! k) =
    (let n = int (length (filter (acts_on r) (take (Suc k) os)))
     in if acts_on r (os ! k) \<and> threshold r < n \<and> (r_Times r = 0 \<or> n \<le> threshold r + r_Times r)
        then r_Action r else [])"
proof -
  from arm_all_rules [OF assms(1) [unfolded New_interceptor_def]]
  have i: "i_rules i = [arm_rule r]" and valid: "Validate r = None" by auto
  have "counters (arm_rule r) 0"
    using Validate_counts [OF valid] by (auto simp: counters_def arm_rule_def)
  note schedule = fire_run_schedule [OF this, of os]
  have "map v_Fault (fst (before_all os i)) ! k
      = (if fst (fire_run os (arm_rule r)) ! k then r_Action r else [])"
    using before_all_single [OF i, of os] valid_action [OF valid] assms(2) schedule
      Validate_counts [OF valid] by simp
  then show ?thesis
    using schedule Validate_counts [OF valid] assms(2) before_all_run [of os i]
    by (simp add: Let_def due_def)
qed

theorem single_rule_schedule_witness:
  "\<exists>i. New_interceptor [third_commit] (New_log 10) = Inr i \<and>
     v_Fault (fst (before_all (replicate 4 commit_op) i) ! 2) = ''error'' \<and>
     v_Fault (fst (before_all (replicate 4 commit_op) i) ! 3) = []"
proof -
  have a: "acts_on third_commit commit_op" by code_simp
  obtain i where i: "New_interceptor [third_commit] (New_log 10) = Inr i"
    using third_commit_armed by blast
  show ?thesis
    using single_rule_schedule [OF i, of 2 "replicate 4 commit_op"]
      single_rule_schedule [OF i, of 3 "replicate 4 commit_op"] i a
    by (auto simp: threshold_def third_commit_def ActionCap_def)
qed

text \<open>A verdict is coherent: as long as no armed delay exceeds what a \<open>time.Duration\<close> holds, the
  fault it reports is empty exactly when the operation is left untouched, an operation is
  never both dropped and failed, and it is never stalled for a negative time.\<close>

theorem verdict_coherent:
  assumes "interceptor_ok i" "\<And>r. r \<in> set (armed_rules i) \<Longrightarrow> r_Millis r \<le> 9223372036854"
  shows "(v_Fault (fst (Before o' i)) = [] \<longleftrightarrow> fst (Before o' i) = zero_verdict)
    \<and> \<not> (v_DropConn (fst (Before o' i)) \<and> v_Err (fst (Before o' i)) \<noteq> None)
    \<and> 0 \<le> v_Delay (fst (Before o' i))"
proof -
  have "fault_agrees zero_verdict []" by (simp add: fault_agrees_def zero_verdict_def)
  moreover have "r_Action (a_rule a) \<noteq> [] \<and> (is_delay a \<longrightarrow> 0 < rule_delay (a_rule a))"
    if "a \<in> set (i_rules i)" for a
    using that assms(1) assms(2) [of "a_rule a"] valid_action [of "a_rule a"] valid_delay [of "a_rule a"]
    by (auto simp: interceptor_ok_def armed_rules_def is_delay_def)
  ultimately have agrees: "fault_agrees (fst (decide_loop o' zero_verdict [] (i_rules i)))
      (fst (snd (decide_loop o' zero_verdict [] (i_rules i))))"
    by (rule decide_loop_agrees)
  obtain v fired where vf: "fst (decide_loop o' zero_verdict [] (i_rules i)) = v"
      "fst (snd (decide_loop o' zero_verdict [] (i_rules i))) = fired" by blast
  from agrees show ?thesis
    unfolding fst_Before vf
    by (cases v) (auto simp: fault_agrees_def Join_Nil zero_verdict_def)
qed

theorem verdict_coherent_witness:
  "\<not> (v_DropConn (fst (Before commit_op \<lparr>i_rules = [arm_rule third_commit], i_log = New_log 5\<rparr>)) \<and>
      v_Err (fst (Before commit_op \<lparr>i_rules = [arm_rule third_commit], i_log = New_log 5\<rparr>)) \<noteq> None)"
proof -
  have "Validate third_commit = None" by code_simp
  then show ?thesis
    using verdict_coherent [of "\<lparr>i_rules = [arm_rule third_commit], i_log = New_log 5\<rparr>" commit_op]
    by (simp add: interceptor_ok_def armed_rules_def New_log_ok third_commit_def)
qed

text \<open>C21. Whatever the control plane and the clients do, in whatever order, every rule that is armed
  is one validation accepts and the log stays a well-formed ring.\<close>

theorem interceptor_invariant:
  assumes "New_interceptor rules (New_log limit) = Inr i"
  shows "interceptor_ok (foldl control_step i cs)"
proof (rule control.run_inv)
  show "interceptor_ok i"
    using arm_all_rules [OF assms [unfolded New_interceptor_def]]
    by (auto simp: interceptor_ok_def armed_rules_def New_log_ok)
qed

theorem interceptor_invariant_witness:
  "\<exists>i. New_interceptor [third_commit] (New_log 10) = Inr i \<and>
     interceptor_ok (foldl control_step i [ClientOp commit_op, Remove 0, Add sample_rule, Reset])"
proof -
  obtain i where "New_interceptor [third_commit] (New_log 10) = Inr i"
    using third_commit_armed by blast
  with interceptor_invariant [OF this] show ?thesis by blast
qed

text \<open>A delay rule stalls for exactly the milliseconds it names up to 9223372036854 of them; from the
  next value on the product wraps in a 64-bit duration, and 9223372036855 milliseconds, which
  validation accepts, comes out negative, so the operation is not stalled at all.\<close>

theorem delay_bounds:
  assumes "Validate r = None" "r_Action r = ''delay''"
  shows "(r_Millis r \<le> 9223372036854 \<longrightarrow> rule_delay r = r_Millis r * 1000000 \<and> 0 < rule_delay r)
    \<and> (r_Millis r = 9223372036855 \<longrightarrow> rule_delay r < 0)"
  using valid_delay [OF assms(1)] assms(2)
  by (auto simp: ActionDelay_def rule_delay_def wrap64_def)

theorem delay_bounds_witness:
  "\<exists>r. Validate r = None \<and> r_Action r = ''delay'' \<and> r_Millis r = 9223372036855 \<and> rule_delay r < 0"
proof -
  define r where "r = \<lparr>r_Match = ''*'', r_Action = ''delay'', r_After = 0, r_Times = 0,
    r_When = [], r_Message = [], r_Code = [], r_Millis = 9223372036855, r_Limit = 0\<rparr>"
  have "Validate r = None" unfolding r_def by code_simp
  with delay_bounds [of r] show ?thesis by (auto simp: r_def)
qed

end
