(* ===== verification/Emulator.thy ===== *)
theory Emulator
  imports Interceptor
begin

text \<open>
  The seam of \<open>internal/emulator/emulator.go\<close>: results, and the serve loop that puts the control
  layer between a protocol's session and a backend's executor. The Go interfaces \<open>Session\<close> and
  \<open>Executor\<close> are the functions of the record \<open>seam\<close>, over a session state \<open>'s\<close> and an executor state
  \<open>'x\<close>; their \<open>error\<close> results are values of \<open>go_error\<close>, the nil error of \<open>Reply\<close> and \<open>Fail\<close> is
  \<open>True\<close>. The loop runs until the session ends, so it takes a number of rounds it may use.
\<close>

section \<open>Results\<close>

definition KindConnect :: gostring where "KindConnect = ''CONNECT''"

datatype Type = TypeText | TypeInteger | TypeFloat | TypeBool | TypeTimestamp | TypeBytes

record Column =
  c_Name :: gostring
  c_Type :: Type

record 'v Result =
  res_Columns :: "Column list"
  res_Rows :: "'v list list"
  res_Tag :: gostring
  res_Gauges :: "(gostring \<times> int) list"

definition empty_Result :: "'v Result" where
  "empty_Result = \<lparr>res_Columns = [], res_Rows = [], res_Tag = [], res_Gauges = []\<rparr>"

text \<open>The errors a session may be asked to report, by what a protocol can tell about them: an
  injected fault, a failure that carries the protocol's own words or code (for Mongo a code, its name
  and the message, for SQL an SQLSTATE and the message), or any other.\<close>

datatype go_error =
    FaultErr FaultError
  | RedisErr gostring
  | ReplyCodeErr nat gostring
  | MongoErr int gostring gostring
  | SqlErr gostring gostring
  | PlainErr gostring

text \<open>What \<open>Error()\<close> says.\<close>

definition error_text :: "go_error \<Rightarrow> gostring" where
  "error_text err = (case err of
       FaultErr fault \<Rightarrow> f_Message fault | RedisErr line \<Rightarrow> line | ReplyCodeErr code line \<Rightarrow> line | MongoErr code name line \<Rightarrow> line
     | SqlErr code line \<Rightarrow> line
     | PlainErr line \<Rightarrow> line)"

section \<open>The serve loop\<close>

record ('s, 'x, 'p, 'v) seam =
  next_op :: "'s \<Rightarrow> (go_error + 'p op) \<times> 's"
  reply :: "'v Result \<Rightarrow> 's \<Rightarrow> bool \<times> 's"
  fail_frame :: "go_error \<Rightarrow> 's \<Rightarrow> bool \<times> 's"
  exec :: "'p op \<Rightarrow> 'x \<Rightarrow> (go_error, 'v Result) outcome \<times> 'x"
  abort :: "'p op \<Rightarrow> 'x \<Rightarrow> 'x"

text \<open>What one operation did to its connection: how long it slept, and whether the connection
  lives on, is closed, or the process is gone.\<close>

datatype fate = Lives | Closes | Crashes

record ('s, 'x) stepped =
  st_slept :: int
  st_fate :: fate
  st_session :: 's
  st_executor :: 'x

definition fate_of :: "bool \<Rightarrow> fate" where "fate_of ok = (if ok then Lives else Closes)"

definition step ::
  "('s, 'x, 'p, 'v) seam \<Rightarrow> 's \<Rightarrow> 'x \<Rightarrow> Verdict \<Rightarrow> 'p op \<Rightarrow> ('s, 'x) stepped" where
  "step e session executor verdict o' =
     (let slept = (if v_Delay verdict > 0 then v_Delay verdict else 0)
      in if v_DropConn verdict
         then \<lparr>st_slept = slept, st_fate = Closes, st_session = session, st_executor = executor\<rparr>
         else (case v_Err verdict of
           Some fault \<Rightarrow>
             (let executor = abort e o' executor
              in case fail_frame e (FaultErr fault) session of (ok, session) \<Rightarrow>
                \<lparr>st_slept = slept, st_fate = fate_of ok, st_session = session, st_executor = executor\<rparr>)
         | None \<Rightarrow>
             (case exec e o' executor of
                (Panic, executor) \<Rightarrow>
                  \<lparr>st_slept = slept, st_fate = Crashes, st_session = session, st_executor = executor\<rparr>
              | (Fail err, executor) \<Rightarrow>
                  (case fail_frame e err session of (ok, session) \<Rightarrow>
                    \<lparr>st_slept = slept, st_fate = fate_of ok, st_session = session, st_executor = executor\<rparr>)
              | (Ok result, executor) \<Rightarrow>
                  (case reply e result session of (ok, session) \<Rightarrow>
                    \<lparr>st_slept = slept, st_fate = fate_of ok, st_session = session, st_executor = executor\<rparr>))))"

fun handle_loop ::
  "nat \<Rightarrow> ('s, 'x, 'p, 'v) seam \<Rightarrow> gostring \<Rightarrow> 's \<Rightarrow> 'x \<Rightarrow> interceptor
     \<Rightarrow> (fate \<times> 's \<times> 'x \<times> interceptor) option" where
  "handle_loop 0 e name session executor i = None"
| "handle_loop (Suc n) e name session executor i =
     (case next_op e session of
        (Inl _, session) \<Rightarrow> Some (Closes, session, executor, i)
      | (Inr o', session) \<Rightarrow>
          (let o' = o'\<lparr>op_Emulator := name\<rparr>
           in case Before o' i of (verdict, i) \<Rightarrow>
             (let r = step e session executor verdict o'
              in case st_fate r of
                   Lives \<Rightarrow> handle_loop n e name (st_session r) (st_executor r) i
                 | other \<Rightarrow> Some (other, st_session r, st_executor r, i))))"

section \<open>Lemmas\<close>

lemma handle_loop_mono:
  "handle_loop n e name s x i = Some r \<Longrightarrow> n \<le> m \<Longrightarrow> handle_loop m e name s x i = Some r"
proof (induction n arbitrary: m s x i)
  case (Suc n)
  then obtain m' where "m = Suc m'" "n \<le> m'" by (cases m) simp_all
  with Suc show ?case
    by (auto simp: Let_def split: prod.splits sum.splits fate.splits)
qed simp

text \<open>An executor that forgets an aborted operation: what a backend promises the loop.\<close>

locale forgetful_backend =
  fixes exec_op :: "'p op \<Rightarrow> 'x \<Rightarrow> (go_error, 'v Result) outcome \<times> 'x"
    and abort_op :: "'p op \<Rightarrow> 'x \<Rightarrow> 'x"
  assumes abort_same: "abort_op o' x = x"
begin

lemma faulted_untouched:
  assumes "abort e = abort_op" "v_DropConn v \<or> v_Err v \<noteq> None"
  shows "st_executor (step e s x v o') = x"
  using assms by (auto simp: step_def Let_def abort_same split: option.splits prod.splits)

lemma untouched_executes:
  assumes "exec e = exec_op" "\<not> v_DropConn v" "v_Err v = None"
  shows "st_executor (step e s x v o') = snd (exec_op o' x)"
  using assms by (auto simp: step_def Let_def split: prod.splits outcome.splits)

end

end
