(* ===== verification/KvGlob.thy ===== *)
theory KvGlob
  imports Prelude
begin

text \<open>
  The Redis glob of \<open>internal/kv/glob.go\<close>, used by KEYS and SCAN. The loop over pattern and text is
  the recursion of \<open>matches\<close>; the backtracking of \<open>matchesRun\<close> tries every suffix. The reference
  is a denotation: a pattern is a list of tokens, and a token list has a language. The main
  lemma shows the byte-level matcher decides exactly that language.
\<close>

section \<open>The matcher\<close>

definition unescape :: "gostring \<Rightarrow> gostring" where
  "unescape pattern =
     (if length pattern > 1 \<and> hd pattern = CHR 0x5C then tl pattern else pattern)"

fun class_loop :: "char \<Rightarrow> bool \<Rightarrow> gostring \<Rightarrow> bool \<times> gostring" where
  "class_loop char found [] = (found, [])"
| "class_loop char found (p # ps) =
     (if p = CHR '']'' then (found, p # ps)
      else if p = CHR 0x5C \<and> ps \<noteq> [] then class_loop char (found \<or> hd ps = char) (tl ps)
      else if length ps > 1 \<and> ps ! 0 = CHR ''-'' \<and> ps ! 1 \<noteq> CHR '']''
           then class_loop char (found \<or> (p \<le> char \<and> char \<le> ps ! 1)) (drop 2 ps)
      else class_loop char (found \<or> p = char) ps)"

definition class_match :: "gostring \<Rightarrow> char \<Rightarrow> gostring \<times> bool" where
  "class_match pattern char =
     (let pattern = tl pattern;
          negated = prefix ''^'' pattern;
          pattern = (if negated then tl pattern else pattern)
      in case class_loop char False pattern of (found, pattern) \<Rightarrow>
           (TrimPrefix pattern '']'', found \<noteq> negated))"

lemma class_loop_length: "length (snd (class_loop char found p)) \<le> length p"
  by (induction char found p rule: class_loop.induct) auto

lemma class_match_length: "pattern \<noteq> [] \<Longrightarrow> length (fst (class_match pattern char)) < length pattern"
  using class_loop_length [of char False "tl pattern"]
    class_loop_length [of char False "tl (tl pattern)"]
  by (cases pattern) (auto simp: class_match_def Let_def TrimPrefix_def split_beta)

function (sequential) matches :: "gostring \<Rightarrow> gostring \<Rightarrow> bool" where
  "matches [] t = (t = [])"
| "matches (p # ps) t =
     (if p = CHR ''*'' then
        (let rest = dropWhile (\<lambda>c. c = CHR ''*'') ps
         in if rest = [] then True
            else list_ex (\<lambda>index. matches rest (drop index t)) [0 ..< Suc (length t)])
      else if p = CHR ''?'' then (if t = [] then False else matches ps (tl t))
      else if p = CHR ''['' then
        (if t = [] then False
         else case class_match (p # ps) (hd t) of (rest, member) \<Rightarrow>
                if \<not> member then False else matches rest (tl t))
      else let literal = unescape (p # ps)
           in if t = [] \<or> hd t \<noteq> hd literal then False else matches (tl literal) (tl t))"
  by pat_completeness auto
termination
proof (relation "measure (\<lambda>(p, t). length p)", goal_cases)
  case (2 p ps t rest index)
  then show ?case
    using length_dropWhile_le [of "\<lambda>c. c = CHR ''*''" ps] by (simp add: less_Suc_eq_le)
next
  case (4 p ps t rest member)
  then show ?case using class_match_length [of "p # ps" "hd t"] by (metis in_measure case_prod_conv fst_conv list.distinct(1))
next
  case (5 p ps t literal)
  then show ?case by (auto simp: unescape_def)
qed simp_all

declare matches.simps(2) [simp del]

definition matchesRun :: "gostring \<Rightarrow> gostring \<Rightarrow> bool" where
  "matchesRun rest t =
     (if rest = [] then True
      else list_ex (\<lambda>index. matches rest (drop index t)) [0 ..< Suc (length t)])"

lemma matches_star:
  "matches (CHR ''*'' # ps) t = matchesRun (dropWhile (\<lambda>c. c = CHR ''*'') ps) t"
  by (simp add: matches.simps(2) matchesRun_def Let_def)

section \<open>The language of a pattern\<close>

datatype gtoken = GStar | GAny | GClass bool "(char \<times> char) list" | GLit char

fun class_ranges :: "gostring \<Rightarrow> (char \<times> char) list \<times> gostring" where
  "class_ranges [] = ([], [])"
| "class_ranges (p # ps) =
     (if p = CHR '']'' then ([], ps)
      else if p = CHR 0x5C \<and> ps \<noteq> [] then
        (case class_ranges (tl ps) of (rs, rest) \<Rightarrow> ((hd ps, hd ps) # rs, rest))
      else if length ps > 1 \<and> ps ! 0 = CHR ''-'' \<and> ps ! 1 \<noteq> CHR '']'' then
        (case class_ranges (drop 2 ps) of (rs, rest) \<Rightarrow> ((p, ps ! 1) # rs, rest))
      else (case class_ranges ps of (rs, rest) \<Rightarrow> ((p, p) # rs, rest)))"

lemma class_ranges_length: "length (snd (class_ranges p)) \<le> length p"
  by (induction p rule: class_ranges.induct) (auto split: prod.splits)

function (sequential) parse_glob :: "gostring \<Rightarrow> gtoken list" where
  "parse_glob [] = []"
| "parse_glob (p # ps) =
     (if p = CHR ''*'' then GStar # parse_glob ps
      else if p = CHR ''?'' then GAny # parse_glob ps
      else if p = CHR ''['' then
        (let negated = prefix ''^'' ps; body = (if negated then tl ps else ps)
         in GClass negated (fst (class_ranges body)) # parse_glob (snd (class_ranges body)))
      else if p = CHR 0x5C \<and> ps \<noteq> [] then GLit (hd ps) # parse_glob (tl ps)
      else GLit p # parse_glob ps)"
  by pat_completeness auto
termination
proof (relation "measure length", goal_cases)
  case (4 p ps negated body)
  then show ?case
    using class_ranges_length [of ps] class_ranges_length [of "tl ps"] by (cases ps) auto
qed auto

declare parse_glob.simps(2) [simp del]

fun token_accepts :: "gtoken \<Rightarrow> char \<Rightarrow> bool" where
  "token_accepts GStar c = False"
| "token_accepts GAny c = True"
| "token_accepts (GClass negated rs) c = ((\<exists>(lo, hi) \<in> set rs. lo \<le> c \<and> c \<le> hi) \<noteq> negated)"
| "token_accepts (GLit d) c = (c = d)"

fun glob_lang :: "gtoken list \<Rightarrow> gostring \<Rightarrow> bool" where
  "glob_lang [] t = (t = [])"
| "glob_lang (g # gs) t =
     (if g = GStar then \<exists>u v. t = u @ v \<and> glob_lang gs v
      else \<exists>c r. t = c # r \<and> token_accepts g c \<and> glob_lang gs r)"

section \<open>The matcher decides the language\<close>

lemma class_loop_ranges:
  "fst (class_loop c found p)
     = (found \<or> (\<exists>(lo, hi) \<in> set (fst (class_ranges p)). lo \<le> c \<and> c \<le> hi))
   \<and> TrimPrefix (snd (class_loop c found p)) '']'' = snd (class_ranges p)"
  by (induction c found p rule: class_loop.induct)
    (auto simp: TrimPrefix_def split_beta)

lemma class_match_tokens:
  assumes "body = (if prefix ''^'' ps then tl ps else ps)"
  shows "class_match (CHR ''['' # ps) c =
    (snd (class_ranges body), token_accepts (GClass (prefix ''^'' ps) (fst (class_ranges body))) c)"
  using class_loop_ranges [of c False body] assms
  by (auto simp: class_match_def Let_def split_beta)

lemma glob_stars:
  "glob_lang (GStar # parse_glob (dropWhile (\<lambda>c. c = CHR ''*'') ps)) t
     \<longleftrightarrow> glob_lang (GStar # parse_glob ps) t"
proof (induction ps arbitrary: t)
  case (Cons p ps)
  show ?case
  proof (cases "p = CHR ''*''")
    case True
    have "glob_lang (GStar # GStar # gs) t \<longleftrightarrow> glob_lang (GStar # gs) t" for gs
      by simp (metis append_Nil append_assoc)
    with True Cons.IH [of t] show ?thesis by (simp add: parse_glob.simps(2) del: glob_lang.simps)
  qed simp
qed simp

lemma star_suffixes:
  "list_ex (\<lambda>index. P (drop index t)) [0 ..< Suc (length t)] \<longleftrightarrow> (\<exists>u v. t = u @ v \<and> P v)"
proof
  assume "list_ex (\<lambda>index. P (drop index t)) [0 ..< Suc (length t)]"
  then obtain k where "P (drop k t)" by (auto simp: list_ex_iff simp del: upt_Suc)
  then show "\<exists>u v. t = u @ v \<and> P v" by (metis append_take_drop_id)
next
  assume "\<exists>u v. t = u @ v \<and> P v"
  then obtain u v where "t = u @ v" "P v" by blast
  then show "list_ex (\<lambda>index. P (drop index t)) [0 ..< Suc (length t)]"
    unfolding list_ex_iff by (intro bexI [of _ "length u"]) auto
qed

lemma matches_glob_lang: "matches p t \<longleftrightarrow> glob_lang (parse_glob p) t"
proof (induction p t rule: matches.induct)
  case (2 p ps t)
  consider (star) "p = CHR ''*''" | (any) "p = CHR ''?''" | (cls) "p = CHR ''[''"
    | (esc) "p = CHR 0x5C" "ps \<noteq> []" | (lit) "p \<noteq> CHR ''*''" "p \<noteq> CHR ''?''" "p \<noteq> CHR ''[''"
        "\<not> (p = CHR 0x5C \<and> ps \<noteq> [])"
    by blast
  then show ?case
  proof cases
    case star
    let ?rest = "dropWhile (\<lambda>c. c = CHR ''*'') ps"
    have "matches (p # ps) t \<longleftrightarrow> glob_lang (GStar # parse_glob ?rest) t"
    proof (cases "?rest = []")
      case False
      then show ?thesis
        using "2.IH"(1) [OF star refl False] star_suffixes [of "matches ?rest" t]
          star_suffixes [of "glob_lang (parse_glob ?rest)" t]
        by (auto simp: star matches_star matchesRun_def list_ex_iff simp del: upt_Suc)
    next
      case True
      then show ?thesis
        unfolding star matches_star matchesRun_def True by simp
    qed
    then show ?thesis using star glob_stars [of ps t] by (simp add: parse_glob.simps(2) del: glob_lang.simps)
  next
    case any
    with "2.IH"(2) show ?thesis by (cases t) (simp_all add: matches.simps(2) parse_glob.simps(2))
  next
    case cls
    define body where "body = (if prefix ''^'' ps then tl ps else ps)"
    have cm: "class_match (p # ps) c =
        (snd (class_ranges body), token_accepts (GClass (prefix ''^'' ps) (fst (class_ranges body))) c)" for c
      unfolding cls by (rule class_match_tokens) (simp add: body_def)
    have parse: "parse_glob (p # ps)
        = GClass (prefix ''^'' ps) (fst (class_ranges body)) # parse_glob (snd (class_ranges body))"
      using cls by (simp add: parse_glob.simps(2) Let_def body_def)
    have IH: "matches (snd (class_ranges body)) (tl t) \<longleftrightarrow> glob_lang (parse_glob (snd (class_ranges body))) (tl t)"
      if "t \<noteq> []" "token_accepts (GClass (prefix ''^'' ps) (fst (class_ranges body))) (hd t)"
      by (rule "2.IH"(3) [OF _ _ cls that(1) cm [symmetric]]) (use cls that(2) in simp_all)
    show ?thesis
      unfolding parse using IH cls
      by (cases t) (auto simp: matches.simps(2) cm [unfolded cls] simp del: token_accepts.simps)
  next
    case esc
    with "2.IH"(4) show ?thesis
      by (cases t) (simp_all add: matches.simps(2) parse_glob.simps(2) unescape_def)
  next
    case lit
    then have "unescape (p # ps) = p # ps" by (auto simp: unescape_def)
    with lit "2.IH"(4) show ?thesis
      by (cases t) (auto simp: matches.simps(2) parse_glob.simps(2))
  qed
qed simp

section \<open>Properties\<close>

text \<open>C34. The glob matcher behind KEYS and SCAN decides exactly the language its pattern denotes: any
  run for \<open>*\<close>, one byte for \<open>?\<close>, the members of a class or its complement, a byte after a
  backslash taken literally; and it returns for every pattern and text.\<close>

theorem matches_decides_language: "matches p t \<longleftrightarrow> glob_lang (parse_glob p) t"
  by (rule matches_glob_lang)

end
