(* ===== verification/KvSpace.thy ===== *)
theory KvSpace
  imports Emulator KvGlob
begin

text \<open>
  One numbered database of the emulated cache, \<open>internal/kv/space.go\<close>, with the replies of
  \<open>commands.go\<close> and the error texts of \<open>errors.go\<close>. A \<open>space\<close> is the Go map from keys to entries, kept
  as an association list; a pointer to an entry that Go mutates in place is written back under
  its key. Expiry is lazy: \<open>now\<close>, the instant a command runs at (nanoseconds), is an argument of
  everything that reads the clock. The interface \<open>keyed_store\<close> states what the commands rely on.
\<close>

section \<open>Replies and errors\<close>

text \<open>What a backend may put in the one cell of a reply.\<close>

datatype rvalue =
    VNil
  | VStr gostring
  | VInt int
  | VStrs "gostring list"
  | VList "rvalue list"
  | VMap "(gostring \<times> gostring) list"

type_synonym kvres = "(go_error, rvalue Result) outcome"

definition status :: "gostring \<Rightarrow> rvalue Result" where
  "status text = empty_Result\<lparr>res_Tag := text\<rparr>"

definition value_of :: "rvalue \<Rightarrow> rvalue Result" where
  "value_of held = empty_Result\<lparr>res_Rows := [[held]]\<rparr>"

definition ErrWrongType :: gostring where
  "ErrWrongType = ''WRONGTYPE Operation against a key holding the wrong kind of value''"
definition ErrNotInteger :: gostring where
  "ErrNotInteger = ''ERR value is not an integer or out of range''"
definition ErrOverflow :: gostring where
  "ErrOverflow = ''ERR increment or decrement would overflow''"
definition ErrSyntax :: gostring where "ErrSyntax = ''ERR syntax error''"
definition ErrDBIndex :: gostring where "ErrDBIndex = ''ERR DB index is out of range''"
definition ErrCursor :: gostring where "ErrCursor = ''ERR invalid cursor''"

definition wrongArity :: "gostring \<Rightarrow> gostring" where
  "wrongArity kind = ''ERR wrong number of arguments for '' @ [CHR 0x27] @ ToLower kind @ [CHR 0x27] @ '' command''"

definition invalidExpire :: "gostring \<Rightarrow> gostring" where
  "invalidExpire kind = ''ERR invalid expire time in '' @ [CHR 0x27] @ ToLower kind @ [CHR 0x27] @ '' command''"

definition unknownCommand :: "gostring list \<Rightarrow> gostring" where
  "unknownCommand argv =
     ''ERR unknown command '' @ [CHR 0x27] @ hd argv @ [CHR 0x27] @ '', with args beginning with: ''
       @ concat (map (\<lambda>arg. [CHR 0x27] @ arg @ [CHR 0x27] @ '', '') (tl argv))"

section \<open>Entries\<close>

datatype kind = kindString | kindHash | kindList | kindSet

fun kind_word :: "kind \<Rightarrow> gostring" where
  "kind_word kindString = ''string''"
| "kind_word kindHash = ''hash''"
| "kind_word kindList = ''list''"
| "kind_word kindSet = ''set''"

record kventry =
  en_kind :: kind
  en_text :: gostring
  en_hash :: "(gostring \<times> gostring) list"
  en_list :: "gostring list"
  en_members :: "gostring list"
  en_expires :: "int option"

definition newEntry :: "kind \<Rightarrow> kventry" where
  "newEntry want = \<lparr>en_kind = want, en_text = [], en_hash = [], en_list = [], en_members = [],
     en_expires = None\<rparr>"

definition text_entry :: "gostring \<Rightarrow> kventry" where
  "text_entry text = (newEntry kindString)\<lparr>en_text := text\<rparr>"

definition empty_entry :: "kventry \<Rightarrow> bool" where
  "empty_entry e \<longleftrightarrow>
     en_kind e \<noteq> kindString \<and> length (en_hash e) + length (en_list e) + length (en_members e) = 0"

section \<open>The key space\<close>

type_synonym space = "(gostring \<times> kventry) list"

definition newSpace :: space where "newSpace = []"

definition alive :: "int \<Rightarrow> kventry \<Rightarrow> bool" where
  "alive now e = (case en_expires e of None \<Rightarrow> True | Some dies \<Rightarrow> now < dies)"

definition at :: "int \<Rightarrow> space \<Rightarrow> gostring \<Rightarrow> kventry option \<times> space" where
  "at now s key =
     (case map_of s key of
        None \<Rightarrow> (None, s)
      | Some held \<Rightarrow> if \<not> alive now held then (None, AList.delete key s) else (Some held, s))"

definition of_kind ::
  "int \<Rightarrow> space \<Rightarrow> gostring \<Rightarrow> kind \<Rightarrow> (gostring + kventry option) \<times> space" where
  "of_kind now s key want =
     (case at now s key of
        (None, s) \<Rightarrow> (Inr None, s)
      | (Some held, s) \<Rightarrow> if en_kind held \<noteq> want then (Inl ErrWrongType, s) else (Inr (Some held), s))"

definition mutable :: "int \<Rightarrow> space \<Rightarrow> gostring \<Rightarrow> kind \<Rightarrow> (gostring + kventry) \<times> space" where
  "mutable now s key want =
     (case of_kind now s key want of
        (Inl err, s) \<Rightarrow> (Inl err, s)
      | (Inr (Some held), s) \<Rightarrow> (Inr held, s)
      | (Inr None, s) \<Rightarrow> (Inr (newEntry want), AList.update key (newEntry want) s))"

definition store :: "space \<Rightarrow> gostring \<Rightarrow> kventry \<Rightarrow> space" where
  "store s key held = AList.update key held s"

definition prune :: "space \<Rightarrow> gostring \<Rightarrow> kventry \<Rightarrow> space" where
  "prune s key held = (if empty_entry held then AList.delete key s else s)"

definition remove :: "int \<Rightarrow> space \<Rightarrow> gostring \<Rightarrow> bool \<times> space" where
  "remove now s key =
     (case at now s key of
        (None, s) \<Rightarrow> (False, s)
      | (Some _, s) \<Rightarrow> (True, AList.delete key s))"

fun live_loop :: "int \<Rightarrow> gostring list \<Rightarrow> space \<Rightarrow> gostring list \<times> space" where
  "live_loop now [] s = ([], s)"
| "live_loop now (key # keys) s =
     (case at now s key of
        (None, s) \<Rightarrow> live_loop now keys s
      | (Some _, s) \<Rightarrow> (case live_loop now keys s of (found, s) \<Rightarrow> (key # found, s)))"

definition live :: "int \<Rightarrow> space \<Rightarrow> gostring list \<times> space" where
  "live now s = (case live_loop now (map fst s) s of (found, s) \<Rightarrow> (sort found, s))"

definition flush :: "space \<Rightarrow> space" where "flush s = []"

definition expiring :: "int \<Rightarrow> space \<Rightarrow> nat \<times> space" where
  "expiring now s =
     (case live now s of (found, s) \<Rightarrow>
        (length (filter (\<lambda>key. \<exists>held dies. map_of s key = Some held \<and> en_expires held = Some dies) found), s))"

text \<open>A seed value, as \<open>encoding/json\<close> reads it: a string (JSON null reads as the empty one), a list of
  strings, an object of strings, or anything else.\<close>

datatype seed_value =
    SeedText gostring
  | SeedList "gostring list"
  | SeedFields "(gostring \<times> gostring) list"
  | SeedOther

definition seed_key :: "space \<Rightarrow> gostring \<Rightarrow> seed_value \<Rightarrow> gostring + space" where
  "seed_key s key raw =
     (case raw of
        SeedText text \<Rightarrow> Inr (store s key (text_entry text))
      | SeedList items \<Rightarrow> Inr (store s key ((newEntry kindList)\<lparr>en_list := items\<rparr>))
      | SeedFields pairs \<Rightarrow> Inr (store s key ((newEntry kindHash)\<lparr>en_hash := pairs\<rparr>))
      | SeedOther \<Rightarrow> Inl ''want a string, a list of strings, or an object of fields to values'')"

section \<open>The view of a space at an instant\<close>

text \<open>What a client can see of a space: the live entries.\<close>

definition view :: "int \<Rightarrow> space \<Rightarrow> gostring \<Rightarrow> kventry option" where
  "view now s key =
     (case map_of s key of Some held \<Rightarrow> if alive now held then Some held else None | None \<Rightarrow> None)"

definition entry_shape :: "kventry \<Rightarrow> bool" where
  "entry_shape e \<longleftrightarrow> keys_distinct (en_hash e) \<and> distinct (en_members e) \<and>
     (en_kind e \<noteq> kindHash \<longrightarrow> en_hash e = []) \<and> (en_kind e \<noteq> kindList \<longrightarrow> en_list e = []) \<and>
     (en_kind e \<noteq> kindSet \<longrightarrow> en_members e = [])"

definition entry_ok :: "kventry \<Rightarrow> bool" where
  "entry_ok e \<longleftrightarrow> entry_shape e \<and> \<not> empty_entry e"

definition space_ok :: "space \<Rightarrow> bool" where
  "space_ok s \<longleftrightarrow> keys_distinct s \<and> (\<forall>key held. map_of s key = Some held \<longrightarrow> entry_ok held)"

section \<open>Lemmas\<close>

lemma fst_at [simp]: "fst (at now s key) = view now s key"
  by (simp add: at_def view_def split: option.split)

lemma map_of_snd_at:
  "map_of (snd (at now s key)) = (if view now s key = None then (map_of s)(key := None) else map_of s)"
  by (auto simp: at_def view_def split: option.split if_splits)

lemma view_snd_at [simp]: "view now (snd (at now s key)) = view now s"
  by (rule ext) (auto simp: view_def map_of_snd_at split: option.splits if_splits)

lemma at_eq: "at now s key = (view now s key, snd (at now s key))"
  by (metis fst_at prod.collapse)

lemma view_store [simp]: "view now (store s key e) = (view now s)(key := if alive now e then Some e else None)"
  by (rule ext) (auto simp: view_def store_def)

lemma view_delete [simp]: "view now (AList.delete key s) = (view now s)(key := None)"
  by (rule ext) (auto simp: view_def)

lemma alive_newEntry [simp]: "alive now (newEntry want)"
  by (simp add: alive_def newEntry_def)

lemma of_kind_eq:
  "of_kind now s key want =
     (case view now s key of
        None \<Rightarrow> Inr None
      | Some held \<Rightarrow> if en_kind held \<noteq> want then Inl ErrWrongType else Inr (Some held),
      snd (at now s key))"
  using fst_at [of now s key]
  by (cases "at now s key") (auto simp: of_kind_def split: option.split)

lemma keys_distinct_at [simp]: "keys_distinct s \<Longrightarrow> keys_distinct (snd (at now s key))"
  by (auto simp: at_def split: option.split)

lemma space_ok_at [inv_intros]: "space_ok s \<Longrightarrow> space_ok (snd (at now s key))"
  by (auto simp: space_ok_def map_of_snd_at split: if_splits)

lemma space_ok_delete [inv_intros]: "space_ok s \<Longrightarrow> space_ok (AList.delete key s)"
  by (simp add: space_ok_def)

lemma space_ok_store [inv_intros]: "space_ok s \<Longrightarrow> entry_ok e \<Longrightarrow> space_ok (store s key e)"
  by (simp add: space_ok_def store_def)

lemma space_ok_empty [inv_intros]: "space_ok []"
  by (simp add: space_ok_def)

lemma space_ok_view: "space_ok s \<Longrightarrow> view now s key = Some e \<Longrightarrow> entry_ok e"
  by (auto simp: space_ok_def view_def split: option.splits if_splits)

lemma entry_ok_text [simp]: "entry_ok (text_entry t)"
  by (simp add: entry_ok_def entry_shape_def text_entry_def newEntry_def empty_entry_def)

lemma live_loop_eq:
  "set keys \<subseteq> dom (map_of s) \<Longrightarrow> distinct keys \<Longrightarrow>
     fst (live_loop now keys s) = filter (\<lambda>k. view now s k \<noteq> None) keys \<and>
     view now (snd (live_loop now keys s)) = view now s"
proof (induction keys arbitrary: s)
  case (Cons key keys)
  have "set keys \<subseteq> dom (map_of (snd (at now s key)))"
    using Cons.prems by (auto simp: map_of_snd_at)
  from Cons.IH [OF this] Cons.prems(2) show ?case
    by (subst live_loop.simps, subst at_eq) (auto simp: split_beta split: option.splits)
qed simp

lemma live_eq:
  assumes "keys_distinct s"
  shows "fst (live now s) = sort (filter (\<lambda>k. view now s k \<noteq> None) (map fst s)) \<and>
    view now (snd (live now s)) = view now s"
  using live_loop_eq [of "map fst s" s now] assms
  by (simp add: live_def split_beta dom_map_of_conv_image_fst)

lemma set_live: "keys_distinct s \<Longrightarrow> set (fst (live now s)) = dom (view now s)"
proof -
  assume d: "keys_distinct s"
  have "k \<in> fst ` set s" if "view now s k \<noteq> None" for k
    using that map_of_eq_None_iff [of s k] by (auto simp: view_def split: option.splits)
  then show ?thesis using live_eq [OF d, of now] by auto
qed

lemma live_loop_ok: "space_ok s \<Longrightarrow> space_ok (snd (live_loop now keys s))"
proof (induction keys arbitrary: s)
  case (Cons key keys)
  have "space_ok (snd (at now s key))" using Cons.prems by (rule space_ok_at)
  from Cons.IH [OF this] show ?case
    by (subst live_loop.simps, subst at_eq) (auto simp: split_beta split: option.splits)
qed simp

lemma live_ok [inv_intros]: "space_ok s \<Longrightarrow> space_ok (snd (live now s))"
  by (simp add: live_def split_beta live_loop_ok)

section \<open>What the commands rely on\<close>

text \<open>A store seen through a lookup function: putting and dropping act on it as on a map. Sequences of
  puts and drops follow, later ones winning.\<close>

locale keyed_store =
  fixes look :: "'s \<Rightarrow> 'k \<Rightarrow> 'v option"
    and put :: "'s \<Rightarrow> 'k \<Rightarrow> 'v \<Rightarrow> 's"
    and discard :: "'s \<Rightarrow> 'k \<Rightarrow> 's"
    and good :: "'v \<Rightarrow> bool"
  assumes look_put: "good v \<Longrightarrow> look (put s k v) = (look s)(k \<mapsto> v)"
    and look_discard: "look (discard s k) = (look s)(k := None)"
begin

lemma look_put_all:
  "list_all good (map snd kvs) \<Longrightarrow>
     look (foldl (\<lambda>s (k, v). put s k v) s kvs) = look s ++ map_of (rev kvs)"
proof (induction kvs arbitrary: s)
  case (Cons kv kvs)
  then show ?case by (cases kv) (simp add: look_put map_add_upd_left map_add_assoc [symmetric] fun_eq_iff map_add_def split: option.splits)
qed simp

lemma look_discard_all: "look (foldl discard s ks) = look s |` (- set ks)"
  by (induction ks arbitrary: s) (auto simp: look_discard restrict_map_def fun_eq_iff)

lemma put_discard: "good v \<Longrightarrow> look (discard (put s k v) k) = look (discard s k)"
  by (simp add: look_put look_discard)

end

interpretation sp: keyed_store "view now" store "\<lambda>s key. AList.delete key s" "alive now"
  for now :: int
  by unfold_locales simp_all

interpretation hash: keyed_store map_of "\<lambda>h k v. AList.update k v h" "\<lambda>h k. AList.delete k h" "\<lambda>_. True"
  by unfold_locales simp_all

section \<open>The invariant through a command's reads\<close>

lemma of_kind_ok:
  assumes "space_ok s" "of_kind now s key want = (r, s')"
  shows "space_ok s'" "r = Inr (Some held) \<Longrightarrow> entry_ok held \<and> en_kind held = want"
  using assms space_ok_at [OF assms(1), of now key] space_ok_view [OF assms(1), of now key]
  by (auto simp: of_kind_eq split: option.splits if_splits)

lemma mutable_ok:
  assumes "space_ok s" "mutable now s key want = (r, s')"
  shows "r = Inl err \<Longrightarrow> space_ok s'"
    and "r = Inr held \<Longrightarrow> entry_shape held \<and> en_kind held = want"
    and "r = Inr held \<Longrightarrow> entry_ok e \<Longrightarrow> space_ok (store s' key e)"
proof -
  have new: "entry_shape (newEntry want) \<and> en_kind (newEntry want) = want"
    by (simp add: newEntry_def entry_shape_def)
  have again: "map_of (store (AList.update key x t) key e) = map_of (store t key e)" for x t
    by (simp add: store_def)
  obtain r0 s0 where r0: "of_kind now s key want = (r0, s0)" by force
  note ok = of_kind_ok [OF assms(1) r0]
  show "r = Inl err \<Longrightarrow> space_ok s'"
    using assms(2) r0 ok by (auto simp: mutable_def split: sum.splits option.splits)
  show "r = Inr held \<Longrightarrow> entry_shape held \<and> en_kind held = want"
    using assms(2) r0 ok new by (auto simp: mutable_def entry_ok_def split: sum.splits option.splits)
  show "r = Inr held \<Longrightarrow> entry_ok e \<Longrightarrow> space_ok (store s' key e)"
    using assms(2) r0 ok space_ok_store [OF ok(1), of e key] again
    by (auto simp: mutable_def space_ok_def store_def split: sum.splits option.splits)
qed

end
