(* ===== verification/KvCommands.thy ===== *)
theory KvCommands
  imports KvSpace
begin

text \<open>
  The command handlers of the cache: \<open>internal/kv/keyspace.go\<close>, \<open>strings.go\<close>, \<open>collections.go\<close> and
  \<open>server.go\<close>. A handler takes the instant it runs at, the selected space (or the executor, for the
  few commands that are not about one space) and the arguments after the verb, and returns a reply
  and the new state. Indexing past the arguments, or popping an empty list, is the outcome
  \<open>Panic\<close>; that neither happens is proved in the theory \<open>Kv\<close> from the command table's arities and the
  invariant.
\<close>

record kvbackend =
  b_spaces :: "space list"

record executor =
  x_backend :: kvbackend
  x_selected :: nat

type_synonym space_handler = "int \<Rightarrow> space \<Rightarrow> gostring list \<Rightarrow> kvres \<times> space"
type_synonym handler = "int \<Rightarrow> executor \<Rightarrow> gostring list \<Rightarrow> kvres \<times> executor"

text \<open>A read that answers \<open>absent\<close> for a missing key and fails on a key of another kind.\<close>

definition reading ::
  "int \<Rightarrow> space \<Rightarrow> gostring \<Rightarrow> kind \<Rightarrow> rvalue \<Rightarrow> (kventry \<Rightarrow> rvalue) \<Rightarrow> kvres \<times> space" where
  "reading now s key want absent f =
     (case of_kind now s key want of
        (Inl err, s) \<Rightarrow> (Fail (RedisErr err), s)
      | (Inr None, s) \<Rightarrow> (Ok (value_of absent), s)
      | (Inr (Some held), s) \<Rightarrow> (Ok (value_of (f held)), s))"

section \<open>Key space commands\<close>

definition fullCursor :: gostring where "fullCursor = ''0''"

fun del_loop :: "int \<Rightarrow> space \<Rightarrow> gostring list \<Rightarrow> nat \<times> space" where
  "del_loop now s [] = (0, s)"
| "del_loop now s (key # keys) =
     (case remove now s key of (hit, s) \<Rightarrow>
        case del_loop now s keys of (n, s) \<Rightarrow> ((if hit then Suc n else n), s))"

definition del_cmd :: space_handler where
  "del_cmd now s args = (case del_loop now s args of (n, s) \<Rightarrow> (Ok (value_of (VInt (int n))), s))"

fun exists_loop :: "int \<Rightarrow> space \<Rightarrow> gostring list \<Rightarrow> nat \<times> space" where
  "exists_loop now s [] = (0, s)"
| "exists_loop now s (key # keys) =
     (case at now s key of (held, s) \<Rightarrow>
        case exists_loop now s keys of (n, s) \<Rightarrow> ((if held \<noteq> None then Suc n else n), s))"

definition exists_cmd :: space_handler where
  "exists_cmd now s args = (case exists_loop now s args of (n, s) \<Rightarrow> (Ok (value_of (VInt (int n))), s))"

definition second :: int where "second = 1000000000"
definition millisecond :: int where "millisecond = 1000000"

definition deadline :: "int \<Rightarrow> int \<Rightarrow> int \<Rightarrow> gostring \<Rightarrow> gostring + int" where
  "deadline now count unit kind =
     (if count \<le> 0 \<or> count > quot MaxInt64 unit then Inl (invalidExpire kind)
      else Inr (now + count * unit))"

definition parseDeadline :: "int \<Rightarrow> gostring \<Rightarrow> int \<Rightarrow> gostring \<Rightarrow> gostring + int" where
  "parseDeadline now argument unit kind =
     (case ParseInt argument of None \<Rightarrow> Inl ErrNotInteger | Some count \<Rightarrow> deadline now count unit kind)"

fun expire :: space_handler where
  "expire now s (key # arg # _) =
     (case ParseInt arg of
        None \<Rightarrow> (Fail (RedisErr ErrNotInteger), s)
      | Some seconds \<Rightarrow>
          (case at now s key of
             (None, s) \<Rightarrow> (Ok (value_of (VInt 0)), s)
           | (Some held, s) \<Rightarrow>
               if seconds \<le> 0 then (Ok (value_of (VInt 1)), snd (remove now s key))
               else (case deadline now seconds second ''expire'' of
                       Inl err \<Rightarrow> (Fail (RedisErr err), s)
                     | Inr dies \<Rightarrow>
                         (Ok (value_of (VInt 1)), store s key (held\<lparr>en_expires := Some dies\<rparr>)))))"
| "expire now s _ = (Panic, s)"

text \<open>\<open>time.Until\<close> saturates at the largest duration; the sum is an \<open>int64\<close> and wraps.\<close>

definition ttl_seconds :: "int \<Rightarrow> int \<Rightarrow> int" where
  "ttl_seconds now dies =
     (let remaining = min MaxInt64 (dies - now) in quot (wrap64 (remaining + second - 1)) second)"

fun ttl :: space_handler where
  "ttl now s (key # _) =
     (case at now s key of
        (None, s) \<Rightarrow> (Ok (value_of (VInt (-2))), s)
      | (Some held, s) \<Rightarrow>
          (case en_expires held of
             None \<Rightarrow> (Ok (value_of (VInt (-1))), s)
           | Some dies \<Rightarrow> (Ok (value_of (VInt (ttl_seconds now dies))), s)))"
| "ttl now s [] = (Panic, s)"

fun typeOf :: space_handler where
  "typeOf now s (key # _) =
     (case at now s key of
        (None, s) \<Rightarrow> (Ok (status ''none''), s)
      | (Some held, s) \<Rightarrow> (Ok (status (kind_word (en_kind held))), s))"
| "typeOf now s [] = (Panic, s)"

definition matching :: "gostring list \<Rightarrow> gostring \<Rightarrow> gostring list" where
  "matching keys pattern = filter (matches pattern) keys"

fun keys_cmd :: space_handler where
  "keys_cmd now s (pattern # _) =
     (case live now s of (found, s) \<Rightarrow> (Ok (value_of (VStrs (matching found pattern))), s))"
| "keys_cmd now s [] = (Panic, s)"

fun scanOptions :: "gostring \<Rightarrow> gostring list \<Rightarrow> gostring + gostring" where
  "scanOptions pattern [] = Inr pattern"
| "scanOptions pattern [word] = Inl ErrSyntax"
| "scanOptions pattern (word # arg # rest) =
     (if ToUpper word = ''MATCH'' then scanOptions arg rest
      else if ToUpper word = ''COUNT'' then
        (case Atoi arg of
           None \<Rightarrow> Inl ErrNotInteger
         | Some count \<Rightarrow> if count < 1 then Inl ErrSyntax else scanOptions pattern rest)
      else Inl ErrSyntax)"

fun scan :: space_handler where
  "scan now s (arg # rest) =
     (case ParseUint 64 arg of
        None \<Rightarrow> (Fail (RedisErr ErrCursor), s)
      | Some cursor \<Rightarrow>
          (case scanOptions ''*'' rest of
             Inl err \<Rightarrow> (Fail (RedisErr err), s)
           | Inr pattern \<Rightarrow>
               if cursor \<noteq> 0 then (Ok (value_of (VList [VStr fullCursor, VStrs []])), s)
               else (case live now s of (found, s) \<Rightarrow>
                       (Ok (value_of (VList [VStr fullCursor, VStrs (matching found pattern)])), s))))"
| "scan now s [] = (Panic, s)"

section \<open>String commands\<close>

fun get_cmd :: space_handler where
  "get_cmd now s (key # _) = reading now s key kindString VNil (\<lambda>held. VStr (en_text held))"
| "get_cmd now s [] = (Panic, s)"

definition expiryUnits :: "(gostring \<times> int) list" where
  "expiryUnits = [(''EX'', second), (''PX'', millisecond)]"

record setOptions =
  so_dies :: "int option"
  so_keepTTL :: bool
  so_onlyIfNew :: bool
  so_onlyIfOld :: bool

fun set_words :: "int \<Rightarrow> setOptions \<Rightarrow> gostring list \<Rightarrow> gostring + setOptions" where
  "set_words now opts [] = Inr opts"
| "set_words now opts (arg # rest) =
     (let word = ToUpper arg in
      case map_of expiryUnits word of
        Some unit \<Rightarrow>
          (case rest of
             [] \<Rightarrow> Inl ErrSyntax
           | count # rest' \<Rightarrow>
               (case parseDeadline now count unit ''set'' of
                  Inl err \<Rightarrow> Inl err
                | Inr dies \<Rightarrow> set_words now (opts\<lparr>so_dies := Some dies\<rparr>) rest'))
      | None \<Rightarrow>
          if word = ''NX'' then set_words now (opts\<lparr>so_onlyIfNew := True\<rparr>) rest
          else if word = ''XX'' then set_words now (opts\<lparr>so_onlyIfOld := True\<rparr>) rest
          else if word = ''KEEPTTL'' then set_words now (opts\<lparr>so_keepTTL := True\<rparr>) rest
          else Inl ErrSyntax)"

definition readSetOptions :: "int \<Rightarrow> gostring list \<Rightarrow> gostring + setOptions" where
  "readSetOptions now args =
     (case set_words now \<lparr>so_dies = None, so_keepTTL = False, so_onlyIfNew = False, so_onlyIfOld = False\<rparr> args of
        Inl err \<Rightarrow> Inl err
      | Inr opts \<Rightarrow> if so_onlyIfNew opts \<and> so_onlyIfOld opts then Inl ErrSyntax else Inr opts)"

definition written_entry :: "gostring \<Rightarrow> setOptions \<Rightarrow> kventry option \<Rightarrow> kventry" where
  "written_entry text opts existing =
     (let written = text_entry text;
          written = (case existing of
                       Some held \<Rightarrow> if so_keepTTL opts then written\<lparr>en_expires := en_expires held\<rparr> else written
                     | None \<Rightarrow> written)
      in case so_dies opts of Some dies \<Rightarrow> written\<lparr>en_expires := Some dies\<rparr> | None \<Rightarrow> written)"

fun set_cmd :: space_handler where
  "set_cmd now s (key # text # words) =
     (case readSetOptions now words of
        Inl err \<Rightarrow> (Fail (RedisErr err), s)
      | Inr opts \<Rightarrow>
          (case at now s key of (existing, s) \<Rightarrow>
             if (so_onlyIfNew opts \<and> existing \<noteq> None) \<or> (so_onlyIfOld opts \<and> existing = None)
             then (Ok (value_of VNil), s)
             else (Ok (status ''OK''), store s key (written_entry text opts existing))))"
| "set_cmd now s _ = (Panic, s)"

fun setex :: space_handler where
  "setex now s (key # count # text # _) =
     (case parseDeadline now count second ''setex'' of
        Inl err \<Rightarrow> (Fail (RedisErr err), s)
      | Inr dies \<Rightarrow> (Ok (status ''OK''), store s key ((text_entry text)\<lparr>en_expires := Some dies\<rparr>)))"
| "setex now s _ = (Panic, s)"

fun getset :: space_handler where
  "getset now s (key # text # _) =
     (case of_kind now s key kindString of
        (Inl err, s) \<Rightarrow> (Fail (RedisErr err), s)
      | (Inr previous, s) \<Rightarrow>
          (Ok (value_of (case previous of None \<Rightarrow> VNil | Some held \<Rightarrow> VStr (en_text held))),
           store s key (text_entry text)))"
| "getset now s _ = (Panic, s)"

fun mget_loop :: "int \<Rightarrow> space \<Rightarrow> gostring list \<Rightarrow> rvalue list \<times> space" where
  "mget_loop now s [] = ([], s)"
| "mget_loop now s (key # keys) =
     (case at now s key of (held, s) \<Rightarrow>
        case mget_loop now s keys of (found, s) \<Rightarrow>
          ((case held of
              Some e \<Rightarrow> if en_kind e \<noteq> kindString then VNil else VStr (en_text e)
            | None \<Rightarrow> VNil) # found, s))"

definition mget :: space_handler where
  "mget now s args = (case mget_loop now s args of (found, s) \<Rightarrow> (Ok (value_of (VList found)), s))"

fun mset_loop :: "space \<Rightarrow> gostring list \<Rightarrow> space option" where
  "mset_loop s [] = Some s"
| "mset_loop s [key] = None"
| "mset_loop s (key # text # rest) = mset_loop (store s key (text_entry text)) rest"

definition mset_cmd :: space_handler where
  "mset_cmd now s args =
     (if length args mod 2 \<noteq> 0 then (Fail (RedisErr (wrongArity ''MSET'')), s)
      else (case mset_loop s args of None \<Rightarrow> (Panic, s) | Some s \<Rightarrow> (Ok (status ''OK''), s)))"

fun appendTo :: space_handler where
  "appendTo now s (key # extra # _) =
     (case mutable now s key kindString of
        (Inl err, s) \<Rightarrow> (Fail (RedisErr err), s)
      | (Inr held, s) \<Rightarrow>
          (Ok (value_of (VInt (int (length (en_text held @ extra))))),
           store s key (held\<lparr>en_text := en_text held @ extra\<rparr>)))"
| "appendTo now s _ = (Panic, s)"

fun strlen :: space_handler where
  "strlen now s (key # _) = reading now s key kindString (VInt 0) (\<lambda>held. VInt (int (length (en_text held))))"
| "strlen now s [] = (Panic, s)"

definition increment :: "int \<Rightarrow> space \<Rightarrow> gostring \<Rightarrow> int \<Rightarrow> kvres \<times> space" where
  "increment now s key delta =
     (case of_kind now s key kindString of
        (Inl err, s) \<Rightarrow> (Fail (RedisErr err), s)
      | (Inr found, s) \<Rightarrow>
          (case (case found of None \<Rightarrow> Some 0 | Some held \<Rightarrow> ParseInt (en_text held)) of
             None \<Rightarrow> (Fail (RedisErr ErrNotInteger), s)
           | Some current \<Rightarrow>
               (let total = wrap64 (current + delta) in
                if (delta > 0 \<and> total < current) \<or> (delta < 0 \<and> total > current)
                then (Fail (RedisErr ErrOverflow), s)
                else (let held = (case found of None \<Rightarrow> newEntry kindString | Some held \<Rightarrow> held)
                      in (Ok (value_of (VInt total)), store s key (held\<lparr>en_text := FormatInt total\<rparr>))))))"

fun incrementBy :: "int \<Rightarrow> space_handler" where
  "incrementBy delta now s (key # _) = increment now s key delta"
| "incrementBy delta now s [] = (Panic, s)"

fun incrementByArgument :: "int \<Rightarrow> space_handler" where
  "incrementByArgument sign now s (key # arg # _) =
     (case ParseInt arg of
        None \<Rightarrow> (Fail (RedisErr ErrNotInteger), s)
      | Some delta \<Rightarrow>
          if sign < 0 \<and> delta = MinInt64 then (Fail (RedisErr ErrOverflow), s)
          else increment now s key (wrap64 (sign * delta)))"
| "incrementByArgument sign now s _ = (Panic, s)"

section \<open>Collection commands\<close>

fun hset_loop :: "(gostring \<times> gostring) list \<Rightarrow> gostring list \<Rightarrow> (nat \<times> (gostring \<times> gostring) list) option" where
  "hset_loop hash [] = Some (0, hash)"
| "hset_loop hash [field] = None"
| "hset_loop hash (field # text # rest) =
     (case hset_loop (AList.update field text hash) rest of
        None \<Rightarrow> None
      | Some (n, hash') \<Rightarrow> Some ((if map_of hash field = None then Suc n else n), hash'))"

fun hset :: space_handler where
  "hset now s (key # pairs) =
     (if length (key # pairs) mod 2 \<noteq> 1 then (Fail (RedisErr (wrongArity ''HSET'')), s)
      else (case mutable now s key kindHash of
              (Inl err, s) \<Rightarrow> (Fail (RedisErr err), s)
            | (Inr held, s) \<Rightarrow>
                (case hset_loop (en_hash held) pairs of
                   None \<Rightarrow> (Panic, s)
                 | Some (added, hash) \<Rightarrow>
                     (Ok (value_of (VInt (int added))), store s key (held\<lparr>en_hash := hash\<rparr>)))))"
| "hset now s [] = (Fail (RedisErr (wrongArity ''HSET'')), s)"

fun hget :: space_handler where
  "hget now s (key # field # _) =
     reading now s key kindHash VNil
       (\<lambda>held. case map_of (en_hash held) field of None \<Rightarrow> VNil | Some text \<Rightarrow> VStr text)"
| "hget now s _ = (Panic, s)"

fun hdel_loop :: "(gostring \<times> gostring) list \<Rightarrow> gostring list \<Rightarrow> nat \<times> (gostring \<times> gostring) list" where
  "hdel_loop hash [] = (0, hash)"
| "hdel_loop hash (field # rest) =
     (if map_of hash field \<noteq> None
      then (case hdel_loop (AList.delete field hash) rest of (n, hash) \<Rightarrow> (Suc n, hash))
      else hdel_loop hash rest)"

fun hdel :: space_handler where
  "hdel now s (key # targets) =
     (case of_kind now s key kindHash of
        (Inl err, s) \<Rightarrow> (Fail (RedisErr err), s)
      | (Inr None, s) \<Rightarrow> (Ok (value_of (VInt 0)), s)
      | (Inr (Some held), s) \<Rightarrow>
          (case hdel_loop (en_hash held) targets of (removed, hash) \<Rightarrow>
             (let held = held\<lparr>en_hash := hash\<rparr>
              in (Ok (value_of (VInt (int removed))), prune (store s key held) key held))))"
| "hdel now s [] = (Panic, s)"

fun hgetall :: space_handler where
  "hgetall now s (key # _) = reading now s key kindHash (VMap []) (\<lambda>held. VMap (en_hash held))"
| "hgetall now s [] = (Panic, s)"

definition hashKeys :: "gostring \<Rightarrow> gostring \<Rightarrow> gostring" where "hashKeys field held = field"
definition hashValues :: "gostring \<Rightarrow> gostring \<Rightarrow> gostring" where "hashValues field held = held"

fun hfields :: "(gostring \<Rightarrow> gostring \<Rightarrow> gostring) \<Rightarrow> space_handler" where
  "hfields pick now s (key # _) =
     reading now s key kindHash (VStrs [])
       (\<lambda>held. VStrs (map (\<lambda>field. pick field (the (map_of (en_hash held) field))) (sorted_keys (en_hash held))))"
| "hfields pick now s [] = (Panic, s)"

datatype list_end = atFront | atBack

definition push_item :: "list_end \<Rightarrow> gostring list \<Rightarrow> gostring \<Rightarrow> gostring list" where
  "push_item side xs item = (if side = atFront then item # xs else xs @ [item])"

fun push :: "list_end \<Rightarrow> space_handler" where
  "push side now s (key # items) =
     (case mutable now s key kindList of
        (Inl err, s) \<Rightarrow> (Fail (RedisErr err), s)
      | (Inr held, s) \<Rightarrow>
          (let items = foldl (push_item side) (en_list held) items
           in (Ok (value_of (VInt (int (length items)))), store s key (held\<lparr>en_list := items\<rparr>))))"
| "push side now s [] = (Panic, s)"

fun pop :: "list_end \<Rightarrow> space_handler" where
  "pop side now s (key # _) =
     (case of_kind now s key kindList of
        (Inl err, s) \<Rightarrow> (Fail (RedisErr err), s)
      | (Inr None, s) \<Rightarrow> (Ok (value_of VNil), s)
      | (Inr (Some held), s) \<Rightarrow>
          (if en_list held = [] then (Panic, s)
           else (let (item, rest) = (if side = atFront then (hd (en_list held), tl (en_list held))
                                     else (last (en_list held), butlast (en_list held)));
                     held = held\<lparr>en_list := rest\<rparr>
                 in (Ok (value_of (VStr item)), prune (store s key held) key held))))"
| "pop side now s [] = (Panic, s)"

definition span :: "int \<Rightarrow> int \<Rightarrow> int \<Rightarrow> int \<times> int" where
  "span first final len =
     (let first = (if first < 0 then first + len else first);
          final = (if final < 0 then final + len else final);
          (first, final) = (max first 0, min final (len - 1))
      in if first > final then (0, 0) else (first, final + 1))"

text \<open>A Go slice expression \<open>xs[from:to]\<close>, which panics out of range.\<close>

definition go_slice :: "int \<Rightarrow> int \<Rightarrow> 'a list \<Rightarrow> 'a list option" where
  "go_slice from to xs =
     (if 0 \<le> from \<and> from \<le> to \<and> to \<le> int (length xs)
      then Some (take (nat to - nat from) (drop (nat from) xs)) else None)"

fun lrange :: space_handler where
  "lrange now s (key # a # b # _) =
     (case (Atoi a, Atoi b) of
        (Some first, Some final) \<Rightarrow>
          (case of_kind now s key kindList of
             (Inl err, s) \<Rightarrow> (Fail (RedisErr err), s)
           | (Inr None, s) \<Rightarrow> (Ok (value_of (VStrs [])), s)
           | (Inr (Some held), s) \<Rightarrow>
               (case span first final (int (length (en_list held))) of (from, to) \<Rightarrow>
                  (case go_slice from to (en_list held) of
                     None \<Rightarrow> (Panic, s)
                   | Some items \<Rightarrow> (Ok (value_of (VStrs items)), s))))
      | _ \<Rightarrow> (Fail (RedisErr ErrNotInteger), s))"
| "lrange now s _ = (Panic, s)"

fun llen :: space_handler where
  "llen now s (key # _) = reading now s key kindList (VInt 0) (\<lambda>held. VInt (int (length (en_list held))))"
| "llen now s [] = (Panic, s)"

fun sadd_loop :: "gostring list \<Rightarrow> gostring list \<Rightarrow> nat \<times> gostring list" where
  "sadd_loop members [] = (0, members)"
| "sadd_loop members (m # rest) =
     (if m \<notin> set members
      then (case sadd_loop (members @ [m]) rest of (n, members) \<Rightarrow> (Suc n, members))
      else sadd_loop members rest)"

fun sadd :: space_handler where
  "sadd now s (key # items) =
     (case mutable now s key kindSet of
        (Inl err, s) \<Rightarrow> (Fail (RedisErr err), s)
      | (Inr held, s) \<Rightarrow>
          (case sadd_loop (en_members held) items of (added, members) \<Rightarrow>
             (Ok (value_of (VInt (int added))), store s key (held\<lparr>en_members := members\<rparr>))))"
| "sadd now s [] = (Panic, s)"

fun srem_loop :: "gostring list \<Rightarrow> gostring list \<Rightarrow> nat \<times> gostring list" where
  "srem_loop members [] = (0, members)"
| "srem_loop members (m # rest) =
     (if m \<in> set members
      then (case srem_loop (remove1 m members) rest of (n, members) \<Rightarrow> (Suc n, members))
      else srem_loop members rest)"

fun srem :: space_handler where
  "srem now s (key # items) =
     (case of_kind now s key kindSet of
        (Inl err, s) \<Rightarrow> (Fail (RedisErr err), s)
      | (Inr None, s) \<Rightarrow> (Ok (value_of (VInt 0)), s)
      | (Inr (Some held), s) \<Rightarrow>
          (case srem_loop (en_members held) items of (removed, members) \<Rightarrow>
             (let held = held\<lparr>en_members := members\<rparr>
              in (Ok (value_of (VInt (int removed))), prune (store s key held) key held))))"
| "srem now s [] = (Panic, s)"

fun smembers :: space_handler where
  "smembers now s (key # _) = reading now s key kindSet (VStrs []) (\<lambda>held. VStrs (sort (en_members held)))"
| "smembers now s [] = (Panic, s)"

fun sismember :: space_handler where
  "sismember now s (key # m # _) =
     reading now s key kindSet (VInt 0) (\<lambda>held. VInt (if m \<in> set (en_members held) then 1 else 0))"
| "sismember now s _ = (Panic, s)"

fun scard :: space_handler where
  "scard now s (key # _) = reading now s key kindSet (VInt 0) (\<lambda>held. VInt (int (length (en_members held))))"
| "scard now s [] = (Panic, s)"

section \<open>Server commands\<close>

definition databases :: nat where "databases = 16"
definition serverVersion :: gostring where "serverVersion = ''7.2.0''"
definition crlf :: gostring where "crlf = [CHR 0x0D, CHR 0x0A]"

fun ping :: handler where
  "ping now e [] = (Ok (status ''PONG''), e)"
| "ping now e (arg # _) = (Ok (value_of (VStr arg)), e)"

fun echo :: handler where
  "echo now e (arg # _) = (Ok (value_of (VStr arg)), e)"
| "echo now e [] = (Panic, e)"

fun selectDatabase :: handler where
  "selectDatabase now e (arg # _) =
     (case Atoi arg of
        None \<Rightarrow> (Fail (RedisErr ErrNotInteger), e)
      | Some index \<Rightarrow>
          if index < 0 \<or> index \<ge> int databases then (Fail (RedisErr ErrDBIndex), e)
          else (Ok (status ''OK''), e\<lparr>x_selected := nat index\<rparr>))"
| "selectDatabase now e [] = (Panic, e)"

fun info_loop :: "int \<Rightarrow> nat \<Rightarrow> space list \<Rightarrow> gostring \<times> space list" where
  "info_loop now index [] = ([], [])"
| "info_loop now index (s # spaces) =
     (case live now s of (found, s) \<Rightarrow>
        case (if found \<noteq> []
              then (case expiring now s of (n, s) \<Rightarrow>
                      (''db'' @ FormatInt (int index) @ '':keys='' @ FormatInt (int (length found))
                        @ '',expires='' @ FormatInt (int n) @ '',avg_ttl=0'' @ crlf, s))
              else ([], s)) of (line, s) \<Rightarrow>
          case info_loop now (Suc index) spaces of (lines, spaces) \<Rightarrow> (line @ lines, s # spaces))"

definition info_cmd :: handler where
  "info_cmd now e args =
     (case info_loop now 0 (b_spaces (x_backend e)) of (lines, spaces) \<Rightarrow>
        (Ok (value_of (VStr
           (''# Server'' @ crlf @ ''redis_version:'' @ serverVersion @ crlf @ ''redis_mode:standalone'' @ crlf
            @ crlf @ ''# Emu'' @ crlf @ ''emulated:1'' @ crlf
            @ crlf @ ''# Keyspace'' @ crlf @ lines))),
         e\<lparr>x_backend := (x_backend e)\<lparr>b_spaces := spaces\<rparr>\<rparr>))"

definition dbsize :: space_handler where
  "dbsize now s args = (case live now s of (found, s) \<Rightarrow> (Ok (value_of (VInt (int (length found)))), s))"

definition flushdb :: space_handler where
  "flushdb now s args = (Ok (status ''OK''), flush s)"

end
