(* ===== verification/Kv.thy ===== *)
theory Kv
  imports KvCommands
begin

text \<open>
  The cache backend of \<open>internal/kv/kv.go\<close> and the command table of \<open>commands.go\<close>: seeding, opening an
  executor per connection, and running one decoded command. The first group of lemmas is the
  safety of the table: under the invariant that no collection is present and empty, no command
  panics and every command keeps the invariant. The others give the behaviour of the commands on
  every branch, in terms of what a client can see of a space.
\<close>

section \<open>The command table\<close>

definition on_space :: "space_handler \<Rightarrow> handler" where
  "on_space h now e args =
     (if x_selected e < length (b_spaces (x_backend e))
      then (case h now (b_spaces (x_backend e) ! x_selected e) args of (r, s) \<Rightarrow>
              (r, e\<lparr>x_backend := (x_backend e)\<lparr>b_spaces := (b_spaces (x_backend e))[x_selected e := s]\<rparr>\<rparr>))
      else (Panic, e))"

definition commands :: "(gostring \<times> int \<times> int \<times> handler) list" where
  "commands =
    [(''PING'', 0, 1, ping),
     (''ECHO'', 1, 1, echo),
     (''SELECT'', 1, 1, selectDatabase),
     (''INFO'', 0, 1, info_cmd),
     (''DBSIZE'', 0, 0, on_space dbsize),
     (''FLUSHDB'', 0, 1, on_space flushdb),
     (''DEL'', 1, -1, on_space del_cmd),
     (''EXISTS'', 1, -1, on_space exists_cmd),
     (''EXPIRE'', 2, 2, on_space expire),
     (''TTL'', 1, 1, on_space ttl),
     (''TYPE'', 1, 1, on_space typeOf),
     (''KEYS'', 1, 1, on_space keys_cmd),
     (''SCAN'', 1, -1, on_space scan),
     (''GET'', 1, 1, on_space get_cmd),
     (''SET'', 2, -1, on_space set_cmd),
     (''SETEX'', 3, 3, on_space setex),
     (''GETSET'', 2, 2, on_space getset),
     (''MGET'', 1, -1, on_space mget),
     (''MSET'', 2, -1, on_space mset_cmd),
     (''APPEND'', 2, 2, on_space appendTo),
     (''STRLEN'', 1, 1, on_space strlen),
     (''INCR'', 1, 1, on_space (incrementBy 1)),
     (''DECR'', 1, 1, on_space (incrementBy (-1))),
     (''INCRBY'', 2, 2, on_space (incrementByArgument 1)),
     (''DECRBY'', 2, 2, on_space (incrementByArgument (-1))),
     (''HSET'', 3, -1, on_space hset),
     (''HGET'', 2, 2, on_space hget),
     (''HDEL'', 2, -1, on_space hdel),
     (''HGETALL'', 1, 1, on_space hgetall),
     (''HKEYS'', 1, 1, on_space (hfields hashKeys)),
     (''HVALS'', 1, 1, on_space (hfields hashValues)),
     (''LPUSH'', 2, -1, on_space (push atFront)),
     (''RPUSH'', 2, -1, on_space (push atBack)),
     (''LPOP'', 1, 1, on_space (pop atFront)),
     (''RPOP'', 1, 1, on_space (pop atBack)),
     (''LRANGE'', 3, 3, on_space lrange),
     (''LLEN'', 1, 1, on_space llen),
     (''SADD'', 2, -1, on_space sadd),
     (''SREM'', 2, -1, on_space srem),
     (''SMEMBERS'', 1, 1, on_space smembers),
     (''SISMEMBER'', 2, 2, on_space sismember),
     (''SCARD'', 1, 1, on_space scard)]"

section \<open>The backend\<close>

definition kv_New :: kvbackend where
  "kv_New = \<lparr>b_spaces = replicate databases newSpace\<rparr>"

definition kv_Open :: "kvbackend \<Rightarrow> executor" where
  "kv_Open b = \<lparr>x_backend = b, x_selected = 0\<rparr>"

text \<open>The lesson's seed as \<open>encoding/json\<close> decodes it: nothing, an object of keys to values, or
  anything else.\<close>

datatype seed_doc = NoSeed | SeedObject "(gostring \<times> seed_value) list" | SeedMalformed

fun seed_keys :: "(gostring \<times> seed_value) list \<Rightarrow> gostring list \<Rightarrow> space \<Rightarrow> (gostring \<times> gostring) option \<times> space" where
  "seed_keys seed [] s = (None, s)"
| "seed_keys seed (key # keys) s =
     (case seed_key s key (the (map_of seed key)) of
        Inl err \<Rightarrow> (Some (key, err), s)
      | Inr s \<Rightarrow> seed_keys seed keys s)"

datatype seed_error = SeedWantsObject | SeedKeyFailed gostring gostring

definition kv_Seed :: "seed_doc \<Rightarrow> kvbackend \<Rightarrow> seed_error option \<times> kvbackend" where
  "kv_Seed raw b =
     (case raw of
        NoSeed \<Rightarrow> (None, b)
      | SeedMalformed \<Rightarrow> (Some SeedWantsObject, b)
      | SeedObject seed \<Rightarrow>
          (case seed_keys seed (sorted_keys seed) (b_spaces b ! 0) of (err, s) \<Rightarrow>
             (map_option (\<lambda>(key, why). SeedKeyFailed key why) err, b\<lparr>b_spaces := (b_spaces b)[0 := s]\<rparr>)))"

definition run :: "int \<Rightarrow> gostring \<Rightarrow> gostring list \<Rightarrow> executor \<Rightarrow> kvres \<times> executor" where
  "run now kind argv e =
     (case map_of commands kind of
        None \<Rightarrow> (if argv = [] then (Panic, e) else (Fail (RedisErr (unknownCommand argv)), e))
      | Some (least, most, handle) \<Rightarrow>
          (if argv = [] then (Panic, e)
           else let args = tl argv; n = int (length args)
                in if n < least \<or> (most \<ge> 0 \<and> n > most)
                   then (Fail (RedisErr (wrongArity kind)), e)
                   else handle now e args))"

text \<open>A payload is the argument vector the protocol decoded, or nothing.\<close>

type_synonym kvop = "gostring list option op"

definition kv_Exec :: "int \<Rightarrow> kvop \<Rightarrow> executor \<Rightarrow> kvres \<times> executor" where
  "kv_Exec now o' e =
     (if op_Kind o' = KindConnect then (Ok empty_Result, e)
      else (case op_Payload o' of
              None \<Rightarrow> (Fail (PlainErr (''the cache backend was handed a '' @ op_Kind o' @ '' with no command'')), e)
            | Some [] \<Rightarrow> (Fail (PlainErr (''the cache backend was handed a '' @ op_Kind o' @ '' with no command'')), e)
            | Some argv \<Rightarrow> run now (op_Kind o') argv e))"

definition kv_Abort :: "kvop \<Rightarrow> executor \<Rightarrow> executor" where
  "kv_Abort o' e = e"

interpretation kv: forgetful_backend "kv_Exec now" kv_Abort for now :: int
  by unfold_locales (simp add: kv_Abort_def)

definition kv_ok :: "executor \<Rightarrow> bool" where
  "kv_ok e \<longleftrightarrow> length (b_spaces (x_backend e)) = databases \<and> x_selected e < databases \<and>
     list_all space_ok (b_spaces (x_backend e))"

section \<open>Safety of the handlers\<close>

definition safe :: "space_handler \<Rightarrow> (nat \<Rightarrow> bool) \<Rightarrow> bool" where
  "safe h arity \<longleftrightarrow> (\<forall>now s args. space_ok s \<longrightarrow> arity (length args) \<longrightarrow>
     \<not> is_panic (fst (h now s args)) \<and> space_ok (snd (h now s args)))"

lemma safeI:
  "(\<And>now s args. space_ok s \<Longrightarrow> arity (length args) \<Longrightarrow>
      \<not> is_panic (fst (h now s args)) \<and> space_ok (snd (h now s args))) \<Longrightarrow> safe h arity"
  by (simp add: safe_def)

lemma reading_safe:
  "space_ok s \<Longrightarrow> \<not> is_panic (fst (reading now s key want a f)) \<and> space_ok (snd (reading now s key want a f))"
  using space_ok_at [of s now key]
  by (auto simp: reading_def of_kind_eq split: option.splits sum.splits if_splits)

text \<open>Read-only handlers: one key, or one key and an argument.\<close>

lemma safe_readers:
  "safe get_cmd (\<lambda>n. n = 1)" "safe strlen (\<lambda>n. n = 1)" "safe hgetall (\<lambda>n. n = 1)"
  "safe (hfields pick) (\<lambda>n. n = 1)" "safe llen (\<lambda>n. n = 1)" "safe smembers (\<lambda>n. n = 1)"
  "safe scard (\<lambda>n. n = 1)" "safe hget (\<lambda>n. n = 2)" "safe sismember (\<lambda>n. n = 2)"
  by (auto intro!: safeI simp: length_Suc_conv numeral_2_eq_2 reading_safe)

lemma remove_ok: "space_ok s \<Longrightarrow> space_ok (snd (remove now s key))"
  using space_ok_at [of s now key] by (auto simp: remove_def split_beta intro: space_ok_delete split: option.splits)

lemma del_loop_ok: "space_ok s \<Longrightarrow> space_ok (snd (del_loop now s keys))"
  by (induction keys arbitrary: s) (simp_all add: split_beta remove_ok)

lemma exists_loop_ok: "space_ok s \<Longrightarrow> space_ok (snd (exists_loop now s keys))"
  by (induction keys arbitrary: s) (simp_all add: split_beta space_ok_at)

lemma mget_loop_ok: "space_ok s \<Longrightarrow> space_ok (snd (mget_loop now s keys))"
  by (induction keys arbitrary: s) (simp_all add: split_beta space_ok_at)

lemma safe_loops:
  "safe del_cmd arity" "safe exists_cmd arity" "safe mget arity" "safe dbsize arity" "safe flushdb arity"
  by (auto intro!: safeI simp: del_cmd_def exists_cmd_def mget_def dbsize_def flushdb_def flush_def
      split_beta del_loop_ok exists_loop_ok mget_loop_ok live_ok space_ok_empty)

lemma entry_ok_expires [simp]: "entry_ok (e\<lparr>en_expires := d\<rparr>) = entry_ok e"
  by (simp add: entry_ok_def entry_shape_def empty_entry_def)

lemma entry_ok_textual:
  "entry_shape e \<Longrightarrow> en_kind e = kindString \<Longrightarrow> entry_ok (e\<lparr>en_text := t\<rparr>)"
  by (simp add: entry_ok_def entry_shape_def empty_entry_def)

lemma safe_ttl: "safe ttl (\<lambda>n. n = 1)" "safe typeOf (\<lambda>n. n = 1)" "safe keys_cmd (\<lambda>n. n = 1)"
  "safe scan (\<lambda>n. 1 \<le> n)"
proof -
  show "safe ttl (\<lambda>n. n = 1)" "safe typeOf (\<lambda>n. n = 1)"
    by (auto intro!: safeI simp: length_Suc_conv split_beta space_ok_at split: option.splits)
  show "safe keys_cmd (\<lambda>n. n = 1)"
    by (auto intro!: safeI simp: length_Suc_conv split_beta live_ok)
  show "safe scan (\<lambda>n. 1 \<le> n)"
  proof (rule safeI)
    fix now s and args :: "gostring list"
    assume "space_ok s" "1 \<le> length args"
    then show "\<not> is_panic (fst (scan now s args)) \<and> space_ok (snd (scan now s args))"
      by (cases args) (auto simp: split_beta live_ok split: option.splits sum.splits)
  qed
qed

text \<open>Handlers that write.\<close>

lemma safe_expire: "safe expire (\<lambda>n. n = 2)"
proof (rule safeI)
  fix now s and args :: "gostring list"
  assume ok: "space_ok s" and "length args = 2"
  then obtain key arg where args: "args = [key, arg]" by (auto simp: length_Suc_conv numeral_2_eq_2)
  have ok': "space_ok (snd (at now s key))" using ok by (rule space_ok_at)
  show "\<not> is_panic (fst (expire now s args)) \<and> space_ok (snd (expire now s args))"
    using ok ok' space_ok_view [OF ok, of now key] fst_at [of now s key]
    by (auto simp: args split_beta remove_ok space_ok_store split: option.splits sum.splits)
qed

lemma written_entry_ok: "entry_ok (written_entry text opts existing)"
  by (simp add: written_entry_def Let_def split: option.split)

lemma mset_loop_ok:
  "space_ok s \<Longrightarrow> even (length args) \<Longrightarrow> \<exists>s'. mset_loop s args = Some s' \<and> space_ok s'"
  by (induction s args rule: mset_loop.induct) (simp_all add: space_ok_store)

lemma safe_setters:
  "safe set_cmd (\<lambda>n. 2 \<le> n)" "safe setex (\<lambda>n. n = 3)" "safe mset_cmd arity"
proof -
  show "safe set_cmd (\<lambda>n. 2 \<le> n)"
  proof (rule safeI)
    fix now s and args :: "gostring list"
    assume ok: "space_ok s" and "2 \<le> length args"
    then obtain key t ws where "args = key # t # ws"
      by (metis Suc_le_length_iff numeral_2_eq_2)
    then show "\<not> is_panic (fst (set_cmd now s args)) \<and> space_ok (snd (set_cmd now s args))"
      using ok by (auto simp: split_beta space_ok_at space_ok_store written_entry_ok split: sum.splits)
  qed
  show "safe setex (\<lambda>n. n = 3)"
    by (auto intro!: safeI simp: length_Suc_conv numeral_3_eq_3 space_ok_store split: sum.splits)
  show "safe mset_cmd arity"
  proof (rule safeI)
    fix now s and args :: "gostring list"
    assume "space_ok s"
    then show "\<not> is_panic (fst (mset_cmd now s args)) \<and> space_ok (snd (mset_cmd now s args))"
      using mset_loop_ok [of s args] by (cases "even (length args)") (auto simp: mset_cmd_def even_iff_mod_2_eq_zero)
  qed
qed

lemma safe_getset: "safe getset (\<lambda>n. n = 2)"
  by (auto intro!: safeI simp: length_Suc_conv numeral_2_eq_2 of_kind_eq space_ok_at space_ok_store
      split: option.splits if_splits)

lemma safe_append: "safe appendTo (\<lambda>n. n = 2)"
proof (rule safeI)
  fix now s and args :: "gostring list"
  assume ok: "space_ok s" and "length args = 2"
  then obtain key t where args: "args = [key, t]" by (auto simp: length_Suc_conv numeral_2_eq_2)
  obtain r s' where m: "mutable now s key kindString = (r, s')" by force
  note mok = mutable_ok [OF ok m]
  show "\<not> is_panic (fst (appendTo now s args)) \<and> space_ok (snd (appendTo now s args))"
  proof (cases r)
    case (Inr held)
    with mok(2) [OF Inr] have "entry_ok (held\<lparr>en_text := en_text held @ t\<rparr>)" by (simp add: entry_ok_textual)
    from mok(3) [OF Inr this] show ?thesis by (simp add: args m Inr)
  qed (use mok in \<open>simp add: args m\<close>)
qed

lemma increment_safe:
  assumes ok: "space_ok s"
  shows "\<not> is_panic (fst (increment now s key delta)) \<and> space_ok (snd (increment now s key delta))"
proof -
  obtain r s' where o': "of_kind now s key kindString = (r, s')" by force
  note ook = of_kind_ok [OF ok o']
  have "entry_ok ((newEntry kindString)\<lparr>en_text := t\<rparr>)" for t
    by (intro entry_ok_textual) (simp_all add: newEntry_def entry_shape_def)
  moreover have "entry_ok (held\<lparr>en_text := t\<rparr>)" if "r = Inr (Some held)" for held t
    using ook(2) [OF that] by (intro entry_ok_textual) (simp_all add: entry_ok_def)
  ultimately show ?thesis
    using ook(1) by (auto simp: increment_def o' Let_def space_ok_store split: sum.splits option.splits)
qed

lemma safe_increments:
  "safe (incrementBy d) (\<lambda>n. n = 1)" "safe (incrementByArgument d) (\<lambda>n. n = 2)"
  by (auto intro!: safeI simp: length_Suc_conv numeral_2_eq_2 increment_safe split: option.splits if_splits)

lemma hset_loop_ok:
  "keys_distinct hash \<Longrightarrow> even (length args) \<Longrightarrow>
     \<exists>n hash'. hset_loop hash args = Some (n, hash') \<and> keys_distinct hash' \<and> (args \<noteq> [] \<longrightarrow> hash' \<noteq> [])"
proof (induction hash args rule: hset_loop.induct)
  case (3 hash field t rest)
  have "AList.update field t hash \<noteq> []" by (cases hash) auto
  with 3 show ?case by (cases rest) auto
qed simp_all

lemma safe_hset: "safe hset (\<lambda>n. 3 \<le> n)"
proof (rule safeI)
  fix now s and args :: "gostring list"
  assume ok: "space_ok s" and n: "3 \<le> length args"
  then obtain key pairs where args: "args = key # pairs" "pairs \<noteq> []"
    by (cases args) (force, metis Suc_le_length_iff Suc_le_mono length_Cons list.distinct(1) numeral_3_eq_3)
  obtain r s' where m: "mutable now s key kindHash = (r, s')" by force
  note mok = mutable_ok [OF ok m]
  show "\<not> is_panic (fst (hset now s args)) \<and> space_ok (snd (hset now s args))"
  proof (cases "even (length pairs)")
    case True
    show ?thesis
    proof (cases r)
      case (Inr held)
      note held = mok(2) [OF Inr]
      obtain a hash where h: "hset_loop (en_hash held) pairs = Some (a, hash)" "keys_distinct hash" "hash \<noteq> []"
        using hset_loop_ok [of "en_hash held" pairs] held True args by (auto simp: entry_shape_def)
      then have "entry_ok (held\<lparr>en_hash := hash\<rparr>)"
        using held by (simp add: entry_ok_def entry_shape_def empty_entry_def)
      from mok(3) [OF Inr this] show ?thesis using True by (simp add: args m Inr h mod_Suc even_iff_mod_2_eq_zero)
    qed (use mok True in \<open>simp add: args m mod_Suc even_iff_mod_2_eq_zero\<close>)
  qed (use ok in \<open>simp add: args mod_Suc odd_iff_mod_2_eq_one\<close>)
qed

lemma prune_ok:
  assumes "space_ok s" "entry_shape held"
  shows "space_ok (prune (store s key held) key held)"
proof (cases "empty_entry held")
  case True
  have "map_of (AList.delete key (store s key held)) = map_of (AList.delete key s)" by (simp add: store_def)
  moreover have "keys_distinct (AList.delete key (store s key held))"
    using assms(1) by (simp add: space_ok_def store_def)
  ultimately show ?thesis using True space_ok_delete [OF assms(1), of key]
    by (simp add: prune_def space_ok_def)
qed (use assms in \<open>simp add: prune_def space_ok_store entry_ok_def\<close>)

lemma hdel_loop_distinct: "keys_distinct hash \<Longrightarrow> keys_distinct (snd (hdel_loop hash fs))"
  by (induction hash fs rule: hdel_loop.induct) (simp_all add: split_beta)

lemma srem_loop_distinct: "distinct ms \<Longrightarrow> distinct (snd (srem_loop ms xs))"
  by (induction ms xs rule: srem_loop.induct) (simp_all add: split_beta)

lemma sadd_loop_distinct:
  "distinct ms \<Longrightarrow> distinct (snd (sadd_loop ms xs)) \<and> set (snd (sadd_loop ms xs)) = set ms \<union> set xs"
  by (induction ms xs rule: sadd_loop.induct) (auto simp: split_beta)

lemma safe_removers: "safe hdel (\<lambda>n. 1 \<le> n)" "safe srem (\<lambda>n. 1 \<le> n)"
proof -
  show "safe hdel (\<lambda>n. 1 \<le> n)"
  proof (rule safeI)
    fix now s and args :: "gostring list"
    assume ok: "space_ok s" and "1 \<le> length args"
    then obtain key fs where args: "args = key # fs" by (cases args) auto
    obtain r s' where o': "of_kind now s key kindHash = (r, s')" by force
    note ook = of_kind_ok [OF ok o']
    have "entry_shape (held\<lparr>en_hash := snd (hdel_loop (en_hash held) fs)\<rparr>)" if "r = Inr (Some held)" for held
      using ook(2) [OF that] hdel_loop_distinct [of "en_hash held" fs] by (simp add: entry_ok_def entry_shape_def)
    then show "\<not> is_panic (fst (hdel now s args)) \<and> space_ok (snd (hdel now s args))"
      using ook(1) by (auto simp: args o' split_beta Let_def prune_ok split: sum.splits option.splits)
  qed
  show "safe srem (\<lambda>n. 1 \<le> n)"
  proof (rule safeI)
    fix now s and args :: "gostring list"
    assume ok: "space_ok s" and "1 \<le> length args"
    then obtain key ms where args: "args = key # ms" by (cases args) auto
    obtain r s' where o': "of_kind now s key kindSet = (r, s')" by force
    note ook = of_kind_ok [OF ok o']
    have "entry_shape (held\<lparr>en_members := snd (srem_loop (en_members held) ms)\<rparr>)" if "r = Inr (Some held)" for held
      using ook(2) [OF that] srem_loop_distinct [of "en_members held" ms] by (simp add: entry_ok_def entry_shape_def)
    then show "\<not> is_panic (fst (srem now s args)) \<and> space_ok (snd (srem now s args))"
      using ook(1) by (auto simp: args o' split_beta Let_def prune_ok split: sum.splits option.splits)
  qed
qed

lemma length_foldl_push_item [simp]: "length (foldl (push_item side) xs items) = length xs + length items"
  by (induction items arbitrary: xs) (simp_all add: push_item_def)

lemma safe_adders: "safe (push side) (\<lambda>n. 2 \<le> n)" "safe sadd (\<lambda>n. 2 \<le> n)"
proof -
  have nonempty: "\<exists>key x xs. args = key # x # xs" if "2 \<le> length args" for args :: "gostring list"
    using that by (metis Suc_le_length_iff numeral_2_eq_2)
  show "safe (push side) (\<lambda>n. 2 \<le> n)"
  proof (rule safeI)
    fix now s and args :: "gostring list"
    assume ok: "space_ok s" and n: "2 \<le> length args"
    from nonempty [OF n] obtain key x xs where args: "args = key # x # xs" by blast
    obtain r s' where m: "mutable now s key kindList = (r, s')" by force
    note mok = mutable_ok [OF ok m]
    have "entry_ok (held\<lparr>en_list := foldl (push_item side) (en_list held) (x # xs)\<rparr>)" if "r = Inr held" for held
      using mok(2) [OF that] length_foldl_push_item [of side "en_list held" "x # xs"]
      by (simp add: entry_ok_def entry_shape_def empty_entry_def del: length_foldl_push_item foldl.simps)
    then show "\<not> is_panic (fst (push side now s args)) \<and> space_ok (snd (push side now s args))"
      using mok(1,3) by (auto simp: args m Let_def simp del: foldl.simps split: sum.splits)
  qed
  show "safe sadd (\<lambda>n. 2 \<le> n)"
  proof (rule safeI)
    fix now s and args :: "gostring list"
    assume ok: "space_ok s" and n: "2 \<le> length args"
    from nonempty [OF n] obtain key x xs where args: "args = key # x # xs" by blast
    obtain r s' where m: "mutable now s key kindSet = (r, s')" by force
    note mok = mutable_ok [OF ok m]
    have "entry_ok (held\<lparr>en_members := snd (sadd_loop (en_members held) (x # xs))\<rparr>)" if "r = Inr held" for held
      using mok(2) [OF that] sadd_loop_distinct [of "en_members held" "x # xs"]
      by (auto simp: entry_ok_def entry_shape_def empty_entry_def simp del: sadd_loop.simps)
    then show "\<not> is_panic (fst (sadd now s args)) \<and> space_ok (snd (sadd now s args))"
      using mok(1,3) by (auto simp: args m split_beta simp del: sadd_loop.simps split: sum.splits)
  qed
qed

lemma safe_pop: "safe (pop side) (\<lambda>n. n = 1)"
proof (rule safeI)
  fix now s and args :: "gostring list"
  assume ok: "space_ok s" and "length args = 1"
  then obtain key where args: "args = [key]" by (auto simp: length_Suc_conv)
  obtain r s' where o': "of_kind now s key kindList = (r, s')" by force
  note ook = of_kind_ok [OF ok o']
  have "en_list held \<noteq> [] \<and> entry_shape (held\<lparr>en_list := items\<rparr>)" if "r = Inr (Some held)" for held items
    using ook(2) [OF that] by (auto simp: entry_ok_def entry_shape_def empty_entry_def)
  then show "\<not> is_panic (fst (pop side now s args)) \<and> space_ok (snd (pop side now s args))"
    using ook(1) by (auto simp: args o' split_beta Let_def prune_ok split: sum.splits option.splits)
qed

lemma span_bounds:
  "0 \<le> len \<Longrightarrow> case span first final len of (from, to) \<Rightarrow> 0 \<le> from \<and> from \<le> to \<and> to \<le> len"
  by (auto simp: span_def Let_def)

lemma go_slice_span [simp]: "go_slice (fst (span a b (int (length xs)))) (snd (span a b (int (length xs)))) xs \<noteq> None"
  using span_bounds [of "int (length xs)" a b] by (auto simp: go_slice_def split_beta)

lemma safe_lrange: "safe lrange (\<lambda>n. n = 3)"
proof (rule safeI)
  fix now s and args :: "gostring list"
  assume ok: "space_ok s" and "length args = 3"
  then obtain key a b where args: "args = [key, a, b]" by (auto simp: length_Suc_conv numeral_3_eq_3)
  obtain r s' where o': "of_kind now s key kindList = (r, s')" by force
  note ook = of_kind_ok [OF ok o']
  show "\<not> is_panic (fst (lrange now s args)) \<and> space_ok (snd (lrange now s args))"
    using ook(1) ok by (auto simp: args o' split_beta split: sum.splits option.splits)
qed

lemmas safe_handlers = safe_readers safe_loops safe_ttl safe_expire safe_setters safe_getset
  safe_append safe_increments safe_hset safe_removers safe_adders safe_pop safe_lrange

section \<open>Safety of the table\<close>

definition safe_command :: "int \<Rightarrow> int \<Rightarrow> handler \<Rightarrow> bool" where
  "safe_command least most h \<longleftrightarrow> (\<forall>now e args. kv_ok e \<longrightarrow> least \<le> int (length args) \<longrightarrow>
     (most < 0 \<or> int (length args) \<le> most) \<longrightarrow> \<not> is_panic (fst (h now e args)) \<and> kv_ok (snd (h now e args)))"

lemma kv_ok_update:
  "kv_ok e \<Longrightarrow> space_ok s \<Longrightarrow>
     kv_ok (e\<lparr>x_backend := (x_backend e)\<lparr>b_spaces := (b_spaces (x_backend e))[x_selected e := s]\<rparr>\<rparr>)"
  by (auto simp: kv_ok_def list_all_iff dest!: set_update_subset_insert [THEN subsetD])

lemma safe_on_space:
  assumes "safe h arity" "\<And>n. least \<le> int n \<Longrightarrow> most < 0 \<or> int n \<le> most \<Longrightarrow> arity n"
  shows "safe_command least most (on_space h)"
  unfolding safe_command_def
proof (intro allI impI)
  fix now e and args :: "gostring list"
  assume e: "kv_ok e" and "least \<le> int (length args)" "most < 0 \<or> int (length args) \<le> most"
  then have "arity (length args)" by (intro assms(2))
  moreover have sel: "x_selected e < length (b_spaces (x_backend e))" using e by (simp add: kv_ok_def)
  moreover have "space_ok (b_spaces (x_backend e) ! x_selected e)"
    using e sel by (simp add: kv_ok_def list_all_length)
  ultimately show "\<not> is_panic (fst (on_space h now e args)) \<and> kv_ok (snd (on_space h now e args))"
    using assms(1) kv_ok_update [OF e] by (auto simp: on_space_def safe_def split_beta)
qed

lemma info_loop_ok:
  "list_all space_ok spaces \<Longrightarrow>
     list_all space_ok (snd (info_loop now k spaces)) \<and> length (snd (info_loop now k spaces)) = length spaces"
  by (induction spaces arbitrary: k) (auto simp: split_beta expiring_def live_ok)

lemma safe_server:
  "safe_command 0 1 ping" "safe_command 1 1 echo" "safe_command 1 1 selectDatabase" "safe_command 0 1 info_cmd"
proof -
  show "safe_command 0 1 ping"
    by (auto simp: safe_command_def) (metis ping.simps fst_conv is_panic.simps(2) list.exhaust, metis ping.simps snd_conv list.exhaust)
  show "safe_command 1 1 echo" "safe_command 1 1 selectDatabase"
    by (auto simp: safe_command_def kv_ok_def length_Suc_conv split: option.splits if_splits)
  show "safe_command 0 1 info_cmd"
    using info_loop_ok by (auto simp: safe_command_def info_cmd_def kv_ok_def split_beta)
qed

lemma commands_safe: "(kind, least, most, h) \<in> set commands \<Longrightarrow> safe_command least most h"
  unfolding commands_def
  by (simp only: set_simps insert_iff empty_iff prod.inject)
    (elim disjE conjE; simp; (rule safe_server | rule safe_on_space, rule safe_handlers); simp)

lemma run_safe:
  assumes "kv_ok e" "argv \<noteq> []"
  shows "\<not> is_panic (fst (run now kind argv e)) \<and> kv_ok (snd (run now kind argv e))"
proof (cases "map_of commands kind")
  case (Some c)
  obtain least most h where c: "c = (least, most, h)" by (cases c)
  with Some have "safe_command least most h" by (intro commands_safe) (auto dest: map_of_SomeD)
  with assms Some c show ?thesis by (auto simp: run_def safe_command_def Let_def)
qed (use assms in \<open>simp add: run_def\<close>)

lemma kv_Exec_safe: "kv_ok e \<Longrightarrow> \<not> is_panic (fst (kv_Exec now o' e)) \<and> kv_ok (snd (kv_Exec now o' e))"
  by (auto simp: kv_Exec_def run_safe split: option.split list.split)

section \<open>Connections taking turns\<close>

text \<open>The backend's mutex makes a command one step; which connection takes the next step, and when, is
  arbitrary. A state is the shared backend and, per open connection, the database it selected.\<close>

type_synonym clients = "kvbackend \<times> nat list"

fun turn :: "clients \<Rightarrow> nat \<times> int \<times> kvop \<Rightarrow> kvres \<times> clients" where
  "turn (b, selected) (c, now, o') =
     (if c < length selected
      then (case kv_Exec now o' \<lparr>x_backend = b, x_selected = selected ! c\<rparr> of (r, e) \<Rightarrow>
              (r, x_backend e, selected[c := x_selected e]))
      else (Ok empty_Result, b, selected))"

definition take_turn :: "clients \<Rightarrow> nat \<times> int \<times> kvop \<Rightarrow> clients" where
  "take_turn st t = snd (turn st t)"

fun clients_ok :: "clients \<Rightarrow> bool" where
  "clients_ok (b, selected) \<longleftrightarrow> length (b_spaces b) = databases \<and> list_all space_ok (b_spaces b) \<and>
     list_all (\<lambda>n. n < databases) selected"

lemma clients_kv_ok:
  "clients_ok (b, selected) \<Longrightarrow> c < length selected \<Longrightarrow> kv_ok \<lparr>x_backend = b, x_selected = selected ! c\<rparr>"
  by (simp add: kv_ok_def list_all_length)

lemma turn_safe: "clients_ok st \<Longrightarrow> \<not> is_panic (fst (turn st t)) \<and> clients_ok (take_turn st t)"
proof -
  assume ok: "clients_ok st"
  obtain b selected c now o' where st: "st = (b, selected)" "t = (c, now, o')" by (metis prod.collapse)
  show ?thesis
  proof (cases "c < length selected")
    case True
    with ok st have e: "kv_ok \<lparr>x_backend = b, x_selected = selected ! c\<rparr>" by (simp add: clients_kv_ok)
    have sel: "list_all (\<lambda>n. n < databases) (selected[c := m])" if "m < databases" for m
      using ok st that by (auto simp: list_all_iff dest!: set_update_subset_insert [THEN subsetD])
    show ?thesis using kv_Exec_safe [OF e, of now o'] True
      by (auto simp: st take_turn_def split_beta kv_ok_def sel)
  qed (use ok st in \<open>simp add: take_turn_def\<close>)
qed

interpretation clients: preserved take_turn clients_ok
  by unfold_locales (simp add: turn_safe)

text \<open>A lesson's seed with no empty list and no empty object. JSON objects decode to Go maps, whose
  keys are distinct.\<close>

fun seed_value_ok :: "seed_value \<Rightarrow> bool" where
  "seed_value_ok (SeedList items) \<longleftrightarrow> items \<noteq> []"
| "seed_value_ok (SeedFields pairs) \<longleftrightarrow> pairs \<noteq> [] \<and> keys_distinct pairs"
| "seed_value_ok _ \<longleftrightarrow> True"

fun seed_ok :: "seed_doc \<Rightarrow> bool" where
  "seed_ok (SeedObject seed) \<longleftrightarrow> keys_distinct seed \<and> list_all seed_value_ok (map snd seed)"
| "seed_ok _ \<longleftrightarrow> True"

lemma seed_key_ok: "space_ok s \<Longrightarrow> seed_value_ok v \<Longrightarrow> seed_key s key v = Inr s' \<Longrightarrow> space_ok s'"
  by (auto simp: seed_key_def text_entry_def newEntry_def entry_ok_def entry_shape_def empty_entry_def
      split: seed_value.splits intro!: space_ok_store)

lemma seed_keys_ok:
  "space_ok s \<Longrightarrow> (\<And>key. key \<in> set keys \<Longrightarrow> seed_value_ok (the (map_of seed key))) \<Longrightarrow>
     space_ok (snd (seed_keys seed keys s))"
  by (induction keys arbitrary: s) (auto split: sum.splits dest: seed_key_ok)

lemma seeded_ok:
  assumes "seed_ok raw"
  shows "clients_ok (snd (kv_Seed raw kv_New), replicate n 0)"
proof -
  have new: "list_all space_ok (b_spaces kv_New)" "length (b_spaces kv_New) = databases"
    by (simp_all add: kv_New_def newSpace_def space_ok_empty list_all_iff)
  have zero: "list_all (\<lambda>n. n < databases) (replicate n 0)" by (simp add: list_all_iff databases_def)
  show ?thesis
  proof (cases raw)
    case (SeedObject seed)
    have "seed_value_ok (the (map_of seed key))" if "key \<in> set (sorted_keys seed)" for key
      using that assms SeedObject by (force simp: list_all_iff dest: map_of_SomeD)
    moreover have "space_ok (b_spaces kv_New ! 0)" by (simp add: kv_New_def newSpace_def databases_def space_ok_empty)
    ultimately have "space_ok (snd (seed_keys seed (sorted_keys seed) (b_spaces kv_New ! 0)))"
      by (intro seed_keys_ok)
    with new zero show ?thesis
      by (auto simp: SeedObject kv_Seed_def split_beta list_all_iff dest!: set_update_subset_insert [THEN subsetD])
  qed (use new zero in \<open>simp_all add: kv_Seed_def\<close>)
qed

text \<open>C8. Once a cache is seeded with no empty list or object, no command panics: whatever operations
  any number of connections send, in whatever order they take the backend's mutex and at whatever
  instants, malformed and unknown commands included, every one of them is answered.\<close>

theorem kv_never_panics:
  assumes "seed_ok raw"
  shows "\<not> is_panic (fst (turn (foldl take_turn (snd (kv_Seed raw kv_New), replicate n 0) turns) t))"
  using turn_safe clients.run_inv [OF seeded_ok [OF assms]] by blast

text \<open>The operation the protocol makes of a command and its arguments.\<close>

definition redis_op :: "gostring list \<Rightarrow> kvop" where
  "redis_op argv = \<lparr>op_Emulator = ''redis'', op_Kind = ToUpper (hd argv), op_Target = concat (take 1 (tl argv)),
     op_Gauges = [], op_Payload = Some argv\<rparr>"

definition sample_seed :: seed_doc where
  "sample_seed = SeedObject [(''recent'', SeedList [''a'', ''b'']), (''rate:1'', SeedText ''0'')]"

theorem kv_never_panics_witness:
  "seed_ok sample_seed \<and>
   \<not> is_panic (fst (turn (foldl take_turn (snd (kv_Seed sample_seed kv_New), replicate 2 0) [])
      (1, 5, redis_op [''LPOP'', ''recent''])))"
proof -
  have "seed_ok sample_seed" by (simp add: sample_seed_def)
  then show ?thesis using kv_never_panics [of sample_seed 2 "[]"] by blast
qed

text \<open>C24. The hypothesis on the seed is needed: a lesson that seeds an empty list (which \<open>Seed\<close> accepts)
  crashes the process at the first LPOP or RPOP of that key, because \<open>pop\<close> takes an element of a
  list that only \<open>prune\<close> was trusted to keep non-empty.\<close>

theorem seeded_empty_list_panics:
  "(case kv_Seed (SeedObject [(key, SeedList [])]) kv_New of (err, b) \<Rightarrow>
     err = None \<and>
     fst (run now ''LPOP'' [''LPOP'', key] (kv_Open b)) = Panic \<and>
     fst (run now ''RPOP'' [''RPOP'', key] (kv_Open b)) = Panic)"
  by (simp add: kv_Seed_def kv_New_def kv_Open_def seed_key_def store_def newSpace_def newEntry_def
      databases_def run_def commands_def on_space_def of_kind_def at_def alive_def sorted_keys_def)
end
