(* ===== verification/KvBehaviour.thy ===== *)
theory KvBehaviour
  imports Kv
begin

text \<open>
  What the cache's commands do, in terms of what a client can see of a space (\<open>view\<close>): which keys a
  command can change at all, the reply and effect of the string, counter, list, set, hash and key
  space commands, expiry, and counters shared by connections.
\<close>

section \<open>Expiry is invisible\<close>

text \<open>Dropping a key that has expired changes nothing a client can see now or later.\<close>

lemma view_at_later [simp]: "now \<le> t \<Longrightarrow> view t (snd (at now s key)) = view t s"
  by (rule ext) (auto simp: view_def map_of_snd_at alive_def split: option.splits if_splits)

lemma view_live_loop_later [simp]: "now \<le> t \<Longrightarrow> view t (snd (live_loop now keys s)) = view t s"
  by (induction keys arbitrary: s) (auto simp: split_beta split: option.splits)

lemma view_live_later [simp]: "now \<le> t \<Longrightarrow> view t (snd (live now s)) = view t s"
  by (simp add: live_def split_beta)

section \<open>The frame of a command\<close>

definition frames :: "space_handler \<Rightarrow> bool" where
  "frames h \<longleftrightarrow> (\<forall>now t s args key. now \<le> t \<longrightarrow> key \<notin> set args \<longrightarrow>
     view t (snd (h now s args)) key = view t s key)"

lemma framesI:
  "(\<And>now t s args key. now \<le> t \<Longrightarrow> key \<notin> set args \<Longrightarrow> view t (snd (h now s args)) key = view t s key)
     \<Longrightarrow> frames h"
  by (simp add: frames_def)

lemma view_of_kind [simp]: "now \<le> t \<Longrightarrow> view t (snd (of_kind now s key want)) = view t s"
  by (simp add: of_kind_eq)

lemma view_reading [simp]: "now \<le> t \<Longrightarrow> view t (snd (reading now s key want a f)) = view t s"
  by (auto simp: reading_def split_beta split: sum.splits option.splits)

lemma view_remove: "now \<le> t \<Longrightarrow> view t (snd (remove now s key)) = (view t s)(key := None)"
proof -
  assume le: "now \<le> t"
  have "view t s key = None" if "view now s key = None"
    using that le by (auto simp: view_def alive_def split: option.splits if_splits)
  with le show ?thesis by (auto simp: remove_def split_beta split: option.split)
qed

lemma view_mutable:
  "now \<le> t \<Longrightarrow> k \<noteq> key \<Longrightarrow> view t (snd (mutable now s key want)) k = view t s k"
  by (auto simp: mutable_def split_beta store_def [symmetric] split: sum.splits option.splits)

lemma view_prune: "k \<noteq> key \<Longrightarrow> view t (prune s key held) k = view t s k"
  by (simp add: prune_def)

lemma view_del_loop: "now \<le> t \<Longrightarrow> k \<notin> set keys \<Longrightarrow> view t (snd (del_loop now s keys)) k = view t s k"
  by (induction keys arbitrary: s) (simp_all add: split_beta view_remove)

lemma view_exists_loop [simp]: "now \<le> t \<Longrightarrow> view t (snd (exists_loop now s keys)) = view t s"
  by (induction keys arbitrary: s) (simp_all add: split_beta)

lemma view_mget_loop [simp]: "now \<le> t \<Longrightarrow> view t (snd (mget_loop now s keys)) = view t s"
  by (induction keys arbitrary: s) (simp_all add: split_beta)

lemma view_mset_loop:
  "k \<notin> set args \<Longrightarrow> mset_loop s args = Some s' \<Longrightarrow> view t s' k = view t s k"
  by (induction s args rule: mset_loop.induct) auto

lemma view_increment:
  "now \<le> t \<Longrightarrow> k \<noteq> key \<Longrightarrow> view t (snd (increment now s key d)) k = view t s k"
  by (auto simp: increment_def split_beta Let_def split: sum.splits option.splits)

lemmas frame_simps = split_beta Let_def view_remove view_mutable view_prune view_del_loop view_increment

text \<open>Handlers look at no more than three arguments by position.\<close>

lemma frames_cases:
  assumes "\<And>now t s key. now \<le> t \<Longrightarrow> view t (snd (h now s [])) key = view t s key"
    "\<And>now t s key a. now \<le> t \<Longrightarrow> key \<noteq> a \<Longrightarrow> view t (snd (h now s [a])) key = view t s key"
    "\<And>now t s key a b. now \<le> t \<Longrightarrow> key \<noteq> a \<Longrightarrow> key \<noteq> b \<Longrightarrow>
       view t (snd (h now s [a, b])) key = view t s key"
    "\<And>now t s key a b c r. now \<le> t \<Longrightarrow> key \<noteq> a \<Longrightarrow> key \<noteq> b \<Longrightarrow> key \<noteq> c \<Longrightarrow> key \<notin> set r \<Longrightarrow>
       view t (snd (h now s (a # b # c # r))) key = view t s key"
  shows "frames h"
proof (rule framesI)
  fix now t :: int and s key and args :: "gostring list"
  assume "now \<le> t" "key \<notin> set args"
  then show "view t (snd (h now s args)) key = view t s key"
    using assms by (cases args; cases "tl args"; cases "tl (tl args)") auto
qed

lemma frames_readers:
  "frames get_cmd" "frames strlen" "frames hgetall" "frames (hfields pick)" "frames llen" "frames smembers"
  "frames scard" "frames hget" "frames sismember"
  by (rule frames_cases; simp)+

lemma frames_keyspace:
  "frames del_cmd" "frames exists_cmd" "frames mget" "frames dbsize" "frames ttl" "frames typeOf" "frames keys_cmd"
  "frames scan" "frames expire"
proof -
  show "frames del_cmd" "frames exists_cmd" "frames mget" "frames dbsize"
    by (rule framesI; simp add: frame_simps del_cmd_def exists_cmd_def mget_def dbsize_def)+
  show "frames ttl" "frames typeOf" "frames keys_cmd" "frames scan" "frames expire"
    by (rule frames_cases; auto simp: frame_simps split: option.splits sum.splits)+
qed

lemma frames_strings:
  "frames set_cmd" "frames setex" "frames getset" "frames appendTo" "frames mset_cmd"
  "frames (incrementBy d)" "frames (incrementByArgument d)"
proof -
  show "frames set_cmd" "frames setex" "frames getset" "frames appendTo" 
    "frames (incrementBy d)" "frames (incrementByArgument d)"
    by (rule frames_cases; auto simp: frame_simps split: option.splits sum.splits)+
  show "frames mset_cmd"
    by (rule framesI) (auto simp: mset_cmd_def view_mset_loop split: option.splits)
qed

lemma frames_collections:
  "frames hset" "frames hdel" "frames (push side)" "frames (pop side)" "frames lrange" "frames sadd" "frames srem"
  by (rule frames_cases; auto simp: frame_simps split: option.splits sum.splits simp del: foldl.simps
      hset_loop.simps hdel_loop.simps sadd_loop.simps srem_loop.simps)+

lemmas frames_handlers = frames_readers frames_keyspace frames_strings frames_collections

text \<open>What a client of database \<open>d\<close> can see of a key at an instant.\<close>

definition seen :: "int \<Rightarrow> kvbackend \<Rightarrow> nat \<Rightarrow> gostring \<Rightarrow> kventry option" where
  "seen t b d key = view t (b_spaces b ! d) key"

definition framed :: "gostring \<Rightarrow> handler \<Rightarrow> bool" where
  "framed kind h \<longleftrightarrow> (\<forall>now t e args d key. now \<le> t \<longrightarrow> d < length (b_spaces (x_backend e)) \<longrightarrow>
     d \<noteq> x_selected e \<or> (key \<notin> set args \<and> kind \<noteq> ''FLUSHDB'') \<longrightarrow>
     seen t (x_backend (snd (h now e args))) d key = seen t (x_backend e) d key)"

lemma framed_on_space: "frames h \<or> kind = ''FLUSHDB'' \<Longrightarrow> framed kind (on_space h)"
  by (auto simp: framed_def frames_def on_space_def seen_def split_beta nth_list_update)

lemma info_loop_view:
  "now \<le> t \<Longrightarrow> d < length spaces \<Longrightarrow> view t (snd (info_loop now k spaces) ! d) = view t (spaces ! d)"
proof (induction spaces arbitrary: k d)
  case (Cons s spaces)
  then show ?case by (cases d) (simp_all add: split_beta expiring_def)
qed simp

lemma framed_server:
  "framed kind ping" "framed kind echo" "framed kind selectDatabase" "framed kind info_cmd"
proof -
  have "x_backend (snd (ping now e args)) = x_backend e" for now e args by (cases args) simp_all
  moreover have "x_backend (snd (echo now e args)) = x_backend e" for now e args by (cases args) simp_all
  moreover have "x_backend (snd (selectDatabase now e args)) = x_backend e" for now e args
    by (cases args) (simp_all split: option.split)
  ultimately show "framed kind ping" "framed kind echo" "framed kind selectDatabase"
    by (simp_all add: framed_def)
  show "framed kind info_cmd"
    by (simp add: framed_def info_cmd_def split_beta seen_def info_loop_view)
qed

lemma commands_framed: "(kind, least, most, h) \<in> set commands \<Longrightarrow> framed kind h"
  unfolding commands_def
  by (simp only: set_simps insert_iff empty_iff prod.inject)
    (elim disjE conjE; simp; (rule framed_server | rule framed_on_space); simp add: frames_handlers)

lemma run_frame:
  assumes "now \<le> t" "d < length (b_spaces (x_backend e))"
    "d \<noteq> x_selected e \<or> (key \<notin> set (tl argv) \<and> kind \<noteq> ''FLUSHDB'')"
  shows "seen t (x_backend (snd (run now kind argv e))) d key = seen t (x_backend e) d key"
proof (cases "map_of commands kind")
  case (Some c)
  obtain least most h where c: "c = (least, most, h)" by (cases c)
  with Some have "framed kind h" by (intro commands_framed) (auto dest: map_of_SomeD)
  with assms Some c show ?thesis by (auto simp: run_def framed_def Let_def)
qed (simp add: run_def)

lemma run_flush:
  assumes "d < length (b_spaces (x_backend e))" "d = x_selected e" "length argv = 1 \<or> length argv = 2"
  shows "seen t (x_backend (snd (run now ''FLUSHDB'' argv e))) d key = None"
proof -
  have "map_of commands ''FLUSHDB'' = Some (0, 1, on_space flushdb)" by (simp add: commands_def)
  moreover have "argv \<noteq> []" "\<not> length (tl argv) > 1" using assms(3) by auto
  moreover have "view t (snd (flushdb now s args)) key = None" for s args by (simp add: view_def flushdb_def flush_def)
  ultimately show ?thesis using assms(1,2) by (simp add: run_def on_space_def seen_def Let_def split_beta)
qed

lemma run_misflush:
  assumes "length argv \<noteq> 1" "length argv \<noteq> 2"
  shows "snd (run now ''FLUSHDB'' argv e) = e"
proof -
  have "map_of commands ''FLUSHDB'' = Some (0, 1, on_space flushdb)" by (simp add: commands_def)
  moreover have "argv \<noteq> [] \<Longrightarrow> int (length (tl argv)) > 1" using assms by (cases argv; cases "tl argv") auto
  ultimately show ?thesis by (simp add: run_def Let_def)
qed

text \<open>C35. A command touches nothing it does not name: whatever is sent, FLUSHDB apart, every key that is not among the
  command's arguments, and every key of every other database, looks the same afterwards, at that instant
  and at every later one. A FLUSHDB leaves the other databases as they were and no key in its own, or
  changes nothing when it has too many arguments.\<close>

theorem command_frame:
  assumes "now \<le> t" "d < length (b_spaces (x_backend e))"
  shows "(d \<noteq> x_selected e \<or> key \<notin> set (tl argv) \<and> kind \<noteq> ''FLUSHDB'' \<longrightarrow>
      seen t (x_backend (snd (run now kind argv e))) d key = seen t (x_backend e) d key) \<and>
    (kind = ''FLUSHDB'' \<and> d = x_selected e \<longrightarrow>
      seen t (x_backend (snd (run now kind argv e))) d key =
        (if length argv = 1 \<or> length argv = 2 then None else seen t (x_backend e) d key))"
  using run_frame [OF assms] run_flush [OF assms(2)] run_misflush by simp

definition sample_cache :: kvbackend where "sample_cache = snd (kv_Seed sample_seed kv_New)"

theorem command_frame_witness:
  "(0::int) \<le> 5 \<and> (0::nat) < length (b_spaces (x_backend (kv_Open sample_cache))) \<and>
   ''rate:1'' \<notin> set [''recent'', ''1''] \<and>
   seen 5 (x_backend (snd (run 0 ''RPUSH'' [''RPUSH'', ''recent'', ''1''] (kv_Open sample_cache)))) 0 ''rate:1''
     = seen 5 (x_backend (kv_Open sample_cache)) 0 ''rate:1''"
proof -
  have n: "0 < length (b_spaces (x_backend (kv_Open sample_cache)))"
    by (simp add: sample_cache_def sample_seed_def kv_Open_def kv_Seed_def kv_New_def databases_def split_beta)
  from command_frame [OF _ n, of 0 5 "''rate:1''" "[''RPUSH'', ''recent'', ''1'']" "''RPUSH''"] n
  show ?thesis by simp
qed

section \<open>Running a command of the table\<close>

definition selected :: "executor \<Rightarrow> space" where
  "selected e = b_spaces (x_backend e) ! x_selected e"

lemma selected_ok: "kv_ok e \<Longrightarrow> space_ok (selected e)"
  by (simp add: kv_ok_def selected_def list_all_length)

lemma run_space:
  assumes "kv_ok e" "map_of commands kind = Some (least, most, on_space h)"
    "least \<le> int (length args)" "most < 0 \<or> int (length args) \<le> most"
  shows "fst (run now kind (v # args) e) = fst (h now (selected e) args)"
    "selected (snd (run now kind (v # args) e)) = snd (h now (selected e) args)"
    "kv_ok (snd (run now kind (v # args) e))"
proof -
  show "kv_ok (snd (run now kind (v # args) e))" using run_safe [OF assms(1)] by blast
  have "x_selected e < length (b_spaces (x_backend e))" using assms(1) by (simp add: kv_ok_def)
  then show "fst (run now kind (v # args) e) = fst (h now (selected e) args)"
    "selected (snd (run now kind (v # args) e)) = snd (h now (selected e) args)"
    using assms by (auto simp: run_def on_space_def Let_def selected_def split_beta)
qed

lemma table_rows:
  "map_of commands ''GET'' = Some (1, 1, on_space get_cmd)" "map_of commands ''SET'' = Some (2, -1, on_space set_cmd)"
  "map_of commands ''INCRBY'' = Some (2, 2, on_space (incrementByArgument 1))"
  "map_of commands ''DECRBY'' = Some (2, 2, on_space (incrementByArgument (-1)))"
  "map_of commands ''INCR'' = Some (1, 1, on_space (incrementBy 1))"
  "map_of commands ''TTL'' = Some (1, 1, on_space ttl)" "map_of commands ''KEYS'' = Some (1, 1, on_space keys_cmd)"
  "map_of commands ''SETEX'' = Some (3, 3, on_space setex)"
  by (simp_all add: commands_def)

lemma table_rows_collections:
  "map_of commands ''LPUSH'' = Some (2, -1, on_space (push atFront))"
  "map_of commands ''RPUSH'' = Some (2, -1, on_space (push atBack))"
  "map_of commands ''LPOP'' = Some (1, 1, on_space (pop atFront))"
  "map_of commands ''RPOP'' = Some (1, 1, on_space (pop atBack))"
  "map_of commands ''LRANGE'' = Some (3, 3, on_space lrange)"
  "map_of commands ''SADD'' = Some (2, -1, on_space sadd)" "map_of commands ''SREM'' = Some (2, -1, on_space srem)"
  "map_of commands ''SMEMBERS'' = Some (1, 1, on_space smembers)" "map_of commands ''SCARD'' = Some (1, 1, on_space scard)"
  "map_of commands ''HSET'' = Some (3, -1, on_space hset)" "map_of commands ''HDEL'' = Some (2, -1, on_space hdel)"
  "map_of commands ''HGET'' = Some (2, 2, on_space hget)"
  "map_of commands ''MSET'' = Some (2, -1, on_space mset_cmd)" "map_of commands ''MGET'' = Some (1, -1, on_space mget)"
  by (simp_all add: commands_def)

section \<open>Strings and expiry\<close>

lemma run_GET:
  assumes "kv_ok e"
  shows "fst (run t ''GET'' [v, key] e) =
     (case view t (selected e) key of
        None \<Rightarrow> Ok (value_of VNil)
      | Some held \<Rightarrow> if en_kind held = kindString then Ok (value_of (VStr (en_text held)))
                   else Fail (RedisErr ErrWrongType))"
  using run_space(1) [OF assms table_rows(1), of "[key]" t v]
  by (simp add: reading_def of_kind_eq split: option.split)

lemma written_entry_kind [simp]:
  "en_kind (written_entry text opts existing) = kindString" "en_text (written_entry text opts existing) = text"
  by (simp_all add: written_entry_def Let_def text_entry_def newEntry_def split: option.split)

text \<open>Whether the NX or XX clause of a SET keeps it from writing.\<close>

definition blocked :: "setOptions \<Rightarrow> kventry option \<Rightarrow> bool" where
  "blocked opts existing \<longleftrightarrow> (so_onlyIfNew opts \<and> existing \<noteq> None) \<or> (so_onlyIfOld opts \<and> existing = None)"

lemma set_cmd_eq:
  assumes "readSetOptions now words = Inr opts"
  shows "fst (set_cmd now s (key # text # words)) =
       Ok (if blocked opts (view now s key) then value_of VNil else status ''OK'')"
    and "now \<le> t \<Longrightarrow> view t (snd (set_cmd now s (key # text # words))) =
       (if blocked opts (view now s key) then view t s
        else (let w = written_entry text opts (view now s key)
              in (view t s)(key := if alive t w then Some w else None)))"
  using assms by (auto simp: split_beta blocked_def Let_def)

text \<open>SET with any accepted options. The reply says whether the NX or XX clause let it write; if so,
  at every later instant GET answers the text that was written until the new deadline, and nil from
  then on, the deadline being the EX or PX clause's, else with KEEPTTL the old one, else never; if
  not, GET answers what it would have answered before.\<close>

theorem set_then_get:
  assumes e: "kv_ok e" and opts: "readSetOptions now words = Inr opts" and t: "now \<le> t"
    and e': "e' = snd (run now ''SET'' (v # key # text # words) e)"
    and dies: "dies = (case so_dies opts of Some d \<Rightarrow> Some d
                 | None \<Rightarrow> if so_keepTTL opts then Option.bind (view now (selected e) key) en_expires else None)"
  shows "if blocked opts (view now (selected e) key)
    then fst (run now ''SET'' (v # key # text # words) e) = Ok (value_of VNil) \<and>
         fst (run t ''GET'' [w, key] e') = fst (run t ''GET'' [w, key] e)
    else fst (run now ''SET'' (v # key # text # words) e) = Ok (status ''OK'') \<and>
         fst (run t ''GET'' [w, key] e') =
           Ok (value_of (if (case dies of None \<Rightarrow> True | Some d \<Rightarrow> t < d) then VStr text else VNil))"
proof -
  have r: "fst (run now ''SET'' (v # key # text # words) e) = fst (set_cmd now (selected e) (key # text # words))"
    "selected (snd (run now ''SET'' (v # key # text # words) e)) = snd (set_cmd now (selected e) (key # text # words))"
    "kv_ok (snd (run now ''SET'' (v # key # text # words) e))"
    using run_space [OF e table_rows(2), of "key # text # words" now v] by simp_all
  have ok': "kv_ok e'" and sel: "selected e' = snd (set_cmd now (selected e) (key # text # words))"
    using r by (simp_all add: e')
  have alive: "alive t (written_entry text opts (view now (selected e) key)) =
      (case dies of None \<Rightarrow> True | Some d \<Rightarrow> t < d)"
    by (simp add: dies alive_def written_entry_def text_entry_def newEntry_def Let_def split: option.split)
  note eff = set_cmd_eq [OF opts]
  show ?thesis
    using r(1) eff(1) eff(2) [OF t]
    by (simp add: run_GET [OF ok'] run_GET [OF e] sel alive Let_def del: set_cmd.simps)
qed

lemma sample_ok: "kv_ok (kv_Open sample_cache)"
proof -
  have "seed_ok sample_seed" by (simp add: sample_seed_def)
  from seeded_ok [OF this, of 1] clients_kv_ok [of sample_cache "replicate 1 0" 0] show ?thesis
    by (simp add: sample_cache_def kv_Open_def)
qed

lemma sample_sorted: "sorted_keys [(''recent'', x), (''rate:1'', y)] = [''rate:1'', ''recent'']"
  by (simp add: sorted_keys_def less_eq_char_def less_char_def)

lemma view_sample:
  "selected (kv_Open sample_cache) =
     [(''rate:1'', text_entry ''0''), (''recent'', (newEntry kindList)\<lparr>en_list := [''a'', ''b'']\<rparr>)]"
  by (simp add: selected_def kv_Open_def sample_cache_def kv_Seed_def sample_seed_def sample_sorted kv_New_def
      databases_def newSpace_def seed_key_def store_def)

theorem set_then_get_witness:
  "kv_ok (kv_Open sample_cache) \<and>
   readSetOptions 0 [''ex'', ''10''] =
     Inr \<lparr>so_dies = Some 10000000000, so_keepTTL = False, so_onlyIfNew = False, so_onlyIfOld = False\<rparr> \<and>
   fst (run 5 ''GET'' [''get'', ''k''] (snd (run 0 ''SET'' [''set'', ''k'', ''v'', ''ex'', ''10''] (kv_Open sample_cache))))
     = Ok (value_of (VStr ''v'')) \<and>
   fst (run 10000000000 ''GET'' [''get'', ''k'']
     (snd (run 0 ''SET'' [''set'', ''k'', ''v'', ''ex'', ''10''] (kv_Open sample_cache)))) = Ok (value_of VNil)"
proof -
  have o': "readSetOptions 0 [''ex'', ''10''] =
     Inr \<lparr>so_dies = Some 10000000000, so_keepTTL = False, so_onlyIfNew = False, so_onlyIfOld = False\<rparr>"
    by code_simp
  from set_then_get [OF sample_ok o' _ refl refl, of 5 "''k''" "''set''" "''v''" "''get''"]
    set_then_get [OF sample_ok o' _ refl refl, of 10000000000 "''k''" "''set''" "''v''" "''get''"] o' sample_ok
  show ?thesis by (simp add: blocked_def)
qed

section \<open>Counters\<close>

text \<open>The number a key counts as: zero when absent, its text read as a number, and none when that fails.\<close>

definition counter :: "kventry option \<Rightarrow> int option" where
  "counter x = (case x of None \<Rightarrow> Some 0
     | Some held \<Rightarrow> if en_kind held = kindString then ParseInt (en_text held) else None)"

lemma counter_range: "counter x = Some n \<Longrightarrow> int64_range n"
  by (auto simp: counter_def int64_range_def dest: ParseInt_range split: option.splits if_splits)

lemma overflow_test:
  assumes "int64_range c" "int64_range d"
  shows "(d > 0 \<and> wrap64 (c + d) < c) \<or> (d < 0 \<and> wrap64 (c + d) > c) \<longleftrightarrow> \<not> int64_range (c + d)"
proof (cases "int64_range (c + d)")
  case False
  then consider "c + d > MaxInt64" | "c + d < MinInt64" by (auto simp: int64_range_def)
  then show ?thesis
  proof cases
    case 1
    with assms have "wrap64 (c + d) = c + d - 2 ^ 64" by (intro wrap64_over) (auto simp: int64_range_def)
    with 1 assms show ?thesis by (auto simp: int64_range_def)
  next
    case 2
    with assms have "wrap64 (c + d) = c + d + 2 ^ 64" by (intro wrap64_under) (auto simp: int64_range_def)
    with 2 assms show ?thesis by (auto simp: int64_range_def)
  qed
qed auto

definition counted :: "kventry option \<Rightarrow> int \<Rightarrow> kventry" where
  "counted x n = (case x of None \<Rightarrow> newEntry kindString | Some held \<Rightarrow> held)\<lparr>en_text := FormatInt n\<rparr>"

lemma increment_eq:
  assumes "counter (view now s key) = Some c" "int64_range d"
  shows "fst (increment now s key d) =
      (if int64_range (c + d) then Ok (value_of (VInt (c + d))) else Fail (RedisErr ErrOverflow))"
    and "now \<le> t \<Longrightarrow> view t (snd (increment now s key d)) =
      (if int64_range (c + d)
       then (view t s)(key := if alive t (counted (view now s key) (c + d)) then Some (counted (view now s key) (c + d)) else None)
       else view t s)"
  using overflow_test [OF counter_range [OF assms(1)] assms(2)] assms(1)
  by (auto simp: increment_def of_kind_eq counter_def counted_def Let_def split: option.splits if_splits)

text \<open>C22. INCRBY and DECRBY compute exactly: on a key that counts as a number (an absent one as zero) the
  reply is the exact sum or difference whenever an \<open>int64\<close> holds it, and later GETs answer that
  number until the key's unchanged deadline; otherwise (and for the one argument DECRBY cannot
  negate) the reply is the overflow error and nothing changes.\<close>

theorem increment_exact:
  assumes e: "kv_ok e" and c: "counter (view now (selected e) key) = Some current"
    and arg: "ParseInt arg = Some delta"
    and verb: "(verb, sign) = (''INCRBY'', 1) \<or> (verb, sign) = (''DECRBY'', -1 :: int)"
    and t: "now \<le> t" and e': "e' = snd (run now verb [v, key, arg] e)"
  shows "if int64_range (current + sign * delta) \<and> \<not> (sign = -1 \<and> delta = MinInt64)
    then fst (run now verb [v, key, arg] e) = Ok (value_of (VInt (current + sign * delta))) \<and>
         fst (run t ''GET'' [w, key] e') =
           Ok (value_of (if alive t (counted (view now (selected e) key) 0)
                         then VStr (FormatInt (current + sign * delta)) else VNil))
    else fst (run now verb [v, key, arg] e) = Fail (RedisErr ErrOverflow) \<and>
         view t (selected e') = view t (selected e)"
proof -
  have r: "fst (run now verb [v, key, arg] e) = fst (incrementByArgument sign now (selected e) [key, arg])"
    "selected e' = snd (incrementByArgument sign now (selected e) [key, arg])" "kv_ok e'"
    using run_space [OF e table_rows(3), of "[key, arg]" now v] run_space [OF e table_rows(4), of "[key, arg]" now v]
      verb by (auto simp: e')
  have range: "int64_range delta" using arg by (rule ParseInt_range)
  show ?thesis
  proof (cases "sign = -1 \<and> delta = MinInt64")
    case True
    then show ?thesis using r arg by auto
  next
    case False
    with range verb have d: "int64_range (sign * delta)" by (auto simp: int64_range_def)
    with False verb arg r have r': "fst (run now verb [v, key, arg] e) = fst (increment now (selected e) key (sign * delta))"
      "selected e' = snd (increment now (selected e) key (sign * delta))"
      by auto
    have k: "en_kind (counted (view now (selected e) key) n) = kindString"
      "en_text (counted (view now (selected e) key) n) = FormatInt n"
      "alive t (counted (view now (selected e) key) n) = alive t (counted (view now (selected e) key) 0)" for n
      using c by (auto simp: counted_def counter_def newEntry_def alive_def split: option.splits if_splits)
    note eff = increment_eq(1) [OF c d] increment_eq(2) [OF c d t]
    show ?thesis
    proof (cases "int64_range (current + sign * delta)")
      case True
      with False eff show ?thesis by (simp add: r' run_GET [OF r(3)] k(1,2) k(3) [of "current + sign * delta"])
    next
      case out: False
      with eff show ?thesis by (simp add: r')
    qed
  qed
qed

theorem increment_exact_witness:
  "kv_ok (kv_Open sample_cache) \<and> counter (view 0 (selected (kv_Open sample_cache)) ''rate:1'') = Some 0 \<and>
   ParseInt ''41'' = Some 41 \<and> (0::int) \<le> 7 \<and>
   fst (run 0 ''INCRBY'' [''incrby'', ''rate:1'', ''41''] (kv_Open sample_cache)) = Ok (value_of (VInt 41))"
proof -
  have p: "ParseInt ''0'' = Some 0" "ParseInt ''41'' = Some 41" by code_simp+
  then have c: "counter (view 0 (selected (kv_Open sample_cache)) ''rate:1'') = Some 0" "ParseInt ''41'' = Some 41"
    by (simp_all add: counter_def view_def view_sample alive_def text_entry_def newEntry_def)
  from increment_exact [OF sample_ok c, of "''INCRBY''" 1 7 _ "''incrby''"] c sample_ok
  show ?thesis by (simp add: int64_range_def)
qed

section \<open>Time to live\<close>

text \<open>TTL answers -2 for a key that is not there, -1 for one without a deadline, and otherwise the
  remaining time in seconds, rounded up, as long as the remaining nanoseconds plus one second fit
  an \<open>int64\<close>.\<close>

theorem ttl_rounds_up:
  assumes e: "kv_ok e" and fits: "\<And>held d. view now (selected e) key = Some held \<Longrightarrow> en_expires held = Some d
      \<Longrightarrow> d - now \<le> MaxInt64 - 999999999"
  shows "\<exists>n. fst (run now ''TTL'' [v, key] e) = Ok (value_of (VInt n)) \<and>
    (case view now (selected e) key of
       None \<Rightarrow> n = -2
     | Some held \<Rightarrow> (case en_expires held of
           None \<Rightarrow> n = -1
         | Some d \<Rightarrow> 0 < n \<and> (n - 1) * 1000000000 < d - now \<and> d - now \<le> n * 1000000000))"
proof -
  have r: "fst (run now ''TTL'' [v, key] e) = fst (ttl now (selected e) [key])"
    using run_space(1) [OF e table_rows(6), of "[key]" now v] by simp
  have up: "0 < q \<and> (q - 1) * 1000000000 < x \<and> x \<le> q * 1000000000"
    if "q = quot (wrap64 (min MaxInt64 x + second - 1)) second" "0 < x" "x \<le> MaxInt64 - 999999999" for x q
  proof -
    have "wrap64 (min MaxInt64 x + second - 1) = x + 999999999"
      using that by (simp add: second_def int64_range_def)
    then have "q = (x + 999999999) div 1000000000" using that by (simp add: quot_def second_def)
    then show ?thesis using ceil_div [of 1000000000 x] that(2) by simp
  qed
  have pos: "0 < d - now" if "view now (selected e) key = Some held" "en_expires held = Some d" for held d
    using that by (auto simp: view_def alive_def split: option.splits if_splits)
  show ?thesis
  proof (cases "view now (selected e) key")
    case None
    then show ?thesis using r by (simp add: split_beta)
  next
    case h: (Some held)
    show ?thesis
    proof (cases "en_expires held")
      case None
      then show ?thesis using r h by (simp add: split_beta)
    next
      case d: (Some d)
      have "fst (run now ''TTL'' [v, key] e) = Ok (value_of (VInt (ttl_seconds now d)))"
        using r h d by (simp add: split_beta)
      moreover note up [OF _ pos [OF h d] fits [OF h d], of "ttl_seconds now d"]
      ultimately show ?thesis by (auto simp: h d ttl_seconds_def Let_def)
    qed
  qed
qed

theorem ttl_rounds_up_witness:
  "kv_ok (kv_Open sample_cache) \<and> view 0 (selected (kv_Open sample_cache)) ''recent'' \<noteq> None \<and>
   (\<exists>n. fst (run 0 ''TTL'' [''TTL'', ''recent''] (kv_Open sample_cache)) = Ok (value_of (VInt n)) \<and> n = -1)"
proof -
  have v: "view 0 (selected (kv_Open sample_cache)) ''recent'' = Some ((newEntry kindList)\<lparr>en_list := [''a'', ''b'']\<rparr>)"
    by (simp add: view_def view_sample alive_def newEntry_def)
  have "en_expires held = None" if "view 0 (selected (kv_Open sample_cache)) ''recent'' = Some held" for held
    using that v by (auto simp: newEntry_def)
  then show ?thesis using ttl_rounds_up [OF sample_ok, of 0 "''recent''" "''TTL''"] sample_ok v
    by fastforce
qed

text \<open>Beyond that bound the sum wraps: the longest expiry SETEX accepts, 9223372036 seconds, reads back as
  -9223372036 seconds for the first 145 milliseconds of the key's life.\<close>

theorem ttl_wraps:
  assumes e: "kv_ok e" and t: "now \<le> t" "t \<le> now + 145224191"
  shows "fst (run now ''SETEX'' [v, key, ''9223372036'', body] e) = Ok (status ''OK'') \<and>
    fst (run t ''TTL'' [w, key] (snd (run now ''SETEX'' [v, key, ''9223372036'', body] e)))
      = Ok (value_of (VInt (-9223372036)))"
proof -
  have p: "ParseInt ''9223372036'' = Some 9223372036"
    by (simp add: ParseInt_def parse_digits_def value_of_digits_def is_digit_def digit_val_def less_eq_char_def
        int64_range_def)
  let ?a = "[key, ''9223372036'', body]"
  have r: "fst (run now ''SETEX'' (v # ?a) e) = fst (setex now (selected e) ?a)"
    "selected (snd (run now ''SETEX'' (v # ?a) e)) = snd (setex now (selected e) ?a)"
    "kv_ok (snd (run now ''SETEX'' (v # ?a) e))"
    using run_space [OF e table_rows(8), of ?a now v] by simp_all
  have r': "fst (run t ''TTL'' [w, key] (snd (run now ''SETEX'' (v # ?a) e))) = fst (ttl t (snd (setex now (selected e) ?a)) [key])"
    using run_space(1) [OF r(3) table_rows(6), of "[key]" t w] r(2) by simp
  have x: "setex now (selected e) ?a = (Ok (status ''OK''),
      store (selected e) key ((text_entry body)\<lparr>en_expires := Some (now + 9223372036000000000)\<rparr>))"
    by (simp add: parseDeadline_def p deadline_def second_def quot_def)
  have q: "quot (wrap64 (min MaxInt64 (now + 9223372036000000000 - t) + second - 1)) second = -9223372036"
  proof -
    define \<delta> where "\<delta> = t - now"
    have \<delta>: "0 \<le> \<delta>" "\<delta> \<le> 145224191" using t by (simp_all add: \<delta>_def)
    have d: "now + 9223372036000000000 - t = 9223372036000000000 - \<delta>" by (simp add: \<delta>_def)
    have m: "min MaxInt64 (9223372036000000000 - \<delta>) + second - 1 = 9223372036999999999 - \<delta>"
      using \<delta> by (simp add: second_def)
    have "wrap64 (9223372036999999999 - \<delta>) = 9223372036999999999 - \<delta> - 2 ^ 64"
      using \<delta> by (intro wrap64_over) simp_all
    then have "wrap64 (9223372036999999999 - \<delta>) = - (9223372036709551617 + \<delta>)" by simp
    moreover have "(9223372036709551617 + \<delta>) div 1000000000 = 9223372036"
      using \<delta> by (intro int_div_pos_eq [where r = "709551617 + \<delta>"]) simp_all
    ultimately show ?thesis using \<delta> by (simp add: d m quot_def second_def)
  qed
  have a: "alive t ((text_entry body)\<lparr>en_expires := Some (now + 9223372036000000000)\<rparr>)"
    using t by (simp add: alive_def)
  show ?thesis using q a by (simp add: r(1) r' x split_beta ttl_seconds_def Let_def del: setex.simps)
qed

theorem ttl_wraps_witness:
  "kv_ok (kv_Open sample_cache) \<and> (0::int) \<le> 1000 \<and> (1000::int) \<le> 0 + 145224191 \<and>
   fst (run 1000 ''TTL'' [''TTL'', ''k'']
     (snd (run 0 ''SETEX'' [''SETEX'', ''k'', ''9223372036'', ''v''] (kv_Open sample_cache))))
     = Ok (value_of (VInt (-9223372036)))"
  using ttl_wraps [OF sample_ok, of 0 1000 "''SETEX''" "''k''" "''v''" "''TTL''"] sample_ok by simp

section \<open>Listing keys\<close>

text \<open>KEYS answers, in ascending order and once each, exactly the keys that are live at that instant and
  belong to the language of the pattern.\<close>

theorem keys_listed:
  assumes e: "kv_ok e"
  shows "\<exists>ks. fst (run now ''KEYS'' [v, pattern] e) = Ok (value_of (VStrs ks)) \<and> sorted ks \<and> distinct ks \<and>
    set ks = {k. view now (selected e) k \<noteq> None \<and> glob_lang (parse_glob pattern) k}"
proof -
  have d: "keys_distinct (selected e)" using selected_ok [OF e] by (simp add: space_ok_def)
  have r: "fst (run now ''KEYS'' [v, pattern] e) = Ok (value_of (VStrs (filter (matches pattern) (fst (live now (selected e))))))"
    using run_space(1) [OF e table_rows(7), of "[pattern]" now v] by (simp add: split_beta matching_def)
  have "sorted (fst (live now (selected e)))" "distinct (fst (live now (selected e)))"
    using live_eq [OF d, of now] d by (simp_all add: distinct_filter)
  then show ?thesis using set_live [OF d, of now] r
    by (intro exI [of _ "filter (matches pattern) (fst (live now (selected e)))"])
      (auto simp: sorted_wrt_filter matches_glob_lang)
qed

theorem keys_listed_witness:
  "kv_ok (kv_Open sample_cache) \<and>
   (\<exists>ks. fst (run 0 ''KEYS'' [''KEYS'', ''r*''] (kv_Open sample_cache)) = Ok (value_of (VStrs ks)) \<and> sorted ks)"
  using keys_listed [OF sample_ok, of 0 "''KEYS''" "''r*''"] sample_ok by blast

section \<open>Many keys at once\<close>

fun pairs_of :: "gostring list \<Rightarrow> (gostring \<times> gostring) list" where
  "pairs_of (key # body # rest) = (key, body) # pairs_of rest"
| "pairs_of _ = []"

lemma mset_loop_eq:
  "even (length args) \<Longrightarrow> mset_loop s args =
     Some (foldl (\<lambda>s (k, v). store s k v) s (map (map_prod id text_entry) (pairs_of args)))"
  by (induction s args rule: mset_loop.induct) simp_all

lemma mget_loop_eq:
  "fst (mget_loop now s keys) =
     map (\<lambda>key. case view now s key of Some e \<Rightarrow> if en_kind e = kindString then VStr (en_text e) else VNil
                 | None \<Rightarrow> VNil) keys"
  by (induction keys arbitrary: s) (auto simp: split_beta split: option.split)

lemma map_of_rev_entries: "map_of (rev (map (map_prod id f) kvs)) k = map_option f (map_of (rev kvs) k)"
  by (induction kvs) (auto simp: map_add_def split: option.split)

text \<open>MSET then MGET: for an even number of arguments, MSET answers OK and MGET of any keys then answers, at
  any later instant, the last value MSET gave each key, or what was there for keys it did not name;
  an odd number of arguments is refused and changes nothing.\<close>

theorem mset_then_mget:
  assumes e: "kv_ok e" and args: "2 \<le> length args" and keys: "keys \<noteq> []" and t: "now \<le> t"
  shows "if even (length args)
    then fst (run now ''MSET'' (v # args) e) = Ok (status ''OK'') \<and>
      fst (run t ''MGET'' (w # keys) (snd (run now ''MSET'' (v # args) e))) =
        Ok (value_of (VList (map (\<lambda>key. case map_of (rev (pairs_of args)) key of
             Some body \<Rightarrow> VStr body
           | None \<Rightarrow> (case view t (selected e) key of
                Some held \<Rightarrow> if en_kind held = kindString then VStr (en_text held) else VNil
              | None \<Rightarrow> VNil)) keys)))
    else fst (run now ''MSET'' (v # args) e) = Fail (RedisErr (wrongArity ''MSET'')) \<and>
      selected (snd (run now ''MSET'' (v # args) e)) = selected e"
proof -
  have r: "fst (run now ''MSET'' (v # args) e) = fst (mset_cmd now (selected e) args)"
    "selected (snd (run now ''MSET'' (v # args) e)) = snd (mset_cmd now (selected e) args)"
    "kv_ok (snd (run now ''MSET'' (v # args) e))"
    using run_space [OF e table_rows_collections(13), of args now v] args by simp_all
  show ?thesis
  proof (cases "even (length args)")
    case True
    have m: "fst (run t ''MGET'' (w # keys) e') = Ok (value_of (VList (fst (mget_loop t (selected e') keys))))"
      if "kv_ok e'" for e'
      using run_space(1) [OF that table_rows_collections(14), of keys t w] keys
      by (cases keys) (simp_all add: mget_def split_beta)
    have "list_all (alive t) (map snd (map (map_prod id text_entry) (pairs_of args)))"
      by (auto simp: list_all_iff alive_def text_entry_def newEntry_def)
    note put = sp.look_put_all [OF this, of "selected e"]
    have k: "en_kind (text_entry b) = kindString" "en_text (text_entry b) = b" for b
      by (simp_all add: text_entry_def newEntry_def)
    let ?s' = "foldl (\<lambda>s (k, v). store s k v) (selected e) (map (map_prod id text_entry) (pairs_of args))"
    have c: "mset_cmd now (selected e) args = (Ok (status ''OK''), ?s')"
      using True by (simp add: mset_cmd_def mset_loop_eq even_iff_mod_2_eq_zero)
    have look: "(case view t ?s' key of Some e \<Rightarrow> if en_kind e = kindString then VStr (en_text e) else VNil | None \<Rightarrow> VNil) =
       (case map_of (rev (pairs_of args)) key of Some body \<Rightarrow> VStr body
        | None \<Rightarrow> (case view t (selected e) key of
             Some held \<Rightarrow> if en_kind held = kindString then VStr (en_text held) else VNil | None \<Rightarrow> VNil))" for key
      unfolding put map_add_def map_of_rev_entries by (simp add: k split: option.split)
    show ?thesis unfolding m [OF r(3)] mget_loop_eq r(1,2) c snd_conv fst_conv look using True by simp
  next
    case False
    then show ?thesis by (simp add: r mset_cmd_def odd_iff_mod_2_eq_one)
  qed
qed

theorem mset_then_mget_witness:
  "kv_ok (kv_Open sample_cache) \<and> 2 \<le> length [''x'', ''1'', ''x'', ''2''] \<and> [''x'', ''y''] \<noteq> [] \<and> (0::int) \<le> 3 \<and>
   fst (run 3 ''MGET'' [''MGET'', ''x'', ''y'']
     (snd (run 0 ''MSET'' [''MSET'', ''x'', ''1'', ''x'', ''2''] (kv_Open sample_cache)))) =
     Ok (value_of (VList [VStr ''2'', VNil]))"
  using mset_then_mget [OF sample_ok, of "[''x'', ''1'', ''x'', ''2'']" "[''x'', ''y'']" 0 3 "''MSET''" "''MGET''"]
  by (simp add: sample_ok view_def view_sample)

section \<open>A counter shared by connections\<close>

lemma x_selected_on_space [simp]: "x_selected (snd (on_space h now e args)) = x_selected e"
  by (simp add: on_space_def split_beta)

lemma commands_keep_selected:
  "(kind, least, most, h) \<in> set commands \<Longrightarrow> kind \<noteq> ''SELECT'' \<Longrightarrow> x_selected (snd (h now e args)) = x_selected e"
proof -
  have "x_selected (snd (ping now e args)) = x_selected e" "x_selected (snd (echo now e args)) = x_selected e"
    by (cases args; simp)+
  moreover have "x_selected (snd (info_cmd now e args)) = x_selected e" by (simp add: info_cmd_def split_beta)
  ultimately show "(kind, least, most, h) \<in> set commands \<Longrightarrow> kind \<noteq> ''SELECT'' \<Longrightarrow> ?thesis"
    unfolding commands_def
    by (simp only: set_simps insert_iff empty_iff prod.inject) (elim disjE conjE; simp)
qed

lemma run_keeps_selected: "kind \<noteq> ''SELECT'' \<Longrightarrow> x_selected (snd (run now kind argv e)) = x_selected e"
  using commands_keep_selected by (auto simp: run_def Let_def split: option.split dest: map_of_SomeD)

text \<open>A turn that increments the counter, and one that leaves it alone.\<close>

definition is_incr :: "gostring \<Rightarrow> nat \<times> int \<times> kvop \<Rightarrow> bool" where
  "is_incr key t \<longleftrightarrow> op_Kind (snd (snd t)) = ''INCR'' \<and> op_Payload (snd (snd t)) = Some [''INCR'', key]"

definition unrelated :: "gostring \<Rightarrow> nat \<times> int \<times> kvop \<Rightarrow> bool" where
  "unrelated key t \<longleftrightarrow> op_Kind (snd (snd t)) \<notin> {''FLUSHDB'', ''SELECT''} \<and>
     (case op_Payload (snd (snd t)) of None \<Rightarrow> True | Some argv \<Rightarrow> key \<notin> set (tl argv))"

text \<open>A key that counts \<open>n\<close> and never expires.\<close>

definition counts :: "space \<Rightarrow> gostring \<Rightarrow> int \<Rightarrow> bool" where
  "counts s key n \<longleftrightarrow> (\<exists>held. map_of s key = Some held \<and> en_kind held = kindString \<and> en_expires held = None \<and>
     ParseInt (en_text held) = Some n)"

lemma counts_view:
  "counts s key n \<longleftrightarrow> (\<exists>held. view now s key = Some held \<and> en_kind held = kindString \<and> en_expires held = None \<and>
     ParseInt (en_text held) = Some n)"
  by (auto simp: counts_def view_def alive_def split: option.splits if_splits)

lemma exec_incr:
  assumes e: "kv_ok e" and s: "counts (selected e) key n" and n: "int64_range (n + 1)"
    and o': "op_Kind o' = ''INCR''" "op_Payload o' = Some [''INCR'', key]"
  shows "fst (kv_Exec now o' e) = Ok (value_of (VInt (n + 1)))" "counts (selected (snd (kv_Exec now o' e))) key (n + 1)"
    "x_selected (snd (kv_Exec now o' e)) = x_selected e"
proof -
  have x: "kv_Exec now o' e = run now ''INCR'' [''INCR'', key] e" by (simp add: o' kv_Exec_def KindConnect_def)
  have one: "int64_range 1" by (simp add: int64_range_def)
  obtain held where h: "view now (selected e) key = Some held" "en_kind held = kindString" "en_expires held = None"
    "ParseInt (en_text held) = Some n" using s counts_view by blast
  then have cn: "counter (view now (selected e) key) = Some n" by (simp add: counter_def)
  have r: "fst (run now ''INCR'' [''INCR'', key] e) = fst (increment now (selected e) key 1)"
    "selected (snd (run now ''INCR'' [''INCR'', key] e)) = snd (increment now (selected e) key 1)"
    using run_space [OF e table_rows(5), of "[key]" now "''INCR''"] by simp_all
  have "view now (snd (increment now (selected e) key 1)) key = Some (held\<lparr>en_text := FormatInt (n + 1)\<rparr>)"
    using increment_eq(2) [OF cn one order_refl] n h by (simp add: counted_def alive_def)
  then show "counts (selected (snd (kv_Exec now o' e))) key (n + 1)"
    unfolding x r(2) counts_view [of _ key "n + 1" now] using h n by (simp add: counts_def)
  show "fst (kv_Exec now o' e) = Ok (value_of (VInt (n + 1)))" using increment_eq(1) [OF cn one] n by (simp add: x r)
  show "x_selected (snd (kv_Exec now o' e)) = x_selected e" using run_keeps_selected by (simp add: x)
qed

lemma exec_unrelated:
  assumes e: "kv_ok e" and s: "counts (selected e) key n" and u: "unrelated key (c, now, o')"
  shows "counts (selected (snd (kv_Exec now o' e))) key n" "x_selected (snd (kv_Exec now o' e)) = x_selected e"
proof -
  have "counts (selected (snd (kv_Exec now o' e))) key n \<and> x_selected (snd (kv_Exec now o' e)) = x_selected e"
  proof (cases "snd (kv_Exec now o' e) = e")
    case False
    then obtain argv where a: "op_Payload o' = Some argv" "kv_Exec now o' e = run now (op_Kind o') argv e"
      by (auto simp: kv_Exec_def split: if_splits option.splits list.splits)
    have k: "op_Kind o' \<noteq> ''FLUSHDB''" "op_Kind o' \<noteq> ''SELECT''" "key \<notin> set (tl argv)"
      using u a by (auto simp: unrelated_def)
    have "x_selected e < length (b_spaces (x_backend e))" using e by (simp add: kv_ok_def)
    from run_frame [OF order_refl this, of key argv "op_Kind o'" now] k s
    show ?thesis using run_keeps_selected [OF k(2)] a(2)
      by (simp add: counts_view [of _ key n now] seen_def selected_def)
  qed (use s in simp)
  then show "counts (selected (snd (kv_Exec now o' e))) key n" "x_selected (snd (kv_Exec now o' e)) = x_selected e"
    by simp_all
qed

fun counting :: "gostring \<Rightarrow> int \<Rightarrow> clients \<Rightarrow> bool" where
  "counting key n (b, sel) \<longleftrightarrow> clients_ok (b, sel) \<and> set sel \<subseteq> {0} \<and> counts (b_spaces b ! 0) key n"

lemma turn_counting:
  assumes st: "counting key n (b, sel)" and c: "c < length sel" and n: "int64_range (n + 1)"
    and t: "is_incr key (c, now, o') \<or> unrelated key (c, now, o')"
  shows "if is_incr key (c, now, o')
    then fst (turn (b, sel) (c, now, o')) = Ok (value_of (VInt (n + 1))) \<and> counting key (n + 1) (take_turn (b, sel) (c, now, o'))
    else counting key n (take_turn (b, sel) (c, now, o'))"
proof -
  define e where "e = \<lparr>x_backend = b, x_selected = sel ! c\<rparr>"
  have zero: "sel ! c = 0" using st c by (auto dest: nth_mem)
  have e: "kv_ok e" using st clients_kv_ok c by (simp add: e_def)
  have s: "counts (selected e) key n" using st by (simp add: e_def selected_def zero)
  have sel0: "sel[c := 0] = sel" using zero c by (metis list_update_id)
  have "clients_ok (take_turn (b, sel) (c, now, o'))" using turn_safe st by simp
  moreover have tt: "turn (b, sel) (c, now, o') =
      (fst (kv_Exec now o' e), x_backend (snd (kv_Exec now o' e)), sel[c := x_selected (snd (kv_Exec now o' e))])"
    using c by (simp add: e_def split_beta)
  moreover have "set sel \<subseteq> {0}" "x_selected e = 0" using st by (simp_all add: e_def zero)
  ultimately show ?thesis
    using t exec_incr [OF e s n, of o' now] exec_unrelated [OF e s, of c now o'] sel0
    by (auto simp: take_turn_def is_incr_def selected_def simp del: turn.simps clients_ok.simps)
qed

definition increments :: "gostring \<Rightarrow> (nat \<times> int \<times> kvop) list \<Rightarrow> int" where
  "increments key turns = int (length (filter (is_incr key) turns))"

lemma length_take_turn: "length (snd (take_turn st t)) = length (snd st)"
  by (cases st; cases t) (auto simp: take_turn_def split_beta)

lemma turns_counting:
  assumes "counting key n st" "int64_range n" "n + int (length turns) \<le> MaxInt64"
    "list_all (\<lambda>t. fst t < length (snd st) \<and> (is_incr key t \<or> unrelated key t)) turns"
  shows "counting key (n + increments key turns) (foldl take_turn st turns) \<and>
    length (snd (foldl take_turn st turns)) = length (snd st)"
  using assms
proof (induction turns arbitrary: n st)
  case (Cons t turns)
  obtain b sel c now o' where st: "st = (b, sel)" "t = (c, now, o')" by (metis prod.collapse)
  have range: "int64_range (n + 1)" using Cons.prems by (auto simp: int64_range_def)
  from turn_counting [of key n b sel c now o'] Cons.prems st range
  have step: "counting key (if is_incr key t then n + 1 else n) (take_turn st t)" by (auto split: if_splits)
  have "counting key ((if is_incr key t then n + 1 else n) + increments key turns) (foldl take_turn (take_turn st t) turns) \<and>
    length (snd (foldl take_turn (take_turn st t) turns)) = length (snd (take_turn st t))"
    by (rule Cons.IH [OF step]) (use Cons.prems range in \<open>auto simp: length_take_turn\<close>)
  then show ?case by (auto simp: increments_def length_take_turn algebra_simps split: if_splits)
qed (simp add: increments_def)

text \<open>No increment is lost and no number is handed out twice: when connections share a counter that never
  expires, in whatever order their INCRs interleave with each other and with commands that do not
  name the key, the INCR that is the k-th to run answers the start value plus k.\<close>

theorem shared_counter:
  assumes "counting key n st" "int64_range n" "n + int (length turns) \<le> MaxInt64"
    and ts: "list_all (\<lambda>t. fst t < length (snd st) \<and> (is_incr key t \<or> unrelated key t)) turns"
    and i: "i < length turns" "is_incr key (turns ! i)"
  shows "fst (turn (foldl take_turn st (take i turns)) (turns ! i))
    = Ok (value_of (VInt (n + increments key (take (Suc i) turns))))"
proof -
  define m where "m = n + increments key (take i turns)"
  obtain b sel where bs: "foldl take_turn st (take i turns) = (b, sel)" by force
  have tsi: "list_all (\<lambda>t. fst t < length (snd st) \<and> (is_incr key t \<or> unrelated key t)) (take i turns)"
    using ts by (auto simp: list_all_iff dest: in_set_takeD)
  have "n + int (length (take i turns)) \<le> MaxInt64" using assms(3) by simp
  from turns_counting [OF assms(1,2) this tsi]
  have c: "counting key m (b, sel)" "length sel = length (snd st)" by (simp_all add: bs m_def)
  have "increments key (take i turns) \<le> int i"
    using length_filter_le [of "is_incr key" "take i turns"] i by (simp add: increments_def)
  then have "int64_range (m + 1)"
    using assms(2,3) i by (simp add: m_def int64_range_def increments_def)
  moreover obtain c now o' where t: "turns ! i = (c, now, o')" by (metis prod.collapse)
  moreover have "c < length sel" using ts i t c by (auto simp: list_all_length)
  ultimately show ?thesis using turn_counting [OF c(1), of c now o'] i t
    by (simp add: bs take_Suc_conv_app_nth increments_def m_def add.assoc add.commute [of 1] split: if_splits)
qed

theorem shared_counter_witness:
  "counting ''rate:1'' 0 (sample_cache, [0, 0]) \<and> int64_range 0 \<and>
   fst (turn (take_turn (sample_cache, [0, 0]) (1, 4, redis_op [''INCR'', ''rate:1''])) (0, 2, redis_op [''INCR'', ''rate:1'']))
     = Ok (value_of (VInt 2))"
proof -
  have u: "ToUpper ''INCR'' = ''INCR''" by code_simp
  let ?t = "\<lambda>c now. (c, now, redis_op [''INCR'', ''rate:1''])"
  have i: "is_incr ''rate:1'' (?t c now)" for c now by (simp add: is_incr_def redis_op_def u)
  have p: "ParseInt ''0'' = Some 0" by code_simp
  have "b_spaces sample_cache ! 0 = selected (kv_Open sample_cache)" by (simp add: selected_def kv_Open_def)
  then have "counts (b_spaces sample_cache ! 0) ''rate:1'' 0"
    by (simp add: view_sample counts_def text_entry_def newEntry_def p)
  moreover have "clients_ok (sample_cache, [0, 0])"
    using seeded_ok [of sample_seed 2] by (simp add: sample_cache_def sample_seed_def numeral_2_eq_2)
  ultimately have c: "counting ''rate:1'' 0 (sample_cache, [0, 0])" by simp
  from shared_counter [OF c, of "[?t 1 4, ?t 0 2]" 1] c i show ?thesis
    by (simp add: int64_range_def increments_def del: turn.simps counting.simps)
qed

end
