(* ===== verification/KvCollections.thy ===== *)
theory KvCollections
  imports KvBehaviour
begin

text \<open>
  The cache's lists, sets and hashes as abstract data types: a client that only sends commands of one
  kind to a key cannot tell the key from a deque, a finite set or a finite map. Each is an
  interpretation of the \<open>refinement\<close> interface on the command table's own \<open>run\<close>.
\<close>

section \<open>Lists\<close>

datatype list_command = LPush "gostring list" | RPush "gostring list" | LPop | RPop | LRange gostring gostring

text \<open>The elements whose index, counted from the end when negative, is within the bounds.\<close>

definition range_of :: "int \<Rightarrow> int \<Rightarrow> 'a list \<Rightarrow> 'a list" where
  "range_of a b xs =
     (let n = int (length xs); lo = (if a < 0 then a + n else a); hi = (if b < 0 then b + n else b)
      in map (\<lambda>i. xs ! i) (filter (\<lambda>i. lo \<le> int i \<and> int i \<le> hi) [0..<length xs]))"

fun deque_spec :: "gostring list \<Rightarrow> list_command \<Rightarrow> kvres \<times> gostring list" where
  "deque_spec xs (LPush items) =
     (if items = [] then (Fail (RedisErr (wrongArity ''LPUSH'')), xs)
      else (Ok (value_of (VInt (int (length xs + length items)))), rev items @ xs))"
| "deque_spec xs (RPush items) =
     (if items = [] then (Fail (RedisErr (wrongArity ''RPUSH'')), xs)
      else (Ok (value_of (VInt (int (length xs + length items)))), xs @ items))"
| "deque_spec xs LPop = (case xs of [] \<Rightarrow> (Ok (value_of VNil), []) | y # ys \<Rightarrow> (Ok (value_of (VStr y)), ys))"
| "deque_spec xs RPop = (if xs = [] then (Ok (value_of VNil), []) else (Ok (value_of (VStr (last xs))), butlast xs))"
| "deque_spec xs (LRange a b) =
     (case (Atoi a, Atoi b) of
        (Some i, Some j) \<Rightarrow> (Ok (value_of (VStrs (range_of i j xs))), xs)
      | _ \<Rightarrow> (Fail (RedisErr ErrNotInteger), xs))"

fun list_words :: "gostring \<Rightarrow> list_command \<Rightarrow> gostring list" where
  "list_words key (LPush items) = ''LPUSH'' # key # items"
| "list_words key (RPush items) = ''RPUSH'' # key # items"
| "list_words key LPop = [''LPOP'', key]"
| "list_words key RPop = [''RPOP'', key]"
| "list_words key (LRange a b) = [''LRANGE'', key, a, b]"

text \<open>One command, at some instant.\<close>

definition send :: "(gostring \<Rightarrow> 'c \<Rightarrow> gostring list) \<Rightarrow> gostring \<Rightarrow> executor \<Rightarrow> int \<times> 'c \<Rightarrow> kvres \<times> executor" where
  "send words key e c = run (fst c) (hd (words key (snd c))) (words key (snd c)) e"

text \<open>The key holds a collection of the kind, without a deadline, or nothing.\<close>

definition holds :: "kind \<Rightarrow> gostring \<Rightarrow> executor \<Rightarrow> bool" where
  "holds want key e \<longleftrightarrow> kv_ok e \<and>
     (\<forall>held. map_of (selected e) key = Some held \<longrightarrow> en_kind held = want \<and> en_expires held = None)"

definition contents :: "(kventry \<Rightarrow> 'a) \<Rightarrow> 'a \<Rightarrow> gostring \<Rightarrow> executor \<Rightarrow> 'a" where
  "contents f none key e = (case map_of (selected e) key of None \<Rightarrow> none | Some held \<Rightarrow> f held)"

lemma at_eternal:
  "(\<And>held. map_of s key = Some held \<Longrightarrow> en_expires held = None) \<Longrightarrow> at now s key = (map_of s key, s)"
  by (auto simp: at_def alive_def split: option.splits)

lemma of_kind_eternal:
  assumes "\<And>held. map_of s key = Some held \<Longrightarrow> en_kind held = want \<and> en_expires held = None"
  shows "of_kind now s key want = (Inr (map_of s key), s)"
  using assms by (auto simp: of_kind_def at_eternal split: option.splits)

lemma mutable_eternal:
  assumes "\<And>held. map_of s key = Some held \<Longrightarrow> en_kind held = want \<and> en_expires held = None"
  shows "mutable now s key want = (case map_of s key of Some held \<Rightarrow> (Inr held, s)
     | None \<Rightarrow> (Inr (newEntry want), AList.update key (newEntry want) s))"
  using of_kind_eternal [OF assms] by (simp add: mutable_def split: option.split)

lemma wrong_arity:
  "map_of commands kind = Some (least, most, h) \<Longrightarrow> int (length args) < least \<Longrightarrow>
     run now kind (v # args) e = (Fail (RedisErr (wrongArity kind)), e)"
  by (simp add: run_def)

text \<open>To run a handler on a key is to give its answer and to leave what it left under the key.\<close>

lemma send_step:
  assumes e: "holds want key e" and w: "words key c = kind # args"
    and row: "map_of commands kind = Some (least, most, on_space h)"
    and arity: "least \<le> int (length args)" "most < 0 \<or> int (length args) \<le> most"
    and h: "fst (h now (selected e) args) = answer"
    "map_of (snd (h now (selected e) args)) key = left"
    and ok: "\<And>held. left = Some held \<Longrightarrow> en_kind held = want \<and> en_expires held = None"
  shows "fst (send words key e (now, c)) = answer \<and> holds want key (snd (send words key e (now, c))) \<and>
    contents f none key (snd (send words key e (now, c))) = (case left of None \<Rightarrow> none | Some held \<Rightarrow> f held)"
proof -
  have k: "kv_ok e" using e by (simp add: holds_def)
  from run_space [OF k row arity, of now kind] h ok show ?thesis
    by (auto simp: send_def w holds_def contents_def)
qed

lemma push_items: "foldl (push_item side) xs items = (if side = atFront then rev items @ xs else xs @ items)"
  by (induction items arbitrary: xs) (simp_all add: push_item_def)

lemma holds_entry: "holds want key e \<Longrightarrow> map_of (selected e) key = Some held \<Longrightarrow>
    en_kind held = want \<and> en_expires held = None \<and> entry_ok held"
  using selected_ok by (auto simp: holds_def space_ok_def)

lemma of_kind_holds: "holds want key e \<Longrightarrow> of_kind now (selected e) key want = (Inr (map_of (selected e) key), selected e)"
  by (rule of_kind_eternal) (blast dest: holds_entry)

lemma mutable_holds:
  "holds want key e \<Longrightarrow> mutable now (selected e) key want = (case map_of (selected e) key of Some held \<Rightarrow> (Inr held, selected e)
     | None \<Rightarrow> (Inr (newEntry want), AList.update key (newEntry want) (selected e)))"
  by (rule mutable_eternal) (blast dest: holds_entry)

lemma take_drop_range: "to \<le> length xs \<Longrightarrow> take (to - from) (drop from xs) = map (\<lambda>i. xs ! i) [from..<to]"
  by (rule nth_equalityI) auto

lemma filter_upt: "filter (\<lambda>i. lo \<le> i \<and> i < hi) [0..<n] = [lo..<min hi n]"
proof (induction n)
  case (Suc n)
  show ?case
  proof (cases "hi \<le> n")
    case True
    then show ?thesis using Suc by (simp add: min_absorb1)
  next
    case False
    then have "min hi n = n" "min hi (Suc n) = Suc n" by simp_all
    with False Suc show ?thesis by (simp add: upt_conv_Nil)
  qed
qed simp

lemma range_of_span:
  "go_slice (fst (span a b (int (length xs)))) (snd (span a b (int (length xs)))) xs = Some (range_of a b xs)"
proof -
  define n where "n = int (length xs)"
  define lo where "lo = (if a < 0 then a + n else a)"
  define hi where "hi = (if b < 0 then b + n else b)"
  have sel: "range_of a b xs = map (\<lambda>i. xs ! i) (filter (\<lambda>i. nat (max lo 0) \<le> i \<and> i < nat (min hi (n - 1) + 1)) [0..<length xs])"
    unfolding range_of_def Let_def n_def [symmetric] lo_def [symmetric] hi_def [symmetric]
    by (intro arg_cong [where f = "map _"] filter_cong refl) (auto simp: n_def)
  have r: "range_of a b xs = map (\<lambda>i. xs ! i) [nat (max lo 0)..<nat (min hi (n - 1) + 1)]"
    unfolding sel filter_upt by (rule arg_cong [where f = "map _"]) (auto simp: n_def min_def)
  have s: "span a b n = (if max lo 0 > min hi (n - 1) then (0, 0) else (max lo 0, min hi (n - 1) + 1))"
    by (simp add: span_def lo_def hi_def Let_def)
  show ?thesis
  proof (cases "max lo 0 > min hi (n - 1)")
    case True
    then have "range_of a b xs = []" unfolding r by (simp add: upt_conv_Nil)
    then show ?thesis using True by (simp add: n_def [symmetric] s go_slice_def) (simp add: n_def)
  next
    case False
    then show ?thesis using take_drop_range [of "nat (min hi (n - 1) + 1)" xs "nat (max lo 0)"]
      by (simp add: n_def [symmetric] s r go_slice_def) (auto simp: n_def)
  qed
qed

lemma range_of_Nil: "range_of a b [] = []"
  by (simp add: range_of_def Let_def)

lemma push_step:
  assumes e: "holds kindList key e" and items: "items \<noteq> []"
  shows "fst (push side now (selected e) (key # items)) =
      Ok (value_of (VInt (int (length (contents en_list [] key e) + length items))))"
    and "map_of (snd (push side now (selected e) (key # items))) key =
      Some ((case map_of (selected e) key of None \<Rightarrow> newEntry kindList | Some held \<Rightarrow> held)
        \<lparr>en_list := (if side = atFront then rev items @ contents en_list [] key e else contents en_list [] key e @ items)\<rparr>)"
proof -
  note m = mutable_holds [OF e]
  show "fst (push side now (selected e) (key # items)) =
      Ok (value_of (VInt (int (length (contents en_list [] key e) + length items))))"
    "map_of (snd (push side now (selected e) (key # items))) key =
      Some ((case map_of (selected e) key of None \<Rightarrow> newEntry kindList | Some held \<Rightarrow> held)
        \<lparr>en_list := (if side = atFront then rev items @ contents en_list [] key e else contents en_list [] key e @ items)\<rparr>)"
    by (auto simp: m contents_def push_items store_def newEntry_def Let_def add.commute split: option.split)
qed

lemma pop_step:
  assumes e: "holds kindList key e"
  shows "fst (pop side now (selected e) [key]) =
      Ok (value_of (case contents en_list [] key e of [] \<Rightarrow> VNil
        | xs \<Rightarrow> VStr (if side = atFront then hd xs else last xs)))"
    and "map_of (snd (pop side now (selected e) [key])) key =
      (let xs = contents en_list [] key e; ys = (if side = atFront then tl xs else butlast xs)
       in if ys = [] then None else Some ((the (map_of (selected e) key))\<lparr>en_list := ys\<rparr>))"
proof -
  note k = of_kind_holds [OF e]
  have shape: "en_kind held = kindList" "en_list held \<noteq> []" "en_hash held = []" "en_members held = []"
    if "map_of (selected e) key = Some held" for held
    using holds_entry [OF e that] by (auto simp: entry_ok_def entry_shape_def empty_entry_def)
  show "fst (pop side now (selected e) [key]) =
      Ok (value_of (case contents en_list [] key e of [] \<Rightarrow> VNil
        | xs \<Rightarrow> VStr (if side = atFront then hd xs else last xs)))"
    using shape by (auto simp: k contents_def Let_def split_beta split: option.split list.split)
  show "map_of (snd (pop side now (selected e) [key])) key =
      (let xs = contents en_list [] key e; ys = (if side = atFront then tl xs else butlast xs)
       in if ys = [] then None else Some ((the (map_of (selected e) key))\<lparr>en_list := ys\<rparr>))"
  proof (cases "map_of (selected e) key")
    case (Some held)
    with shape [OF Some] show ?thesis
      by (simp add: k contents_def Let_def split_beta store_def prune_def empty_entry_def)
  qed (simp add: k contents_def)
qed

lemma entry_after:
  assumes "holds want key e"
  shows "en_kind (case map_of (selected e) key of None \<Rightarrow> newEntry want | Some held \<Rightarrow> held) = want"
    "en_expires (case map_of (selected e) key of None \<Rightarrow> newEntry want | Some held \<Rightarrow> held) = None"
  using holds_entry [OF assms] by (auto simp: newEntry_def split: option.split)

lemma list_refines_push:
  assumes e: "holds kindList key e" and items: "items \<noteq> []" and c: "list_words key c = kind # key # items"
    and row: "map_of commands kind = Some (2, -1, on_space (push side))"
  shows "fst (send list_words key e (now, c)) = Ok (value_of (VInt (int (length (contents en_list [] key e) + length items)))) \<and>
    holds kindList key (snd (send list_words key e (now, c))) \<and>
    contents en_list [] key (snd (send list_words key e (now, c))) =
      (if side = atFront then rev items @ contents en_list [] key e else contents en_list [] key e @ items)"
proof -
  have n: "2 \<le> int (length (key # items))" using items by (cases items) auto
  from send_step [where words = list_words and c = c and f = en_list and none = "[]",
      OF e c row n _ push_step(1) [OF e items, of side now] push_step(2) [OF e items, of side now]] entry_after [OF e]
  show ?thesis by auto
qed

lemma list_refines_pop:
  assumes e: "holds kindList key e" and c: "list_words key c = [kind, key]"
    and row: "map_of commands kind = Some (1, 1, on_space (pop side))"
  shows "fst (send list_words key e (now, c)) = Ok (value_of (case contents en_list [] key e of [] \<Rightarrow> VNil
        | xs \<Rightarrow> VStr (if side = atFront then hd xs else last xs))) \<and>
    holds kindList key (snd (send list_words key e (now, c))) \<and>
    contents en_list [] key (snd (send list_words key e (now, c))) =
      (if side = atFront then tl (contents en_list [] key e) else butlast (contents en_list [] key e))"
proof -
  let ?xs = "contents en_list [] key e"
  let ?ys = "if side = atFront then tl ?xs else butlast ?xs"
  have "en_kind held = kindList \<and> en_expires held = None"
    if "(if ?ys = [] then None else Some ((the (map_of (selected e) key))\<lparr>en_list := ?ys\<rparr>)) = Some held" for held
    using that holds_entry [OF e] by (auto simp: contents_def split: if_splits option.splits)
  from send_step [where words = list_words and c = c and f = en_list and none = "[]",
      OF e c row _ _ pop_step(1) [OF e, of side now] pop_step(2) [OF e, of side now]] this
  show ?thesis by (auto simp: Let_def)
qed

lemma list_refines:
  assumes e: "holds kindList key e"
  shows "holds kindList key (snd (send list_words key e (now, c))) \<and>
    deque_spec (contents en_list [] key e) c =
      (fst (send list_words key e (now, c)), contents en_list [] key (snd (send list_words key e (now, c))))"
proof (cases c)
  case (LPush items)
  show ?thesis
  proof (cases "items = []")
    case False
    from list_refines_push [OF e False _ table_rows_collections(1), of c now] False LPush show ?thesis by simp
  qed (use LPush e wrong_arity [OF table_rows_collections(1), of "[key]"] in \<open>simp add: send_def\<close>)
next
  case (RPush items)
  show ?thesis
  proof (cases "items = []")
    case False
    from list_refines_push [OF e False _ table_rows_collections(2), of c now] False RPush show ?thesis by simp
  qed (use RPush e wrong_arity [OF table_rows_collections(2), of "[key]"] in \<open>simp add: send_def\<close>)
next
  case LPop
  from list_refines_pop [OF e _ table_rows_collections(3), of c now] LPop
  show ?thesis by (auto split: list.split)
next
  case RPop
  from list_refines_pop [OF e _ table_rows_collections(4), of c now] RPop
  show ?thesis by (auto split: list.split)
next
  case (LRange a b)
  let ?l = "lrange now (selected e) [key, a, b]"
  have l: "fst ?l = fst (deque_spec (contents en_list [] key e) c)" "map_of (snd ?l) key = map_of (selected e) key"
    by (simp_all add: LRange of_kind_holds [OF e] contents_def split_beta range_of_span range_of_Nil split: option.split)
  have "fst (send list_words key e (now, c)) = fst (deque_spec (contents en_list [] key e) c) \<and>
      holds kindList key (snd (send list_words key e (now, c))) \<and>
      contents en_list [] key (snd (send list_words key e (now, c))) = contents en_list [] key e"
    using send_step [where words = list_words and c = c and f = en_list and none = "[]",
      OF e _ table_rows_collections(5) _ _ l] holds_entry [OF e] LRange
    by (auto simp: contents_def)
  then show ?thesis by (auto simp: LRange split: option.split)
qed

interpretation deque: refinement "contents en_list [] key" "holds kindList key" "send list_words key"
    "\<lambda>xs c. deque_spec xs (snd c)" for key :: gostring
  using list_refines by unfold_locales (metis prod.collapse)+

text \<open>C30. A list key is a deque: to any sequence of LPUSH, RPUSH, LPOP, RPOP and LRANGE commands, at whatever
  instants, the cache gives exactly the answers of a list that grows and shrinks at both ends, a
  pop of nothing being nil, a push of nothing refused, and LRANGE selecting by index, negative
  indices counting from the end.\<close>

theorem list_key_is_deque:
  assumes "holds kindList key e"
  shows "trace (send list_words key) e cs = trace (\<lambda>xs c. deque_spec xs (snd c)) (contents en_list [] key e) cs"
  using assms by (rule deque.trace_refines)

lemma sample_holds: "holds kindList ''recent'' (kv_Open sample_cache)" "holds kindSet ''tags'' (kv_Open sample_cache)"
  "holds kindHash ''user'' (kv_Open sample_cache)"
  by (simp_all add: holds_def sample_ok view_sample newEntry_def)

theorem list_key_is_deque_witness:
  "holds kindList ''recent'' (kv_Open sample_cache) \<and>
   trace (send list_words ''recent'') (kv_Open sample_cache) [(1, LPush [''c'', ''d'']), (2, RPop), (3, LPop)] =
     [Ok (value_of (VInt 4)), Ok (value_of (VStr ''b'')), Ok (value_of (VStr ''d''))]"
  using list_key_is_deque [OF sample_holds(1), of "[(1, LPush [''c'', ''d'']), (2, RPop), (3, LPop)]"] sample_holds(1)
  by (simp add: contents_def view_sample)

section \<open>Sets\<close>

datatype set_command = SAdd "gostring list" | SRem "gostring list" | SMembers | SIsMember gostring | SCard

fun set_spec :: "gostring set \<Rightarrow> set_command \<Rightarrow> kvres \<times> gostring set" where
  "set_spec A (SAdd items) =
     (if items = [] then (Fail (RedisErr (wrongArity ''SADD'')), A)
      else (Ok (value_of (VInt (int (card (set items - A))))), A \<union> set items))"
| "set_spec A (SRem items) =
     (if items = [] then (Fail (RedisErr (wrongArity ''SREM'')), A)
      else (Ok (value_of (VInt (int (card (A \<inter> set items))))), A - set items))"
| "set_spec A SMembers = (Ok (value_of (VStrs (sorted_list_of_set A))), A)"
| "set_spec A (SIsMember m) = (Ok (value_of (VInt (if m \<in> A then 1 else 0))), A)"
| "set_spec A SCard = (Ok (value_of (VInt (int (card A)))), A)"

fun set_command_words :: "gostring \<Rightarrow> set_command \<Rightarrow> gostring list" where
  "set_command_words key (SAdd items) = ''SADD'' # key # items"
| "set_command_words key (SRem items) = ''SREM'' # key # items"
| "set_command_words key SMembers = [''SMEMBERS'', key]"
| "set_command_words key (SIsMember m) = [''SISMEMBER'', key, m]"
| "set_command_words key SCard = [''SCARD'', key]"

lemma table_row_sismember: "map_of commands ''SISMEMBER'' = Some (2, 2, on_space sismember)"
  by (simp add: commands_def)

abbreviation members_of :: "gostring \<Rightarrow> executor \<Rightarrow> gostring set" where
  "members_of \<equiv> contents (\<lambda>held. set (en_members held)) {}"

lemma sadd_loop_count: "fst (sadd_loop ms xs) = card (set xs - set ms)"
proof (induction ms xs rule: sadd_loop.induct)
  case (2 ms m rest)
  show ?case
  proof (cases "m \<in> set ms")
    case False
    have "set (m # rest) - set ms = insert m (set rest - set (ms @ [m]))" using False by auto
    then have "card (set (m # rest) - set ms) = Suc (card (set rest - set (ms @ [m])))"
      by (simp only:) (rule card_insert_disjoint; simp)
    with 2 False show ?thesis by (simp add: split_beta)
  qed (use 2 in \<open>simp add: insert_Diff_if\<close>)
qed simp

lemma srem_loop_set:
  "distinct ms \<Longrightarrow> fst (srem_loop ms xs) = card (set ms \<inter> set xs) \<and> set (snd (srem_loop ms xs)) = set ms - set xs"
proof (induction ms xs rule: srem_loop.induct)
  case (2 ms m rest)
  show ?case
  proof (cases "m \<in> set ms")
    case True
    have "set ms \<inter> set (m # rest) = insert m (set (remove1 m ms) \<inter> set rest)" using True 2 by auto
    moreover have "m \<notin> set (remove1 m ms) \<inter> set rest" using 2 by simp
    ultimately have "card (set ms \<inter> set (m # rest)) = Suc (card (set (remove1 m ms) \<inter> set rest))" by simp
    with 2 True show ?thesis by (auto simp: split_beta)
  qed (use 2 in auto)
qed simp

lemma sadd_step:
  assumes e: "holds kindSet key e" and items: "items \<noteq> []" and c: "c = SAdd items"
  shows "fst (send set_command_words key e (now, c)) = fst (set_spec (members_of key e) c) \<and>
    holds kindSet key (snd (send set_command_words key e (now, c))) \<and>
    members_of key (snd (send set_command_words key e (now, c))) = snd (set_spec (members_of key e) c)"
proof -
  let ?held = "case map_of (selected e) key of None \<Rightarrow> newEntry kindSet | Some held \<Rightarrow> held"
  let ?s = "sadd now (selected e) (key # items)"
  have m: "set (en_members ?held) = members_of key e" "distinct (en_members ?held)"
    using holds_entry [OF e] by (auto simp: contents_def newEntry_def entry_ok_def entry_shape_def split: option.split)
  have l: "fst ?s = Ok (value_of (VInt (int (card (set items - members_of key e)))))"
    "map_of (snd ?s) key = Some (?held\<lparr>en_members := snd (sadd_loop (en_members ?held) items)\<rparr>)"
    using m by (cases "map_of (selected e) key"; simp add: mutable_holds [OF e] split_beta store_def sadd_loop_count)+
  have n: "2 \<le> int (length (key # items))" using items by (cases items) auto
  from send_step [where words = set_command_words and c = c and f = "\<lambda>held. set (en_members held)" and none = "{}",
      OF e _ table_rows_collections(6) n _ l] entry_after [OF e] sadd_loop_distinct [OF m(2), of items] m(1)
  show ?thesis using items by (auto simp: c)
qed

lemma srem_step:
  assumes e: "holds kindSet key e" and items: "items \<noteq> []" and c: "c = SRem items"
  shows "fst (send set_command_words key e (now, c)) = fst (set_spec (members_of key e) c) \<and>
    holds kindSet key (snd (send set_command_words key e (now, c))) \<and>
    members_of key (snd (send set_command_words key e (now, c))) = snd (set_spec (members_of key e) c)"
proof -
  let ?s = "srem now (selected e) (key # items)"
  let ?rest = "\<lambda>held. snd (srem_loop (en_members held) items)"
  have shape: "en_kind held = kindSet" "en_hash held = []" "en_list held = []" "distinct (en_members held)"
    if "map_of (selected e) key = Some held" for held
    using holds_entry [OF e that] by (auto simp: entry_ok_def entry_shape_def)
  have l: "fst ?s = Ok (value_of (VInt (int (card (members_of key e \<inter> set items)))))"
    "map_of (snd ?s) key = (case map_of (selected e) key of None \<Rightarrow> None
       | Some held \<Rightarrow> if ?rest held = [] then None else Some (held\<lparr>en_members := ?rest held\<rparr>))"
    using shape by (cases "map_of (selected e) key"; simp add: of_kind_holds [OF e] split_beta store_def prune_def
        empty_entry_def Let_def contents_def srem_loop_set)+
  have n: "2 \<le> int (length (key # items))" using items by (cases items) auto
  have k: "en_kind x = kindSet \<and> en_expires x = None" if "(case map_of (selected e) key of None \<Rightarrow> None
       | Some held \<Rightarrow> if ?rest held = [] then None else Some (held\<lparr>en_members := ?rest held\<rparr>)) = Some x" for x
    using that holds_entry [OF e] by (auto split: option.splits if_splits)
  have r: "(case case map_of (selected e) key of None \<Rightarrow> None
       | Some held \<Rightarrow> if ?rest held = [] then None else Some (held\<lparr>en_members := ?rest held\<rparr>) of
       None \<Rightarrow> {} | Some held \<Rightarrow> set (en_members held)) = members_of key e - set items"
  proof (cases "map_of (selected e) key")
    case (Some held)
    with srem_loop_set [OF shape(4) [OF Some], of items] show ?thesis by (auto simp: contents_def)
  qed (simp add: contents_def)
  from send_step [where words = set_command_words and c = c and f = "\<lambda>held. set (en_members held)" and none = "{}",
      OF e _ table_rows_collections(7) n _ l k] r items
  show ?thesis by (simp add: c)
qed

text \<open>A read answers from the entry and leaves it.\<close>

lemma read_step:
  assumes e: "holds want key e" and w: "words key c = kind # key # rest"
    and row: "map_of commands kind = Some (least, most, on_space h)"
    and arity: "least \<le> int (length (key # rest))" "most < 0 \<or> int (length (key # rest)) \<le> most"
    and h: "h now (selected e) (key # rest) = reading now (selected e) key want absent answer"
  shows "fst (send words key e (now, c)) = Ok (value_of (case map_of (selected e) key of None \<Rightarrow> absent | Some held \<Rightarrow> answer held)) \<and>
    holds want key (snd (send words key e (now, c))) \<and>
    contents f none key (snd (send words key e (now, c))) = contents f none key e"
proof -
  have l: "fst (h now (selected e) (key # rest)) =
      Ok (value_of (case map_of (selected e) key of None \<Rightarrow> absent | Some held \<Rightarrow> answer held))"
    "map_of (snd (h now (selected e) (key # rest))) key = map_of (selected e) key"
    by (simp_all add: h reading_def of_kind_holds [OF e] split: option.split)
  have k: "en_kind held = want \<and> en_expires held = None" if "map_of (selected e) key = Some held" for held
    using holds_entry [OF e that] by simp
  from send_step [where words = words and c = c and f = f and none = none, OF e w row arity l k]
  show ?thesis by (simp add: contents_def)
qed

lemma set_readers:
  assumes e: "holds kindSet key e" and c: "c \<in> {SMembers, SCard} \<union> range SIsMember"
  shows "fst (send set_command_words key e (now, c)) = fst (set_spec (members_of key e) c) \<and>
    holds kindSet key (snd (send set_command_words key e (now, c))) \<and>
    members_of key (snd (send set_command_words key e (now, c))) = members_of key e"
proof -
  have d: "sort (en_members held) = sorted_list_of_set (set (en_members held))"
    "length (en_members held) = card (set (en_members held))"
    if "map_of (selected e) key = Some held" for held
    using holds_entry [OF e that]
    by (auto simp: entry_ok_def entry_shape_def distinct_card intro: sorted_distinct_set_unique)
  note r = read_step [where words = set_command_words and c = c and f = "\<lambda>held. set (en_members held)" and none = "{}", OF e]
  consider "c = SMembers" | "c = SCard" | m where "c = SIsMember m" using c by auto
  then show ?thesis
  proof cases
    case 1
    from r [OF _ table_rows_collections(8), of "[]" now] 1 d show ?thesis
      by (auto simp: contents_def split: option.split)
  next
    case 2
    from r [OF _ table_rows_collections(9), of "[]" now] 2 d show ?thesis
      by (auto simp: contents_def split: option.split)
  next
    case (3 m)
    from r [OF _ table_row_sismember, of "[m]" now] 3 show ?thesis
      by (auto simp: contents_def split: option.split)
  qed
qed

lemma set_refines:
  assumes e: "holds kindSet key e"
  shows "holds kindSet key (snd (send set_command_words key e (now, c))) \<and>
    set_spec (members_of key e) c =
      (fst (send set_command_words key e (now, c)), members_of key (snd (send set_command_words key e (now, c))))"
proof (cases c)
  case (SAdd items)
  show ?thesis
  proof (cases "items = []")
    case False
    from sadd_step [OF e this SAdd] show ?thesis by (simp add: prod_eq_iff)
  qed (use SAdd e wrong_arity [OF table_rows_collections(6), of "[key]"] in \<open>simp add: send_def\<close>)
next
  case (SRem items)
  show ?thesis
  proof (cases "items = []")
    case False
    from srem_step [OF e this SRem] show ?thesis by (simp add: prod_eq_iff)
  qed (use SRem e wrong_arity [OF table_rows_collections(7), of "[key]"] in \<open>simp add: send_def\<close>)
qed (use set_readers [OF e, of c now] in \<open>auto simp: prod_eq_iff\<close>)

interpretation members: refinement "members_of key" "holds kindSet key" "send set_command_words key"
    "\<lambda>A c. set_spec A (snd c)" for key :: gostring
  using set_refines by unfold_locales (metis prod.collapse)+

text \<open>A set key is a finite set: to any sequence of SADD, SREM, SMEMBERS, SISMEMBER and SCARD commands the cache
  gives exactly the answers of a mathematical set, the counts being of members really added or
  removed and the listing sorted.\<close>

theorem set_key_is_set:
  assumes "holds kindSet key e"
  shows "trace (send set_command_words key) e cs = trace (\<lambda>A c. set_spec A (snd c)) (members_of key e) cs"
  using assms by (rule members.trace_refines)

theorem set_key_is_set_witness:
  "holds kindSet ''tags'' (kv_Open sample_cache) \<and>
   trace (send set_command_words ''tags'') (kv_Open sample_cache)
       [(1, SAdd [''x'', ''y'', ''x'']), (2, SRem [''x'', ''z'']), (3, SCard)] =
     [Ok (value_of (VInt 2)), Ok (value_of (VInt 1)), Ok (value_of (VInt 1))]"
  using set_key_is_set [OF sample_holds(2), of "[(1, SAdd [''x'', ''y'', ''x'']), (2, SRem [''x'', ''z'']), (3, SCard)]"]
    sample_holds(2)
  by (simp add: contents_def view_sample insert_Diff_if card_insert_if)

section \<open>Hashes\<close>

datatype hash_command = HSet "gostring list" | HDel "gostring list" | HGet gostring | HKeys | HVals

fun hash_spec :: "(gostring \<rightharpoonup> gostring) \<Rightarrow> hash_command \<Rightarrow> kvres \<times> (gostring \<rightharpoonup> gostring)" where
  "hash_spec m (HSet args) =
     (if length args < 2 \<or> odd (length args) then (Fail (RedisErr (wrongArity ''HSET'')), m)
      else (Ok (value_of (VInt (int (card (fst ` set (pairs_of args) - dom m))))), m ++ map_of (rev (pairs_of args))))"
| "hash_spec m (HDel fs) =
     (if fs = [] then (Fail (RedisErr (wrongArity ''HDEL'')), m)
      else (Ok (value_of (VInt (int (card (dom m \<inter> set fs))))), m |` (- set fs)))"
| "hash_spec m (HGet field) = (Ok (value_of (case m field of None \<Rightarrow> VNil | Some body \<Rightarrow> VStr body)), m)"
| "hash_spec m HKeys = (Ok (value_of (VStrs (sorted_list_of_set (dom m)))), m)"
| "hash_spec m HVals = (Ok (value_of (VStrs (map (\<lambda>f. the (m f)) (sorted_list_of_set (dom m))))), m)"

fun hash_words :: "gostring \<Rightarrow> hash_command \<Rightarrow> gostring list" where
  "hash_words key (HSet args) = ''HSET'' # key # args"
| "hash_words key (HDel fs) = ''HDEL'' # key # fs"
| "hash_words key (HGet field) = [''HGET'', key, field]"
| "hash_words key HKeys = [''HKEYS'', key]"
| "hash_words key HVals = [''HVALS'', key]"

lemma table_rows_hash:
  "map_of commands ''HKEYS'' = Some (1, 1, on_space (hfields hashKeys))"
  "map_of commands ''HVALS'' = Some (1, 1, on_space (hfields hashValues))"
  by (simp_all add: commands_def)

abbreviation fields_of :: "gostring \<Rightarrow> executor \<Rightarrow> (gostring \<rightharpoonup> gostring)" where
  "fields_of \<equiv> contents (\<lambda>held. map_of (en_hash held)) Map.empty"

lemma hset_loop_eq:
  "even (length args) \<Longrightarrow> hset_loop hash args =
     Some (card (fst ` set (pairs_of args) - dom (map_of hash)),
           foldl (\<lambda>h (k, v). AList.update k v h) hash (pairs_of args))"
proof (induction hash args rule: hset_loop.induct)
  case (3 hash field body rest)
  define hash' where "hash' = AList.update field body hash"
  have d: "dom (map_of hash') = insert field (dom (map_of hash))" by (simp add: hash'_def)
  have "card (fst ` set (pairs_of (field # body # rest)) - dom (map_of hash)) =
    (if map_of hash field = None then Suc (card (fst ` set (pairs_of rest) - dom (map_of hash')))
     else card (fst ` set (pairs_of rest) - dom (map_of hash')))"
  proof (cases "map_of hash field")
    case None
    then have "fst ` set (pairs_of (field # body # rest)) - dom (map_of hash) =
        insert field (fst ` set (pairs_of rest) - dom (map_of hash'))" by (auto simp: d)
    with None show ?thesis by (simp add: card_insert_if d)
  next
    case (Some v)
    then have "fst ` set (pairs_of (field # body # rest)) - dom (map_of hash) =
        fst ` set (pairs_of rest) - dom (map_of hash')" by (auto simp: d)
    with Some show ?thesis by simp
  qed
  with 3 show ?case by (simp add: hash'_def [symmetric])
qed simp_all

lemma hdel_loop_eq:
  "fst (hdel_loop hash fs) = card (dom (map_of hash) \<inter> set fs) \<and> map_of (snd (hdel_loop hash fs)) = map_of hash |` (- set fs)"
proof (induction hash fs rule: hdel_loop.induct)
  case (2 hash field rest)
  define hash' where "hash' = AList.delete field hash"
  have d: "dom (map_of hash') = dom (map_of hash) - {field}" "map_of hash' = map_of hash |` (- {field})"
    by (auto simp: hash'_def fun_eq_iff)
  show ?case
  proof (cases "map_of hash field")
    case (Some v)
    have "dom (map_of hash) \<inter> set (field # rest) = insert field (dom (map_of hash') \<inter> set rest)"
      using Some by (auto simp: d)
    moreover have "field \<notin> dom (map_of hash') \<inter> set rest" by (simp add: d)
    ultimately have "card (dom (map_of hash) \<inter> set (field # rest)) = Suc (card (dom (map_of hash') \<inter> set rest))"
      by (simp add: finite_dom_map_of)
    moreover have "map_of hash' |` (- set rest) = map_of hash |` (- set (field # rest))"
      by (auto simp: d restrict_map_def fun_eq_iff)
    ultimately show ?thesis using 2 Some by (simp add: hash'_def [symmetric] split_beta)
  next
    case None
    then have "dom (map_of hash) \<inter> set (field # rest) = dom (map_of hash) \<inter> set rest" by auto
    moreover have "map_of hash |` (- set rest) = map_of hash |` (- set (field # rest))"
      using None by (auto simp: restrict_map_def fun_eq_iff)
    ultimately show ?thesis using 2 None by simp
  qed
qed simp

lemma hset_step:
  assumes e: "holds kindHash key e" and args: "2 \<le> length args" "even (length args)" and c: "c = HSet args"
  shows "fst (send hash_words key e (now, c)) = fst (hash_spec (fields_of key e) c) \<and>
    holds kindHash key (snd (send hash_words key e (now, c))) \<and>
    fields_of key (snd (send hash_words key e (now, c))) = snd (hash_spec (fields_of key e) c)"
proof -
  let ?held = "case map_of (selected e) key of None \<Rightarrow> newEntry kindHash | Some held \<Rightarrow> held"
  let ?s = "hset now (selected e) (key # args)"
  have m: "map_of (en_hash ?held) = fields_of key e"
    by (auto simp: contents_def newEntry_def split: option.split)
  have odd: "length (key # args) mod 2 = 1" using args(2) by (simp add: mod_Suc even_iff_mod_2_eq_zero)
  have l: "fst ?s = Ok (value_of (VInt (int (card (fst ` set (pairs_of args) - dom (fields_of key e))))))"
    "map_of (snd ?s) key = Some (?held\<lparr>en_hash := foldl (\<lambda>h (k, v). AList.update k v h) (en_hash ?held) (pairs_of args)\<rparr>)"
    using m odd by (cases "map_of (selected e) key"; simp add: mutable_holds [OF e] store_def hset_loop_eq [OF args(2)] del: length_Cons)+
  have put: "map_of (foldl (\<lambda>h (k, v). AList.update k v h) (en_hash ?held) (pairs_of args)) = fields_of key e ++ map_of (rev (pairs_of args))"
    using hash.look_put_all [of "pairs_of args" "en_hash ?held"] m by (simp add: list_all_iff)
  from send_step [where words = hash_words and c = c and f = "\<lambda>held. map_of (en_hash held)" and none = Map.empty,
      OF e _ table_rows_collections(10) _ _ l] entry_after [OF e] put args
  show ?thesis by (auto simp: c)
qed

lemma hdel_step:
  assumes e: "holds kindHash key e" and fs: "fs \<noteq> []" and c: "c = HDel fs"
  shows "fst (send hash_words key e (now, c)) = fst (hash_spec (fields_of key e) c) \<and>
    holds kindHash key (snd (send hash_words key e (now, c))) \<and>
    fields_of key (snd (send hash_words key e (now, c))) = snd (hash_spec (fields_of key e) c)"
proof -
  let ?s = "hdel now (selected e) (key # fs)"
  let ?rest = "\<lambda>held. snd (hdel_loop (en_hash held) fs)"
  let ?left = "case map_of (selected e) key of None \<Rightarrow> None
       | Some held \<Rightarrow> if ?rest held = [] then None else Some (held\<lparr>en_hash := ?rest held\<rparr>)"
  have shape: "en_kind held = kindHash" "en_list held = []" "en_members held = []"
    if "map_of (selected e) key = Some held" for held
    using holds_entry [OF e that] by (auto simp: entry_ok_def entry_shape_def)
  have l: "fst ?s = Ok (value_of (VInt (int (card (dom (fields_of key e) \<inter> set fs)))))" "map_of (snd ?s) key = ?left"
    using shape by (cases "map_of (selected e) key"; simp add: of_kind_holds [OF e] split_beta store_def prune_def
        empty_entry_def Let_def contents_def hdel_loop_eq)+
  have n: "2 \<le> int (length (key # fs))" using fs by (cases fs) auto
  have k: "en_kind x = kindHash \<and> en_expires x = None" if "?left = Some x" for x
    using that holds_entry [OF e] by (auto split: option.splits if_splits)
  have r: "(case ?left of None \<Rightarrow> Map.empty | Some held \<Rightarrow> map_of (en_hash held)) = fields_of key e |` (- set fs)"
  proof (cases "map_of (selected e) key")
    case (Some held)
    with hdel_loop_eq [of "en_hash held" fs] show ?thesis by (auto simp: contents_def)
  qed (simp add: contents_def)
  from send_step [where words = hash_words and c = c and f = "\<lambda>held. map_of (en_hash held)" and none = Map.empty,
      OF e _ table_rows_collections(11) n _ l k] r fs
  show ?thesis by (simp add: c)
qed

lemma sorted_keys_dom: "keys_distinct m \<Longrightarrow> sorted_keys m = sorted_list_of_set (dom (map_of m))"
  by (intro sorted_distinct_set_unique) (simp_all add: finite_dom_map_of)

lemma hash_readers:
  assumes e: "holds kindHash key e" and c: "c \<in> {HKeys, HVals} \<union> range HGet"
  shows "fst (send hash_words key e (now, c)) = fst (hash_spec (fields_of key e) c) \<and>
    holds kindHash key (snd (send hash_words key e (now, c))) \<and>
    fields_of key (snd (send hash_words key e (now, c))) = fields_of key e"
proof -
  have d: "sorted_keys (en_hash held) = sorted_list_of_set (dom (map_of (en_hash held)))"
    if "map_of (selected e) key = Some held" for held
    using holds_entry [OF e that] by (intro sorted_keys_dom) (simp add: entry_ok_def entry_shape_def)
  note r = read_step [where words = hash_words and c = c and f = "\<lambda>held. map_of (en_hash held)" and none = Map.empty, OF e]
  consider "c = HKeys" | "c = HVals" | m where "c = HGet m" using c by auto
  then show ?thesis
  proof cases
    case 1
    from r [OF _ table_rows_hash(1), of "[]" now] 1 d show ?thesis
      by (auto simp: contents_def hashKeys_def split: option.split)
  next
    case 2
    from r [OF _ table_rows_hash(2), of "[]" now] 2 d show ?thesis
      by (auto simp: contents_def hashValues_def split: option.split)
  next
    case (3 m)
    from r [OF _ table_rows_collections(12), of "[m]" now] 3 show ?thesis
      by (auto simp: contents_def split: option.split)
  qed
qed

lemma hash_refines:
  assumes e: "holds kindHash key e"
  shows "holds kindHash key (snd (send hash_words key e (now, c))) \<and>
    hash_spec (fields_of key e) c =
      (fst (send hash_words key e (now, c)), fields_of key (snd (send hash_words key e (now, c))))"
proof (cases c)
  case (HSet args)
  consider "length args < 2" | "2 \<le> length args" "odd (length args)" | "2 \<le> length args" "even (length args)" by linarith
  then show ?thesis
  proof cases
    case 1
    then show ?thesis using HSet e wrong_arity [OF table_rows_collections(10), of "key # args"] by (simp add: send_def)
  next
    case 2
    have k: "kv_ok e" using e by (simp add: holds_def)
    have h: "hset now (selected e) (key # args) = (Fail (RedisErr (wrongArity ''HSET'')), selected e)"
      using 2 by (simp add: mod_Suc odd_iff_mod_2_eq_one)
    have "2 \<le> int (length args)" using 2 by simp
    then show ?thesis using 2 e run_space [OF k table_rows_collections(10), of "key # args" now "''HSET''"] h
      by (auto simp: HSet send_def holds_def contents_def simp del: hset.simps)
  next
    case 3
    from hset_step [OF e this HSet] show ?thesis by (simp add: prod_eq_iff)
  qed
next
  case (HDel fs)
  show ?thesis
  proof (cases "fs = []")
    case False
    from hdel_step [OF e this HDel] show ?thesis by (simp add: prod_eq_iff)
  qed (use HDel e wrong_arity [OF table_rows_collections(11), of "[key]"] in \<open>simp add: send_def\<close>)
qed (use hash_readers [OF e, of c now] in \<open>auto simp: prod_eq_iff\<close>)

interpretation fields: refinement "fields_of key" "holds kindHash key" "send hash_words key"
    "\<lambda>m c. hash_spec m (snd c)" for key :: gostring
  using hash_refines by unfold_locales (metis prod.collapse)+

text \<open>A hash key is a finite map: to any sequence of HSET, HDEL, HGET, HKEYS and HVALS commands the cache gives
  exactly the answers of a map, HSET counting the fields that were new and HDEL those that were there.\<close>

theorem hash_key_is_map:
  assumes "holds kindHash key e"
  shows "trace (send hash_words key) e cs = trace (\<lambda>m c. hash_spec m (snd c)) (fields_of key e) cs"
  using assms by (rule fields.trace_refines)

theorem hash_key_is_map_witness:
  "holds kindHash ''user'' (kv_Open sample_cache) \<and>
   trace (send hash_words ''user'') (kv_Open sample_cache) [(1, HSet [''n'', ''ada'', ''n'', ''bob'']), (2, HGet ''n'')] =
     [Ok (value_of (VInt 1)), Ok (value_of (VStr ''bob''))]"
  using hash_key_is_map [OF sample_holds(3), of "[(1, HSet [''n'', ''ada'', ''n'', ''bob'']), (2, HGet ''n'')]"]
    sample_holds(3)
  by (simp add: contents_def view_sample)

end
