(* ===== verification/RespWire.thy ===== *)
theory RespWire
  imports KvSpace
begin

text \<open>
  The frames of the Redis protocol, \<open>internal/resp/wire.go\<close> and the writers of \<open>session.go\<close>: what is
  read off a byte stream and what is written to one. A \<open>bufio.Reader\<close> is the list of bytes the
  client will ever have sent and that have not been read; the end of the list is the end of the
  stream. The lemmas are round trips: what a client encodes is what \<open>readCommand\<close> reads, and what
  the writers write is what a client's parser reads back.
\<close>

section \<open>Reading commands\<close>

definition CR :: char where "CR = CHR 0x0D"
definition LF :: char where "LF = CHR 0x0A"
definition resp_crlf :: gostring where "resp_crlf = [CR, LF]"

definition maxElements :: int where "maxElements = 1024 * 1024"
definition maxBulk :: int where "maxBulk = 8 * 2 ^ 20"
definition readBuffer :: nat where "readBuffer = 64 * 1024"

text \<open>A frame that could not be read, or the end of the stream.\<close>

datatype read_error = ProtocolError gostring | StreamEnded

text \<open>\<open>bytes.TrimRight(line, crlf)\<close>.\<close>

definition trim_crlf :: "gostring \<Rightarrow> gostring" where
  "trim_crlf line = rev (dropWhile (\<lambda>c. c = CR \<or> c = LF) (rev line))"

definition readLine :: "gostring \<Rightarrow> (read_error + gostring) \<times> gostring" where
  "readLine input =
     (if LF \<in> set (take readBuffer input)
      then (let line = takeWhile (\<lambda>c. c \<noteq> LF) input @ [LF] in (Inr (trim_crlf line), drop (length line) input))
      else if length input \<ge> readBuffer
      then (Inl (ProtocolError ''too big inline request''), drop readBuffer input)
      else (Inl StreamEnded, []))"

definition opening_of :: "gostring \<Rightarrow> gostring" where "opening_of line = take 1 line"

definition expected :: "char \<Rightarrow> gostring \<Rightarrow> read_error" where
  "expected c line = ProtocolError (''expected '' @ [CHR 0x27, c, CHR 0x27] @ '', got '' @ [CHR 0x27] @ opening_of line @ [CHR 0x27])"

definition readBulk :: "gostring \<Rightarrow> (read_error + gostring) \<times> gostring" where
  "readBulk input =
     (case readLine input of
        (Inl err, input) \<Rightarrow> (Inl err, input)
      | (Inr line, input) \<Rightarrow>
          if line = [] \<or> hd line \<noteq> CHR ''$'' then (Inl (expected (CHR ''$'') line), input)
          else (case Atoi (tl line) of
                  None \<Rightarrow> (Inl (ProtocolError ''invalid bulk length''), input)
                | Some count \<Rightarrow>
                    if count < 0 \<or> count > maxBulk then (Inl (ProtocolError ''invalid bulk length''), input)
                    else if length input < nat count + 2 then (Inl StreamEnded, [])
                    else if take 2 (drop (nat count) input) \<noteq> resp_crlf
                    then (Inl (ProtocolError ''invalid bulk length''), drop (nat count + 2) input)
                    else (Inr (take (nat count) input), drop (nat count + 2) input)))"

fun readBulks :: "nat \<Rightarrow> gostring \<Rightarrow> (read_error + gostring list) \<times> gostring" where
  "readBulks 0 input = (Inr [], input)"
| "readBulks (Suc n) input =
     (case readBulk input of
        (Inl err, input) \<Rightarrow> (Inl err, input)
      | (Inr argument, input) \<Rightarrow>
          (case readBulks n input of
             (Inl err, input) \<Rightarrow> (Inl err, input)
           | (Inr arguments, input) \<Rightarrow> (Inr (argument # arguments), input)))"

definition readCommand :: "gostring \<Rightarrow> (read_error + gostring list) \<times> gostring" where
  "readCommand input =
     (case readLine input of
        (Inl err, input) \<Rightarrow> (Inl err, input)
      | (Inr line, input) \<Rightarrow>
          if line = [] \<or> hd line \<noteq> CHR ''*'' then (Inl (expected (CHR ''*'') line), input)
          else (case Atoi (tl line) of
                  None \<Rightarrow> (Inl (ProtocolError ''invalid multibulk length''), input)
                | Some count \<Rightarrow>
                    if count < 0 \<or> count > maxElements then (Inl (ProtocolError ''invalid multibulk length''), input)
                    else readBulks (nat count) input))"

section \<open>Writing replies\<close>

definition simple_frame :: "gostring \<Rightarrow> gostring" where "simple_frame body = ''+'' @ body @ resp_crlf"
definition error_frame :: "gostring \<Rightarrow> gostring" where "error_frame line = ''-'' @ line @ resp_crlf"

definition bulk_frame :: "gostring \<Rightarrow> gostring" where
  "bulk_frame body = ''$'' @ FormatInt (int (length body)) @ resp_crlf @ body @ resp_crlf"

definition int_frame :: "int \<Rightarrow> gostring" where "int_frame i = '':'' @ FormatInt i @ resp_crlf"

definition header :: "char \<Rightarrow> nat \<Rightarrow> gostring" where "header c n = c # FormatInt (int n) @ resp_crlf"

definition nullBulk :: gostring where "nullBulk = ''$-1'' @ resp_crlf"

definition null_frame :: "bool \<Rightarrow> gostring" where
  "null_frame modern = (if modern then ''_'' @ resp_crlf else nullBulk)"

definition flatten :: "(gostring \<times> gostring) list \<Rightarrow> rvalue list" where
  "flatten fs = concat (map (\<lambda>field. [VStr field, VStr (the (map_of fs field))]) (sorted_keys fs))"

definition pairs_header :: "bool \<Rightarrow> nat \<Rightarrow> gostring" where
  "pairs_header modern n = (if modern then header (CHR ''%'') (n div 2) else header (CHR ''*'') n)"

text \<open>\<open>writePairs\<close> of a flattened map writes only bulk strings, so the pairs of a map need no recursion.\<close>

fun value_frame :: "bool \<Rightarrow> rvalue \<Rightarrow> gostring" where
  "value_frame modern VNil = null_frame modern"
| "value_frame modern (VStr body) = bulk_frame body"
| "value_frame modern (VInt i) = int_frame i"
| "value_frame modern (VStrs items) = header (CHR ''*'') (length items) @ concat (map bulk_frame items)"
| "value_frame modern (VList items) = header (CHR ''*'') (length items) @ concat (map (value_frame modern) items)"
| "value_frame modern (VMap fs) = pairs_header modern (length (flatten fs)) @
     concat (map (\<lambda>field. bulk_frame field @ bulk_frame (the (map_of fs field))) (sorted_keys fs))"

definition pairs_frame :: "bool \<Rightarrow> rvalue list \<Rightarrow> gostring" where
  "pairs_frame modern pairs = pairs_header modern (length pairs) @ concat (map (value_frame modern) pairs)"

lemma value_frame_map: "value_frame modern (VMap fs) = pairs_frame modern (flatten fs)"
proof -
  have "concat (map (value_frame modern) (concat (map (\<lambda>field. [VStr field, VStr (the (map_of fs field))]) ks))) =
      concat (map (\<lambda>field. bulk_frame field @ bulk_frame (the (map_of fs field))) ks)" for ks
    by (induction ks) simp_all
  then show ?thesis by (simp add: pairs_frame_def flatten_def)
qed

text \<open>The error prefix of an injected fault that names none, and what a client is told of an error.\<close>

definition defaultFaultPrefix :: gostring where "defaultFaultPrefix = ''ERR''"

definition errorLine :: "go_error \<Rightarrow> gostring" where
  "errorLine err =
     (case err of
        FaultErr fault \<Rightarrow>
          (if f_Code fault = [] then defaultFaultPrefix else f_Code fault) @ '' '' @ f_Message fault
      | RedisErr line \<Rightarrow> line
      | _ \<Rightarrow> defaultFaultPrefix @ '' '' @ error_text err)"

section \<open>Numbers on a line\<close>

lemma length_format_nat: "n < 10 ^ k \<Longrightarrow> 0 < k \<Longrightarrow> length (format_nat n) \<le> k"
proof (induction n arbitrary: k rule: format_nat.induct)
  case (1 n)
  show ?case
  proof (cases "n < 10")
    case True
    then show ?thesis using "1.prems" by (subst format_nat.simps) simp
  next
    case False
    with "1.prems" obtain k' where k: "k = Suc k'" "0 < k'" by (cases k; cases "k - 1") auto
    have "n div 10 < 10 ^ k'" using "1.prems" k by (simp add: div_less_iff_less_mult mult.commute)
    with "1.IH" [OF False this k(2)] False k show ?thesis by (subst format_nat.simps) simp
  qed
qed

lemma digits_not_line_end: "list_all is_digit s \<Longrightarrow> CR \<notin> set s \<and> LF \<notin> set s"
  by (auto simp: list_all_iff is_digit_def CR_def LF_def less_eq_char_def)

lemma FormatInt_line: "CR \<notin> set (FormatInt i) \<and> LF \<notin> set (FormatInt i)"
  using digits_not_line_end [OF format_nat_digits] by (auto simp: FormatInt_def CR_def LF_def)

lemma trim_line: "CR \<notin> set s \<Longrightarrow> LF \<notin> set s \<Longrightarrow> trim_crlf (s @ [CR, LF]) = s"
  by (cases s rule: rev_cases) (auto simp: trim_crlf_def)

lemma readLine_line:
  assumes "CR \<notin> set s" "LF \<notin> set s" "length s + 2 \<le> readBuffer"
  shows "readLine (s @ resp_crlf @ rest) = (Inr s, rest)"
proof -
  have t: "takeWhile (\<lambda>c. c \<noteq> LF) (s @ CR # LF # rest) = s @ [CR]"
    using assms by (subst takeWhile_append2) (auto simp: CR_def LF_def)
  obtain k where "readBuffer = length s + 2 + k" using le_Suc_ex [OF assms(3)] by blast
  then have "readBuffer - length s = Suc (Suc k)" by arith
  then have "LF \<in> set (take readBuffer (s @ CR # LF # rest))" by simp
  then show ?thesis using trim_line [OF assms(1,2)] by (simp add: readLine_def resp_crlf_def t Let_def)
qed

lemma readLine_header:
  assumes "n < 10 ^ 20" "c \<noteq> CR" "c \<noteq> LF"
  shows "readLine (header c n @ rest) = (Inr (c # FormatInt (int n)), rest)"
proof -
  have "length (FormatInt (int n)) \<le> 20" using length_format_nat [OF assms(1)] by (simp add: FormatInt_def)
  then show ?thesis
    using readLine_line [of "c # FormatInt (int n)" rest] assms FormatInt_line [of "int n"]
    by (simp add: header_def readBuffer_def)
qed

section \<open>What a client sends is what is read\<close>

definition encode_command :: "gostring list \<Rightarrow> gostring" where
  "encode_command argv = header (CHR ''*'') (length argv) @ concat (map bulk_frame argv)"

definition sendable :: "gostring list \<Rightarrow> bool" where
  "sendable argv \<longleftrightarrow> int (length argv) \<le> maxElements \<and> list_all (\<lambda>a. int (length a) \<le> maxBulk) argv"

lemma bulk_frame_header: "bulk_frame body = header (CHR ''$'') (length body) @ body @ resp_crlf"
  by (simp add: bulk_frame_def header_def)

lemma header_chars: "CHR ''$'' \<noteq> CR" "CHR ''$'' \<noteq> LF" "CHR ''*'' \<noteq> CR" "CHR ''*'' \<noteq> LF"
  "CHR ''%'' \<noteq> CR" "CHR ''%'' \<noteq> LF"
  by (simp_all add: CR_def LF_def)

lemma readBulk_frame:
  assumes "int (length body) \<le> maxBulk"
  shows "readBulk (bulk_frame body @ rest) = (Inr body, rest)"
proof -
  have "length body < 10 ^ 20" using assms by (simp add: maxBulk_def)
  note h = readLine_header [OF this header_chars(1,2), of "body @ resp_crlf @ rest"]
  have r: "int64_range (int (length body))" using assms by (simp add: maxBulk_def int64_range_def)
  show ?thesis using assms r by (simp add: readBulk_def bulk_frame_header h) (simp add: resp_crlf_def)
qed

lemma readBulks_frames:
  "list_all (\<lambda>a. int (length a) \<le> maxBulk) argv \<Longrightarrow>
     readBulks (length argv) (concat (map bulk_frame argv) @ rest) = (Inr argv, rest)"
  by (induction argv) (simp_all add: readBulk_frame)

lemma readCommand_encoded:
  assumes "sendable argv"
  shows "readCommand (encode_command argv @ rest) = (Inr argv, rest)"
proof -
  have n: "length argv < 10 ^ 20" using assms by (simp add: sendable_def maxElements_def)
  note h = readLine_header [OF n header_chars(3,4), of "concat (map bulk_frame argv) @ rest"]
  have r: "int64_range (int (length argv))" using assms by (simp add: sendable_def maxElements_def int64_range_def)
  show ?thesis using assms r readBulks_frames [of argv rest]
    by (simp add: readCommand_def encode_command_def h sendable_def)
qed

definition read_one :: "gostring \<Rightarrow> (gostring list \<times> gostring) option" where
  "read_one input = (case readCommand input of (Inl err, rest) \<Rightarrow> None | (Inr argv, rest) \<Rightarrow> Some (argv, rest))"

interpretation resp: codec encode_command read_one sendable
  by unfold_locales (simp add: read_one_def readCommand_encoded)

text \<open>C18. Commands survive the wire: whatever bytes a client puts in its arguments (line ends and frame
  characters included), a pipeline of commands within the size limits is read back as exactly those
  commands, each one leaving the bytes of the next; and two different pipelines of the same length
  are never the same bytes.\<close>

theorem commands_survive_the_wire:
  assumes "sendable argv" "list_all sendable xs" "list_all sendable ys" "length xs = length ys"
  shows "readCommand (encode_command argv @ rest) = (Inr argv, rest) \<and>
    (concat (map encode_command xs) = concat (map encode_command ys) \<longrightarrow> xs = ys)"
  using readCommand_encoded [OF assms(1)] resp.enc_stream_inj [OF assms(2-4), of "[]" "[]"] by simp

theorem commands_survive_the_wire_witness:
  "sendable [''SET'', [CR, LF], ''$1''] \<and>
   readCommand (encode_command [''SET'', [CR, LF], ''$1''] @ ''*1'') = (Inr [''SET'', [CR, LF], ''$1''], ''*1'')"
  using commands_survive_the_wire [of "[''SET'', [CR, LF], ''$1'']" "[]" "[]" "''*1''"]
  by (simp add: sendable_def maxElements_def maxBulk_def)

section \<open>What is written is what a client reads\<close>

text \<open>A client's side of the protocol: a frame is a line, then whatever the line announces.\<close>

datatype reply =
    RNull | RSimple gostring | RError gostring | RInt int | RBulk gostring | RArr "reply list" | RMap "reply list"

fun until_crlf :: "gostring \<Rightarrow> (gostring \<times> gostring) option" where
  "until_crlf [] = None"
| "until_crlf (c # cs) =
     (if c = CR \<and> take 1 cs = [LF] then Some ([], drop 1 cs)
      else (case until_crlf cs of None \<Rightarrow> None | Some (line, rest) \<Rightarrow> Some (c # line, rest)))"

definition bulk_reply :: "int \<Rightarrow> gostring \<Rightarrow> (reply \<times> gostring) option" where
  "bulk_reply n input =
     (if n = -1 then Some (RNull, input)
      else if n < 0 \<or> length input < nat n + 2 \<or> take 2 (drop (nat n) input) \<noteq> resp_crlf then None
      else Some (RBulk (take (nat n) input), drop (nat n + 2) input))"

function (sequential) parse_reply :: "nat \<Rightarrow> gostring \<Rightarrow> (reply \<times> gostring) option"
  and parse_replies :: "nat \<Rightarrow> nat \<Rightarrow> gostring \<Rightarrow> (reply list \<times> gostring) option" where
  "parse_reply (Suc fuel) (c # input) =
     (case until_crlf input of
        None \<Rightarrow> None
      | Some (line, rest) \<Rightarrow>
          if c = CHR ''+'' then Some (RSimple line, rest)
          else if c = CHR ''-'' then Some (RError line, rest)
          else if c = CHR ''_'' then Some (RNull, rest)
          else (case Atoi line of
             None \<Rightarrow> None
           | Some n \<Rightarrow>
               if c = CHR '':'' then Some (RInt n, rest)
               else if c = CHR ''$'' then bulk_reply n rest
               else if c = CHR ''*'' then map_option (map_prod RArr id) (parse_replies fuel (nat n) rest)
               else if c = CHR ''%'' then map_option (map_prod RMap id) (parse_replies fuel (nat (2 * n)) rest)
               else None))"
| "parse_reply _ _ = None"
| "parse_replies fuel 0 input = Some ([], input)"
| "parse_replies fuel (Suc n) input =
     (case parse_reply fuel input of
        None \<Rightarrow> None
      | Some (r, rest) \<Rightarrow> map_option (map_prod (Cons r) id) (parse_replies fuel n rest))"
  by pat_completeness auto
termination
  by (relation "measures [\<lambda>x. case x of Inl (fuel, _) \<Rightarrow> fuel | Inr (fuel, _, _) \<Rightarrow> fuel,
      \<lambda>x. case x of Inl _ \<Rightarrow> 0 | Inr (_, n, _) \<Rightarrow> Suc n]") auto

text \<open>The reply a client should get for an answer of the backend.\<close>

fun as_reply :: "bool \<Rightarrow> rvalue \<Rightarrow> reply" where
  "as_reply modern VNil = RNull"
| "as_reply modern (VStr body) = RBulk body"
| "as_reply modern (VInt i) = RInt i"
| "as_reply modern (VStrs items) = RArr (map RBulk items)"
| "as_reply modern (VList items) = RArr (map (as_reply modern) items)"
| "as_reply modern (VMap fs) =
     (if modern then RMap else RArr) (concat (map (\<lambda>field. [RBulk field, RBulk (the (map_of fs field))]) (sorted_keys fs)))"

text \<open>Go lengths and integers are 64-bit; maps have distinct keys.\<close>

abbreviation small :: "'a list \<Rightarrow> bool" where "small xs \<equiv> int64_range (2 * int (length xs))"

fun representable :: "rvalue \<Rightarrow> bool" where
  "representable VNil = True"
| "representable (VStr body) = small body"
| "representable (VInt i) = int64_range i"
| "representable (VStrs items) = (small items \<and> list_all small items)"
| "representable (VList items) = (small items \<and> list_all representable items)"
| "representable (VMap fs) = (small fs \<and> list_all (\<lambda>(f, v). small f \<and> small v) fs)"

fun depth :: "rvalue \<Rightarrow> nat" where
  "depth (VList items) = Suc (foldr (\<lambda>v n. max (depth v) n) items 0)"
| "depth (VStrs items) = 1"
| "depth (VMap fs) = 1"
| "depth _ = 0"

lemma until_crlf_line: "CR \<notin> set line \<Longrightarrow> until_crlf (line @ resp_crlf @ rest) = Some (line, rest)"
  by (induction line) (auto simp: resp_crlf_def)

lemma small_range: "small xs \<Longrightarrow> int64_range (int (length xs))"
  by (auto simp: int64_range_def)

lemma parse_bulk:
  assumes "small body"
  shows "parse_reply (Suc fuel) (bulk_frame body @ rest) = Some (RBulk body, rest)"
proof -
  have "until_crlf (FormatInt (int (length body)) @ resp_crlf @ body @ resp_crlf @ rest) =
      Some (FormatInt (int (length body)), body @ resp_crlf @ rest)"
    using FormatInt_line by (intro until_crlf_line) blast
  then show ?thesis using small_range [OF assms] by (simp add: bulk_frame_def bulk_reply_def) (simp add: resp_crlf_def)
qed

lemma parse_header:
  assumes "int64_range (int n)" "c \<in> {CHR ''*'', CHR ''%''}"
  shows "parse_reply (Suc fuel) (header c n @ rest) =
    (if c = CHR ''*'' then map_option (map_prod RArr id) (parse_replies fuel n rest)
     else map_option (map_prod RMap id) (parse_replies fuel (2 * n) rest))"
proof -
  have "until_crlf (FormatInt (int n) @ resp_crlf @ rest) = Some (FormatInt (int n), rest)"
    using FormatInt_line by (intro until_crlf_line) blast
  then show ?thesis using assms by (auto simp: header_def nat_mult_distrib)
qed

lemma parse_many:
  "(\<And>v r. v \<in> set vs \<Longrightarrow> parse_reply fuel (f v @ r) = Some (g v, r)) \<Longrightarrow>
     parse_replies fuel (length vs) (concat (map f vs) @ rest) = Some (map g vs, rest)"
  by (induction vs) simp_all

lemma parse_pairs:
  "(\<And>k r. k \<in> set ks \<Longrightarrow> parse_reply fuel (f k @ r) = Some (RBulk k, r) \<and> parse_reply fuel (h k @ r) = Some (RBulk (g k), r)) \<Longrightarrow>
     parse_replies fuel (2 * length ks) (concat (map (\<lambda>k. f k @ h k) ks) @ rest) =
       Some (concat (map (\<lambda>k. [RBulk k, RBulk (g k)]) ks), rest)"
  by (induction ks) simp_all

lemma depth_item: "v \<in> set items \<Longrightarrow> depth v \<le> foldr (\<lambda>v n. max (depth v) n) items 0"
  by (induction items) auto

lemma length_flatten: "length (flatten fs) = 2 * length (sorted_keys fs)"
proof -
  have "length (concat (map (\<lambda>k. [VStr k, VStr (g k)]) ks)) = 2 * length ks" for ks g by (induction ks) simp_all
  then show ?thesis by (simp add: flatten_def)
qed

lemma parse_map:
  assumes "representable (VMap fs)"
  shows "parse_reply (Suc (Suc fuel)) (value_frame modern (VMap fs) @ rest) = Some (as_reply modern (VMap fs), rest)"
proof -
  let ?ks = "sorted_keys fs"
  have len: "length ?ks = length fs" by (simp add: sorted_keys_def)
  have k: "small k \<and> small (the (map_of fs k))" if "k \<in> set ?ks" for k
    using that assms by (force simp: list_all_iff dest: map_of_SomeD)
  have p: "parse_replies (Suc fuel) (2 * length ?ks)
        (concat (map (\<lambda>k. bulk_frame k @ bulk_frame (the (map_of fs k))) ?ks) @ rest) =
      Some (concat (map (\<lambda>k. [RBulk k, RBulk (the (map_of fs k))]) ?ks), rest)"
    using k by (intro parse_pairs) (simp add: parse_bulk)
  have r: "int64_range (int (length fs))" "int64_range (int (2 * length fs))"
    using assms by (auto simp: int64_range_def)
  show ?thesis
    using p len parse_header [OF r(1), of "CHR ''%''" "Suc fuel"] parse_header [OF r(2), of "CHR ''*''" "Suc fuel"]
    by (simp add: pairs_header_def length_flatten)
qed

lemma parse_value:
  "representable v \<Longrightarrow> depth v < fuel \<Longrightarrow> parse_reply fuel (value_frame modern v @ rest) = Some (as_reply modern v, rest)"
proof (induction v arbitrary: fuel rest)
  case VNil
  then obtain f where f: "fuel = Suc f" by (cases fuel) auto
  have "until_crlf (''-1'' @ resp_crlf @ rest) = Some (''-1'', rest)" "until_crlf ([] @ resp_crlf @ rest) = Some ([], rest)"
    by (rule until_crlf_line; simp add: CR_def)+
  moreover have "Atoi ''-1'' = Some (-1)" by code_simp
  ultimately show ?case by (simp add: f null_frame_def nullBulk_def bulk_reply_def)
next
  case (VStr body)
  then show ?case by (cases fuel) (simp_all add: parse_bulk)
next
  case (VInt i)
  then obtain f where f: "fuel = Suc f" by (cases fuel) auto
  have "until_crlf (FormatInt i @ resp_crlf @ rest) = Some (FormatInt i, rest)"
    using FormatInt_line by (intro until_crlf_line) blast
  then show ?case using VInt by (simp add: f int_frame_def)
next
  case (VStrs items)
  then obtain f where f: "fuel = Suc (Suc f)" by (cases fuel; cases "fuel - 1") auto
  have "parse_replies (Suc f) (length items) (concat (map bulk_frame items) @ rest) = Some (map RBulk items, rest)"
    using VStrs by (intro parse_many) (auto simp: parse_bulk list_all_iff)
  then show ?case using VStrs small_range [of items] by (simp add: f parse_header)
next
  case (VList items)
  then obtain f where f: "fuel = Suc f" by (cases fuel) auto
  have "parse_replies f (length items) (concat (map (value_frame modern) items) @ rest) = Some (map (as_reply modern) items, rest)"
  proof (rule parse_many)
    fix v r
    assume v: "v \<in> set items"
    then have "representable v" "depth v < f" using VList.prems depth_item [OF v] by (auto simp: list_all_iff f)
    with VList.IH [OF v] show "parse_reply f (value_frame modern v @ r) = Some (as_reply modern v, r)" by blast
  qed
  then show ?case using VList.prems small_range [of items] by (simp add: f parse_header)
next
  case (VMap fs)
  then obtain f where f: "fuel = Suc (Suc f)" by (cases fuel; cases "fuel - 1") auto
  show ?case unfolding f by (rule parse_map) (use VMap in simp)
qed

lemma parse_pairs_frame:
  assumes "list_all representable vs" "even (length vs)" "small vs" "list_all (\<lambda>v. depth v < fuel) vs"
  shows "parse_reply (Suc fuel) (pairs_frame modern vs @ rest) =
    Some ((if modern then RMap else RArr) (map (as_reply modern) vs), rest)"
proof -
  have "parse_replies fuel (length vs) (concat (map (value_frame modern) vs) @ rest) = Some (map (as_reply modern) vs, rest)"
    using assms by (intro parse_many) (auto simp: list_all_iff parse_value)
  moreover have "int64_range (int (length vs div 2))" using assms(3) by (auto simp: int64_range_def)
  moreover have "2 * (length vs div 2) = length vs" using assms(2) by simp
  ultimately show ?thesis
    using parse_header [of "length vs div 2" "CHR ''%''" fuel] parse_header [of "length vs" "CHR ''*''" fuel] small_range [OF assms(3)]
    by (cases modern) (simp_all add: pairs_frame_def pairs_header_def)
qed

text \<open>Answers survive the wire: in either protocol version, the frame written for an answer of the backend is
  read back by a client as that answer (null for a miss, a map for RESP3 and a flat array for RESP2),
  and exactly that frame is taken off the stream, so the next reply starts where this one ends.\<close>

theorem answers_survive_the_wire:
  assumes "representable v"
  shows "\<exists>fuel. parse_reply fuel (value_frame modern v @ rest) = Some (as_reply modern v, rest)"
  using parse_value [OF assms lessI] by blast

theorem answers_survive_the_wire_witness:
  "representable (VList [VStr ''0'', VStrs [''a'', ''b'']]) \<and>
   (\<exists>fuel. parse_reply fuel (value_frame False (VList [VStr ''0'', VStrs [''a'', ''b'']]) @ ''+OK'') =
      Some (RArr [RBulk ''0'', RArr [RBulk ''a'', RBulk ''b'']], ''+OK''))"
  using answers_survive_the_wire [of "VList [VStr ''0'', VStrs [''a'', ''b'']]" False "''+OK''"]
  by (simp add: int64_range_def)

end
