(* ===== verification/RespSession.thy ===== *)
theory RespSession
  imports RespWire
begin

text \<open>
  One Redis connection, \<open>internal/resp/session.go\<close> and \<open>resp.go\<close>: decoding until there is an operation for
  the control layer, answering the driver's own commands, deferring the command that announced the
  connection, and writing replies and errors. A session is the Go struct with its two buffers made
  explicit: what the client has still to be read from, what is buffered and what has been sent.
  Writes fail when the peer is gone, which is the field \<open>s_writable\<close>.
\<close>

type_synonym command_op = "gostring list option op"

record session =
  s_input :: gostring
  s_pending :: gostring
  s_sent :: gostring
  s_writable :: bool
  s_alreadyOpen :: int
  s_identity :: nat
  s_greeted :: bool
  s_deferred :: "gostring list option"
  s_active :: command_op
  s_modern :: bool

text \<open>The protocol's own state: open connections, and connections ever (an \<open>atomic.Uint32\<close>).\<close>

record Protocol =
  p_connections :: int
  p_handshakes :: nat

definition resp_name :: gostring where "resp_name = ''redis''"
definition resp_Port :: nat where "resp_Port = 6379"
definition New_protocol :: Protocol where "New_protocol = \<lparr>p_connections = 0, p_handshakes = 0\<rparr>"

definition zero_op :: command_op where
  "zero_op = \<lparr>op_Emulator = [], op_Kind = [], op_Target = [], op_Gauges = [], op_Payload = None\<rparr>"

definition newSession :: "gostring \<Rightarrow> bool \<Rightarrow> int \<Rightarrow> nat \<Rightarrow> session" where
  "newSession input writable alreadyOpen identity =
     \<lparr>s_input = input, s_pending = [], s_sent = [], s_writable = writable, s_alreadyOpen = alreadyOpen,
      s_identity = identity, s_greeted = False, s_deferred = None, s_active = zero_op, s_modern = False\<rparr>"

definition Accept :: "gostring \<Rightarrow> bool \<Rightarrow> Protocol \<Rightarrow> session \<times> Protocol" where
  "Accept input writable p =
     (let open' = p_connections p + 1; identity = (p_handshakes p + 1) mod 2 ^ 32
      in (newSession input writable (open' - 1) identity, p\<lparr>p_connections := open', p_handshakes := identity\<rparr>))"

definition session_Close :: "Protocol \<Rightarrow> Protocol" where
  "session_Close p = p\<lparr>p_connections := p_connections p - 1\<rparr>"

section \<open>Writing\<close>

definition put :: "gostring \<Rightarrow> session \<Rightarrow> session" where
  "put body s = s\<lparr>s_pending := s_pending s @ body\<rparr>"

definition Flush :: "session \<Rightarrow> bool \<times> session" where
  "Flush s = (if s_writable s then (True, s\<lparr>s_sent := s_sent s @ s_pending s, s_pending := []\<rparr>) else (False, s))"

definition writeSimple :: "gostring \<Rightarrow> session \<Rightarrow> session" where "writeSimple body s = put (simple_frame body) s"
definition writeError :: "gostring \<Rightarrow> session \<Rightarrow> session" where "writeError line s = put (error_frame line) s"
definition writeValue :: "rvalue \<Rightarrow> session \<Rightarrow> session" where "writeValue held s = put (value_frame (s_modern s) held) s"
definition writePairs :: "rvalue list \<Rightarrow> session \<Rightarrow> session" where "writePairs pairs s = put (pairs_frame (s_modern s) pairs) s"

section \<open>The driver's own commands\<close>

definition resp_serverVersion :: gostring where "resp_serverVersion = ''7.2.0''"
definition unsupportedProtocol :: gostring where "unsupportedProtocol = ''NOPROTO unsupported protocol version''"

definition driverCommands :: "gostring list" where "driverCommands = [''HELLO'', ''CLIENT'', ''COMMAND'', ''QUIT'']"

definition keyless :: "gostring list" where
  "keyless = [''PING'', ''ECHO'', ''SELECT'', ''INFO'', ''KEYS'', ''SCAN'', ''DBSIZE'', ''FLUSHDB'']"

definition EOF :: go_error where "EOF = PlainErr ''EOF''"
definition write_error :: go_error where "write_error = PlainErr ''write''"

text \<open>The error a \<open>Flush\<close> returns, nil being \<open>None\<close>.\<close>

definition flushed :: "session \<Rightarrow> go_error option \<times> session" where
  "flushed s = (case Flush s of (ok, s) \<Rightarrow> (if ok then None else Some write_error, s))"

definition negotiated :: "session \<Rightarrow> int" where "negotiated s = (if s_modern s then 3 else 2)"

definition greeting :: "session \<Rightarrow> rvalue list" where
  "greeting s = [VStr ''server'', VStr ''redis'', VStr ''version'', VStr resp_serverVersion,
     VStr ''proto'', VInt (negotiated s), VStr ''id'', VInt (int (s_identity s)),
     VStr ''mode'', VStr ''standalone'', VStr ''role'', VStr ''master'', VStr ''modules'', VList []]"

definition hello :: "gostring list \<Rightarrow> session \<Rightarrow> go_error option \<times> session" where
  "hello args s =
     (case args of
        [] \<Rightarrow> flushed (writePairs (greeting s) s)
      | version # _ \<Rightarrow>
          if version = ''2'' then (let s = s\<lparr>s_modern := False\<rparr> in flushed (writePairs (greeting s) s))
          else if version = ''3'' then (let s = s\<lparr>s_modern := True\<rparr> in flushed (writePairs (greeting s) s))
          else flushed (writeError unsupportedProtocol s))"

definition leading :: "gostring list \<Rightarrow> gostring" where
  "leading args = (case args of [] \<Rightarrow> [] | word # _ \<Rightarrow> ToUpper word)"

definition unknownSubcommand :: "gostring \<Rightarrow> gostring list \<Rightarrow> gostring" where
  "unknownSubcommand container args =
     ''ERR Unknown subcommand or wrong number of arguments for '' @ [CHR 0x27] @ leading args @ [CHR 0x27]
       @ ''. Try '' @ container @ '' HELP.''"

definition client :: "gostring list \<Rightarrow> session \<Rightarrow> go_error option \<times> session" where
  "client args s =
     flushed (if leading args = ''SETNAME'' \<or> leading args = ''SETINFO'' then writeSimple ''OK'' s
              else writeError (unknownSubcommand ''CLIENT'' args) s)"

definition answerDriver :: "gostring \<Rightarrow> gostring list \<Rightarrow> session \<Rightarrow> go_error option \<times> session" where
  "answerDriver verb args s =
     (if verb = ''HELLO'' then hello args s
      else if verb = ''CLIENT'' then client args s
      else if verb = ''QUIT'' then (Some EOF, snd (Flush (writeSimple ''OK'' s)))
      else flushed (writeValue (VList []) s))"

section \<open>Decoding operations\<close>

definition targetOf :: "gostring \<Rightarrow> gostring list \<Rightarrow> gostring" where
  "targetOf verb argv = (if verb \<in> set keyless \<or> length argv < 2 then [] else argv ! 1)"

definition nextFrame :: "session \<Rightarrow> (read_error + gostring list) \<times> session" where
  "nextFrame s =
     (case s_deferred s of
        Some frame \<Rightarrow> (Inr frame, s\<lparr>s_deferred := None\<rparr>)
      | None \<Rightarrow> (case readCommand (s_input s) of (r, rest) \<Rightarrow> (r, s\<lparr>s_input := rest\<rparr>)))"

definition protocol_error :: "gostring \<Rightarrow> gostring" where "protocol_error reason = ''ERR Protocol error: '' @ reason"

definition endWith :: "read_error \<Rightarrow> session \<Rightarrow> go_error \<times> session" where
  "endWith err s =
     (case err of
        ProtocolError reason \<Rightarrow> (PlainErr (protocol_error reason), snd (Flush (writeError (protocol_error reason) s)))
      | StreamEnded \<Rightarrow> (EOF, s))"

definition connect_op :: "session \<Rightarrow> command_op" where
  "connect_op s = zero_op\<lparr>op_Kind := KindConnect, op_Gauges := [(''connections'', s_alreadyOpen s)]\<rparr>"

definition command_of :: "gostring \<Rightarrow> gostring list \<Rightarrow> command_op" where
  "command_of verb argv = zero_op\<lparr>op_Kind := verb, op_Target := targetOf verb argv, op_Payload := Some argv\<rparr>"

text \<open>A frame that is read leaves less to read.\<close>

lemma readLine_shorter: "readLine input = (Inr line, rest) \<Longrightarrow> length rest < length input"
proof -
  assume "readLine input = (Inr line, rest)"
  then have lf: "LF \<in> set input" and rest: "rest = drop (Suc (length (takeWhile (\<lambda>c. c \<noteq> LF) input))) input"
    by (auto simp: readLine_def Let_def split: if_splits dest: in_set_takeD)
  then have "input \<noteq> []" by auto
  with rest show ?thesis by simp
qed

lemma readBulk_shorter: "readBulk input = (r, rest) \<Longrightarrow> length rest \<le> length input"
  by (auto simp: readBulk_def readLine_def Let_def split: prod.splits sum.splits if_splits option.splits)

lemma readBulks_shorter: "readBulks n input = (r, rest) \<Longrightarrow> length rest \<le> length input"
proof (induction n arbitrary: input r rest)
  case (Suc n)
  then show ?case
    by (auto split: prod.splits sum.splits dest!: readBulk_shorter) (meson le_trans)+
qed simp

lemma readCommand_shorter: "readCommand input = (Inr argv, rest) \<Longrightarrow> length rest < length input"
  by (auto simp: readCommand_def split: prod.splits sum.splits if_splits option.splits
      dest!: readLine_shorter readBulks_shorter)

definition unread :: "session \<Rightarrow> nat" where
  "unread s = 2 * length (s_input s) + (if s_deferred s = None then 0 else 1)"

lemma nextFrame_unread: "nextFrame s = (Inr argv, s') \<Longrightarrow> unread s' < unread s"
  by (auto simp: nextFrame_def unread_def split: option.splits prod.splits dest!: readCommand_shorter)

lemma answerDriver_unread: "unread (snd (answerDriver verb args s)) = unread s"
  by (simp add: answerDriver_def hello_def client_def flushed_def Flush_def writeSimple_def writeError_def
      writeValue_def writePairs_def put_def unread_def Let_def split_beta split: list.split)

function Next :: "session \<Rightarrow> (go_error + command_op) \<times> session" where
  "Next s =
     (case nextFrame s of
        (Inl err, s) \<Rightarrow> (case endWith err s of (err, s) \<Rightarrow> (Inl err, s))
      | (Inr argv, s) \<Rightarrow>
          if argv = [] then Next s
          else let verb = ToUpper (hd argv) in
            if verb \<in> set driverCommands
            then (case answerDriver verb (tl argv) s of
                    (Some err, s) \<Rightarrow> (Inl err, s)
                  | (None, s) \<Rightarrow> Next s)
            else if \<not> s_greeted s
            then (let s = s\<lparr>s_greeted := True, s_deferred := Some argv, s_active := connect_op s\<rparr> in (Inr (s_active s), s))
            else (let s = s\<lparr>s_active := command_of verb argv\<rparr> in (Inr (s_active s), s)))"
  by pat_completeness auto
termination
proof (relation "measure unread")
  fix s x y b
  show "(x, y) = nextFrame s \<Longrightarrow> x = Inr b \<Longrightarrow> b = [] \<Longrightarrow> (y, s) \<in> measure unread"
    using nextFrame_unread [of s b y] by simp
next
  fix s x y b xa xb ya
  assume "(x, y) = nextFrame s" "x = Inr b" "(xb, ya) = answerDriver xa (tl b) y"
  then show "(ya, s) \<in> measure unread"
    using nextFrame_unread [of s b y] answerDriver_unread [of xa "tl b" y] by (metis in_measure snd_conv)
qed simp

declare Next.simps [simp del]

section \<open>Answering\<close>

definition Reply :: "rvalue Result \<Rightarrow> session \<Rightarrow> bool \<times> session" where
  "Reply result s =
     (if op_Kind (s_active s) = KindConnect then (True, s)
      else if res_Rows result = [] \<or> hd (res_Rows result) = [] then Flush (writeSimple (res_Tag result) s)
      else Flush (writeValue (hd (hd (res_Rows result))) s))"

definition session_Fail :: "go_error \<Rightarrow> session \<Rightarrow> bool \<times> session" where
  "session_Fail err s =
     (case Flush (writeError (errorLine err) s) of (ok, s) \<Rightarrow>
        if \<not> ok then (False, s) else if op_Kind (s_active s) = KindConnect then (False, s) else (True, s))"

section \<open>What a session reports\<close>

text \<open>A command the session hands to the control layer, as opposed to one it answers itself. One word
  is special: see the theory \<open>Redis\<close>.\<close>

definition operation :: "gostring list \<Rightarrow> bool" where
  "operation argv \<longleftrightarrow> sendable argv \<and> argv \<noteq> [] \<and> ToUpper (hd argv) \<notin> set driverCommands"

lemma Next_first:
  assumes "operation argv" "\<not> s_greeted s" "s_deferred s = None" "s_input s = encode_command argv @ rest"
  shows "Next s = (Inr (connect_op s),
     s\<lparr>s_input := rest, s_greeted := True, s_deferred := Some argv, s_active := connect_op s\<rparr>)"
  using assms by (subst Next.simps) (simp add: nextFrame_def operation_def readCommand_encoded Let_def connect_op_def)

lemma Next_deferred:
  assumes "operation argv" "s_greeted s" "s_deferred s = Some argv"
  shows "Next s = (Inr (command_of (ToUpper (hd argv)) argv),
     s\<lparr>s_deferred := None, s_active := command_of (ToUpper (hd argv)) argv\<rparr>)"
  using assms by (subst Next.simps) (simp add: nextFrame_def operation_def Let_def)

lemma Next_later:
  assumes "operation argv" "s_greeted s" "s_deferred s = None" "s_input s = encode_command argv @ rest"
  shows "Next s = (Inr (command_of (ToUpper (hd argv)) argv),
     s\<lparr>s_input := rest, s_active := command_of (ToUpper (hd argv)) argv\<rparr>)"
  using assms by (subst Next.simps) (simp add: nextFrame_def operation_def readCommand_encoded Let_def)

lemma Next_end: "s_deferred s = None \<Longrightarrow> s_input s = [] \<Longrightarrow> Next s = (Inl EOF, s)"
  by (subst Next.simps) (simp add: nextFrame_def readCommand_def readLine_def readBuffer_def endWith_def)

text \<open>A connection announces itself on the first real command and no sooner: whatever driver bookkeeping
  was answered before it, the first operation reported carries the number of connections that were
  already open and no payload, nothing is written to the client for it, and the command that
  announced it is reported next, complete.\<close>

theorem connect_then_command:
  assumes argv: "operation argv" and s: "\<not> s_greeted s" "s_deferred s = None" "s_input s = encode_command argv @ rest"
  shows "\<exists>s1 s2 s3. Next s = (Inr (connect_op s), s1) \<and>
    op_Kind (connect_op s) = KindConnect \<and> op_Gauges (connect_op s) = [(''connections'', s_alreadyOpen s)] \<and>
    Reply r s1 = (True, s2) \<and> s_sent s2 = s_sent s \<and> s_pending s2 = s_pending s \<and>
    Next s2 = (Inr (command_of (ToUpper (hd argv)) argv), s3) \<and> op_Payload (command_of (ToUpper (hd argv)) argv) = Some argv \<and>
    s_input s3 = rest"
  using Next_first [OF argv s] Next_deferred [OF argv]
  by (simp add: Reply_def connect_op_def command_of_def zero_op_def)

theorem connect_then_command_witness:
  "operation [''GET'', ''k''] \<and>
   (\<exists>s1 s2. Next (newSession (encode_command [''GET'', ''k''] @ []) True 3 1) = (Inr s1, s2) \<and> op_Kind s1 = KindConnect)"
proof -
  have u: "ToUpper ''GET'' = ''GET''" by code_simp
  have o': "operation [''GET'', ''k'']"
    by (simp add: operation_def sendable_def maxElements_def maxBulk_def driverCommands_def u)
  from connect_then_command [OF o', of "newSession (encode_command [''GET'', ''k''] @ []) True 3 1" "[]" empty_Result] o'
  show ?thesis by (auto simp: newSession_def)
qed

text \<open>The greeting is in the version it announces: after HELLO 2 or HELLO 3 the client, reading in that
  version, gets one reply (a flat array or a map) that names the version it asked for and the
  client id; any other version is refused and the version in force stays as it was.\<close>

theorem hello_negotiates:
  assumes s: "s_writable s" "s_pending s = []" "s_identity s < 2 ^ 32"
  shows "if version \<in> {''2'', ''3''}
    then (\<exists>answer. s_sent (snd (hello (version # args) s)) = s_sent s @ answer \<and>
        parse_reply 3 answer = Some ((if version = ''3'' then RMap else RArr)
          [RBulk ''server'', RBulk ''redis'', RBulk ''version'', RBulk ''7.2.0'', RBulk ''proto'',
           RInt (if version = ''3'' then 3 else 2), RBulk ''id'', RInt (int (s_identity s)), RBulk ''mode'',
           RBulk ''standalone'', RBulk ''role'', RBulk ''master'', RBulk ''modules'', RArr []], []) \<and>
        s_modern (snd (hello (version # args) s)) = (version = ''3''))
    else s_sent (snd (hello (version # args) s)) = s_sent s @ error_frame unsupportedProtocol \<and>
      s_modern (snd (hello (version # args) s)) = s_modern s"
proof -
  have parse: "parse_reply 3 (pairs_frame (s_modern t) (greeting t)) =
      Some ((if s_modern t then RMap else RArr) (map (as_reply (s_modern t)) (greeting t)), [])"
    if "s_identity t = s_identity s" for t
    using parse_pairs_frame [of "greeting t" 2 "s_modern t" "[]"] that s(3)
    by (simp add: greeting_def negotiated_def resp_serverVersion_def int64_range_def)
  show ?thesis
    using s parse [of "s\<lparr>s_modern := True\<rparr>"] parse [of "s\<lparr>s_modern := False\<rparr>"]
    by (simp add: hello_def flushed_def Flush_def writePairs_def writeError_def put_def Let_def greeting_def negotiated_def
        resp_serverVersion_def)
qed

theorem hello_negotiates_witness:
  "s_writable (newSession [] True 0 7) \<and> s_identity (newSession [] True 0 7) < 2 ^ 32 \<and>
   s_modern (snd (hello [''3''] (newSession [] True 0 7)))"
  using hello_negotiates [of "newSession [] True 0 7" "''3''" "[]"] by (simp add: newSession_def)

end
