(* ===== verification/Redis.thy ===== *)
theory Redis
  imports KvBehaviour RespSession
begin

text \<open>
  The Redis emulator put together the way \<open>internal/emulator/emulator.go\<close> puts it together: the sessions of
  \<open>RespSession\<close>, the cache of \<open>Kv\<close> and the control point of \<open>Interceptor\<close> in the serve loop of \<open>Emulator\<close>. The
  executor carries a clock that is read once per operation, so that a run may take any time.
\<close>

type_synonym clocked = "(nat \<Rightarrow> int) \<times> nat \<times> executor"

fun exec_at :: "command_op \<Rightarrow> clocked \<Rightarrow> kvres \<times> clocked" where
  "exec_at o' (clock, n, e) = (case kv_Exec (clock n) o' e of (r, e) \<Rightarrow> (r, clock, Suc n, e))"

fun abort_at :: "command_op \<Rightarrow> clocked \<Rightarrow> clocked" where
  "abort_at o' (clock, n, e) = (clock, n, kv_Abort o' e)"

definition redis :: "(session, clocked, gostring list option, rvalue) seam" where
  "redis = \<lparr>next_op = Next, reply = Reply, fail_frame = session_Fail, exec = exec_at, abort = abort_at\<rparr>"

interpretation redis_backend: forgetful_backend exec_at abort_at
  by unfold_locales (auto simp: kv_Abort_def)

section \<open>A refused operation did not happen\<close>

text \<open>C14. An operation the control layer drops or fails leaves the cache exactly as it was; one it lets through
  has exactly the backend's effect. A client whose connection is dropped is sent nothing, and one
  whose operation is failed is sent the fault's code and message.\<close>

theorem faults_touch_nothing:
  "(v_DropConn v \<or> v_Err v \<noteq> None \<longrightarrow> st_executor (step redis s x v o') = x) \<and>
   (\<not> v_DropConn v \<and> v_Err v = None \<longrightarrow> st_executor (step redis s x v o') = snd (exec_at o' x)) \<and>
   (v_DropConn v \<longrightarrow> st_session (step redis s x v o') = s \<and> st_fate (step redis s x v o') = Closes) \<and>
   (\<not> v_DropConn v \<and> v_Err v = Some fault \<and> s_writable s \<longrightarrow>
      s_sent (st_session (step redis s x v o')) =
        s_sent s @ s_pending s @ error_frame ((if f_Code fault = [] then ''ERR'' else f_Code fault) @ '' '' @ f_Message fault))"
proof (intro conjI impI)
  show "v_DropConn v \<or> v_Err v \<noteq> None \<Longrightarrow> st_executor (step redis s x v o') = x"
    by (rule redis_backend.faulted_untouched) (simp_all add: redis_def)
  show "\<not> v_DropConn v \<and> v_Err v = None \<Longrightarrow> st_executor (step redis s x v o') = snd (exec_at o' x)"
    by (rule redis_backend.untouched_executes) (simp_all add: redis_def)
qed (auto simp: step_def redis_def session_Fail_def Flush_def writeError_def put_def errorLine_def defaultFaultPrefix_def)

theorem faults_touch_nothing_witness:
  "s_sent (st_session (step redis (newSession [] True 0 1) (\<lambda>n. 0, 0, kv_Open kv_New)
      (zero_verdict\<lparr>v_Err := Some \<lparr>f_Code = ''OOM'', f_Message = ''full''\<rparr>\<rparr>) (command_of ''SET'' [''SET'', ''k'', ''v''])))
     = error_frame ''OOM full'' \<and>
   st_executor (step redis (newSession [] True 0 1) (\<lambda>n. 0, 0, kv_Open kv_New)
      (zero_verdict\<lparr>v_Err := Some \<lparr>f_Code = ''OOM'', f_Message = ''full''\<rparr>\<rparr>) (command_of ''SET'' [''SET'', ''k'', ''v'']))
     = (\<lambda>n. 0, 0, kv_Open kv_New)"
  using faults_touch_nothing [of "zero_verdict\<lparr>v_Err := Some \<lparr>f_Code = ''OOM'', f_Message = ''full''\<rparr>\<rparr>" "newSession [] True 0 1"
      "(\<lambda>n. 0, 0, kv_Open kv_New)" "command_of ''SET'' [''SET'', ''k'', ''v'']" "\<lparr>f_Code = ''OOM'', f_Message = ''full''\<rparr>"]
  by (simp add: zero_verdict_def newSession_def)

section \<open>A pipeline of commands\<close>

text \<open>What is written to a client for the outcome of its command.\<close>

fun answer_frame :: "bool \<Rightarrow> kvres \<Rightarrow> gostring" where
  "answer_frame modern (Ok result) =
     (if res_Rows result = [] \<or> hd (res_Rows result) = [] then simple_frame (res_Tag result)
      else value_frame modern (hd (hd (res_Rows result))))"
| "answer_frame modern (Fail err) = error_frame (errorLine err)"
| "answer_frame modern Panic = []"

fun serve_commands :: "(nat \<Rightarrow> int) \<Rightarrow> nat \<Rightarrow> executor \<Rightarrow> gostring list list \<Rightarrow> kvres list \<times> executor" where
  "serve_commands clock n e [] = ([], e)"
| "serve_commands clock n e (argv # cmds) =
     (case run (clock n) (ToUpper (hd argv)) argv e of (r, e) \<Rightarrow>
        case serve_commands clock (Suc n) e cmds of (rs, e) \<Rightarrow> (r # rs, e))"

lemma next_redis: "next_op redis = Next"
  by (simp add: redis_def)

lemma Before_no_rules: "i_rules i = [] \<Longrightarrow> \<exists>i'. Before o' i = (zero_verdict, i') \<and> i_rules i' = []"
  by (simp add: Before_def before_def decide_def zero_verdict_def)

lemma step_command:
  assumes s: "s_writable s" "s_pending s = []" "op_Kind (s_active s) \<noteq> KindConnect"
    and e: "kv_ok e" and o': "op_Kind o' = verb" "op_Payload o' = Some argv" "argv \<noteq> []" "verb \<noteq> KindConnect"
    and r: "run (clock n) verb argv e = (r, e')"
  shows "step redis s (clock, n, e) zero_verdict o' =
    \<lparr>st_slept = 0, st_fate = Lives, st_session = s\<lparr>s_sent := s_sent s @ answer_frame (s_modern s) r\<rparr>,
     st_executor = (clock, Suc n, e')\<rparr>"
proof -
  have x: "kv_Exec (clock n) o' e = (r, e')" using o' r by (cases argv) (simp_all add: kv_Exec_def)
  have "\<not> is_panic r" using run_safe [OF e o'(3), of "clock n" verb] r by simp
  then show ?thesis using s x
    by (cases r) (simp_all add: step_def redis_def zero_verdict_def Reply_def session_Fail_def Flush_def writeSimple_def
        writeValue_def writeError_def put_def fate_of_def split_beta)
qed

text \<open>A command of a pipeline: reported as an operation, and not spelled like the connection's own.\<close>

definition plain_command :: "gostring list \<Rightarrow> bool" where
  "plain_command argv \<longleftrightarrow> operation argv \<and> ToUpper (hd argv) \<noteq> KindConnect"

lemma one_round:
  assumes s: "s_writable s" "s_pending s = []" and e: "kv_ok e" and i: "i_rules i = []"
    and argv: "plain_command argv"
    and nx: "Next s = (Inr (command_of (ToUpper (hd argv)) argv), s')" "s_writable s'" "s_pending s' = []"
    "s_active s' = command_of (ToUpper (hd argv)) argv"
    and r: "run (clock n) (ToUpper (hd argv)) argv e = (r, e')"
  shows "\<exists>i'. i_rules i' = [] \<and> handle_loop (Suc fuel) redis ''redis'' s (clock, n, e) i =
    handle_loop fuel redis ''redis'' (s'\<lparr>s_sent := s_sent s' @ answer_frame (s_modern s') r\<rparr>) (clock, Suc n, e') i'"
proof -
  let ?o = "(command_of (ToUpper (hd argv)) argv)\<lparr>op_Emulator := ''redis''\<rparr>"
  obtain i' where b: "Before ?o i = (zero_verdict, i')" "i_rules i' = []" using Before_no_rules [OF i] by blast
  have st: "step redis s' (clock, n, e) zero_verdict ?o =
    \<lparr>st_slept = 0, st_fate = Lives, st_session = s'\<lparr>s_sent := s_sent s' @ answer_frame (s_modern s') r\<rparr>,
     st_executor = (clock, Suc n, e')\<rparr>"
    using argv by (intro step_command [where clock = clock and n = n, OF nx(2,3) _ e _ _ _ _ r])
      (simp_all add: nx(4) command_of_def plain_command_def operation_def)
  show ?thesis using b st nx(1) by (auto simp: next_redis Let_def)
qed

lemma pipeline_rounds:
  assumes "list_all plain_command cmds" "s_greeted s" "s_deferred s = None" "s_writable s" "s_pending s = []"
    "s_input s = concat (map encode_command cmds)" "kv_ok e" "i_rules i = []"
    "serve_commands clock n e cmds = (rs, e')"
  shows "\<exists>s' m i'. handle_loop (Suc (length cmds)) redis ''redis'' s (clock, n, e) i = Some (Closes, s', (clock, m, e'), i') \<and>
    s_sent s' = s_sent s @ concat (map (answer_frame (s_modern s)) rs)"
  using assms
proof (induction cmds arbitrary: s e i n rs)
  case Nil
  then show ?case by (simp add: Next_end redis_def)
next
  case (Cons argv cmds)
  obtain r e1 where r: "run (clock n) (ToUpper (hd argv)) argv e = (r, e1)" by force
  obtain rs1 where rs: "serve_commands clock (Suc n) e1 cmds = (rs1, e')" "rs = r # rs1"
    using Cons.prems(9) r by (auto split: prod.splits)
  have argv: "plain_command argv" "operation argv" using Cons.prems(1) by (simp_all add: plain_command_def)
  let ?o = "command_of (ToUpper (hd argv)) argv"
  let ?s1 = "s\<lparr>s_input := concat (map encode_command cmds), s_active := ?o\<rparr>"
  have nx: "Next s = (Inr ?o, ?s1)" using Next_later [OF argv(2)] Cons.prems by simp
  obtain i1 where i1: "i_rules i1 = []" "handle_loop (Suc (Suc (length cmds))) redis ''redis'' s (clock, n, e) i =
    handle_loop (Suc (length cmds)) redis ''redis'' (?s1\<lparr>s_sent := s_sent s @ answer_frame (s_modern s) r\<rparr>) (clock, Suc n, e1) i1"
    using one_round [where clock = clock and n = n and fuel = "Suc (length cmds)",
      OF Cons.prems(4,5,7,8) argv(1) nx _ _ _ r] Cons.prems by auto
  have e1: "kv_ok e1" using run_safe [OF Cons.prems(7), of argv "clock n" "ToUpper (hd argv)"] r argv by (auto simp: operation_def)
  have "\<exists>s' m i'. handle_loop (Suc (length cmds)) redis ''redis'' (?s1\<lparr>s_sent := s_sent s @ answer_frame (s_modern s) r\<rparr>)
      (clock, Suc n, e1) i1 = Some (Closes, s', (clock, m, e'), i') \<and>
    s_sent s' = s_sent (?s1\<lparr>s_sent := s_sent s @ answer_frame (s_modern s) r\<rparr>) @ concat (map (answer_frame (s_modern s)) rs1)"
    using Cons.IH [of "?s1\<lparr>s_sent := s_sent s @ answer_frame (s_modern s) r\<rparr>" e1 i1 "Suc n" rs1] Cons.prems e1 i1(1) rs(1) by simp
  then show ?case using i1(2) rs(2) by simp
qed

text \<open>C9. A client that pipelines commands and hangs up gets every answer: with no fault rule armed, the serve loop
  ends by itself within two rounds more than there are commands, and what it has sent is exactly the
  encoding of the cache's answers to those commands, in their order.\<close>

theorem pipeline_served:
  assumes cmds: "list_all plain_command cmds" "cmds \<noteq> []" and e: "kv_ok e" and i: "i_rules i = []"
    and rs: "serve_commands clock 1 e cmds = (rs, e')" and fuel: "length cmds + 2 \<le> fuel"
  shows "\<exists>s' m i'. handle_loop fuel redis ''redis'' (newSession (concat (map encode_command cmds)) True k ident) (clock, 0, e) i
      = Some (Closes, s', (clock, m, e'), i') \<and>
    s_sent s' = concat (map (answer_frame False) rs)"
proof -
  obtain argv rest where a: "cmds = argv # rest" using cmds(2) by (cases cmds) auto
  let ?s = "newSession (concat (map encode_command cmds)) True k ident"
  have argv: "operation argv" "plain_command argv" using cmds by (simp_all add: a plain_command_def)
  let ?s1 = "?s\<lparr>s_input := concat (map encode_command rest), s_greeted := True, s_deferred := Some argv, s_active := connect_op ?s\<rparr>"
  let ?o = "command_of (ToUpper (hd argv)) argv"
  let ?s2 = "?s1\<lparr>s_deferred := None, s_active := ?o\<rparr>"
  have n1: "Next ?s = (Inr (connect_op ?s), ?s1)"
    using Next_first [OF argv(1), of ?s] by (simp add: newSession_def a)
  have n2: "Next ?s1 = (Inr ?o, ?s2)" using Next_deferred [OF argv(1), of ?s1] by simp
  obtain r e1 rs1 where r: "run (clock 1) (ToUpper (hd argv)) argv e = (r, e1)"
    "serve_commands clock 2 e1 rest = (rs1, e')" "rs = r # rs1"
    using rs by (auto simp: a numeral_2_eq_2 split: prod.splits)
  obtain i1 where i1: "Before ((connect_op ?s)\<lparr>op_Emulator := ''redis''\<rparr>) i = (zero_verdict, i1)" "i_rules i1 = []"
    using Before_no_rules [OF i] by blast
  have "step redis ?s1 (clock, 0, e) zero_verdict ((connect_op ?s)\<lparr>op_Emulator := ''redis''\<rparr>) =
      \<lparr>st_slept = 0, st_fate = Lives, st_session = ?s1, st_executor = (clock, 1, e)\<rparr>"
    by (simp add: step_def redis_def zero_verdict_def kv_Exec_def connect_op_def zero_op_def Reply_def fate_of_def)
  then have first: "handle_loop (Suc f) redis ''redis'' ?s (clock, 0, e) i = handle_loop f redis ''redis'' ?s1 (clock, 1, e) i1" for f
    using n1 i1 by (simp add: next_redis Let_def)
  obtain i2 where i2: "i_rules i2 = []" "handle_loop (Suc (Suc (length rest))) redis ''redis'' ?s1 (clock, 1, e) i1 =
      handle_loop (Suc (length rest)) redis ''redis'' (?s2\<lparr>s_sent := answer_frame False r\<rparr>) (clock, 2, e1) i2"
    using one_round [where clock = clock and n = 1 and fuel = "Suc (length rest)", OF _ _ e i1(2) argv(2) n2 _ _ _ r(1)]
    by (auto simp: newSession_def numeral_2_eq_2)
  have e1: "kv_ok e1" using run_safe [OF e, of argv "clock 1" "ToUpper (hd argv)"] r(1) argv by (auto simp: operation_def)
  obtain s' m i' where l: "handle_loop (Suc (length rest)) redis ''redis'' (?s2\<lparr>s_sent := answer_frame False r\<rparr>) (clock, 2, e1) i2 =
      Some (Closes, s', (clock, m, e'), i')" "s_sent s' = answer_frame False r @ concat (map (answer_frame False) rs1)"
    using pipeline_rounds [of rest "?s2\<lparr>s_sent := answer_frame False r\<rparr>" e1 i2 clock 2 rs1 e'] cmds a e1 i2(1) r(2)
    by (auto simp: newSession_def)
  have "handle_loop (length cmds + 2) redis ''redis'' ?s (clock, 0, e) i = Some (Closes, s', (clock, m, e'), i')"
    using first [of "Suc (Suc (length rest))"] i2(2) l(1) by (simp add: a)
  from handle_loop_mono [OF this fuel] l(2) r(3) show ?thesis by auto
qed

theorem pipeline_served_witness:
  "plain_command [''INCR'', ''rate:1''] \<and> kv_ok (kv_Open sample_cache) \<and>
   (\<exists>s' x i'. handle_loop 3 redis ''redis'' (newSession (encode_command [''INCR'', ''rate:1'']) True 0 1)
      (\<lambda>n. 0, 0, kv_Open sample_cache) \<lparr>i_rules = [], i_log = New_log 10\<rparr> = Some (Closes, s', x, i') \<and>
    s_sent s' = answer_frame False (fst (run 0 ''INCR'' [''INCR'', ''rate:1''] (kv_Open sample_cache))))"
proof -
  have u: "ToUpper ''INCR'' = ''INCR''" by code_simp
  have p: "plain_command [''INCR'', ''rate:1'']"
    by (simp add: plain_command_def operation_def sendable_def maxElements_def maxBulk_def driverCommands_def u KindConnect_def)
  obtain r e' where r: "run 0 ''INCR'' [''INCR'', ''rate:1''] (kv_Open sample_cache) = (r, e')" by force
  from pipeline_served [of "[[''INCR'', ''rate:1'']]" "kv_Open sample_cache" "\<lparr>i_rules = [], i_log = New_log 10\<rparr>" "\<lambda>n. 0" "[r]" e' 3 0 1]
    p sample_ok r u show ?thesis by auto
qed

text \<open>The one word that is not answered: a client that sends the command CONNECT, in any letter case, has it
  mistaken for the connection's own operation; nothing at all is written back, and the client waits.\<close>

theorem connect_command_unanswered:
  assumes "sendable argv" "argv \<noteq> []" "ToUpper (hd argv) = ''CONNECT''"
    and "s_greeted s" "s_deferred s = None" "s_input s = encode_command argv @ rest"
  shows "\<exists>o' s'. Next s = (Inr o', s') \<and> op_Payload o' = Some argv \<and>
    (case step redis s' (clock, n, e) zero_verdict o' of st \<Rightarrow>
       st_fate st = Lives \<and> s_sent (st_session st) = s_sent s \<and> s_pending (st_session st) = s_pending s)"
proof -
  have "operation argv" using assms(1-3) by (simp add: operation_def driverCommands_def)
  from Next_later [OF this assms(4-6)] show ?thesis
    by (simp add: assms(3) command_of_def zero_op_def step_def redis_def zero_verdict_def kv_Exec_def KindConnect_def
        Reply_def fate_of_def)
qed

theorem connect_command_unanswered_witness:
  "sendable [''connect''] \<and> ToUpper ''connect'' = ''CONNECT'' \<and>
   (\<exists>o' s'. Next ((newSession (encode_command [''connect''] @ []) True 0 1)\<lparr>s_greeted := True\<rparr>) = (Inr o', s') \<and>
      s_sent (st_session (step redis s' (\<lambda>n. 0, 0, kv_Open kv_New) zero_verdict o')) = [])"
proof -
  have u: "ToUpper ''connect'' = ''CONNECT''" by code_simp
  have k: "sendable [''connect'']" by (simp add: sendable_def maxElements_def maxBulk_def)
  from connect_command_unanswered [OF k, of "(newSession (encode_command [''connect''] @ []) True 0 1)\<lparr>s_greeted := True\<rparr>" "[]"
      "\<lambda>n. 0" 0 "kv_Open kv_New"] u k
  show ?thesis by (auto simp: newSession_def)
qed

text \<open>An error that quotes the client's bytes can be torn: an unknown command whose argument holds a line end
  is answered with bytes a client reads as an error and then, in the place of the next command's
  answer, as a reply the argument spelled out.\<close>

theorem error_reply_torn:
  "\<exists>line rest bytes.
     parse_reply 1 (answer_frame modern (fst (run now ''NOPE'' [''NOPE'', resp_crlf @ ''+OK'' @ resp_crlf] e))) = Some (RError line, rest) \<and>
     parse_reply 1 rest = Some (RSimple ''OK'', bytes)"
proof -
  have "map_of commands ''NOPE'' = None" by (simp add: commands_def)
  then have r: "fst (run now ''NOPE'' [''NOPE'', resp_crlf @ ''+OK'' @ resp_crlf] e) =
      Fail (RedisErr (unknownCommand [''NOPE'', resp_crlf @ ''+OK'' @ resp_crlf]))" by (simp add: run_def)
  define q where "q = ''ERR unknown command '' @ [CHR 0x27] @ ''NOPE'' @ [CHR 0x27] @ '', with args beginning with: '' @ [CHR 0x27]"
  define rest where "rest = [CHR 0x27] @ '', '' @ resp_crlf"
  have f: "answer_frame modern (fst (run now ''NOPE'' [''NOPE'', resp_crlf @ ''+OK'' @ resp_crlf] e)) =
      ''-'' @ q @ resp_crlf @ ''+OK'' @ resp_crlf @ rest"
    unfolding r by (simp add: error_frame_def errorLine_def unknownCommand_def q_def rest_def)
  have "CR \<notin> set q" "CR \<notin> set ''OK''" by (simp_all add: q_def CR_def)
  then have "until_crlf (q @ resp_crlf @ ''+OK'' @ resp_crlf @ rest) = Some (q, ''+OK'' @ resp_crlf @ rest)"
    "until_crlf (''OK'' @ resp_crlf @ rest) = Some (''OK'', rest)" using until_crlf_line by blast+
  then show ?thesis unfolding f by simp
qed

end
