(* ===== verification/Mq.thy ===== *)
theory Mq
  imports Emulator
begin

text \<open>
  The vocabulary a queue protocol and a queue backend share, \<open>internal/mq/mq.go\<close>: messages, deliveries and the
  requests an operation carries. A \<open>Sink\<close> is the session of the connection that asked to consume, so a
  consume request needs no field for it.
\<close>

definition KindPublish :: gostring where "KindPublish = ''publish''"
definition KindGet :: gostring where "KindGet = ''get''"
definition KindConsume :: gostring where "KindConsume = ''consume''"
definition KindCancel :: gostring where "KindCancel = ''cancel''"
definition KindAck :: gostring where "KindAck = ''ack''"
definition KindNack :: gostring where "KindNack = ''nack''"
definition KindQos :: gostring where "KindQos = ''qos''"
definition KindDeclare :: gostring where "KindDeclare = ''declare''"
definition KindBind :: gostring where "KindBind = ''bind''"
definition KindPurge :: gostring where "KindPurge = ''purge''"
definition KindDelete :: gostring where "KindDelete = ''delete''"
definition KindExchange :: gostring where "KindExchange = ''exchange_declare''"

definition GaugeDepth :: gostring where "GaugeDepth = ''depth''"
definition GaugeUnacked :: gostring where "GaugeUnacked = ''unacked''"
definition GaugeConsumers :: gostring where "GaugeConsumers = ''consumers''"
definition GaugeRouted :: gostring where "GaugeRouted = ''routed''"
definition GaugeRemoved :: gostring where "GaugeRemoved = ''removed''"

record Message =
  m_Exchange :: gostring
  m_RoutingKey :: gostring
  m_Properties :: gostring
  m_Body :: gostring

record Delivery =
  d_Message :: Message
  d_Queue :: gostring
  d_Tag :: nat
  d_Consumer :: gostring
  d_Channel :: nat
  d_NoAck :: bool
  d_Redelivered :: bool
  d_Remaining :: nat

text \<open>The payload of an operation. Tags of type \<open>uint64\<close> and channels of type \<open>uint16\<close> are natural numbers: the
  first are issued one at a time from zero, the second are only compared.\<close>

datatype request =
    Publish Message bool
  | Get nat bool
  | Consume gostring nat bool
  | Cancel gostring
  | Ack nat nat bool
  | Nack nat nat bool bool
  | Qos nat int
  | Declare bool
  | Bind gostring gostring
  | Exchange gostring bool
  | NoRequest

definition Fetched :: "Delivery \<Rightarrow> Delivery Result" where
  "Fetched d = empty_Result\<lparr>res_Columns := [\<lparr>c_Name = ''message'', c_Type = TypeBytes\<rparr>], res_Rows := [[d]]\<rparr>"

definition Fetch :: "Delivery Result \<Rightarrow> Delivery option" where
  "Fetch r = (case res_Rows r of [] \<Rightarrow> None | row # _ \<Rightarrow> (case row of [] \<Rightarrow> None | d # _ \<Rightarrow> Some d))"

lemma Fetch_Fetched [simp]: "Fetch (Fetched d) = Some d" "Fetch (Fetched d\<lparr>res_Gauges := g\<rparr>) = Some d"
  by (simp_all add: Fetch_def Fetched_def empty_Result_def)

end
