(* ===== verification/QueueRouting.thy ===== *)
theory QueueRouting
  imports Mq
begin

text \<open>
  Exchanges and the routing of \<open>internal/queues/routing.go\<close>, up to the pointers: a binding names its queue by an
  identifier that stands for the Go pointer. The topic matcher is proved to decide the language its
  pattern denotes.
\<close>

text \<open>The failures of \<open>errors.go\<close>, by what their message is built from.\<close>

datatype queue_failure =
    NoQueue gostring
  | NoExchange gostring
  | DefaultDeclared
  | DefaultBound
  | UnknownExchangeKind gostring gostring
  | ExchangeKindDiffers gostring gostring gostring
  | UnknownDeliveryTag nat
  | ConsumerTagTaken gostring
  | NoConsumer gostring
  | NotImplemented gostring

text \<open>The AMQP reply code of a failure; the last is not a queue error and has none.\<close>

fun failure_code :: "queue_failure \<Rightarrow> nat option" where
  "failure_code (NoQueue n) = Some 404"
| "failure_code (NoExchange n) = Some 404"
| "failure_code DefaultDeclared = Some 403"
| "failure_code DefaultBound = Some 403"
| "failure_code (UnknownExchangeKind n k) = Some 503"
| "failure_code (ExchangeKindDiffers n k k') = Some 406"
| "failure_code (UnknownDeliveryTag t) = Some 406"
| "failure_code (ConsumerTagTaken t) = Some 530"
| "failure_code (NoConsumer t) = Some 404"
| "failure_code (NotImplemented k) = None"

definition kindDirect :: gostring where "kindDirect = ''direct''"
definition kindFanout :: gostring where "kindFanout = ''fanout''"
definition kindTopic :: gostring where "kindTopic = ''topic''"
definition defaultExchange :: gostring where "defaultExchange = []"
definition topicSeparator :: char where "topicSeparator = CHR ''.''"
definition oneWord :: gostring where "oneWord = ''*''"
definition anyWords :: gostring where "anyWords = ''#''"

type_synonym qid = nat

record binding =
  bi_target :: qid
  bi_key :: gostring

record exchange =
  ex_kind :: gostring
  ex_bindings :: "binding list"

fun wordsMatch :: "gostring list \<Rightarrow> gostring list \<Rightarrow> bool" where
  "wordsMatch [] ws = (ws = [])"
| "wordsMatch (p # ps) ws =
     (if p = anyWords
      then wordsMatch ps ws \<or> (case ws of [] \<Rightarrow> False | w # ws' \<Rightarrow> wordsMatch (p # ps) ws')
      else (case ws of
              [] \<Rightarrow> False
            | w # ws' \<Rightarrow> (p = oneWord \<or> p = w) \<and> wordsMatch ps ws'))"

definition topicMatches :: "gostring \<Rightarrow> gostring \<Rightarrow> bool" where
  "topicMatches pattern key = wordsMatch (Split_on topicSeparator pattern) (Split_on topicSeparator key)"

definition reaches :: "exchange \<Rightarrow> gostring \<Rightarrow> gostring \<Rightarrow> bool" where
  "reaches e pattern key =
     (if ex_kind e = kindFanout then True
      else if ex_kind e = kindTopic then topicMatches pattern key
      else pattern = key)"

definition unbindAll :: "qid \<Rightarrow> exchange \<Rightarrow> exchange" where
  "unbindAll target e = e\<lparr>ex_bindings := filter (\<lambda>b. bi_target b \<noteq> target) (ex_bindings e)\<rparr>"

text \<open>The queues of the bindings that match, each once, in the order of their first binding.\<close>

fun reached_loop :: "exchange \<Rightarrow> gostring \<Rightarrow> binding list \<Rightarrow> qid list \<Rightarrow> qid list" where
  "reached_loop e key [] reached = reached"
| "reached_loop e key (bound # bs) reached =
     reached_loop e key bs
       (if reaches e (bi_key bound) key \<and> bi_target bound \<notin> set reached then reached @ [bi_target bound] else reached)"

section \<open>What a topic pattern denotes\<close>

text \<open>Each word of the pattern stands for a block of words of the key: any block for \<open>#\<close>, one word for \<open>*\<close>,
  itself otherwise.\<close>

definition stands_for :: "gostring \<Rightarrow> gostring list \<Rightarrow> bool" where
  "stands_for p block \<longleftrightarrow> (if p = anyWords then True else if p = oneWord then length block = 1 else block = [p])"

definition topic_lang :: "gostring list \<Rightarrow> gostring list \<Rightarrow> bool" where
  "topic_lang ps ws \<longleftrightarrow> (\<exists>blocks. concat blocks = ws \<and> list_all2 stands_for ps blocks)"

lemma topic_lang_Cons: "topic_lang (p # ps) ws \<longleftrightarrow> (\<exists>b r. ws = b @ r \<and> stands_for p b \<and> topic_lang ps r)"
proof
  assume "topic_lang (p # ps) ws"
  then show "\<exists>b r. ws = b @ r \<and> stands_for p b \<and> topic_lang ps r"
    unfolding topic_lang_def list_all2_Cons1 by force
next
  assume "\<exists>b r. ws = b @ r \<and> stands_for p b \<and> topic_lang ps r"
  then obtain b r blocks where "ws = b @ r" "stands_for p b" "concat blocks = r" "list_all2 stands_for ps blocks"
    by (auto simp: topic_lang_def)
  then show "topic_lang (p # ps) ws" by (auto simp: topic_lang_def intro!: exI [of _ "b # blocks"])
qed

lemma topic_lang_word:
  assumes "p \<noteq> anyWords"
  shows "topic_lang (p # ps) ws \<longleftrightarrow> (\<exists>w r. ws = w # r \<and> (p = oneWord \<or> p = w) \<and> topic_lang ps r)"
proof
  assume "topic_lang (p # ps) ws"
  then show "\<exists>w r. ws = w # r \<and> (p = oneWord \<or> p = w) \<and> topic_lang ps r"
    using assms by (auto simp: topic_lang_Cons stands_for_def length_Suc_conv split: if_splits)
next
  assume "\<exists>w r. ws = w # r \<and> (p = oneWord \<or> p = w) \<and> topic_lang ps r"
  then obtain w r where "ws = [w] @ r" "stands_for p [w]" "topic_lang ps r"
    using assms by (auto simp: stands_for_def)
  then show "topic_lang (p # ps) ws" unfolding topic_lang_Cons by blast
qed

lemma wordsMatch_lang: "wordsMatch ps ws \<longleftrightarrow> topic_lang ps ws"
proof (induction ps ws rule: wordsMatch.induct)
  case (1 ws)
  then show ?case by (auto simp: topic_lang_def)
next
  case (2 p ps ws)
  show ?case
  proof (cases "p = anyWords")
    case True
    have split: "topic_lang (p # ps) ws \<longleftrightarrow> topic_lang ps ws \<or> (\<exists>w ws'. ws = w # ws' \<and> topic_lang (p # ps) ws')"
    proof
      assume "topic_lang (p # ps) ws"
      then obtain b r where "ws = b @ r" "topic_lang ps r" by (auto simp: topic_lang_Cons)
      then show "topic_lang ps ws \<or> (\<exists>w ws'. ws = w # ws' \<and> topic_lang (p # ps) ws')"
        using True by (cases b) (auto simp: topic_lang_Cons stands_for_def)
    next
      assume "topic_lang ps ws \<or> (\<exists>w ws'. ws = w # ws' \<and> topic_lang (p # ps) ws')"
      then show "topic_lang (p # ps) ws"
        using True by (auto simp: topic_lang_Cons stands_for_def) (metis append_Cons)+
    qed
    have "wordsMatch (p # ps) ws \<longleftrightarrow> topic_lang ps ws \<or> (\<exists>w ws'. ws = w # ws' \<and> topic_lang (p # ps) ws')"
    proof (cases ws)
      case (Cons w ws')
      then show ?thesis using True 2(1,2) by auto
    qed (use True 2(1) in auto)
    with split show ?thesis by blast
  next
    case False
    then show ?thesis using 2(3) by (cases ws) (auto simp: topic_lang_word)
  qed
qed

lemma reached_loop_eq:
  "distinct reached \<Longrightarrow> distinct (reached_loop e key bs reached) \<and>
     set (reached_loop e key bs reached) = set reached \<union> {bi_target b |b. b \<in> set bs \<and> reaches e (bi_key b) key}"
  by (induction bs arbitrary: reached) auto

end
