(* ===== verification/Queues.thy ===== *)
theory Queues
  imports QueueRouting "HOL-Library.Multiset"
begin

text \<open>
  The emulated broker of \<open>internal/queues\<close>: \<open>queues.go\<close>, \<open>exec.go\<close> and \<open>seed.go\<close>. Go objects reached through
  pointers (queues and connections) live in a store under identifiers, since a delivery keeps its
  queue after the queue's name is gone and a publisher reaches into other connections. Consumers
  are never changed after they are made, so they are values. What a consumer's sink was handed is
  the list \<open>cn_sink\<close> of its connection, oldest first. Where the source ranges over a map in Go's
  unspecified order, the order is an argument.
\<close>

section \<open>State\<close>

record pending =
  pe_message :: Message
  pe_redelivered :: bool

record consumer =
  cs_tag :: gostring
  cs_queue :: qid
  cs_owner :: nat
  cs_channel :: nat
  cs_noAck :: bool

record queue =
  q_name :: gostring
  q_ready :: "pending list"
  q_unacked :: int
  q_consumers :: "consumer list"
  q_turn :: nat

record held =
  h_queue :: qid
  h_message :: Message
  h_channel :: nat

record connection =
  cn_nextTag :: nat
  cn_held :: "(nat \<times> held) list"
  cn_outstanding :: "nat \<Rightarrow> int"
  cn_prefetch :: "nat \<Rightarrow> int"
  cn_consumers :: "(gostring \<times> consumer) list"
  cn_generated :: nat
  cn_sink :: "Delivery list"

record broker =
  br_queues :: "(gostring \<times> qid) list"
  br_store :: "qid \<Rightarrow> queue"
  br_fresh :: qid
  br_exchanges :: "(gostring \<times> exchange) list"
  br_generated :: nat
  br_conns :: "nat \<Rightarrow> connection"
  br_open :: nat

type_synonym queue_result = "(queue_failure, Delivery Result) outcome"

abbreviation the_queue :: "broker \<Rightarrow> qid \<Rightarrow> queue" where "the_queue b t \<equiv> br_store b t"
abbreviation the_conn :: "broker \<Rightarrow> nat \<Rightarrow> connection" where "the_conn b c \<equiv> br_conns b c"

definition set_queue :: "qid \<Rightarrow> queue \<Rightarrow> broker \<Rightarrow> broker" where
  "set_queue t q b = b\<lparr>br_store := (br_store b)(t := q)\<rparr>"

definition set_conn :: "nat \<Rightarrow> connection \<Rightarrow> broker \<Rightarrow> broker" where
  "set_conn c x b = b\<lparr>br_conns := (br_conns b)(c := x)\<rparr>"

definition generatedQueuePrefix :: gostring where "generatedQueuePrefix = ''amq.gen-''"
definition generatedConsumerPrefix :: gostring where "generatedConsumerPrefix = ''amq.ctag-''"
definition allDeliveries :: nat where "allDeliveries = 0"

definition empty_queue :: "gostring \<Rightarrow> queue" where
  "empty_queue name = \<lparr>q_name = name, q_ready = [], q_unacked = 0, q_consumers = [], q_turn = 0\<rparr>"

definition empty_connection :: connection where
  "empty_connection = \<lparr>cn_nextTag = 0, cn_held = [], cn_outstanding = (\<lambda>_. 0), cn_prefetch = (\<lambda>_. 0),
     cn_consumers = [], cn_generated = 0, cn_sink = []\<rparr>"

definition New_broker :: broker where
  "New_broker = \<lparr>br_queues = [], br_store = (\<lambda>_. empty_queue []), br_fresh = 0, br_exchanges = [], br_generated = 0,
     br_conns = (\<lambda>_. empty_connection), br_open = 0\<rparr>"

text \<open>Opening a connection gives it the next identifier.\<close>

definition Open :: "broker \<Rightarrow> nat \<times> broker" where
  "Open b = (br_open b, (set_conn (br_open b) empty_connection b)\<lparr>br_open := Suc (br_open b)\<rparr>)"

definition Close_broker :: "broker \<Rightarrow> broker" where
  "Close_broker b = b\<lparr>br_queues := [], br_exchanges := []\<rparr>"

section \<open>Exchanges and bindings\<close>

definition hasExchange :: "broker \<Rightarrow> gostring \<Rightarrow> bool" where
  "hasExchange b name = (name = defaultExchange \<or> map_of (br_exchanges b) name \<noteq> None)"

definition declareExchange :: "gostring \<Rightarrow> gostring \<Rightarrow> bool \<Rightarrow> broker \<Rightarrow> queue_failure option \<times> broker" where
  "declareExchange name kind passive b =
     (if name = defaultExchange then (Some DefaultDeclared, b)
      else (case map_of (br_exchanges b) name of
              None \<Rightarrow>
                if passive then (Some (NoExchange name), b)
                else if kind \<notin> set [kindDirect, kindFanout, kindTopic] then (Some (UnknownExchangeKind name kind), b)
                else (None, b\<lparr>br_exchanges := AList.update name \<lparr>ex_kind = kind, ex_bindings = []\<rparr> (br_exchanges b)\<rparr>)
            | Some existing \<Rightarrow>
                if passive then (None, b)
                else if kind \<notin> set [kindDirect, kindFanout, kindTopic] then (Some (UnknownExchangeKind name kind), b)
                else if ex_kind existing \<noteq> kind then (Some (ExchangeKindDiffers name (ex_kind existing) kind), b)
                else (None, b)))"

definition bind_queue :: "qid \<Rightarrow> gostring \<Rightarrow> gostring \<Rightarrow> broker \<Rightarrow> queue_failure option \<times> broker" where
  "bind_queue target name key b =
     (if name = defaultExchange then (Some DefaultBound, b)
      else (case map_of (br_exchanges b) name of
              None \<Rightarrow> (Some (NoExchange name), b)
            | Some routed \<Rightarrow>
                (None, b\<lparr>br_exchanges := AList.update name
                   (routed\<lparr>ex_bindings := ex_bindings routed @ [\<lparr>bi_target = target, bi_key = key\<rparr>]\<rparr>) (br_exchanges b)\<rparr>)))"

definition destinations :: "broker \<Rightarrow> gostring \<Rightarrow> gostring \<Rightarrow> qid list" where
  "destinations b name key =
     (if name = defaultExchange
      then (case map_of (br_queues b) key of None \<Rightarrow> [] | Some named \<Rightarrow> [named])
      else (case map_of (br_exchanges b) name of
              None \<Rightarrow> []
            | Some routed \<Rightarrow> reached_loop routed key (ex_bindings routed) []))"

section \<open>Gauges\<close>

definition gaugesOf :: "queue option \<Rightarrow> (gostring \<times> int) list" where
  "gaugesOf target =
     (case target of
        None \<Rightarrow> [(GaugeDepth, 0), (GaugeUnacked, 0), (GaugeConsumers, 0)]
      | Some q \<Rightarrow> [(GaugeDepth, int (length (q_ready q))), (GaugeUnacked, q_unacked q),
                   (GaugeConsumers, int (length (q_consumers q)))])"

fun fullest :: "broker \<Rightarrow> queue option \<Rightarrow> qid list \<Rightarrow> queue option" where
  "fullest b best [] = best"
| "fullest b best (t # ts) =
     fullest b (case best of
                  None \<Rightarrow> Some (the_queue b t)
                | Some q \<Rightarrow> if length (q_ready (the_queue b t)) > length (q_ready q) then Some (the_queue b t) else best) ts"

definition gaugesFor :: "broker \<Rightarrow> gostring \<Rightarrow> gostring \<Rightarrow> (gostring \<times> int) list" where
  "gaugesFor b name key = gaugesOf (fullest b None (destinations b name key))"

section \<open>Queues\<close>

definition declare_queue :: "gostring \<Rightarrow> bool \<Rightarrow> broker \<Rightarrow> (queue_failure + qid) \<times> broker" where
  "declare_queue name passive b =
     (if passive
      then (case map_of (br_queues b) name of None \<Rightarrow> (Inl (NoQueue name), b) | Some existing \<Rightarrow> (Inr existing, b))
      else (let (name, b) = (if name = [] then (generatedQueuePrefix @ FormatInt (int (Suc (br_generated b))),
                                                b\<lparr>br_generated := Suc (br_generated b)\<rparr>)
                             else (name, b))
            in case map_of (br_queues b) name of
                 Some existing \<Rightarrow> (Inr existing, b)
               | None \<Rightarrow> (Inr (br_fresh b),
                   (set_queue (br_fresh b) (empty_queue name) b)
                     \<lparr>br_fresh := Suc (br_fresh b), br_queues := AList.update name (br_fresh b) (br_queues b)\<rparr>)))"

text \<open>Dropping the consumers of a removed queue from the connections that own them.\<close>

fun forget_consumers :: "consumer list \<Rightarrow> broker \<Rightarrow> broker" where
  "forget_consumers [] b = b"
| "forget_consumers (k # ks) b =
     forget_consumers ks
       (set_conn (cs_owner k)
          ((the_conn b (cs_owner k))\<lparr>cn_consumers := AList.delete (cs_tag k) (cn_consumers (the_conn b (cs_owner k)))\<rparr>) b)"

definition remove_queue :: "qid \<Rightarrow> broker \<Rightarrow> nat \<times> broker" where
  "remove_queue target b =
     (let q = the_queue b target;
          b = b\<lparr>br_queues := AList.delete (q_name q) (br_queues b),
                br_exchanges := map (\<lambda>(n, e). (n, unbindAll target e)) (br_exchanges b)\<rparr>;
          b = forget_consumers (q_consumers q) b
      in (length (q_ready q), set_queue target (q\<lparr>q_consumers := [], q_ready := []\<rparr>) b))"

definition hasRoom :: "connection \<Rightarrow> nat \<Rightarrow> bool" where
  "hasRoom c channel = (cn_prefetch c channel = 0 \<or> cn_outstanding c channel < cn_prefetch c channel)"

text \<open>The round robin: as many tries as there are consumers, from where the last one left off.\<close>

fun next_loop :: "(consumer \<Rightarrow> bool) \<Rightarrow> nat \<Rightarrow> queue \<Rightarrow> consumer option \<times> queue" where
  "next_loop room 0 q = (None, q)"
| "next_loop room (Suc n) q =
     (let candidate = q_consumers q ! (q_turn q mod length (q_consumers q));
          q = q\<lparr>q_turn := (q_turn q + 1) mod length (q_consumers q)\<rparr>
      in if room candidate then (Some candidate, q) else next_loop room n q)"

definition next_consumer :: "broker \<Rightarrow> queue \<Rightarrow> consumer option \<times> queue" where
  "next_consumer b q = next_loop (\<lambda>k. hasRoom (the_conn b (cs_owner k)) (cs_channel k)) (length (q_consumers q)) q"

definition hold_message :: "nat \<Rightarrow> qid \<Rightarrow> Message \<Rightarrow> nat \<Rightarrow> bool \<Rightarrow> broker \<Rightarrow> nat \<times> broker" where
  "hold_message c target message channel noAck b =
     (let x = the_conn b c; tag = Suc (cn_nextTag x); x = x\<lparr>cn_nextTag := tag\<rparr>
      in if noAck then (tag, set_conn c x b)
         else (tag,
           set_queue target ((the_queue b target)\<lparr>q_unacked := q_unacked (the_queue b target) + 1\<rparr>)
             (set_conn c (x\<lparr>cn_held := AList.update tag \<lparr>h_queue = target, h_message = message, h_channel = channel\<rparr> (cn_held x),
                            cn_outstanding := (cn_outstanding x)(channel := cn_outstanding x channel + 1)\<rparr>) b)))"

definition Deliver :: "nat \<Rightarrow> Delivery \<Rightarrow> broker \<Rightarrow> broker" where
  "Deliver c d b = set_conn c ((the_conn b c)\<lparr>cn_sink := cn_sink (the_conn b c) @ [d]\<rparr>) b"

definition push_message :: "consumer \<Rightarrow> pending \<Rightarrow> broker \<Rightarrow> broker" where
  "push_message k waiting b =
     (case hold_message (cs_owner k) (cs_queue k) (pe_message waiting) (cs_channel k) (cs_noAck k) b of (tag, b) \<Rightarrow>
        Deliver (cs_owner k)
          \<lparr>d_Message = pe_message waiting, d_Queue = q_name (the_queue b (cs_queue k)), d_Tag = tag, d_Consumer = cs_tag k,
           d_Channel = cs_channel k, d_NoAck = cs_noAck k, d_Redelivered = pe_redelivered waiting,
           d_Remaining = length (q_ready (the_queue b (cs_queue k)))\<rparr> b)"

lemma push_ready [simp]: "q_ready (the_queue (push_message k waiting b) t) = q_ready (the_queue b t)"
  by (simp add: push_message_def hold_message_def Deliver_def set_queue_def set_conn_def Let_def split_beta)

lemma next_loop_ready [simp]: "q_ready (snd (next_loop room n q)) = q_ready q"
  by (induction n arbitrary: q) (simp_all add: Let_def)

function dispatch :: "qid \<Rightarrow> broker \<Rightarrow> broker" where
  "dispatch target b =
     (case q_ready (the_queue b target) of
        [] \<Rightarrow> b
      | waiting # rest \<Rightarrow>
          (case next_consumer b (the_queue b target) of
             (None, q) \<Rightarrow> set_queue target q b
           | (Some taking, q) \<Rightarrow> dispatch target (push_message taking waiting (set_queue target (q\<lparr>q_ready := rest\<rparr>) b))))"
  by pat_completeness auto
termination
  by (relation "measure (\<lambda>(target, b). length (q_ready (the_queue b target)))") (auto simp: set_queue_def)

declare dispatch.simps [simp del]

fun dispatch_all :: "qid list \<Rightarrow> broker \<Rightarrow> broker" where
  "dispatch_all [] b = b"
| "dispatch_all (t # ts) b = dispatch_all ts (dispatch t b)"

fun enqueue_all :: "Message \<Rightarrow> qid list \<Rightarrow> broker \<Rightarrow> broker" where
  "enqueue_all message [] b = b"
| "enqueue_all message (t # ts) b =
     enqueue_all message ts
       (dispatch t (set_queue t ((the_queue b t)\<lparr>q_ready := q_ready (the_queue b t) @ [\<lparr>pe_message = message, pe_redelivered = False\<rparr>]\<rparr>) b))"

definition publish_message :: "Message \<Rightarrow> broker \<Rightarrow> (queue_failure + nat) \<times> broker" where
  "publish_message message b =
     (if \<not> hasExchange b (m_Exchange message) then (Inl (NoExchange (m_Exchange message)), b)
      else (let reached = destinations b (m_Exchange message) (m_RoutingKey message)
            in (Inr (length reached), enqueue_all message reached b)))"

definition requeue :: "Message \<Rightarrow> queue \<Rightarrow> queue" where
  "requeue message q = q\<lparr>q_ready := \<lparr>pe_message = message, pe_redelivered = True\<rparr> # q_ready q\<rparr>"

fun drop_tag :: "gostring \<Rightarrow> consumer list \<Rightarrow> consumer list option" where
  "drop_tag tag [] = None"
| "drop_tag tag (k # ks) = (if cs_tag k = tag then Some ks else map_option (Cons k) (drop_tag tag ks))"

definition dropConsumer :: "gostring \<Rightarrow> queue \<Rightarrow> queue" where
  "dropConsumer tag q =
     (case drop_tag tag (q_consumers q) of None \<Rightarrow> q | Some ks \<Rightarrow> q\<lparr>q_consumers := ks, q_turn := 0\<rparr>)"

end
