(* ===== verification/QueueExec.thy ===== *)
theory QueueExec
  imports Queues
begin

text \<open>
  The operations of one broker connection, \<open>internal/queues/exec.go\<close>, and seeding, \<open>seed.go\<close>. \<open>settle\<close> and \<open>Close\<close>
  release held deliveries through \<open>give\<close>, whose nil dereference on an unknown tag is the outcome \<open>None\<close>;
  that it never happens is proved in \<open>QueueSafety\<close>.
\<close>

definition find_queue :: "gostring \<Rightarrow> broker \<Rightarrow> queue_failure + qid" where
  "find_queue name b = (case map_of (br_queues b) name of None \<Rightarrow> Inl (NoQueue name) | Some t \<Rightarrow> Inr t)"

definition with_gauges :: "(gostring \<times> int) list \<Rightarrow> Delivery Result" where
  "with_gauges g = empty_Result\<lparr>res_Gauges := g\<rparr>"

definition counted_result :: "queue \<Rightarrow> nat \<Rightarrow> Delivery Result" where
  "counted_result q removed = with_gauges (gaugesOf (Some q) @ [(GaugeRemoved, int removed)])"

definition declare_op :: "gostring \<Rightarrow> bool \<Rightarrow> broker \<Rightarrow> queue_result \<times> broker" where
  "declare_op name passive b =
     (case declare_queue name passive b of
        (Inl err, b) \<Rightarrow> (Fail err, b)
      | (Inr t, b) \<Rightarrow> (Ok (with_gauges (gaugesOf (Some (the_queue b t)))\<lparr>res_Tag := q_name (the_queue b t)\<rparr>), b))"

definition bind_op :: "gostring \<Rightarrow> gostring \<Rightarrow> gostring \<Rightarrow> broker \<Rightarrow> queue_result \<times> broker" where
  "bind_op name ex key b =
     (case find_queue name b of
        Inl err \<Rightarrow> (Fail err, b)
      | Inr t \<Rightarrow>
          (case bind_queue t ex key b of
             (Some err, b) \<Rightarrow> (Fail err, b)
           | (None, b) \<Rightarrow> (Ok (with_gauges (gaugesOf (Some (the_queue b t)))), b)))"

definition purge_op :: "gostring \<Rightarrow> broker \<Rightarrow> queue_result \<times> broker" where
  "purge_op name b =
     (case find_queue name b of
        Inl err \<Rightarrow> (Fail err, b)
      | Inr t \<Rightarrow>
          (let q = the_queue b t; q' = q\<lparr>q_ready := []\<rparr>
           in (Ok (counted_result q' (length (q_ready q))), set_queue t q' b)))"

definition remove_op :: "gostring \<Rightarrow> broker \<Rightarrow> queue_result \<times> broker" where
  "remove_op name b =
     (case find_queue name b of
        Inl err \<Rightarrow> (Fail err, b)
      | Inr t \<Rightarrow> (case remove_queue t b of (removed, b) \<Rightarrow> (Ok (counted_result (the_queue b t) removed), b)))"

definition publish_op :: "Message \<Rightarrow> broker \<Rightarrow> queue_result \<times> broker" where
  "publish_op message b =
     (case publish_message message b of
        (Inl err, b) \<Rightarrow> (Fail err, b)
      | (Inr routed, b) \<Rightarrow>
          (Ok (with_gauges (gaugesFor b (m_Exchange message) (m_RoutingKey message) @ [(GaugeRouted, int routed)])), b))"

definition get_op :: "nat \<Rightarrow> gostring \<Rightarrow> nat \<Rightarrow> bool \<Rightarrow> broker \<Rightarrow> queue_result \<times> broker" where
  "get_op c name channel noAck b =
     (case find_queue name b of
        Inl err \<Rightarrow> (Fail err, b)
      | Inr t \<Rightarrow>
          (case q_ready (the_queue b t) of
             [] \<Rightarrow> (Ok (with_gauges (gaugesOf (Some (the_queue b t)))), b)
           | waiting # rest \<Rightarrow>
               (case hold_message c t (pe_message waiting) channel noAck (set_queue t ((the_queue b t)\<lparr>q_ready := rest\<rparr>) b) of
                  (tag, b) \<Rightarrow>
                    (Ok (Fetched \<lparr>d_Message = pe_message waiting, d_Queue = name, d_Tag = tag, d_Consumer = [],
                           d_Channel = channel, d_NoAck = noAck, d_Redelivered = pe_redelivered waiting,
                           d_Remaining = length (q_ready (the_queue b t))\<rparr>
                           \<lparr>res_Gauges := gaugesOf (Some (the_queue b t))\<rparr>), b))))"

definition consume_op :: "nat \<Rightarrow> gostring \<Rightarrow> gostring \<Rightarrow> nat \<Rightarrow> bool \<Rightarrow> broker \<Rightarrow> queue_result \<times> broker" where
  "consume_op c name tag channel noAck b =
     (case find_queue name b of
        Inl err \<Rightarrow> (Fail err, b)
      | Inr t \<Rightarrow>
          (let (tag, b) =
             (if tag = []
              then (generatedConsumerPrefix @ FormatInt (int (Suc (cn_generated (the_conn b c)))),
                    set_conn c ((the_conn b c)\<lparr>cn_generated := Suc (cn_generated (the_conn b c))\<rparr>) b)
              else (tag, b))
           in if map_of (cn_consumers (the_conn b c)) tag \<noteq> None then (Fail (ConsumerTagTaken tag), b)
              else (let k = \<lparr>cs_tag = tag, cs_queue = t, cs_owner = c, cs_channel = channel, cs_noAck = noAck\<rparr>;
                        b = set_conn c ((the_conn b c)\<lparr>cn_consumers := AList.update tag k (cn_consumers (the_conn b c))\<rparr>) b;
                        b = set_queue t ((the_queue b t)\<lparr>q_consumers := q_consumers (the_queue b t) @ [k]\<rparr>) b;
                        b = dispatch t b
                    in (Ok (with_gauges (gaugesOf (Some (the_queue b t)))\<lparr>res_Tag := tag\<rparr>), b))))"

definition cancel_op :: "nat \<Rightarrow> gostring \<Rightarrow> broker \<Rightarrow> queue_result \<times> broker" where
  "cancel_op c tag b =
     (case map_of (cn_consumers (the_conn b c)) tag of
        None \<Rightarrow> (Fail (NoConsumer tag), b)
      | Some k \<Rightarrow>
          (let b = set_conn c ((the_conn b c)\<lparr>cn_consumers := AList.delete tag (cn_consumers (the_conn b c))\<rparr>) b;
               b = set_queue (cs_queue k) (dropConsumer tag (the_queue b (cs_queue k))) b
           in (Ok (with_gauges (gaugesOf (Some (the_queue b (cs_queue k))))\<lparr>res_Tag := tag\<rparr>), b)))"

text \<open>The consumers of the connection in the order the map is ranged over.\<close>

definition qos_op :: "gostring list \<Rightarrow> nat \<Rightarrow> nat \<Rightarrow> int \<Rightarrow> broker \<Rightarrow> queue_result \<times> broker" where
  "qos_op order c channel prefetch b =
     (let b = set_conn c ((the_conn b c)\<lparr>cn_prefetch := (cn_prefetch (the_conn b c))(channel := prefetch)\<rparr>) b
      in (Ok empty_Result,
          dispatch_all (map (\<lambda>tag. cs_queue (the (map_of (cn_consumers (the_conn b c)) tag))) order) b))"

definition selected :: "connection \<Rightarrow> nat \<Rightarrow> nat \<Rightarrow> bool \<Rightarrow> queue_failure + nat list" where
  "selected x tag channel multiple =
     (if \<not> multiple
      then (if map_of (cn_held x) tag = None then Inl (UnknownDeliveryTag tag) else Inr [tag])
      else Inr (rev (sort (map fst (filter (\<lambda>(t, h). h_channel h = channel \<and> (tag = allDeliveries \<or> t \<le> tag)) (cn_held x))))))"

definition give :: "nat \<Rightarrow> nat \<Rightarrow> bool \<Rightarrow> broker \<Rightarrow> (qid \<times> broker) option" where
  "give c tag again b =
     (case map_of (cn_held (the_conn b c)) tag of
        None \<Rightarrow> None
      | Some h \<Rightarrow>
          (let x = the_conn b c;
               b = set_conn c (x\<lparr>cn_held := AList.delete tag (cn_held x),
                     cn_outstanding := (cn_outstanding x)(h_channel h := cn_outstanding x (h_channel h) - 1)\<rparr>) b;
               q = (the_queue b (h_queue h))\<lparr>q_unacked := q_unacked (the_queue b (h_queue h)) - 1\<rparr>
           in Some (h_queue h, set_queue (h_queue h) (if again then requeue (h_message h) q else q) b)))"

fun settle_loop :: "nat \<Rightarrow> bool \<Rightarrow> nat list \<Rightarrow> qid option \<Rightarrow> broker \<Rightarrow> (qid option \<times> broker) option" where
  "settle_loop c again [] final b = Some (final, b)"
| "settle_loop c again (tag # tags) final b =
     (case give c tag again b of
        None \<Rightarrow> None
      | Some (t, b) \<Rightarrow> settle_loop c again tags (Some t) (dispatch t b))"

definition settle :: "nat \<Rightarrow> nat \<Rightarrow> nat \<Rightarrow> bool \<Rightarrow> bool \<Rightarrow> broker \<Rightarrow> queue_result \<times> broker" where
  "settle c tag channel multiple again b =
     (case selected (the_conn b c) tag channel multiple of
        Inl err \<Rightarrow> (Fail err, b)
      | Inr tags \<Rightarrow>
          (case settle_loop c again tags None b of
             None \<Rightarrow> (Panic, b)
           | Some (final, b) \<Rightarrow> (Ok (with_gauges (gaugesOf (map_option (the_queue b) final))), b)))"

type_synonym queue_op = "request op"

text \<open>\<open>run\<close>: the request says which operation this is; the two that carry none are told by their kind.\<close>

definition queue_run :: "gostring list \<Rightarrow> nat \<Rightarrow> queue_op \<Rightarrow> broker \<Rightarrow> queue_result \<times> broker" where
  "queue_run order c o' b =
     (case op_Payload o' of
        Exchange kind passive \<Rightarrow>
          (case declareExchange (op_Target o') kind passive b of
             (None, b) \<Rightarrow> (Ok empty_Result, b) | (Some err, b) \<Rightarrow> (Fail err, b))
      | Declare passive \<Rightarrow> declare_op (op_Target o') passive b
      | Bind ex key \<Rightarrow> bind_op (op_Target o') ex key b
      | Publish message mandatory \<Rightarrow> publish_op message b
      | Get channel noAck \<Rightarrow> get_op c (op_Target o') channel noAck b
      | Consume tag channel noAck \<Rightarrow> consume_op c (op_Target o') tag channel noAck b
      | Cancel tag \<Rightarrow> cancel_op c tag b
      | Ack tag channel multiple \<Rightarrow> settle c tag channel multiple False b
      | Nack tag channel multiple again \<Rightarrow> settle c tag channel multiple again b
      | Qos channel prefetch \<Rightarrow> qos_op order c channel prefetch b
      | NoRequest \<Rightarrow>
          if op_Kind o' = KindConnect then (Ok empty_Result, b)
          else if op_Kind o' = KindPurge then purge_op (op_Target o') b
          else if op_Kind o' = KindDelete then remove_op (op_Target o') b
          else (Fail (NotImplemented (op_Kind o')), b))"

definition queue_Abort :: "queue_op \<Rightarrow> broker \<Rightarrow> broker" where "queue_Abort o' b = b"

section \<open>Closing a connection\<close>

fun drop_consumers :: "nat \<Rightarrow> gostring list \<Rightarrow> broker \<Rightarrow> broker" where
  "drop_consumers c [] b = b"
| "drop_consumers c (tag # tags) b =
     (let k = the (map_of (cn_consumers (the_conn b c)) tag)
      in drop_consumers c tags (set_queue (cs_queue k) (dropConsumer (cs_tag k) (the_queue b (cs_queue k))) b))"

fun give_all :: "nat \<Rightarrow> nat list \<Rightarrow> broker \<Rightarrow> broker option" where
  "give_all c [] b = Some b"
| "give_all c (tag # tags) b =
     (case give c tag True b of None \<Rightarrow> None | Some (t, b) \<Rightarrow> give_all c tags b)"

text \<open>The three orders are those in which the connection's consumers, its held deliveries and the broker's
  queues are ranged over.\<close>

definition Close_connection ::
  "gostring list \<Rightarrow> nat list \<Rightarrow> qid list \<Rightarrow> nat \<Rightarrow> broker \<Rightarrow> broker option" where
  "Close_connection consumers tags queues c b =
     (let b = drop_consumers c consumers b;
          b = set_conn c ((the_conn b c)\<lparr>cn_consumers := []\<rparr>) b
      in case give_all c tags b of None \<Rightarrow> None | Some b \<Rightarrow> Some (dispatch_all queues b))"

section \<open>Seeding\<close>

record seedBind =
  sb_Exchange :: gostring
  sb_RoutingKey :: gostring

record seedQueue =
  sq_Name :: gostring
  sq_Bind :: "seedBind list"
  sq_Messages :: "gostring list"

record topology =
  tp_Exchanges :: "(gostring \<times> gostring) list"
  tp_Queues :: "seedQueue list"

datatype queue_seed_error = SeedFailed queue_failure | SeedQueueFailed gostring queue_failure | SeedNameless

fun seedExchanges :: "(gostring \<times> gostring) list \<Rightarrow> broker \<Rightarrow> queue_seed_error option \<times> broker" where
  "seedExchanges [] b = (None, b)"
| "seedExchanges ((name, kind) # rest) b =
     (case declareExchange name kind False b of
        (Some err, b) \<Rightarrow> (Some (SeedFailed err), b)
      | (None, b) \<Rightarrow> seedExchanges rest b)"

fun seed_binds :: "qid \<Rightarrow> gostring \<Rightarrow> seedBind list \<Rightarrow> broker \<Rightarrow> queue_seed_error option \<times> broker" where
  "seed_binds t name [] b = (None, b)"
| "seed_binds t name (bound # rest) b =
     (case bind_queue t (sb_Exchange bound) (sb_RoutingKey bound) b of
        (Some err, b) \<Rightarrow> (Some (SeedQueueFailed name err), b)
      | (None, b) \<Rightarrow> seed_binds t name rest b)"

definition seed_messages :: "qid \<Rightarrow> gostring \<Rightarrow> gostring list \<Rightarrow> broker \<Rightarrow> broker" where
  "seed_messages t name bodies b =
     set_queue t ((the_queue b t)\<lparr>q_ready := q_ready (the_queue b t) @
       map (\<lambda>body. \<lparr>pe_message = \<lparr>m_Exchange = [], m_RoutingKey = name, m_Properties = [], m_Body = body\<rparr>,
                    pe_redelivered = False\<rparr>) bodies\<rparr>) b"

fun seedQueues :: "seedQueue list \<Rightarrow> broker \<Rightarrow> queue_seed_error option \<times> broker" where
  "seedQueues [] b = (None, b)"
| "seedQueues (q # rest) b =
     (if sq_Name q = [] then (Some SeedNameless, b)
      else (case declare_queue (sq_Name q) False b of
              (Inl err, b) \<Rightarrow> (Some (SeedFailed err), b)
            | (Inr t, b) \<Rightarrow>
                (case seed_binds t (sq_Name q) (sq_Bind q) b of
                   (Some err, b) \<Rightarrow> (Some err, b)
                 | (None, b) \<Rightarrow> seedQueues rest (seed_messages t (sq_Name q) (sq_Messages q) b))))"

text \<open>The topology as \<open>encoding/json\<close> decodes it; an absent seed is \<open>None\<close>.\<close>

definition queue_Seed :: "topology option \<Rightarrow> broker \<Rightarrow> queue_seed_error option \<times> broker" where
  "queue_Seed raw b =
     (case raw of
        None \<Rightarrow> (None, b)
      | Some seed \<Rightarrow>
          (case seedExchanges (tp_Exchanges seed) b of
             (Some err, b) \<Rightarrow> (Some err, b)
           | (None, b) \<Rightarrow> seedQueues (tp_Queues seed) b))"

end
