(* ===== verification/QueueSafety.thy ===== *)
theory QueueSafety
  imports QueueExec
begin

text \<open>
  The books of the broker: the invariant that every counter agrees with the deliveries actually held, and
  the conservation of messages. Each primitive (taking a message off a queue, holding one, handing
  one to a sink, giving one back) has one lemma for each; the operations are compositions.
\<close>

section \<open>Sums over a store\<close>

lemma sum_upd:
  fixes f :: "'b \<Rightarrow> 'a::comm_monoid_add" and n :: nat
  assumes "c < n"
  shows "(\<Sum>i<n. f ((g(c := x)) i)) + f (g c) = (\<Sum>i<n. f (g i)) + f x"
proof -
  have "(\<Sum>i<n. f (h i)) = f (h c) + (\<Sum>i\<in>{..<n} - {c}. f (h i))" for h
    using assms by (intro sum.remove) simp_all
  moreover have "(\<Sum>i\<in>{..<n} - {c}. f ((g(c := x)) i)) = (\<Sum>i\<in>{..<n} - {c}. f (g i))"
    by (rule sum.cong) simp_all
  ultimately show ?thesis by (simp add: add_ac)
qed

section \<open>The invariant\<close>

definition on_queue :: "qid \<Rightarrow> (nat \<times> held) list \<Rightarrow> nat" where
  "on_queue t hs = length (filter (\<lambda>(tag, h). h_queue h = t) hs)"

definition on_channel :: "nat \<Rightarrow> (nat \<times> held) list \<Rightarrow> nat" where
  "on_channel ch hs = length (filter (\<lambda>(tag, h). h_channel h = ch) hs)"

definition tally :: "broker \<Rightarrow> qid \<Rightarrow> nat" where
  "tally b t = (\<Sum>c<br_open b. on_queue t (cn_held (the_conn b c)))"

definition held_ok :: "qid \<Rightarrow> connection \<Rightarrow> bool" where
  "held_ok fresh x \<longleftrightarrow> keys_distinct (cn_held x) \<and>
     (\<forall>(tag, h) \<in> set (cn_held x). tag \<le> cn_nextTag x \<and> h_queue h < fresh) \<and>
     (\<forall>ch. cn_outstanding x ch = int (on_channel ch (cn_held x)))"

definition books_ok :: "broker \<Rightarrow> bool" where
  "books_ok b \<longleftrightarrow> (\<forall>c. held_ok (br_fresh b) (the_conn b c)) \<and> (\<forall>c. br_open b \<le> c \<longrightarrow> the_conn b c = empty_connection) \<and>
     (\<forall>t. q_unacked (the_queue b t) = int (tally b t)) \<and> (\<forall>t. br_fresh b \<le> t \<longrightarrow> the_queue b t = empty_queue [])"

definition consumer_ok :: "broker \<Rightarrow> consumer \<Rightarrow> bool" where
  "consumer_ok b k \<longleftrightarrow> cs_owner k < br_open b \<and> cs_queue k < br_fresh b"

definition shape_ok :: "broker \<Rightarrow> bool" where
  "shape_ok b \<longleftrightarrow> keys_distinct (br_queues b) \<and>
     (\<forall>n t. map_of (br_queues b) n = Some t \<longrightarrow> t < br_fresh b \<and> q_name (the_queue b t) = n) \<and>
     (\<forall>t k. k \<in> set (q_consumers (the_queue b t)) \<longrightarrow> cs_queue k = t \<and> consumer_ok b k) \<and>
     (\<forall>c tag k. map_of (cn_consumers (the_conn b c)) tag = Some k \<longrightarrow> cs_tag k = tag \<and> consumer_ok b k) \<and>
     (\<forall>n e bd. map_of (br_exchanges b) n = Some e \<longrightarrow> bd \<in> set (ex_bindings e) \<longrightarrow> bi_target bd < br_fresh b)"

definition broker_ok :: "broker \<Rightarrow> bool" where
  "broker_ok b \<longleftrightarrow> books_ok b \<and> shape_ok b"

section \<open>Where the messages are\<close>

definition waiting :: "broker \<Rightarrow> Message multiset" where
  "waiting b = (\<Sum>t<br_fresh b. mset (map pe_message (q_ready (the_queue b t))))"

definition holding :: "broker \<Rightarrow> Message multiset" where
  "holding b = (\<Sum>c<br_open b. mset (map (\<lambda>(tag, h). h_message h) (cn_held (the_conn b c))))"

definition fired_off :: "broker \<Rightarrow> Message multiset" where
  "fired_off b = (\<Sum>c<br_open b. mset (map d_Message (filter d_NoAck (cn_sink (the_conn b c)))))"

text \<open>Every message the broker answers for: waiting, held by a client, or pushed to one that never settles.\<close>

definition inventory :: "broker \<Rightarrow> Message multiset" where
  "inventory b = waiting b + holding b + fired_off b"

section \<open>The primitives\<close>

lemma store_simps [simp]:
  "br_store (set_queue t q b) = (br_store b)(t := q)" "br_conns (set_queue t q b) = br_conns b"
  "br_queues (set_queue t q b) = br_queues b" "br_exchanges (set_queue t q b) = br_exchanges b"
  "br_fresh (set_queue t q b) = br_fresh b" "br_open (set_queue t q b) = br_open b"
  "br_conns (set_conn c x b) = (br_conns b)(c := x)" "br_store (set_conn c x b) = br_store b"
  "br_queues (set_conn c x b) = br_queues b" "br_exchanges (set_conn c x b) = br_exchanges b"
  "br_fresh (set_conn c x b) = br_fresh b" "br_open (set_conn c x b) = br_open b"
  by (simp_all add: set_queue_def set_conn_def)

lemma waiting_set_queue:
  "t < br_fresh b \<Longrightarrow> waiting (set_queue t q b) + mset (map pe_message (q_ready (the_queue b t))) =
     waiting b + mset (map pe_message (q_ready q))"
  unfolding waiting_def store_simps by (rule sum_upd [where f = "\<lambda>q. mset (map pe_message (q_ready q))"])

lemma holding_set_conn:
  "c < br_open b \<Longrightarrow> holding (set_conn c x b) + mset (map (\<lambda>(tag, h). h_message h) (cn_held (the_conn b c))) =
     holding b + mset (map (\<lambda>(tag, h). h_message h) (cn_held x))"
  unfolding holding_def store_simps by (rule sum_upd [where f = "\<lambda>x. mset (map (\<lambda>(tag, h). h_message h) (cn_held x))"])

lemma fired_off_set_conn:
  "c < br_open b \<Longrightarrow> fired_off (set_conn c x b) + mset (map d_Message (filter d_NoAck (cn_sink (the_conn b c)))) =
     fired_off b + mset (map d_Message (filter d_NoAck (cn_sink x)))"
  unfolding fired_off_def store_simps by (rule sum_upd [where f = "\<lambda>x. mset (map d_Message (filter d_NoAck (cn_sink x)))"])

lemma tally_set_conn:
  "c < br_open b \<Longrightarrow> tally (set_conn c x b) t + on_queue t (cn_held (the_conn b c)) = tally b t + on_queue t (cn_held x)"
  unfolding tally_def store_simps by (rule sum_upd [where f = "\<lambda>x. on_queue t (cn_held x)"])

lemma unchanged_by_queue [simp]:
  "holding (set_queue t q b) = holding b" "fired_off (set_queue t q b) = fired_off b" "tally (set_queue t q b) = tally b"
  "waiting (set_conn c x b) = waiting b"
  by (simp_all add: holding_def fired_off_def tally_def waiting_def fun_eq_iff)

text \<open>Changing a queue's waiting messages, its turn or its consumers leaves the books alone.\<close>

lemma books_set_queue:
  assumes "books_ok b" "t < br_fresh b" "q_unacked q = q_unacked (the_queue b t)"
  shows "books_ok (set_queue t q b)"
  using assms by (auto simp: books_ok_def)

lemma shape_set_queue:
  assumes "shape_ok b" "q_name q = q_name (the_queue b t)"
    "\<And>k. k \<in> set (q_consumers q) \<Longrightarrow> cs_queue k = t \<and> consumer_ok b k"
  shows "shape_ok (set_queue t q b)"
  using assms by (auto simp: shape_ok_def consumer_ok_def split: if_splits)

lemma shape_set_conn:
  assumes "shape_ok b" "\<And>tag k. map_of (cn_consumers x) tag = Some k \<Longrightarrow> cs_tag k = tag \<and> consumer_ok b k"
  shows "shape_ok (set_conn c x b)"
  using assms by (auto simp: shape_ok_def consumer_ok_def)

lemma shape_consumers:
  "shape_ok b \<Longrightarrow> k \<in> set (q_consumers (the_queue b t)) \<Longrightarrow> cs_queue k = t \<and> consumer_ok b k"
  "shape_ok b \<Longrightarrow> map_of (cn_consumers (the_conn b c)) tag = Some k \<Longrightarrow> cs_tag k = tag \<and> consumer_ok b k"
  by (auto simp: shape_ok_def)

lemma alist_update_fresh: "k \<notin> set (map fst m) \<Longrightarrow> AList.update k v m = m @ [(k, v)]"
  by (induction m) auto

lemma nextTag_fresh: "held_ok fresh x \<Longrightarrow> Suc (cn_nextTag x) \<notin> set (map fst (cn_held x))"
  by (force simp: held_ok_def)

text \<open>What most operations keep: which queues and connections there are, and the sinks.\<close>

definition same_frame :: "broker \<Rightarrow> broker \<Rightarrow> bool" where
  "same_frame b b' \<longleftrightarrow> br_fresh b' = br_fresh b \<and> br_open b' = br_open b"

lemma same_frame_refl [simp]: "same_frame b b" "same_frame b (set_queue t q b)" "same_frame b (set_conn c x b)"
  by (simp_all add: same_frame_def)

lemma same_frame_trans: "same_frame a b \<Longrightarrow> same_frame b c \<Longrightarrow> same_frame a c"
  by (simp add: same_frame_def)

lemma hold_message_eq:
  assumes "held_ok fresh (the_conn b c)"
  shows "hold_message c t m ch noAck b =
    (let x = the_conn b c; tag = Suc (cn_nextTag x)
     in (tag, if noAck then set_conn c (x\<lparr>cn_nextTag := tag\<rparr>) b
              else set_queue t ((the_queue b t)\<lparr>q_unacked := q_unacked (the_queue b t) + 1\<rparr>)
                (set_conn c (x\<lparr>cn_nextTag := tag, cn_held := cn_held x @ [(tag, \<lparr>h_queue = t, h_message = m, h_channel = ch\<rparr>)],
                   cn_outstanding := (cn_outstanding x)(ch := cn_outstanding x ch + 1)\<rparr>) b)))"
  using alist_update_fresh [OF nextTag_fresh [OF assms]] by (simp add: hold_message_def Let_def)

lemma held_ok_hold:
  assumes "held_ok fresh x" "t < fresh"
  shows "held_ok fresh (x\<lparr>cn_nextTag := Suc (cn_nextTag x), cn_held := cn_held x @ [(Suc (cn_nextTag x), \<lparr>h_queue = t, h_message = m, h_channel = ch\<rparr>)],
    cn_outstanding := (cn_outstanding x)(ch := cn_outstanding x ch + 1)\<rparr>)"
  using assms nextTag_fresh [OF assms(1)] by (auto simp: held_ok_def on_channel_def)

lemma hold_message_ok:
  assumes b: "broker_ok b" and c: "c < br_open b" and t: "t < br_fresh b"
  shows "broker_ok (snd (hold_message c t m ch noAck b)) \<and> same_frame b (snd (hold_message c t m ch noAck b)) \<and>
    inventory (snd (hold_message c t m ch noAck b)) = inventory b + (if noAck then {#} else {#m#})"
proof -
  let ?x = "the_conn b c"
  have x: "held_ok (br_fresh b) ?x" using b by (simp add: broker_ok_def books_ok_def)
  note eq = hold_message_eq [OF x, of t m ch]
  have cons: "\<And>tag k. map_of (cn_consumers ?x) tag = Some k \<Longrightarrow> cs_tag k = tag \<and> consumer_ok b k"
    using b shape_consumers(2) by (auto simp: broker_ok_def)
  show ?thesis
  proof (cases noAck)
    case True
    let ?y = "?x\<lparr>cn_nextTag := Suc (cn_nextTag ?x)\<rparr>"
    have y: "held_ok (br_fresh b) ?y" using x by (force simp: held_ok_def)
    have tl: "tally (set_conn c ?y b) = tally b" using tally_set_conn [OF c, of ?y] by (simp add: fun_eq_iff)
    have "books_ok (set_conn c ?y b)" using b y c by (auto simp: broker_ok_def books_ok_def tl)
    moreover have "shape_ok (set_conn c ?y b)" using b cons by (intro shape_set_conn) (auto simp: broker_ok_def)
    moreover have "inventory (set_conn c ?y b) = inventory b"
      using holding_set_conn [OF c, of ?y] fired_off_set_conn [OF c, of ?y] by (simp add: inventory_def)
    ultimately show ?thesis using True by (simp add: eq broker_ok_def Let_def)
  next
    case False
    let ?y = "?x\<lparr>cn_nextTag := Suc (cn_nextTag ?x), cn_held := cn_held ?x @ [(Suc (cn_nextTag ?x), \<lparr>h_queue = t, h_message = m, h_channel = ch\<rparr>)],
      cn_outstanding := (cn_outstanding ?x)(ch := cn_outstanding ?x ch + 1)\<rparr>"
    let ?q = "(the_queue b t)\<lparr>q_unacked := q_unacked (the_queue b t) + 1\<rparr>"
    let ?b = "set_queue t ?q (set_conn c ?y b)"
    have y: "held_ok (br_fresh b) ?y" by (rule held_ok_hold [OF x t])
    have tl: "tally (set_conn c ?y b) u = tally b u + (if u = t then 1 else 0)" for u
      using tally_set_conn [OF c, of ?y u] by (simp add: on_queue_def split: if_splits)
    have books: "books_ok ?b" using b y c t tl by (auto simp: broker_ok_def books_ok_def)
    have s1: "shape_ok (set_conn c ?y b)" using b cons by (intro shape_set_conn) (auto simp: broker_ok_def)
    have "shape_ok ?b"
      using shape_consumers(1) [OF s1, of _ t] by (intro shape_set_queue s1) simp_all
    moreover have "inventory ?b = inventory b + {#m#}"
    proof -
      have t': "t < br_fresh (set_conn c ?y b)" using t by simp
      have "waiting ?b = waiting b" using waiting_set_queue [OF t', of ?q] by simp
      moreover have "holding (set_conn c ?y b) = holding b + {#m#}" using holding_set_conn [OF c, of ?y] by simp
      moreover have "fired_off (set_conn c ?y b) = fired_off b" using fired_off_set_conn [OF c, of ?y] by simp
      ultimately show ?thesis by (simp add: inventory_def)
    qed
    ultimately show ?thesis using False books by (simp add: eq broker_ok_def Let_def same_frame_def)
  qed
qed

lemma Deliver_ok:
  assumes b: "broker_ok b" and c: "c < br_open b"
  shows "broker_ok (Deliver c d b) \<and> same_frame b (Deliver c d b) \<and>
    inventory (Deliver c d b) = inventory b + (if d_NoAck d then {#d_Message d#} else {#})"
proof -
  let ?x = "the_conn b c" let ?y = "?x\<lparr>cn_sink := cn_sink ?x @ [d]\<rparr>"
  have y: "held_ok (br_fresh b) ?y" using b by (simp add: broker_ok_def books_ok_def held_ok_def)
  have tl: "tally (set_conn c ?y b) = tally b" using tally_set_conn [OF c, of ?y] by (simp add: fun_eq_iff)
  have "books_ok (set_conn c ?y b)" using b y c by (auto simp: broker_ok_def books_ok_def tl)
  moreover have "shape_ok (set_conn c ?y b)"
    using b shape_consumers(2) by (intro shape_set_conn) (auto simp: broker_ok_def)
  moreover have "holding (set_conn c ?y b) = holding b" using holding_set_conn [OF c, of ?y] by simp
  moreover have "fired_off (set_conn c ?y b) = fired_off b + (if d_NoAck d then {#d_Message d#} else {#})"
    using fired_off_set_conn [OF c, of ?y] by (simp split: if_splits)
  ultimately show ?thesis by (simp add: Deliver_def broker_ok_def inventory_def)
qed

lemma push_message_ok:
  assumes b: "broker_ok b" and k: "consumer_ok b k"
  shows "broker_ok (push_message k w b) \<and> same_frame b (push_message k w b) \<and>
    inventory (push_message k w b) = inventory b + {#pe_message w#}"
proof -
  obtain tag b1 where h: "hold_message (cs_owner k) (cs_queue k) (pe_message w) (cs_channel k) (cs_noAck k) b = (tag, b1)" by force
  have h1: "broker_ok b1" "same_frame b b1" "inventory b1 = inventory b + (if cs_noAck k then {#} else {#pe_message w#})"
    using hold_message_ok [OF b, of "cs_owner k" "cs_queue k" "pe_message w" "cs_channel k" "cs_noAck k"] k h
    by (simp_all add: consumer_ok_def)
  have "cs_owner k < br_open b1" using h1(2) k by (simp add: same_frame_def consumer_ok_def)
  from Deliver_ok [OF h1(1) this] h1 show ?thesis by (auto simp: push_message_def h intro: same_frame_trans)
qed

lemma next_loop_spec:
  assumes "next_loop room n q = (r, q')" "n = 0 \<or> q_consumers q \<noteq> []"
  shows "\<exists>turn. q' = q\<lparr>q_turn := turn\<rparr>" "r = Some k \<Longrightarrow> k \<in> set (q_consumers q) \<and> room k"
proof -
  have "(\<exists>turn. q' = q\<lparr>q_turn := turn\<rparr>) \<and> (\<forall>k. r = Some k \<longrightarrow> k \<in> set (q_consumers q) \<and> room k)"
    using assms
  proof (induction n arbitrary: q)
    case (Suc n)
    have "q_turn q mod length (q_consumers q) < length (q_consumers q)" using Suc.prems(2) by simp
    then have k: "q_consumers q ! (q_turn q mod length (q_consumers q)) \<in> set (q_consumers q)" by (rule nth_mem)
    let ?q = "q\<lparr>q_turn := (q_turn q + 1) mod length (q_consumers q)\<rparr>"
    show ?case
    proof (cases "room (q_consumers q ! (q_turn q mod length (q_consumers q)))")
      case True
      with Suc.prems k show ?thesis by (auto simp: Let_def)
    next
      case False
      with Suc.prems have "next_loop room n ?q = (r, q')" by (simp add: Let_def)
      from Suc.IH [OF this] Suc.prems(2) show ?thesis by auto
    qed
  next
    case 0
    then show ?case by (simp, intro exI [of _ "q_turn q"]) simp
  qed
  then show "\<exists>turn. q' = q\<lparr>q_turn := turn\<rparr>" "r = Some k \<Longrightarrow> k \<in> set (q_consumers q) \<and> room k" by blast+
qed

lemma next_consumer_spec:
  assumes "next_consumer b q = (r, q')"
  shows "\<exists>turn. q' = q\<lparr>q_turn := turn\<rparr>"
    "r = Some k \<Longrightarrow> k \<in> set (q_consumers q) \<and> hasRoom (the_conn b (cs_owner k)) (cs_channel k)"
  using next_loop_spec [OF assms [unfolded next_consumer_def]] by auto

text \<open>A queue with other waiting messages or another turn.\<close>

lemma take_ready_ok:
  assumes b: "broker_ok b" and t: "t < br_fresh b" and q: "q = (the_queue b t)\<lparr>q_turn := turn, q_ready := ready\<rparr>"
  shows "broker_ok (set_queue t q b) \<and> same_frame b (set_queue t q b) \<and>
    inventory (set_queue t q b) + mset (map pe_message (q_ready (the_queue b t))) = inventory b + mset (map pe_message ready)"
proof -
  have "books_ok (set_queue t q b)" using b t by (intro books_set_queue) (auto simp: broker_ok_def q)
  moreover have "shape_ok (set_queue t q b)"
    using b shape_consumers(1) by (intro shape_set_queue) (auto simp: broker_ok_def q)
  ultimately show ?thesis using waiting_set_queue [OF t, of q] by (simp add: broker_ok_def inventory_def q add_ac)
qed

lemma unknown_queue_empty: "broker_ok b \<Longrightarrow> br_fresh b \<le> t \<Longrightarrow> the_queue b t = empty_queue []"
  by (simp add: broker_ok_def books_ok_def)

lemma dispatch_ok:
  "broker_ok b \<Longrightarrow> broker_ok (dispatch t b) \<and> same_frame b (dispatch t b) \<and> inventory (dispatch t b) = inventory b"
proof (induction t b rule: dispatch.induct)
  case (1 t b)
  show ?case
  proof (cases "q_ready (the_queue b t)")
    case Nil
    then show ?thesis using "1.prems" by (subst (1 2 3) dispatch.simps) simp
  next
    case (Cons w rest)
    have t: "t < br_fresh b"
      using Cons unknown_queue_empty [OF "1.prems", of t] by (cases "t < br_fresh b") (auto simp: empty_queue_def)
    obtain r q where n: "next_consumer b (the_queue b t) = (r, q)" by force
    obtain turn where q: "q = (the_queue b t)\<lparr>q_turn := turn\<rparr>" using next_consumer_spec(1) [OF n] by blast
    show ?thesis
    proof (cases r)
      case None
      have "dispatch t b = set_queue t q b" by (subst dispatch.simps) (simp add: Cons n None)
      moreover have e: "q = (the_queue b t)\<lparr>q_turn := turn, q_ready := q_ready (the_queue b t)\<rparr>" by (simp add: q)
      ultimately show ?thesis using take_ready_ok [OF "1.prems" t e] by simp
    next
      case (Some k)
      let ?b1 = "set_queue t (q\<lparr>q_ready := rest\<rparr>) b"
      have b1: "broker_ok ?b1" "inventory ?b1 + mset (map pe_message (w # rest)) = inventory b + mset (map pe_message rest)"
        using take_ready_ok [OF "1.prems" t, of "q\<lparr>q_ready := rest\<rparr>" rest turn] Cons by (simp_all add: q)
      have k: "consumer_ok ?b1 k"
        using next_consumer_spec(2) [OF n Some] "1.prems" shape_consumers(1) by (auto simp: broker_ok_def consumer_ok_def)
      note p = push_message_ok [OF b1(1) k, of w]
      have "dispatch t b = dispatch t (push_message k w ?b1)" by (subst dispatch.simps) (simp add: Cons n Some)
      moreover have "inventory (push_message k w ?b1) = inventory b" using p b1(2) by simp
      moreover have "same_frame b (push_message k w ?b1)" using p by (simp add: same_frame_def)
      ultimately show ?thesis using "1.IH" [OF Cons n [symmetric] Some] p by (auto simp: same_frame_def)
    qed
  qed
qed

lemma dispatch_all_ok:
  "broker_ok b \<Longrightarrow> broker_ok (dispatch_all ts b) \<and> same_frame b (dispatch_all ts b) \<and> inventory (dispatch_all ts b) = inventory b"
proof (induction ts arbitrary: b)
  case (Cons t ts)
  note d = dispatch_ok [OF Cons.prems, of t]
  with Cons.IH [of "dispatch t b"] show ?case by (auto simp: same_frame_def)
qed simp

section \<open>Giving deliveries back\<close>

lemma mset_delete: "keys_distinct m \<Longrightarrow> map_of m k = Some v \<Longrightarrow> mset m = add_mset (k, v) (mset (AList.delete k m))"
proof (induction m)
  case (Cons a m)
  show ?case
  proof (cases "fst a = k")
    case True
    then have "AList.delete k m = m" using Cons.prems(1) by (intro delete_id) auto
    with True Cons.prems(2) show ?thesis by (cases a) simp
  qed (use Cons in \<open>auto simp: AList.delete_eq\<close>)
qed simp

lemma counts_delete:
  assumes "keys_distinct m" "map_of m k = Some v"
  shows "length (filter P m) = length (filter P (AList.delete k m)) + (if P (k, v) then 1 else 0)"
    "mset (map f m) = add_mset (f (k, v)) (mset (map f (AList.delete k m)))"
proof -
  have "size (filter_mset P (mset m)) = size (filter_mset P (mset (AList.delete k m))) + (if P (k, v) then 1 else 0)"
    by (simp add: mset_delete [OF assms])
  then show "length (filter P m) = length (filter P (AList.delete k m)) + (if P (k, v) then 1 else 0)"
    by (metis mset_filter size_mset)
  show "mset (map f m) = add_mset (f (k, v)) (mset (map f (AList.delete k m)))"
    by (simp add: mset_delete [OF assms])
qed

lemma held_ok_give:
  assumes x: "held_ok fresh x" and h: "map_of (cn_held x) tag = Some h"
  shows "held_ok fresh (x\<lparr>cn_held := AList.delete tag (cn_held x),
    cn_outstanding := (cn_outstanding x)(h_channel h := cn_outstanding x (h_channel h) - 1)\<rparr>)"
proof -
  have d: "keys_distinct (cn_held x)" using x by (simp add: held_ok_def)
  have "int (on_channel ch (cn_held x)) = int (on_channel ch (AList.delete tag (cn_held x))) + (if h_channel h = ch then 1 else 0)" for ch
    unfolding on_channel_def counts_delete(1) [OF d h, of "\<lambda>(tag, h). h_channel h = ch"] by simp
  moreover have "set (AList.delete tag (cn_held x)) \<subseteq> set (cn_held x)" by (auto simp: AList.delete_eq)
  ultimately show ?thesis using x d by (auto simp: held_ok_def)
qed

lemma give_ok:
  assumes b: "broker_ok b" and h: "map_of (cn_held (the_conn b c)) tag = Some h"
  obtains b' where "give c tag again b = Some (h_queue h, b')" "broker_ok b'" "same_frame b b'"
    "inventory b' + (if again then {#} else {#h_message h#}) = inventory b"
    "cn_held (the_conn b' c) = AList.delete tag (cn_held (the_conn b c))"
proof -
  let ?x = "the_conn b c"
  let ?y = "?x\<lparr>cn_held := AList.delete tag (cn_held ?x),
    cn_outstanding := (cn_outstanding ?x)(h_channel h := cn_outstanding ?x (h_channel h) - 1)\<rparr>"
  let ?t = "h_queue h"
  let ?q0 = "(the_queue b ?t)\<lparr>q_unacked := q_unacked (the_queue b ?t) - 1\<rparr>"
  let ?q = "if again then requeue (h_message h) ?q0 else ?q0"
  let ?b = "set_queue ?t ?q (set_conn c ?y b)"
  have x: "held_ok (br_fresh b) ?x" using b by (simp add: broker_ok_def books_ok_def)
  then have d: "keys_distinct (cn_held ?x)" by (simp add: held_ok_def)
  have c: "c < br_open b"
    using h b by (cases "c < br_open b") (auto simp: broker_ok_def books_ok_def empty_connection_def)
  have t: "?t < br_fresh b" using x map_of_SomeD [OF h] by (auto simp: held_ok_def)
  have y: "held_ok (br_fresh b) ?y" by (rule held_ok_give [OF x h])
  have tl: "tally (set_conn c ?y b) u + (if u = ?t then 1 else 0) = tally b u" for u
    using tally_set_conn [OF c, of ?y u] counts_delete(1) [OF d h, of "\<lambda>(tag, h). h_queue h = u"]
    by (auto simp: on_queue_def split: if_splits)
  have "q_unacked (the_queue ?b u) = int (tally ?b u)" for u
    using b tl [of u] by (auto simp: broker_ok_def books_ok_def requeue_def split: if_splits)
  then have books: "books_ok ?b" using b y c t by (auto simp: broker_ok_def books_ok_def)
  have s1: "shape_ok (set_conn c ?y b)"
    using b shape_consumers(2) by (intro shape_set_conn) (auto simp: broker_ok_def)
  have shape: "shape_ok ?b"
    using shape_consumers(1) [OF s1, of _ ?t] by (intro shape_set_queue s1) (auto simp: requeue_def split: if_splits)
  have t': "?t < br_fresh (set_conn c ?y b)" using t by simp
  have "waiting ?b = waiting b + (if again then {#h_message h#} else {#})"
    using waiting_set_queue [OF t', of ?q] by (auto simp: requeue_def split: if_splits)
  moreover have "holding (set_conn c ?y b) + {#h_message h#} = holding b"
    using holding_set_conn [OF c, of ?y] counts_delete(2) [OF d h, of "\<lambda>(tag, h). h_message h"] by simp
  moreover have "fired_off (set_conn c ?y b) = fired_off b" using fired_off_set_conn [OF c, of ?y] by simp
  ultimately have "inventory ?b + (if again then {#} else {#h_message h#}) = inventory b"
    by (auto simp: inventory_def split: if_splits)
  then show ?thesis using that [of ?b] books shape h by (simp add: give_def Let_def broker_ok_def same_frame_def)
qed

end
