(* ===== verification/QueueBooks.thy ===== *)
theory QueueBooks
  imports QueueSafety
begin

text \<open>
  Every operation of a connection keeps the books and accounts for every message: what an operation brings
  into the broker and what it takes out are functions of the request, and the inventory changes by
  exactly that. Nothing is lost when a worker dies, and no operation can panic.
\<close>

section \<open>Deliveries stay held until settled\<close>

lemma hold_keeps_held:
  assumes "held_ok fresh (the_conn b c')" "map_of (cn_held (the_conn b c)) tag = Some h"
  shows "map_of (cn_held (the_conn (snd (hold_message c' t m ch noAck b)) c)) tag = Some h"
  using assms nextTag_fresh [OF assms(1)] weak_map_of_SomeI
  by (auto simp: hold_message_eq [OF assms(1)] Let_def map_add_def)

lemma push_keeps_held:
  assumes "broker_ok b" "map_of (cn_held (the_conn b c)) tag = Some h"
  shows "map_of (cn_held (the_conn (push_message k w b) c)) tag = Some h"
proof -
  have x: "held_ok (br_fresh b) (the_conn b (cs_owner k))" using assms(1) by (simp add: broker_ok_def books_ok_def)
  show ?thesis using hold_keeps_held [OF x assms(2), of "cs_queue k" "pe_message w" "cs_channel k" "cs_noAck k"]
    by (auto simp: push_message_def Deliver_def split_beta)
qed

lemma dispatch_keeps_held:
  "broker_ok b \<Longrightarrow> map_of (cn_held (the_conn b c)) tag = Some h \<Longrightarrow> map_of (cn_held (the_conn (dispatch t b) c)) tag = Some h"
proof (induction t b rule: dispatch.induct)
  case (1 t b)
  show ?case
  proof (cases "q_ready (the_queue b t)")
    case Nil
    then show ?thesis using "1.prems" by (subst dispatch.simps) simp
  next
    case (Cons w rest)
    have t: "t < br_fresh b"
      using Cons unknown_queue_empty [OF "1.prems"(1), of t] by (cases "t < br_fresh b") (auto simp: empty_queue_def)
    obtain r q where n: "next_consumer b (the_queue b t) = (r, q)" by force
    obtain turn where q: "q = (the_queue b t)\<lparr>q_turn := turn\<rparr>" using next_consumer_spec(1) [OF n] by blast
    show ?thesis
    proof (cases r)
      case None
      then show ?thesis using "1.prems" by (subst dispatch.simps) (simp add: Cons n)
    next
      case (Some k)
      let ?b1 = "set_queue t (q\<lparr>q_ready := rest\<rparr>) b"
      have b1: "broker_ok ?b1" using take_ready_ok [OF "1.prems"(1) t, of "q\<lparr>q_ready := rest\<rparr>" rest turn] by (simp add: q)
      have k: "consumer_ok ?b1 k"
        using next_consumer_spec(2) [OF n Some] "1.prems"(1) shape_consumers(1) by (auto simp: broker_ok_def consumer_ok_def)
      have "map_of (cn_held (the_conn (push_message k w ?b1) c)) tag = Some h"
        using "1.prems"(2) by (intro push_keeps_held b1) simp
      then show ?thesis using "1.IH" [OF Cons n [symmetric] Some] push_message_ok [OF b1 k, of w]
        by (subst dispatch.simps) (simp add: Cons n Some)
    qed
  qed
qed

section \<open>Settling\<close>

definition messages_of :: "connection \<Rightarrow> nat list \<Rightarrow> Message multiset" where
  "messages_of x tags = mset (map (\<lambda>tag. h_message (the (map_of (cn_held x) tag))) tags)"

lemma settle_loop_ok:
  assumes "broker_ok b" "distinct tags" "\<And>tag. tag \<in> set tags \<Longrightarrow> map_of (cn_held (the_conn b c)) tag \<noteq> None"
  shows "\<exists>final' b'. settle_loop c again tags final b = Some (final', b') \<and> broker_ok b' \<and> same_frame b b' \<and>
    inventory b' + (if again then {#} else messages_of (the_conn b c) tags) = inventory b"
  using assms
proof (induction tags arbitrary: b final)
  case (Cons tag tags)
  obtain h where h: "map_of (cn_held (the_conn b c)) tag = Some h" using Cons.prems(3) by fastforce
  obtain b1 where g: "give c tag again b = Some (h_queue h, b1)" "broker_ok b1" "same_frame b b1"
    "inventory b1 + (if again then {#} else {#h_message h#}) = inventory b"
    "cn_held (the_conn b1 c) = AList.delete tag (cn_held (the_conn b c))"
    by (rule give_ok [OF Cons.prems(1) h])
  let ?b2 = "dispatch (h_queue h) b1"
  note d = dispatch_ok [OF g(2), of "h_queue h"]
  have keep: "map_of (cn_held (the_conn ?b2 c)) t' = map_of (cn_held (the_conn b c)) t'" if "t' \<in> set tags" for t'
  proof -
    have ne: "t' \<noteq> tag" using that Cons.prems(2) by auto
    obtain h' where h': "map_of (cn_held (the_conn b c)) t' = Some h'"
      using Cons.prems(3) [of t'] \<open>t' \<in> set tags\<close> by auto
    with ne g(5) have "map_of (cn_held (the_conn b1 c)) t' = Some h'" by simp
    from dispatch_keeps_held [OF g(2) this] h' show ?thesis by simp
  qed
  have "\<exists>final' b'. settle_loop c again tags (Some (h_queue h)) ?b2 = Some (final', b') \<and> broker_ok b' \<and> same_frame ?b2 b' \<and>
      inventory b' + (if again then {#} else messages_of (the_conn ?b2 c) tags) = inventory ?b2"
    using Cons.prems d keep by (intro Cons.IH) auto
  moreover have "messages_of (the_conn ?b2 c) tags = messages_of (the_conn b c) tags"
    unfolding messages_of_def using keep by (intro arg_cong [where f = mset] map_cong) simp_all
  moreover have "messages_of (the_conn b c) (tag # tags) = add_mset (h_message h) (messages_of (the_conn b c) tags)"
    by (simp add: messages_of_def h)
  ultimately show ?case using g(1,3,4) d by (auto simp: same_frame_def split: if_splits)
qed (simp add: messages_of_def)

lemma selected_held:
  assumes "held_ok fresh x" "selected x tag channel multiple = Inr tags"
  shows "distinct tags \<and> (\<forall>t \<in> set tags. map_of (cn_held x) t \<noteq> None)"
proof (cases multiple)
  case True
  have d: "keys_distinct (cn_held x)" using assms(1) by (simp add: held_ok_def)
  then have "keys_distinct (filter P (cn_held x))" for P by (rule distinct_map_filter)
  then show ?thesis using True assms(2) d by (auto simp: selected_def map_of_eq_None_iff)
qed (use assms(2) in \<open>auto simp: selected_def split: if_splits\<close>)

text \<open>The messages a settlement finishes with.\<close>

definition settled :: "connection \<Rightarrow> nat \<Rightarrow> nat \<Rightarrow> bool \<Rightarrow> Message multiset" where
  "settled x tag channel multiple =
     (case selected x tag channel multiple of Inl _ \<Rightarrow> {#} | Inr tags \<Rightarrow> messages_of x tags)"

text \<open>Keeping the books and accounting for messages.\<close>

definition accounts :: "broker \<Rightarrow> Message multiset \<Rightarrow> Message multiset \<Rightarrow> queue_result \<times> broker \<Rightarrow> bool" where
  "accounts b outgo income r \<longleftrightarrow> \<not> is_panic (fst r) \<and> broker_ok (snd r) \<and> br_open (snd r) = br_open b \<and>
     inventory (snd r) + outgo = inventory b + income"

lemma settle_accounts:
  assumes "broker_ok b"
  shows "accounts b (if again then {#} else settled (the_conn b c) tag channel multiple) {#} (settle c tag channel multiple again b)"
proof (cases "selected (the_conn b c) tag channel multiple")
  case (Inr tags)
  have "held_ok (br_fresh b) (the_conn b c)" using assms by (simp add: broker_ok_def books_ok_def)
  from selected_held [OF this Inr] settle_loop_ok [OF assms, of tags c again None] Inr show ?thesis
    by (auto simp: settle_def settled_def accounts_def same_frame_def)
qed (use assms in \<open>simp add: settle_def settled_def accounts_def\<close>)

section \<open>The other operations\<close>

lemma find_queue_fresh: "broker_ok b \<Longrightarrow> find_queue name b = Inr t \<Longrightarrow> t < br_fresh b"
  by (auto simp: find_queue_def broker_ok_def shape_ok_def split: option.splits)

lemma set_ready_ok:
  assumes "broker_ok b" "t < br_fresh b"
  shows "broker_ok (set_queue t ((the_queue b t)\<lparr>q_ready := ready\<rparr>) b)"
    "inventory (set_queue t ((the_queue b t)\<lparr>q_ready := ready\<rparr>) b) + mset (map pe_message (q_ready (the_queue b t))) =
       inventory b + mset (map pe_message ready)"
  using take_ready_ok [OF assms, of "(the_queue b t)\<lparr>q_ready := ready\<rparr>" ready "q_turn (the_queue b t)"] by simp_all

lemma get_accounts:
  assumes b: "broker_ok b" and c: "c < br_open b"
  shows "accounts b (case find_queue name b of
        Inr t \<Rightarrow> if noAck then mset (map pe_message (take 1 (q_ready (the_queue b t)))) else {#} | Inl _ \<Rightarrow> {#}) {#}
    (get_op c name channel noAck b)"
proof (cases "find_queue name b")
  case (Inr t)
  note t = find_queue_fresh [OF b Inr]
  show ?thesis
  proof (cases "q_ready (the_queue b t)")
    case (Cons w rest)
    let ?b1 = "set_queue t ((the_queue b t)\<lparr>q_ready := rest\<rparr>) b"
    have b1: "broker_ok ?b1" "inventory ?b1 + {#pe_message w#} = inventory b"
      using set_ready_ok [OF b t, of rest] Cons by simp_all
    have "c < br_open ?b1" "t < br_fresh ?b1" using c t by simp_all
    from hold_message_ok [OF b1(1) this, of "pe_message w" channel noAck] b1(2) Cons Inr show ?thesis
      by (auto simp: get_op_def accounts_def split_beta same_frame_def)
  qed (use Inr b in \<open>simp add: get_op_def accounts_def\<close>)
qed (use b in \<open>simp add: get_op_def accounts_def\<close>)

lemma purge_accounts:
  assumes b: "broker_ok b"
  shows "accounts b (case find_queue name b of Inr t \<Rightarrow> mset (map pe_message (q_ready (the_queue b t))) | Inl _ \<Rightarrow> {#}) {#} (purge_op name b)"
proof (cases "find_queue name b")
  case (Inr t)
  from set_ready_ok [OF b find_queue_fresh [OF b Inr], of "[]"] Inr show ?thesis
    by (simp add: purge_op_def accounts_def Let_def)
qed (use b in \<open>simp add: purge_op_def accounts_def\<close>)

lemma enqueue_all_ok:
  assumes "broker_ok b" "\<And>t. t \<in> set ts \<Longrightarrow> t < br_fresh b"
  shows "broker_ok (enqueue_all m ts b) \<and> same_frame b (enqueue_all m ts b) \<and>
    inventory (enqueue_all m ts b) = inventory b + replicate_mset (length ts) m"
  using assms
proof (induction ts arbitrary: b)
  case (Cons t ts)
  let ?b1 = "set_queue t ((the_queue b t)\<lparr>q_ready := q_ready (the_queue b t) @ [\<lparr>pe_message = m, pe_redelivered = False\<rparr>]\<rparr>) b"
  have t: "t < br_fresh b" using Cons.prems(2) by simp
  have b1: "broker_ok ?b1" "inventory ?b1 = inventory b + {#m#}"
    using set_ready_ok [OF Cons.prems(1) t, of "q_ready (the_queue b t) @ [\<lparr>pe_message = m, pe_redelivered = False\<rparr>]"] by simp_all
  note d = dispatch_ok [OF b1(1), of t]
  have "\<And>t'. t' \<in> set ts \<Longrightarrow> t' < br_fresh (dispatch t ?b1)" using d Cons.prems(2) by (simp add: same_frame_def)
  from Cons.IH [OF _ this] d b1(2) show ?case by (simp add: same_frame_def)
qed simp

lemma destinations_fresh:
  assumes b: "broker_ok b" and t: "t \<in> set (destinations b name key)"
  shows "t < br_fresh b"
proof (cases "name = defaultExchange")
  case True
  with b t show ?thesis by (auto simp: destinations_def broker_ok_def shape_ok_def split: option.splits)
next
  case False
  with t obtain e where e: "map_of (br_exchanges b) name = Some e" "t \<in> set (reached_loop e key (ex_bindings e) [])"
    by (cases "map_of (br_exchanges b) name") (auto simp: destinations_def)
  then obtain bd where "bd \<in> set (ex_bindings e)" "bi_target bd = t"
    using reached_loop_eq [of "[]" e key "ex_bindings e"] by auto
  with b e(1) show ?thesis by (auto simp: broker_ok_def shape_ok_def)
qed

lemma publish_accounts:
  assumes b: "broker_ok b"
  shows "accounts b {#} (if hasExchange b (m_Exchange m)
      then replicate_mset (length (destinations b (m_Exchange m) (m_RoutingKey m))) m else {#}) (publish_op m b)"
  using enqueue_all_ok [OF b destinations_fresh [OF b], of "destinations b (m_Exchange m) (m_RoutingKey m)"] b
  by (simp add: publish_op_def publish_message_def accounts_def Let_def same_frame_def)

lemma qos_accounts:
  assumes b: "broker_ok b" and c: "c < br_open b"
  shows "accounts b {#} {#} (qos_op order c channel prefetch b)"
proof -
  let ?x = "(the_conn b c)\<lparr>cn_prefetch := (cn_prefetch (the_conn b c))(channel := prefetch)\<rparr>"
  have x: "held_ok (br_fresh b) ?x" using b by (simp add: broker_ok_def books_ok_def held_ok_def)
  have tl: "tally (set_conn c ?x b) = tally b" using tally_set_conn [OF c, of ?x] by (simp add: fun_eq_iff)
  have "books_ok (set_conn c ?x b)" using b x c by (auto simp: broker_ok_def books_ok_def tl)
  moreover have "shape_ok (set_conn c ?x b)" using b shape_consumers(2) by (intro shape_set_conn) (auto simp: broker_ok_def)
  ultimately have ok: "broker_ok (set_conn c ?x b)" by (simp add: broker_ok_def)
  moreover have "inventory (set_conn c ?x b) = inventory b"
    using holding_set_conn [OF c, of ?x] fired_off_set_conn [OF c, of ?x] by (simp add: inventory_def)
  ultimately show ?thesis
    using dispatch_all_ok [OF ok] by (auto simp: qos_op_def accounts_def Let_def same_frame_def)
qed

lemma new_queue_ok:
  assumes b: "broker_ok b" and name: "map_of (br_queues b) name = None"
    and b': "b' = (set_queue (br_fresh b) (empty_queue name) b)
       \<lparr>br_fresh := Suc (br_fresh b), br_queues := AList.update name (br_fresh b) (br_queues b)\<rparr>"
  shows "broker_ok b'" "inventory b' = inventory b" "br_open b' = br_open b"
proof -
  let ?f = "br_fresh b"
  have old: "the_queue b ?f = empty_queue []" by (rule unknown_queue_empty [OF b order_refl])
  have fields: "br_conns b' = br_conns b" "br_store b' = (br_store b)(?f := empty_queue name)" "br_fresh b' = Suc ?f"
    "br_exchanges b' = br_exchanges b" "br_open b' = br_open b" "br_queues b' = AList.update name ?f (br_queues b)"
    by (simp_all add: b' set_queue_def)
  have held: "held_ok (Suc ?f) (the_conn b c)" for c
    using b by (fastforce simp: broker_ok_def books_ok_def held_ok_def)
  have tl: "tally b' = tally b" by (simp add: tally_def fields fun_eq_iff)
  have "q_unacked (the_queue b' t) = int (tally b' t)" for t
    using b old by (auto simp: tl fields broker_ok_def books_ok_def empty_queue_def dest: spec [of _ ?f])
  then have books: "books_ok b'" using b held by (auto simp: fields broker_ok_def books_ok_def)
  have "shape_ok b'"
  proof -
    have cons: "consumer_ok b' k" if "consumer_ok b k" for k using that by (simp add: consumer_ok_def fields)
    have "t < Suc ?f \<and> q_name (the_queue b' t) = n" if "map_of (br_queues b') n = Some t" for n t
      using that b by (auto simp: fields broker_ok_def shape_ok_def empty_queue_def split: if_splits intro: less_SucI)
    moreover have "cs_queue k = t \<and> consumer_ok b' k" if "k \<in> set (q_consumers (the_queue b' t))" for t k
      using that b cons by (auto simp: fields broker_ok_def shape_ok_def empty_queue_def split: if_splits)
    moreover have "bi_target bd < Suc ?f" if "map_of (br_exchanges b) n = Some e" "bd \<in> set (ex_bindings e)" for n e bd
      using that b by (auto simp: broker_ok_def shape_ok_def intro: less_SucI)
    ultimately show ?thesis using b cons by (simp add: shape_ok_def broker_ok_def fields)
  qed
  with books show "broker_ok b'" by (simp add: broker_ok_def)
  have "waiting b' = (\<Sum>t<?f. mset (map pe_message (q_ready (the_queue b' t))))"
    by (simp add: waiting_def fields empty_queue_def)
  also have "\<dots> = waiting b" unfolding waiting_def by (rule sum.cong) (simp_all add: fields)
  finally show "inventory b' = inventory b" by (simp add: inventory_def holding_def fired_off_def fields)
  show "br_open b' = br_open b" by (rule fields)
qed

lemma generated_ok [simp]: "broker_ok (b\<lparr>br_generated := n\<rparr>) = broker_ok b" "inventory (b\<lparr>br_generated := n\<rparr>) = inventory b"
  by (simp_all add: broker_ok_def books_ok_def shape_ok_def tally_def consumer_ok_def inventory_def waiting_def
      holding_def fired_off_def)

lemma declare_queue_ok:
  assumes b: "broker_ok b"
  shows "broker_ok (snd (declare_queue name passive b)) \<and> inventory (snd (declare_queue name passive b)) = inventory b \<and>
    br_open (snd (declare_queue name passive b)) = br_open b"
proof -
  have main: "broker_ok (snd r) \<and> inventory (snd r) = inventory b1 \<and> br_open (snd r) = br_open b1"
    if "broker_ok b1" and "r = (case map_of (br_queues b1) n of
                 Some existing \<Rightarrow> (Inr existing, b1)
               | None \<Rightarrow> (Inr (br_fresh b1), (set_queue (br_fresh b1) (empty_queue n) b1)
                     \<lparr>br_fresh := Suc (br_fresh b1), br_queues := AList.update n (br_fresh b1) (br_queues b1)\<rparr>))"
    for b1 n and r :: "(queue_failure + qid) \<times> broker"
    using that new_queue_ok [OF that(1) _ refl, of n] by (cases "map_of (br_queues b1) n") simp_all
  show ?thesis
  proof (cases "passive")
    case True
    with b show ?thesis by (simp add: declare_queue_def split: option.split)
  next
    case False
    define n b1 where nb: "n = (if name = [] then generatedQueuePrefix @ FormatInt (int (Suc (br_generated b))) else name)"
      "b1 = (if name = [] then b\<lparr>br_generated := Suc (br_generated b)\<rparr> else b)"
    have "declare_queue name passive b = (case map_of (br_queues b1) n of
        Some existing \<Rightarrow> (Inr existing, b1)
      | None \<Rightarrow> (Inr (br_fresh b1), (set_queue (br_fresh b1) (empty_queue n) b1)
          \<lparr>br_fresh := Suc (br_fresh b1), br_queues := AList.update n (br_fresh b1) (br_queues b1)\<rparr>))"
      using False by (cases "name = []") (simp_all add: declare_queue_def Let_def nb cong: option.case_cong)
    moreover have "broker_ok b1" "inventory b1 = inventory b" "br_open b1 = br_open b" using b by (simp_all add: nb)
    ultimately show ?thesis using main [of b1 "declare_queue name passive b" n] by simp
  qed
qed

lemma exchanges_ok:
  assumes "broker_ok b" "\<And>n e bd. map_of xs n = Some e \<Longrightarrow> bd \<in> set (ex_bindings e) \<Longrightarrow> bi_target bd < br_fresh b"
  shows "broker_ok (b\<lparr>br_exchanges := xs\<rparr>)" "inventory (b\<lparr>br_exchanges := xs\<rparr>) = inventory b"
  using assms by (auto simp: broker_ok_def books_ok_def shape_ok_def tally_def consumer_ok_def inventory_def waiting_def
      holding_def fired_off_def)

lemma exchange_targets:
  "broker_ok b \<Longrightarrow> map_of (br_exchanges b) n = Some e \<Longrightarrow> bd \<in> set (ex_bindings e) \<Longrightarrow> bi_target bd < br_fresh b"
  by (auto simp: broker_ok_def shape_ok_def)

lemma declareExchange_ok:
  assumes b: "broker_ok b"
  shows "broker_ok (snd (declareExchange name kind passive b)) \<and> inventory (snd (declareExchange name kind passive b)) = inventory b \<and>
    br_open (snd (declareExchange name kind passive b)) = br_open b"
proof -
  let ?xs = "AList.update name \<lparr>ex_kind = kind, ex_bindings = []\<rparr> (br_exchanges b)"
  have "bi_target bd < br_fresh b" if "map_of ?xs n = Some e" "bd \<in> set (ex_bindings e)" for n e bd
    using that exchange_targets [OF b] by (auto split: if_splits)
  note ok = exchanges_ok [OF b, of ?xs, OF this]
  show ?thesis using b ok by (auto simp: declareExchange_def split: option.split)
qed

lemma bind_queue_ok:
  assumes b: "broker_ok b" and t: "t < br_fresh b"
  shows "broker_ok (snd (bind_queue t name key b)) \<and> inventory (snd (bind_queue t name key b)) = inventory b \<and>
    br_open (snd (bind_queue t name key b)) = br_open b"
proof (cases "map_of (br_exchanges b) name")
  case (Some routed)
  let ?xs = "AList.update name (routed\<lparr>ex_bindings := ex_bindings routed @ [\<lparr>bi_target = t, bi_key = key\<rparr>]\<rparr>) (br_exchanges b)"
  have "bi_target bd < br_fresh b" if "map_of ?xs n = Some e" "bd \<in> set (ex_bindings e)" for n e bd
    using that exchange_targets [OF b] t Some by (auto split: if_splits)
  note ok = exchanges_ok [OF b, of ?xs, OF this]
  show ?thesis using b Some ok by (auto simp: bind_queue_def)
qed (use b in \<open>simp add: bind_queue_def\<close>)

lemma declare_accounts:
  assumes "broker_ok b"
  shows "accounts b {#} {#} (declare_op name passive b)"
  using declare_queue_ok [OF assms, of name "passive"] by (auto simp: declare_op_def accounts_def split_beta split: sum.split)

lemma bind_accounts:
  assumes "broker_ok b"
  shows "accounts b {#} {#} (bind_op name ex key b)"
  using bind_queue_ok [OF assms find_queue_fresh [OF assms], of name _ ex key] assms
  by (auto simp: bind_op_def accounts_def split_beta split: sum.split option.split)

text \<open>Changing only who consumes.\<close>

lemma set_conn_consumers_ok:
  assumes b: "broker_ok b" and c: "c < br_open b"
    and x: "cn_nextTag x = cn_nextTag (the_conn b c)" "cn_held x = cn_held (the_conn b c)"
    "cn_outstanding x = cn_outstanding (the_conn b c)" "cn_sink x = cn_sink (the_conn b c)"
    and k: "\<And>tag k. map_of (cn_consumers x) tag = Some k \<Longrightarrow> cs_tag k = tag \<and> consumer_ok b k"
  shows "broker_ok (set_conn c x b)" "inventory (set_conn c x b) = inventory b"
proof -
  have h: "held_ok (br_fresh b) x" using b x(1,2,3) by (simp add: broker_ok_def books_ok_def held_ok_def)
  have tl: "tally (set_conn c x b) = tally b" using tally_set_conn [OF c, of x] x by (simp add: fun_eq_iff)
  have "books_ok (set_conn c x b)" using b h c by (auto simp: broker_ok_def books_ok_def tl)
  moreover have "shape_ok (set_conn c x b)" using b k by (intro shape_set_conn) (auto simp: broker_ok_def)
  ultimately show "broker_ok (set_conn c x b)" by (simp add: broker_ok_def)
  show "inventory (set_conn c x b) = inventory b"
    using holding_set_conn [OF c, of x] fired_off_set_conn [OF c, of x] x by (simp add: inventory_def)
qed

lemma set_queue_consumers_ok:
  assumes b: "broker_ok b" and t: "t < br_fresh b"
    and q: "q_unacked q = q_unacked (the_queue b t)" "q_ready q = q_ready (the_queue b t)" "q_name q = q_name (the_queue b t)"
    and k: "\<And>k. k \<in> set (q_consumers q) \<Longrightarrow> cs_queue k = t \<and> consumer_ok b k"
  shows "broker_ok (set_queue t q b)" "inventory (set_queue t q b) = inventory b"
proof -
  have "books_ok (set_queue t q b)" using b t q by (intro books_set_queue) (auto simp: broker_ok_def)
  moreover have "shape_ok (set_queue t q b)" using b q k by (intro shape_set_queue) (auto simp: broker_ok_def)
  ultimately show "broker_ok (set_queue t q b)" by (simp add: broker_ok_def)
  show "inventory (set_queue t q b) = inventory b" using waiting_set_queue [OF t, of q] q by (simp add: inventory_def)
qed

lemma consumers_of: "broker_ok b \<Longrightarrow> map_of (cn_consumers (the_conn b c)) tag = Some k \<Longrightarrow> cs_tag k = tag \<and> consumer_ok b k"
  "broker_ok b \<Longrightarrow> k \<in> set (q_consumers (the_queue b t)) \<Longrightarrow> cs_queue k = t \<and> consumer_ok b k"
  by (auto simp: broker_ok_def dest: shape_consumers)

lemma consume_accounts:
  assumes b: "broker_ok b" and c: "c < br_open b"
  shows "accounts b {#} {#} (consume_op c name tag channel noAck b)"
proof (cases "find_queue name b")
  case (Inr t)
  note t = find_queue_fresh [OF b Inr]
  define tag1 b1 where tb: "tag1 = (if tag = [] then generatedConsumerPrefix @ FormatInt (int (Suc (cn_generated (the_conn b c)))) else tag)"
    "b1 = (if tag = [] then set_conn c ((the_conn b c)\<lparr>cn_generated := Suc (cn_generated (the_conn b c))\<rparr>) b else b)"
  have b1: "broker_ok b1" "inventory b1 = inventory b" "same_frame b b1"
    using b set_conn_consumers_ok [OF b c, of "(the_conn b c)\<lparr>cn_generated := Suc (cn_generated (the_conn b c))\<rparr>", OF _ _ _ _ consumers_of(1) [OF b]]
    by (simp_all add: tb)
  define k where "k = \<lparr>cs_tag = tag1, cs_queue = t, cs_owner = c, cs_channel = channel, cs_noAck = noAck\<rparr>"
  let ?x = "(the_conn b1 c)\<lparr>cn_consumers := AList.update tag1 k (cn_consumers (the_conn b1 c))\<rparr>"
  let ?b2 = "set_conn c ?x b1"
  let ?b3 = "set_queue t ((the_queue ?b2 t)\<lparr>q_consumers := q_consumers (the_queue ?b2 t) @ [k]\<rparr>) ?b2"
  have c1: "c < br_open b1" "t < br_fresh b1" using c t b1(3) by (simp_all add: same_frame_def)
  have k1: "consumer_ok b1 k" "cs_queue k = t" "cs_tag k = tag1" using c1 by (simp_all add: k_def consumer_ok_def)
  have b2: "broker_ok ?b2" "inventory ?b2 = inventory b1"
    by (rule set_conn_consumers_ok [OF b1(1) c1(1)]; use consumers_of(1) [OF b1(1)] k1 in \<open>auto split: if_splits\<close>)+
  have t2: "t < br_fresh ?b2" "consumer_ok ?b2 k" using c1 k1 by (simp_all add: consumer_ok_def)
  have b3: "broker_ok ?b3" "inventory ?b3 = inventory ?b2"
    by (rule set_queue_consumers_ok [OF b2(1) t2(1)]; use consumers_of(2) [OF b2(1), of _ t] k1(2) t2(2) in auto)+
  have e: "consume_op c name tag channel noAck b =
     (if map_of (cn_consumers (the_conn b1 c)) tag1 \<noteq> None then (Fail (ConsumerTagTaken tag1), b1)
      else (Ok (with_gauges (gaugesOf (Some (the_queue (dispatch t ?b3) t)))\<lparr>res_Tag := tag1\<rparr>), dispatch t ?b3))"
    by (cases "tag = []") (simp_all add: consume_op_def Inr Let_def tb k_def)
  show ?thesis using b1 b2(2) b3(2) dispatch_ok [OF b3(1), of t]
    by (simp add: e accounts_def same_frame_def)
qed (use b in \<open>simp add: consume_op_def accounts_def\<close>)

lemma drop_tag_set: "drop_tag tag ks = Some ks' \<Longrightarrow> set ks' \<subseteq> set ks"
proof (induction ks arbitrary: ks')
  case (Cons k ks)
  then show ?case by (auto split: if_splits)
qed simp

lemma dropConsumer_fields [simp]:
  "q_unacked (dropConsumer tag q) = q_unacked q" "q_ready (dropConsumer tag q) = q_ready q" "q_name (dropConsumer tag q) = q_name q"
  "k \<in> set (q_consumers (dropConsumer tag q)) \<Longrightarrow> k \<in> set (q_consumers q)"
  using drop_tag_set [of tag "q_consumers q"] by (auto simp: dropConsumer_def split: option.splits)

lemma drop_consumer_ok:
  assumes "broker_ok b" "t < br_fresh b"
  shows "broker_ok (set_queue t (dropConsumer tag (the_queue b t)) b)" "inventory (set_queue t (dropConsumer tag (the_queue b t)) b) = inventory b"
  by (rule set_queue_consumers_ok [OF assms]; use consumers_of(2) [OF assms(1), of _ t] in auto)+

lemma cancel_accounts:
  assumes b: "broker_ok b" and c: "c < br_open b"
  shows "accounts b {#} {#} (cancel_op c tag b)"
proof (cases "map_of (cn_consumers (the_conn b c)) tag")
  case (Some k)
  let ?x = "(the_conn b c)\<lparr>cn_consumers := AList.delete tag (cn_consumers (the_conn b c))\<rparr>"
  have b1: "broker_ok (set_conn c ?x b)" "inventory (set_conn c ?x b) = inventory b"
    by (rule set_conn_consumers_ok [OF b c]; use consumers_of(1) [OF b] in \<open>auto split: if_splits\<close>)+
  have "cs_queue k < br_fresh (set_conn c ?x b)" using consumers_of(1) [OF b Some] by (simp add: consumer_ok_def)
  from drop_consumer_ok [OF b1(1) this, of tag] b1(2) Some show ?thesis
    by (simp add: cancel_op_def accounts_def Let_def)
qed (use b in \<open>simp add: cancel_op_def accounts_def\<close>)

lemma set_queue_twice: "set_queue t q (set_queue t q' b) = set_queue t q b"
  by (simp add: set_queue_def)

lemma forget_consumers_ok:
  assumes "broker_ok b" "\<And>k. k \<in> set ks \<Longrightarrow> cs_owner k < br_open b"
  shows "broker_ok (forget_consumers ks b) \<and> inventory (forget_consumers ks b) = inventory b \<and>
    same_frame b (forget_consumers ks b) \<and> br_store (forget_consumers ks b) = br_store b"
  using assms
proof (induction ks arbitrary: b)
  case (Cons k ks)
  let ?c = "cs_owner k"
  let ?x = "(the_conn b ?c)\<lparr>cn_consumers := AList.delete (cs_tag k) (cn_consumers (the_conn b ?c))\<rparr>"
  have c: "?c < br_open b" using Cons.prems(2) by simp
  have b1: "broker_ok (set_conn ?c ?x b)" "inventory (set_conn ?c ?x b) = inventory b"
    by (rule set_conn_consumers_ok [OF Cons.prems(1) c]; use consumers_of(1) [OF Cons.prems(1)] in \<open>auto split: if_splits\<close>)+
  from Cons.IH [OF b1(1)] b1(2) Cons.prems(2) show ?case by (simp add: same_frame_def)
qed simp

lemma unlisted_ok:
  assumes b: "broker_ok b"
    and b': "b' = b\<lparr>br_queues := AList.delete n (br_queues b), br_exchanges := map (\<lambda>(n, e). (n, unbindAll t e)) (br_exchanges b)\<rparr>"
  shows "broker_ok b'" "inventory b' = inventory b"
proof -
  have m: "map_of (map (\<lambda>(n, e). (n, unbindAll t e)) (br_exchanges b)) k = map_option (unbindAll t) (map_of (br_exchanges b) k)" for k
    by (induction "br_exchanges b") (auto simp: map_of_map)
  have targets: "bi_target bd < br_fresh b"
    if "map_of (map (\<lambda>(n, e). (n, unbindAll t e)) (br_exchanges b)) n = Some e" "bd \<in> set (ex_bindings e)" for n e bd
  proof -
    from that(1) obtain e0 where "map_of (br_exchanges b) n = Some e0" "e = unbindAll t e0" by (auto simp: m)
    with that(2) exchange_targets [OF b] show ?thesis by (auto simp: unbindAll_def)
  qed
  let ?b1 = "b\<lparr>br_exchanges := map (\<lambda>(n, e). (n, unbindAll t e)) (br_exchanges b)\<rparr>"
  have e: "broker_ok ?b1" "inventory ?b1 = inventory b" by (rule exchanges_ok [OF b], erule (1) targets)+
  have "b' = ?b1\<lparr>br_queues := AList.delete n (br_queues ?b1)\<rparr>" by (simp add: b')
  with e show "broker_ok b'" "inventory b' = inventory b"
    by (auto simp: broker_ok_def books_ok_def shape_ok_def tally_def consumer_ok_def inventory_def waiting_def
        holding_def fired_off_def split: if_splits)
qed

lemma remove_accounts:
  assumes b: "broker_ok b"
  shows "accounts b (case find_queue name b of Inr t \<Rightarrow> mset (map pe_message (q_ready (the_queue b t))) | Inl _ \<Rightarrow> {#}) {#} (remove_op name b)"
proof (cases "find_queue name b")
  case (Inr t)
  note t = find_queue_fresh [OF b Inr]
  let ?q = "the_queue b t"
  let ?b1 = "b\<lparr>br_queues := AList.delete (q_name ?q) (br_queues b), br_exchanges := map (\<lambda>(n, e). (n, unbindAll t e)) (br_exchanges b)\<rparr>"
  let ?b2 = "forget_consumers (q_consumers ?q) ?b1"
  note b1 = unlisted_ok [OF b, of ?b1, OF refl]
  have own: "cs_owner k < br_open ?b1" if "k \<in> set (q_consumers ?q)" for k
    using consumers_of(2) [OF b that] by (simp add: consumer_ok_def)
  have b2: "broker_ok ?b2" "inventory ?b2 = inventory b" "same_frame b ?b2" "br_store ?b2 = br_store b"
    using forget_consumers_ok [OF b1(1), of "q_consumers ?q"] own b1(2) by (auto simp: same_frame_def)
  have q2: "the_queue ?b2 t = ?q" "t < br_fresh ?b2" "br_open ?b2 = br_open b" using b2 t by (simp_all add: same_frame_def)
  let ?q0 = "?q\<lparr>q_consumers := []\<rparr>"
  have b3: "broker_ok (set_queue t ?q0 ?b2)" "inventory (set_queue t ?q0 ?b2) = inventory ?b2"
    by (rule set_queue_consumers_ok [OF b2(1) q2(2)]; simp add: q2)+
  have t3: "t < br_fresh (set_queue t ?q0 ?b2)" using q2 by simp
  from set_ready_ok [OF b3(1) t3, of "[]"] b3(2) b2(2)
  have "broker_ok (set_queue t (?q\<lparr>q_consumers := [], q_ready := []\<rparr>) ?b2)"
    "inventory (set_queue t (?q\<lparr>q_consumers := [], q_ready := []\<rparr>) ?b2) + mset (map pe_message (q_ready ?q)) = inventory b"
    by (simp_all add: set_queue_twice)
  then show ?thesis using q2 by (simp add: remove_op_def remove_queue_def Inr Let_def accounts_def)
qed (use b in \<open>simp add: remove_op_def accounts_def\<close>)

section \<open>Any operation of a connection\<close>

text \<open>The messages an operation takes out of the broker: acknowledged or rejected for good, fetched without
  acknowledgement, purged, or thrown away with their queue.\<close>

definition outgo :: "nat \<Rightarrow> queue_op \<Rightarrow> broker \<Rightarrow> Message multiset" where
  "outgo c o' b =
     (case op_Payload o' of
        Ack tag channel multiple \<Rightarrow> settled (the_conn b c) tag channel multiple
      | Nack tag channel multiple again \<Rightarrow> if again then {#} else settled (the_conn b c) tag channel multiple
      | Get channel noAck \<Rightarrow> (case find_queue (op_Target o') b of
            Inr t \<Rightarrow> if noAck then mset (map pe_message (take 1 (q_ready (the_queue b t)))) else {#} | Inl _ \<Rightarrow> {#})
      | NoRequest \<Rightarrow>
          if op_Kind o' \<noteq> KindConnect \<and> (op_Kind o' = KindPurge \<or> op_Kind o' = KindDelete)
          then (case find_queue (op_Target o') b of Inr t \<Rightarrow> mset (map pe_message (q_ready (the_queue b t))) | Inl _ \<Rightarrow> {#})
          else {#}
      | _ \<Rightarrow> {#})"

text \<open>The messages it brings in: one copy for each queue a publish is routed to.\<close>

definition income :: "queue_op \<Rightarrow> broker \<Rightarrow> Message multiset" where
  "income o' b =
     (case op_Payload o' of
        Publish m mandatory \<Rightarrow>
          if hasExchange b (m_Exchange m) then replicate_mset (length (destinations b (m_Exchange m) (m_RoutingKey m))) m else {#}
      | _ \<Rightarrow> {#})"

lemma queue_run_accounts:
  assumes b: "broker_ok b" and c: "c < br_open b"
  shows "accounts b (outgo c o' b) (income o' b) (queue_run order c o' b)"
proof (cases "op_Payload o'")
  case (Exchange kind pas)
  then show ?thesis using declareExchange_ok [OF b, of "op_Target o'" kind pas] b
    by (auto simp: queue_run_def outgo_def income_def accounts_def split_beta split: option.split)
next
  case NoRequest
  then show ?thesis using purge_accounts [OF b, of "op_Target o'"] remove_accounts [OF b, of "op_Target o'"] b
    by (auto simp: queue_run_def outgo_def income_def accounts_def)
qed (use b c declare_accounts [OF b] bind_accounts [OF b] publish_accounts [OF b] get_accounts [OF b c] consume_accounts [OF b c]
    cancel_accounts [OF b c] settle_accounts [OF b] qos_accounts [OF b c]
    settle_accounts [OF b, of False] in \<open>simp_all add: queue_run_def outgo_def income_def\<close>)

end
