(* ===== verification/QueueRuns.thy ===== *)
theory QueueRuns
  imports QueueBooks
begin

text \<open>
  Runs of the broker: connections come, send operations in any interleaving and go, and the books hold
  throughout. The theorems here are about whole runs, and about the dispatching of one queue.
\<close>

section \<open>Opening and closing\<close>

lemma Open_ok:
  assumes b: "broker_ok b"
  shows "broker_ok (snd (Open b))" "inventory (snd (Open b)) = inventory b" "fst (Open b) < br_open (snd (Open b))"
proof -
  let ?n = "br_open b"
  have old: "the_conn b ?n = empty_connection" using b by (simp add: broker_ok_def books_ok_def)
  have fields: "br_conns (snd (Open b)) = br_conns b" "br_store (snd (Open b)) = br_store b" "br_fresh (snd (Open b)) = br_fresh b"
    "br_exchanges (snd (Open b)) = br_exchanges b" "br_open (snd (Open b)) = Suc ?n" "br_queues (snd (Open b)) = br_queues b"
    using fun_upd_triv [of "br_conns b" ?n] by (simp_all add: Open_def set_conn_def old)
  have tl: "tally (snd (Open b)) = tally b" by (simp add: tally_def fields old empty_connection_def on_queue_def fun_eq_iff)
  have "books_ok (snd (Open b))" using b by (auto simp: broker_ok_def books_ok_def fields tl)
  moreover have "shape_ok (snd (Open b))"
    using b by (auto simp: broker_ok_def shape_ok_def consumer_ok_def fields intro: less_SucI)
  ultimately show "broker_ok (snd (Open b))" by (simp add: broker_ok_def)
  show "inventory (snd (Open b)) = inventory b"
    by (simp add: inventory_def waiting_def holding_def fired_off_def fields old empty_connection_def)
  show "fst (Open b) < br_open (snd (Open b))" by (simp add: Open_def)
qed

lemma drop_consumers_ok:
  assumes "broker_ok b" "set tags \<subseteq> dom (map_of (cn_consumers (the_conn b c)))"
  shows "broker_ok (drop_consumers c tags b) \<and> inventory (drop_consumers c tags b) = inventory b \<and>
    same_frame b (drop_consumers c tags b) \<and> br_conns (drop_consumers c tags b) = br_conns b"
  using assms
proof (induction tags arbitrary: b)
  case (Cons tag tags)
  obtain k where k: "map_of (cn_consumers (the_conn b c)) tag = Some k" using Cons.prems(2) by auto
  have t: "cs_queue k < br_fresh b" using consumers_of(1) [OF Cons.prems(1) k] by (simp add: consumer_ok_def)
  note d = drop_consumer_ok [OF Cons.prems(1) t, of "cs_tag k"]
  from Cons.IH [OF d(1)] d(2) Cons.prems(2) show ?case by (simp add: k Let_def same_frame_def)
qed simp

lemma give_all_ok:
  assumes "broker_ok b" "distinct tags" "set tags \<subseteq> dom (map_of (cn_held (the_conn b c)))"
  shows "\<exists>b'. give_all c tags b = Some b' \<and> broker_ok b' \<and> same_frame b b' \<and> inventory b' = inventory b"
  using assms
proof (induction tags arbitrary: b)
  case (Cons tag tags)
  obtain h where h: "map_of (cn_held (the_conn b c)) tag = Some h" using Cons.prems(3) by auto
  obtain b1 where g: "give c tag True b = Some (h_queue h, b1)" "broker_ok b1" "same_frame b b1" "inventory b1 = inventory b"
    "cn_held (the_conn b1 c) = AList.delete tag (cn_held (the_conn b c))"
    by (rule give_ok [OF Cons.prems(1) h, of True]) simp
  have "set tags \<subseteq> dom (map_of (cn_held (the_conn b1 c)))" using Cons.prems(2,3) by (auto simp: g(5))
  from Cons.IH [OF g(2) _ this] Cons.prems(2) g show ?case by (auto simp: same_frame_def)
qed simp

text \<open>The orders a range over the connection's maps can take.\<close>

definition close_orders :: "gostring list \<Rightarrow> nat list \<Rightarrow> nat \<Rightarrow> broker \<Rightarrow> bool" where
  "close_orders consumers tags c b \<longleftrightarrow>
     mset consumers = mset (map fst (cn_consumers (the_conn b c))) \<and> mset tags = mset (map fst (cn_held (the_conn b c)))"

lemma close_orders_sets:
  "close_orders consumers tags c b \<Longrightarrow> set consumers \<subseteq> dom (map_of (cn_consumers (the_conn b c))) \<and>
     set tags \<subseteq> dom (map_of (cn_held (the_conn b c))) \<and> (keys_distinct (cn_held (the_conn b c)) \<longrightarrow> distinct tags)"
  using mset_eq_imp_distinct_iff [of tags "map fst (cn_held (the_conn b c))"]
    mset_eq_setD [of tags "map fst (cn_held (the_conn b c))"] mset_eq_setD [of consumers "map fst (cn_consumers (the_conn b c))"]
  by (simp add: close_orders_def dom_map_of_conv_image_fst del: mset_map)

lemma Close_ok:
  assumes b: "broker_ok b" and c: "c < br_open b" and o': "close_orders consumers tags c b"
  shows "\<exists>b'. Close_connection consumers tags queues c b = Some b' \<and> broker_ok b' \<and> same_frame b b' \<and> inventory b' = inventory b"
proof -
  note sets = close_orders_sets [OF o']
  let ?b1 = "drop_consumers c consumers b"
  have b1: "broker_ok ?b1" "inventory ?b1 = inventory b" "same_frame b ?b1" "br_conns ?b1 = br_conns b"
    using drop_consumers_ok [OF b, of consumers c] sets by simp_all
  let ?x = "(the_conn ?b1 c)\<lparr>cn_consumers := []\<rparr>"
  have c1: "c < br_open ?b1" using c b1(3) by (simp add: same_frame_def)
  have b2: "broker_ok (set_conn c ?x ?b1)" "inventory (set_conn c ?x ?b1) = inventory ?b1"
    by (rule set_conn_consumers_ok [OF b1(1) c1]; simp)+
  have "keys_distinct (cn_held (the_conn b c))" using b by (simp add: broker_ok_def books_ok_def held_ok_def)
  then obtain b3 where b3: "give_all c tags (set_conn c ?x ?b1) = Some b3" "broker_ok b3"
    "same_frame (set_conn c ?x ?b1) b3" "inventory b3 = inventory ?b1"
    using give_all_ok [OF b2(1), of tags c] sets b1(4) b2(2) by auto
  from dispatch_all_ok [OF b3(2), of queues] b3 b1 show ?thesis
    by (auto simp: Close_connection_def Let_def same_frame_def)
qed

section \<open>Runs\<close>

datatype event =
    Arrive
  | Send "gostring list" nat queue_op
  | Leave "gostring list" "nat list" "qid list" nat

fun advance :: "broker \<Rightarrow> event \<Rightarrow> broker" where
  "advance b Arrive = snd (Open b)"
| "advance b (Send order c o') = (if c < br_open b then snd (queue_run order c o' b) else b)"
| "advance b (Leave consumers tags queues c) =
     (if c < br_open b \<and> close_orders consumers tags c b then the (Close_connection consumers tags queues c b) else b)"

fun event_outgo :: "broker \<Rightarrow> event \<Rightarrow> Message multiset" where
  "event_outgo b (Send order c o') = (if c < br_open b then outgo c o' b else {#})"
| "event_outgo b _ = {#}"

fun event_income :: "broker \<Rightarrow> event \<Rightarrow> Message multiset" where
  "event_income b (Send order c o') = (if c < br_open b then income o' b else {#})"
| "event_income b _ = {#}"

lemma advance_ok:
  assumes "broker_ok b"
  shows "broker_ok (advance b e) \<and> inventory (advance b e) + event_outgo b e = inventory b + event_income b e"
proof (cases e)
  case Arrive
  then show ?thesis using Open_ok [OF assms] by simp
next
  case (Send order c o')
  then show ?thesis using queue_run_accounts [OF assms, of c o' order] assms by (auto simp: accounts_def)
next
  case (Leave consumers tags queues c)
  then show ?thesis using Close_ok [OF assms, of c consumers tags queues] assms by auto
qed

interpretation broker: preserved advance broker_ok
  by unfold_locales (simp add: advance_ok)

text \<open>What a run took out and brought in.\<close>

fun ledger :: "broker \<Rightarrow> event list \<Rightarrow> Message multiset \<times> Message multiset" where
  "ledger b [] = ({#}, {#})"
| "ledger b (e # es) =
     (case ledger (advance b e) es of (outs, ins) \<Rightarrow> (event_outgo b e + outs, event_income b e + ins))"

lemma ledger_balances:
  "broker_ok b \<Longrightarrow> inventory (foldl advance b es) + fst (ledger b es) = inventory b + snd (ledger b es)"
proof (induction es arbitrary: b)
  case (Cons e es)
  note a = advance_ok [OF Cons.prems, of e]
  have "inventory (foldl advance (advance b e) es) + fst (ledger (advance b e) es) =
      inventory (advance b e) + snd (ledger (advance b e) es)" using a Cons.IH by blast
  then have "inventory (foldl advance (advance b e) es) + fst (ledger (advance b e) es) + event_outgo b e =
      inventory b + event_income b e + snd (ledger (advance b e) es)"
    using a by (metis add.assoc add.commute)
  then show ?case by (simp add: split_beta add_ac)
qed simp

lemma New_broker_ok: "broker_ok New_broker" "inventory New_broker = {#}"
  by (simp_all add: New_broker_def broker_ok_def books_ok_def shape_ok_def held_ok_def tally_def empty_connection_def
      empty_queue_def on_queue_def on_channel_def inventory_def waiting_def holding_def fired_off_def)

lemma seed_steps_ok:
  "broker_ok b \<Longrightarrow> broker_ok (snd (seedExchanges xs b))"
  "broker_ok b \<Longrightarrow> t < br_fresh b \<Longrightarrow> broker_ok (snd (seed_binds t name bs b)) \<and> br_fresh (snd (seed_binds t name bs b)) = br_fresh b"
proof -
  show "broker_ok b \<Longrightarrow> broker_ok (snd (seedExchanges xs b))"
  proof (induction xs b rule: seedExchanges.induct)
    case (2 name kind rest b)
    then show ?case using declareExchange_ok [OF "2.prems", of name kind False]
      by (auto simp: split_beta split: option.split) (metis prod.collapse)
  qed simp
  have f: "br_fresh (snd (bind_queue t ex key b)) = br_fresh b" for ex key b
    by (simp add: bind_queue_def split: option.split)
  show "broker_ok b \<Longrightarrow> t < br_fresh b \<Longrightarrow> broker_ok (snd (seed_binds t name bs b)) \<and> br_fresh (snd (seed_binds t name bs b)) = br_fresh b"
  proof (induction bs arbitrary: b)
    case (Cons bd bs)
    obtain r b1 where r: "bind_queue t (sb_Exchange bd) (sb_RoutingKey bd) b = (r, b1)" by force
    have "broker_ok b1" "br_fresh b1 = br_fresh b"
      using bind_queue_ok [OF Cons.prems, of "sb_Exchange bd" "sb_RoutingKey bd"] f [of "sb_Exchange bd" "sb_RoutingKey bd" b] r by simp_all
    with Cons.IH [of b1] Cons.prems show ?case by (simp add: r split: option.split)
  qed simp
qed

lemma declare_named:
  assumes "broker_ok b" "name \<noteq> []"
  shows "\<exists>t b'. declare_queue name False b = (Inr t, b') \<and> broker_ok b' \<and> t < br_fresh b'"
proof -
  have "\<exists>t. fst (declare_queue name False b) = Inr t \<and> t < br_fresh (snd (declare_queue name False b))"
    using assms by (auto simp: declare_queue_def Let_def broker_ok_def shape_ok_def split: option.split)
  with declare_queue_ok [OF assms(1), of name False] show ?thesis by (metis prod.collapse)
qed

lemma seedQueues_ok: "broker_ok b \<Longrightarrow> broker_ok (snd (seedQueues qs b))"
proof (induction qs arbitrary: b)
  case (Cons q qs)
  show ?case
  proof (cases "sq_Name q = []")
    case False
    obtain t b1 where d: "declare_queue (sq_Name q) False b = (Inr t, b1)" "broker_ok b1" "t < br_fresh b1"
      using declare_named [OF Cons.prems False] by blast
    obtain r b2 where s: "seed_binds t (sq_Name q) (sq_Bind q) b1 = (r, b2)" by force
    with seed_steps_ok(2) [OF d(2,3), of "sq_Name q" "sq_Bind q"] d(3) have b2: "broker_ok b2" "t < br_fresh b2" by simp_all
    have "broker_ok (seed_messages t (sq_Name q) (sq_Messages q) b2)"
      unfolding seed_messages_def by (rule set_ready_ok [OF b2])
    with b2 Cons.IH show ?thesis by (simp add: False d(1) s split: option.split)
  qed (use Cons.prems in simp)
qed simp

lemma queue_Seed_ok: "broker_ok (snd (queue_Seed raw New_broker))"
  using New_broker_ok(1) seed_steps_ok(1) seedQueues_ok
  by (auto simp: queue_Seed_def split_beta split: option.split)

text \<open>C4. The books of the broker hold at every moment of every run: however connections come, send operations
  (well formed or not) and go, each queue's unacknowledged gauge is the number of deliveries of its
  messages that clients actually hold, each channel's count of outstanding deliveries is the number
  it holds, no delivery tag is held twice, and no operation panics.\<close>

theorem broker_books_hold:
  assumes b: "b = foldl advance (snd (queue_Seed raw New_broker)) events"
  shows "q_unacked (the_queue b t) = int (\<Sum>c<br_open b. length (filter (\<lambda>(tag, h). h_queue h = t) (cn_held (the_conn b c)))) \<and>
    cn_outstanding (the_conn b c) ch = int (length (filter (\<lambda>(tag, h). h_channel h = ch) (cn_held (the_conn b c)))) \<and>
    distinct (map fst (cn_held (the_conn b c))) \<and>
    (c < br_open b \<longrightarrow> \<not> is_panic (fst (queue_run order c o' b)))"
proof -
  have ok: "broker_ok b" using broker.run_inv [OF queue_Seed_ok] by (simp add: b)
  then show ?thesis using queue_run_accounts [OF ok, of c o' order]
    by (simp add: broker_ok_def books_ok_def tally_def on_queue_def held_ok_def on_channel_def accounts_def)
qed

definition one_fetched :: broker where
  "one_fetched = foldl advance
     (snd (queue_Seed (Some \<lparr>tp_Exchanges = [], tp_Queues = [\<lparr>sq_Name = ''jobs'', sq_Bind = [], sq_Messages = [''x'']\<rparr>]\<rparr>) New_broker))
     [Arrive, Send [] 0 \<lparr>op_Emulator = ''queue'', op_Kind = KindGet, op_Target = ''jobs'', op_Gauges = [], op_Payload = Get 1 False\<rparr>]"

theorem broker_books_hold_witness:
  "q_unacked (the_queue one_fetched 0) = 1 \<and> cn_outstanding (the_conn one_fetched 0) 1 = 1 \<and>
   \<not> is_panic (fst (queue_run [] 0
       \<lparr>op_Emulator = ''queue'', op_Kind = KindNack, op_Target = [], op_Gauges = [], op_Payload = Nack 0 1 True True\<rparr> one_fetched))"
proof -
  have "br_open one_fetched = 1"
    "map (\<lambda>(tag, h). (tag, h_queue h, h_channel h)) (cn_held (the_conn one_fetched 0)) = [(1, 0, 1)]"
    by code_simp+
  then show ?thesis
    using broker_books_hold [OF one_fetched_def, of 0 0 1 "[]"
      "\<lparr>op_Emulator = ''queue'', op_Kind = KindNack, op_Target = [], op_Gauges = [], op_Payload = Nack 0 1 True True\<rparr>"]
    by (auto simp: map_eq_Cons_conv)
qed

text \<open>C5. No message is lost and none is invented: at the end of every run, the messages waiting in queues, held
  by clients or pushed to consumers that never acknowledge are exactly those published (one copy per
  queue reached) less those acknowledged, rejected for good, fetched without acknowledgement, purged
  or thrown away with their queue. In particular a connection that goes, whatever it held, changes
  nothing in this account.\<close>

theorem no_message_lost:
  "inventory (foldl advance New_broker events) + fst (ledger New_broker events) = snd (ledger New_broker events)"
  using ledger_balances [OF New_broker_ok(1), of events] New_broker_ok(2) by simp

end
