(* ===== verification/QueueDispatch.thy ===== *)
theory QueueDispatch
  imports QueueRuns
begin

text \<open>
  How one queue hands out its messages: never beyond a channel's prefetch, never leaving a message waiting
  while a consumer has room, in turn, and to each queue once however many bindings match. Then two
  runs in which the code departs from what its comments promise.
\<close>

section \<open>A sample\<close>

text \<open>A queue with three messages waiting and a consumer on each of two connections, the first under a
  prefetch.\<close>

definition parcel :: "gostring \<Rightarrow> Message" where
  "parcel body = \<lparr>m_Exchange = [], m_RoutingKey = ''jobs'', m_Properties = [], m_Body = body\<rparr>"

definition sample_broker :: "int \<Rightarrow> broker" where
  "sample_broker prefetch = New_broker\<lparr>br_queues := [(''jobs'', 0)], br_fresh := 1, br_open := 2,
     br_conns := (\<lambda>_. empty_connection)(0 := empty_connection\<lparr>cn_prefetch := (\<lambda>_. 0)(1 := prefetch)\<rparr>),
     br_store := (\<lambda>_. empty_queue [])(0 := \<lparr>q_name = ''jobs'',
       q_ready = map (\<lambda>body. \<lparr>pe_message = parcel body, pe_redelivered = False\<rparr>) [''x'', ''y'', ''z''],
       q_unacked = 0,
       q_consumers = [\<lparr>cs_tag = ''a'', cs_queue = 0, cs_owner = 0, cs_channel = 1, cs_noAck = False\<rparr>,
                      \<lparr>cs_tag = ''b'', cs_queue = 0, cs_owner = 1, cs_channel = 7, cs_noAck = True\<rparr>],
       q_turn = 0\<rparr>)\<rparr>"

section \<open>The round robin\<close>

lemma next_loop_tried:
  assumes "next_loop room n q = (None, q')" "q_consumers q \<noteq> []" "i < n"
  shows "\<not> room (q_consumers q ! ((q_turn q + i) mod length (q_consumers q)))"
  using assms
proof (induction n arbitrary: q i)
  case (Suc n)
  let ?q = "q\<lparr>q_turn := (q_turn q + 1) mod length (q_consumers q)\<rparr>"
  have no: "\<not> room (q_consumers q ! (q_turn q mod length (q_consumers q)))" and rest: "next_loop room n ?q = (None, q')"
    using Suc.prems(1) by (auto simp: Let_def split: if_splits)
  show ?case
  proof (cases i)
    case (Suc j)
    then have "\<not> room (q_consumers ?q ! ((q_turn ?q + j) mod length (q_consumers ?q)))"
      using Suc.IH [OF rest] Suc.prems by simp
    moreover have "(q_turn ?q + j) mod length (q_consumers ?q) = (q_turn q + i) mod length (q_consumers q)"
      using Suc by (simp add: mod_add_left_eq)
    ultimately show ?thesis by simp
  qed (use no in simp)
qed simp

lemma mod_covers: "(j::nat) < n \<Longrightarrow> \<exists>i<n. (a + i) mod n = j"
proof -
  assume j: "j < n"
  let ?i = "(j + (n - a mod n)) mod n"
  have "a mod n < n" using j by simp
  then have e: "a mod n + (j + (n - a mod n)) = j + n" by simp
  have "(a + ?i) mod n = (a mod n + (j + (n - a mod n))) mod n" by (metis mod_add_eq mod_add_left_eq)
  also have "\<dots> = (j + n) mod n" by (simp only: e)
  also have "\<dots> = j" using j by simp
  finally show ?thesis using j by (intro exI [of _ ?i]) simp
qed

lemma next_none_full:
  assumes "next_consumer b q = (None, q')" "k \<in> set (q_consumers q)"
  shows "\<not> hasRoom (the_conn b (cs_owner k)) (cs_channel k)"
proof -
  obtain j where j: "j < length (q_consumers q)" "q_consumers q ! j = k" using assms(2) by (auto simp: in_set_conv_nth)
  obtain i where i: "i < length (q_consumers q)" "(q_turn q + i) mod length (q_consumers q) = j" using mod_covers [OF j(1)] by blast
  have "q_consumers q \<noteq> []" using assms(2) by auto
  from next_loop_tried [OF assms(1) [unfolded next_consumer_def] this i(1)] i(2) j(2) show ?thesis by simp
qed

lemma push_fields [simp]:
  "cn_prefetch (the_conn (push_message k w b) c) = cn_prefetch (the_conn b c)"
  "q_consumers (the_queue (push_message k w b) t) = q_consumers (the_queue b t)"
  "q_turn (the_queue (push_message k w b) t) = q_turn (the_queue b t)"
  by (simp_all add: push_message_def hold_message_def Deliver_def set_queue_def set_conn_def Let_def split_beta)

lemma push_outstanding:
  "cn_outstanding (the_conn (push_message k w b) c) ch =
     cn_outstanding (the_conn b c) ch + (if c = cs_owner k \<and> ch = cs_channel k \<and> \<not> cs_noAck k then 1 else 0)"
  by (simp add: push_message_def hold_message_def Deliver_def set_queue_def set_conn_def Let_def split_beta)

text \<open>One round of \<open>dispatch\<close>, and the induction that follows it.\<close>

lemma dispatch_induct [case_names nothing full pushed]:
  assumes "\<And>b. q_ready (the_queue b t) = [] \<Longrightarrow> P b b"
    "\<And>b w rest turn. q_ready (the_queue b t) = w # rest \<Longrightarrow>
       next_consumer b (the_queue b t) = (None, (the_queue b t)\<lparr>q_turn := turn\<rparr>) \<Longrightarrow> P b (set_queue t ((the_queue b t)\<lparr>q_turn := turn\<rparr>) b)"
    "\<And>b w rest turn k. q_ready (the_queue b t) = w # rest \<Longrightarrow>
       next_consumer b (the_queue b t) = (Some k, (the_queue b t)\<lparr>q_turn := turn\<rparr>) \<Longrightarrow> k \<in> set (q_consumers (the_queue b t)) \<Longrightarrow>
       hasRoom (the_conn b (cs_owner k)) (cs_channel k) \<Longrightarrow>
       P (push_message k w (set_queue t ((the_queue b t)\<lparr>q_turn := turn, q_ready := rest\<rparr>) b))
         (dispatch t (push_message k w (set_queue t ((the_queue b t)\<lparr>q_turn := turn, q_ready := rest\<rparr>) b))) \<Longrightarrow>
       P b (dispatch t (push_message k w (set_queue t ((the_queue b t)\<lparr>q_turn := turn, q_ready := rest\<rparr>) b)))"
  shows "P b (dispatch t b)"
proof (induction "length (q_ready (the_queue b t))" arbitrary: b)
  case 0
  then have "dispatch t b = b" by (subst dispatch.simps) simp
  with 0 assms(1) show ?case by simp
next
  case (Suc n)
  then obtain w rest where r: "q_ready (the_queue b t) = w # rest" by (cases "q_ready (the_queue b t)") auto
  obtain c q where nc: "next_consumer b (the_queue b t) = (c, q)" by force
  obtain turn where q: "q = (the_queue b t)\<lparr>q_turn := turn\<rparr>" using next_consumer_spec(1) [OF nc] by blast
  show ?case
  proof (cases c)
    case None
    have "dispatch t b = set_queue t q b" by (subst dispatch.simps) (simp add: r nc None)
    then show ?thesis using assms(2) [OF r] nc None q by simp
  next
    case (Some k)
    let ?b = "push_message k w (set_queue t ((the_queue b t)\<lparr>q_turn := turn, q_ready := rest\<rparr>) b)"
    have "dispatch t b = dispatch t ?b" by (subst dispatch.simps) (simp add: r nc Some q)
    moreover have "P ?b (dispatch t ?b)" using Suc r by (intro Suc.hyps(1)) (simp add: set_queue_def)
    ultimately show ?thesis using assms(3) [OF r] nc Some q next_consumer_spec(2) [OF nc Some] by simp
  qed
qed

lemma dispatch_prefetch [simp]: "cn_prefetch (the_conn (dispatch t b) c) = cn_prefetch (the_conn b c)"
  by (rule dispatch_induct [of t "\<lambda>b b'. cn_prefetch (the_conn b' c) = cn_prefetch (the_conn b c)"]) simp_all

lemma dispatch_consumers [simp]: "q_consumers (the_queue (dispatch t b) t) = q_consumers (the_queue b t)"
  by (rule dispatch_induct [of t "\<lambda>b b'. q_consumers (the_queue b' t) = q_consumers (the_queue b t)"]) simp_all

lemma dispatch_within_prefetch:
  "0 < cn_prefetch (the_conn b c) ch \<Longrightarrow>
     cn_outstanding (the_conn (dispatch t b) c) ch \<le> max (cn_outstanding (the_conn b c) ch) (cn_prefetch (the_conn b c) ch)"
proof (rule dispatch_induct [of t "\<lambda>b b'. 0 < cn_prefetch (the_conn b c) ch \<longrightarrow>
    cn_outstanding (the_conn b' c) ch \<le> max (cn_outstanding (the_conn b c) ch) (cn_prefetch (the_conn b c) ch)", rule_format])
  fix b w rest turn k
  let ?b = "push_message k w (set_queue t ((the_queue b t)\<lparr>q_turn := turn, q_ready := rest\<rparr>) b)"
  assume room: "hasRoom (the_conn b (cs_owner k)) (cs_channel k)" and p: "0 < cn_prefetch (the_conn b c) ch"
    and ih: "0 < cn_prefetch (the_conn ?b c) ch \<Longrightarrow>
      cn_outstanding (the_conn (dispatch t ?b) c) ch \<le> max (cn_outstanding (the_conn ?b c) ch) (cn_prefetch (the_conn ?b c) ch)"
  have "cn_outstanding (the_conn ?b c) ch \<le> max (cn_outstanding (the_conn b c) ch) (cn_prefetch (the_conn b c) ch)"
    using room p by (auto simp: push_outstanding hasRoom_def)
  with ih p show "cn_outstanding (the_conn (dispatch t ?b) c) ch \<le> max (cn_outstanding (the_conn b c) ch) (cn_prefetch (the_conn b c) ch)"
    by simp
qed auto

lemma dispatch_drains:
  "q_ready (the_queue (dispatch t b) t) = [] \<or>
     (\<forall>k \<in> set (q_consumers (the_queue (dispatch t b) t)). \<not> hasRoom (the_conn (dispatch t b) (cs_owner k)) (cs_channel k))"
  by (rule dispatch_induct [of t "\<lambda>b b'. q_ready (the_queue b' t) = [] \<or>
      (\<forall>k \<in> set (q_consumers (the_queue b' t)). \<not> hasRoom (the_conn b' (cs_owner k)) (cs_channel k))"])
    (auto dest: next_none_full)

text \<open>C32. Dispatching is bounded and works on: it never takes a channel's unacknowledged deliveries past the
  channel's prefetch (a channel already past it gets nothing), and it stops only when the queue is
  empty or every one of its consumers holds as much as its prefetch allows.\<close>

theorem prefetch_respected:
  "(0 < cn_prefetch (the_conn b c) ch \<longrightarrow>
      cn_outstanding (the_conn (dispatch t b) c) ch \<le> max (cn_outstanding (the_conn b c) ch) (cn_prefetch (the_conn b c) ch)) \<and>
   (q_ready (the_queue (dispatch t b) t) = [] \<or>
     (\<forall>k \<in> set (q_consumers (the_queue (dispatch t b) t)). \<not> hasRoom (the_conn (dispatch t b) (cs_owner k)) (cs_channel k)))"
  using dispatch_within_prefetch dispatch_drains by blast

theorem prefetch_respected_witness:
  "cn_outstanding (the_conn (dispatch 0 (sample_broker 2)) 0) 1 \<le> 2"
proof -
  have "cn_prefetch (the_conn (sample_broker 2) 0) 1 = 2" "cn_outstanding (the_conn (sample_broker 2) 0) 1 = 0"
    by (simp_all add: sample_broker_def empty_connection_def)
  then show ?thesis using prefetch_respected [of "sample_broker 2" 0 1 0] by simp
qed

section \<open>Taking turns\<close>

text \<open>Who is due which of the waiting messages when nobody is full.\<close>

definition rota :: "consumer list \<Rightarrow> nat \<Rightarrow> pending list \<Rightarrow> (consumer \<times> pending) list" where
  "rota ks turn ws = zip (map (\<lambda>i. ks ! ((turn + i) mod length ks)) [0..<length ws]) ws"

lemma rota_Cons: "rota ks turn (w # ws) = (ks ! (turn mod length ks), w) # rota ks ((turn + 1) mod length ks) ws"
proof -
  have "map (\<lambda>i. ks ! ((turn + i) mod length ks)) [0..<Suc (length ws)] =
      ks ! (turn mod length ks) # map (\<lambda>i. ks ! (((turn + 1) mod length ks + i) mod length ks)) [0..<length ws]"
    by (simp add: upt_conv_Cons map_Suc_upt [symmetric] mod_add_left_eq o_def del: upt_Suc)
  then show ?thesis by (simp add: rota_def del: upt_Suc)
qed

lemma next_unlimited:
  assumes "q_consumers q \<noteq> []" "\<forall>k \<in> set (q_consumers q). cn_prefetch (the_conn b (cs_owner k)) (cs_channel k) = 0"
  shows "next_consumer b q = (Some (q_consumers q ! (q_turn q mod length (q_consumers q))),
           q\<lparr>q_turn := (q_turn q + 1) mod length (q_consumers q)\<rparr>)"
proof -
  obtain n where n: "length (q_consumers q) = Suc n" using assms(1) by (cases "q_consumers q") auto
  then have "q_turn q mod length (q_consumers q) < length (q_consumers q)" by simp
  with assms(2) have "hasRoom (the_conn b (cs_owner (q_consumers q ! (q_turn q mod length (q_consumers q)))))
      (cs_channel (q_consumers q ! (q_turn q mod length (q_consumers q))))"
    by (simp add: hasRoom_def)
  then show ?thesis by (simp add: next_consumer_def n Let_def)
qed

definition handed :: "Delivery \<Rightarrow> gostring \<times> nat \<times> Message" where
  "handed d = (d_Consumer d, d_Channel d, d_Message d)"

lemma push_sink:
  "map handed (cn_sink (the_conn (push_message k w b) c)) =
     map handed (cn_sink (the_conn b c)) @ (if cs_owner k = c then [(cs_tag k, cs_channel k, pe_message w)] else [])"
  by (simp add: push_message_def hold_message_def Deliver_def set_queue_def set_conn_def handed_def Let_def split_beta)

lemma dispatch_rota:
  assumes "q_consumers (the_queue b t) = ks" "ks \<noteq> []" "\<forall>k \<in> set ks. cn_prefetch (the_conn b (cs_owner k)) (cs_channel k) = 0"
  shows "q_ready (the_queue (dispatch t b) t) = [] \<and>
    map handed (cn_sink (the_conn (dispatch t b) c)) = map handed (cn_sink (the_conn b c)) @
      [(cs_tag k, cs_channel k, pe_message w). (k, w) \<leftarrow> rota ks (q_turn (the_queue b t)) (q_ready (the_queue b t)), cs_owner k = c]"
  using assms
proof (induction "q_ready (the_queue b t)" arbitrary: b)
  case Nil
  then have "dispatch t b = b" by (subst dispatch.simps) simp
  then show ?case using Nil by (simp add: rota_def)
next
  case (Cons w rest)
  let ?q = "the_queue b t" and ?n = "length ks"
  let ?k = "ks ! (q_turn ?q mod ?n)"
  let ?b = "push_message ?k w (set_queue t (?q\<lparr>q_turn := (q_turn ?q + 1) mod ?n, q_ready := rest\<rparr>) b)"
  note r = Cons.hyps(2) [symmetric]
  have d: "dispatch t b = dispatch t ?b"
    using next_unlimited [of ?q b] Cons.prems by (subst dispatch.simps) (simp add: r)
  have "q_ready (the_queue (dispatch t ?b) t) = [] \<and>
    map handed (cn_sink (the_conn (dispatch t ?b) c)) = map handed (cn_sink (the_conn ?b c)) @
      [(cs_tag k, cs_channel k, pe_message w). (k, w) \<leftarrow> rota ks (q_turn (the_queue ?b t)) (q_ready (the_queue ?b t)), cs_owner k = c]"
    by (rule Cons.hyps(1)) (use Cons.prems in \<open>simp_all add: set_queue_def\<close>)
  then show ?case unfolding d by (simp add: r rota_Cons push_sink set_queue_def)
qed

text \<open>Consumers without a prefetch share a queue strictly in turn: the waiting messages are handed out in
  order, the i-th to the consumer i places after the one whose turn it is, and every connection is
  pushed exactly the messages that fell to its own consumers, in that order.\<close>

theorem consumers_take_turns:
  assumes "q_consumers (the_queue b t) = ks" "ks \<noteq> []"
    "\<forall>k \<in> set ks. cn_prefetch (the_conn b (cs_owner k)) (cs_channel k) = 0"
  shows "q_ready (the_queue (dispatch t b) t) = [] \<and>
    map handed (cn_sink (the_conn (dispatch t b) c)) = map handed (cn_sink (the_conn b c)) @
      [(cs_tag k, cs_channel k, pe_message w). (k, w) \<leftarrow> rota ks (q_turn (the_queue b t)) (q_ready (the_queue b t)), cs_owner k = c]"
  by (rule dispatch_rota [OF assms])

theorem consumers_take_turns_witness:
  "map handed (cn_sink (the_conn (dispatch 0 (sample_broker 0)) 0)) = [(''a'', 1, parcel ''x''), (''a'', 1, parcel ''z'')] \<and>
   map handed (cn_sink (the_conn (dispatch 0 (sample_broker 0)) 1)) = [(''b'', 7, parcel ''y'')]"
proof -
  let ?b = "sample_broker 0"
  let ?ks = "q_consumers (the_queue ?b 0)"
  have pre: "?ks \<noteq> []" "\<forall>k \<in> set ?ks. cn_prefetch (the_conn ?b (cs_owner k)) (cs_channel k) = 0"
    by (simp_all add: sample_broker_def empty_connection_def)
  have sinks: "cn_sink (the_conn ?b 0) = []" "cn_sink (the_conn ?b 1) = []"
    by (simp_all add: sample_broker_def empty_connection_def)
  have turns: "rota ?ks (q_turn (the_queue ?b 0)) (q_ready (the_queue ?b 0)) =
      zip [?ks ! 0, ?ks ! 1, ?ks ! 0] (q_ready (the_queue ?b 0))"
    by (simp add: rota_def sample_broker_def upt_rec numeral_2_eq_2)
  have "map handed (cn_sink (the_conn (dispatch 0 ?b) 0)) = [(''a'', 1, parcel ''x''), (''a'', 1, parcel ''z'')]"
    using consumers_take_turns [OF refl pre, of 0] by (simp only: sinks turns) (simp add: sample_broker_def)
  moreover have "map handed (cn_sink (the_conn (dispatch 0 ?b) 1)) = [(''b'', 7, parcel ''y'')]"
    using consumers_take_turns [OF refl pre, of 1] by (simp only: sinks turns) (simp add: sample_broker_def)
  ultimately show ?thesis by blast
qed

section \<open>Routing\<close>

lemma destinations_once: "distinct (destinations b name key)"
  by (auto simp: destinations_def reached_loop_eq split: option.split)

lemma reaches_iff:
  "reaches e pat key \<longleftrightarrow>
     (if ex_kind e = ''fanout'' then True
      else if ex_kind e = ''topic'' then topic_lang (Split_on (CHR ''.'') pat) (Split_on (CHR ''.'') key)
      else pat = key)"
  by (simp add: reaches_def topicMatches_def wordsMatch_lang kindFanout_def kindTopic_def topicSeparator_def)

text \<open>C23. A message reaches each queue at most once, however many of its bindings match, and exactly the right
  ones: on the default exchange the queue its key names, on a fanout every bound queue, on a direct
  exchange those bound under that very key, on a topic exchange those bound under a pattern whose
  words can be laid over the key's words, \<open>*\<close> over one and \<open>#\<close> over any number.\<close>

theorem routed_once:
  "distinct (destinations b name key) \<and>
   (t \<in> set (destinations b name key) \<longleftrightarrow>
      (if name = [] then map_of (br_queues b) key = Some t
       else (\<exists>e. map_of (br_exchanges b) name = Some e \<and> (\<exists>bd \<in> set (ex_bindings e). bi_target bd = t \<and>
               (if ex_kind e = ''fanout'' then True
                else if ex_kind e = ''topic'' then topic_lang (Split_on (CHR ''.'') (bi_key bd)) (Split_on (CHR ''.'') key)
                else bi_key bd = key)))))"
proof (cases "name = []")
  case False
  then show ?thesis using destinations_once [of b name key]
    by (cases "map_of (br_exchanges b) name") (auto simp: destinations_def reached_loop_eq reaches_iff defaultExchange_def)
qed (auto simp: destinations_def defaultExchange_def split: option.split)

section \<open>Two departures\<close>

definition queue_request :: "gostring \<Rightarrow> gostring \<Rightarrow> request \<Rightarrow> queue_op" where
  "queue_request kind target r = \<lparr>op_Emulator = ''queue'', op_Kind = kind, op_Target = target, op_Gauges = [], op_Payload = r\<rparr>"

definition two_workers :: "event list" where
  "two_workers = [Arrive, Arrive, Send [] 0 (queue_request KindDeclare ''jobs'' (Declare False)),
     Send [] 0 (queue_request KindConsume ''jobs'' (Consume [] 1 True)),
     Send [] 1 (queue_request KindConsume ''jobs'' (Consume [] 1 True)),
     Send [] 1 (queue_request KindCancel [] (Cancel ''amq.ctag-1'')),
     Send [] 0 (queue_request KindPublish ''jobs'' (Publish (parcel ''x'') False))]"

lemma two_workers_end:
  "(\<lambda>b. (map cs_owner (q_consumers (the_queue b 0)), cn_consumers (the_conn b 1), map fst (cn_consumers (the_conn b 0)),
      map (m_Body \<circ> d_Message) (cn_sink (the_conn b 1)), cn_sink (the_conn b 0))) (foldl advance New_broker two_workers) =
    ([1], [], [''amq.ctag-1''], [''x''], [])"
  by code_simp

text \<open>C29. Cancelling the wrong consumer: the server numbers the consumer tags it makes up per connection, but a queue
  looks for the consumer to drop by tag alone. Two connections that consume one queue under generated
  tags share the tag \<open>amq.ctag-1\<close>; when the second cancels its own, the first one's is dropped, and the
  next message is pushed to the connection that cancelled.\<close>

theorem cancel_drops_the_other:
  "map cs_owner (q_consumers (the_queue (foldl advance New_broker two_workers) 0)) = [1] \<and>
   cn_consumers (the_conn (foldl advance New_broker two_workers) 1) = [] \<and>
   map fst (cn_consumers (the_conn (foldl advance New_broker two_workers) 0)) = [''amq.ctag-1''] \<and>
   map (m_Body \<circ> d_Message) (cn_sink (the_conn (foldl advance New_broker two_workers) 1)) = [''x''] \<and>
   cn_sink (the_conn (foldl advance New_broker two_workers) 0) = []"
  using two_workers_end by simp

definition batch_refused :: "event list" where
  "batch_refused = [Arrive, Send [] 0 (queue_request KindConsume ''jobs'' (Consume ''w'' 1 False)),
     Send [] 0 (queue_request KindNack [] (Nack 0 1 True True))]"

definition two_jobs :: topology where
  "two_jobs = \<lparr>tp_Exchanges = [], tp_Queues = [\<lparr>sq_Name = ''jobs'', sq_Bind = [], sq_Messages = [''x'', ''y'']\<rparr>]\<rparr>"

text \<open>C30. A refused batch comes back reversed: \<open>selected\<close> sorts the tags of a batch so that requeueing puts it
  back in the order it went out, but \<open>settle\<close> dispatches after each one, so a consumer with room is
  handed the last message first.\<close>

theorem refused_batch_reversed:
  "map (\<lambda>d. (m_Body (d_Message d), d_Redelivered d))
       (cn_sink (the_conn (foldl advance (snd (queue_Seed (Some two_jobs) New_broker)) batch_refused) 0)) =
     [(''x'', False), (''y'', False), (''y'', True), (''x'', True)]"
  by code_simp

end
