(* ===== verification/AmqpWire.thy ===== *)
theory AmqpWire
  imports Mq
begin

text \<open>
  AMQP 0-9-1 on the wire: the frames of \<open>internal/amqp/frame.go\<close>, the field types of \<open>wire.go\<close>, the methods of
  \<open>method.go\<close> and the handshake of \<open>amqp.go\<close>. Bytes are characters; integers of 8 to 64 bits are natural
  numbers written and read big-endian, so writing cuts them to their width. A \<open>reader\<close> is the Go struct;
  a \<open>writer\<close> is the bytes it has, each of its methods the bytes it appends.
\<close>

section \<open>Integers\<close>

fun be_bytes :: "nat \<Rightarrow> nat \<Rightarrow> gostring" where
  "be_bytes 0 n = []"
| "be_bytes (Suc k) n = be_bytes k (n div 256) @ [char_of (n mod 256)]"

definition be_value :: "gostring \<Rightarrow> nat" where
  "be_value bs = foldl (\<lambda>v c. 256 * v + of_char c) 0 bs"

lemma length_be_bytes [simp]: "length (be_bytes k n) = k"
  by (induction k arbitrary: n) simp_all

lemma be_value_bytes [simp]: "be_value (be_bytes k n) = n mod 256 ^ k"
proof (induction k arbitrary: n)
  case (Suc k)
  have "256 * (n div 256 mod 256 ^ k) + n mod 256 = n mod 256 ^ Suc k"
    by (simp add: mod_mult2_eq)
  with Suc show ?case by (simp add: be_value_def)
qed (simp add: be_value_def)

section \<open>Frames\<close>

definition frameMethod :: nat where "frameMethod = 1"
definition frameHeader :: nat where "frameHeader = 2"
definition frameBody :: nat where "frameBody = 3"
definition frameHeartbeat :: nat where "frameHeartbeat = 8"
definition frameEnd :: char where "frameEnd = CHR 0xCE"
definition frameHeaderSize :: nat where "frameHeaderSize = 7"
definition frameOverhead :: nat where "frameOverhead = frameHeaderSize + 1"

definition protocolHeader :: gostring where
  "protocolHeader = ''AMQP'' @ [CHR 0x00, CHR 0x00, CHR 0x09, CHR 0x01]"

record frame =
  fr_kind :: nat
  fr_channel :: nat
  fr_payload :: gostring

datatype frame_error = FrameStreamEnded | FrameOverMaximum nat nat | FrameUnterminated char

definition readFrame :: "nat \<Rightarrow> gostring \<Rightarrow> (frame_error + frame) \<times> gostring" where
  "readFrame limit input =
     (if length input < frameHeaderSize then (Inl FrameStreamEnded, [])
      else (let head = take frameHeaderSize input; input = drop frameHeaderSize input;
                size' = be_value (drop 3 head)
            in if size' > limit then (Inl (FrameOverMaximum size' limit), input)
               else if length input < size' + 1 then (Inl FrameStreamEnded, [])
               else (let body = take (size' + 1) input; input = drop (size' + 1) input
                     in if body ! size' \<noteq> frameEnd then (Inl (FrameUnterminated (body ! size')), input)
                        else (Inr \<lparr>fr_kind = of_char (head ! 0), fr_channel = be_value (take 2 (drop 1 head)),
                                    fr_payload = take size' body\<rparr>, input))))"

definition encodeFrame :: "frame \<Rightarrow> gostring" where
  "encodeFrame f =
     [char_of (fr_kind f)] @ be_bytes 2 (fr_channel f) @ be_bytes 4 (length (fr_payload f)) @ fr_payload f @ [frameEnd]"

section \<open>Reading fields\<close>

definition maxShortString :: nat where "maxShortString = 255"
definition widestField :: nat where "widestField = 8"

record field_reader =
  rd_data :: gostring
  rd_at :: nat
  rd_truncated :: bool

definition reader_of :: "gostring \<Rightarrow> field_reader" where
  "reader_of payload = \<lparr>rd_data = payload, rd_at = 0, rd_truncated = False\<rparr>"

text \<open>A read past the end hands back zeroes. No caller asks for a negative count, which the Go type admits.\<close>

definition take_field :: "nat \<Rightarrow> field_reader \<Rightarrow> gostring \<times> field_reader" where
  "take_field count r =
     (if rd_truncated r \<or> rd_at r + count > length (rd_data r)
      then (replicate (min count widestField) (CHR 0x00), r\<lparr>rd_truncated := True\<rparr>)
      else (take count (drop (rd_at r) (rd_data r)), r\<lparr>rd_at := rd_at r + count\<rparr>))"

definition read_number :: "nat \<Rightarrow> field_reader \<Rightarrow> nat \<times> field_reader" where
  "read_number width r = (case take_field width r of (bs, r) \<Rightarrow> (be_value bs, r))"

definition read_octet :: "field_reader \<Rightarrow> nat \<times> field_reader" where "read_octet = read_number 1"
definition read_short :: "field_reader \<Rightarrow> nat \<times> field_reader" where "read_short = read_number 2"
definition read_long :: "field_reader \<Rightarrow> nat \<times> field_reader" where "read_long = read_number 4"
definition read_longlong :: "field_reader \<Rightarrow> nat \<times> field_reader" where "read_longlong = read_number 8"

definition read_shortstr :: "field_reader \<Rightarrow> gostring \<times> field_reader" where
  "read_shortstr r = (case read_octet r of (n, r) \<Rightarrow> take_field n r)"

definition read_longstr :: "field_reader \<Rightarrow> gostring \<times> field_reader" where
  "read_longstr r = (case read_long r of (n, r) \<Rightarrow> take_field n r)"

definition read_table :: "field_reader \<Rightarrow> gostring \<times> field_reader" where "read_table = read_longstr"

definition read_rest :: "field_reader \<Rightarrow> gostring \<times> field_reader" where
  "read_rest r = take_field (length (rd_data r) - rd_at r) r"

definition reader_done :: "field_reader \<Rightarrow> bool" where "reader_done r = (\<not> rd_truncated r)"

definition bits_at :: "nat \<Rightarrow> nat \<Rightarrow> bool" where "bits_at b index = odd (b div 2 ^ index)"

definition read_bits :: "field_reader \<Rightarrow> nat \<times> field_reader" where "read_bits = read_octet"

section \<open>Writing fields\<close>

definition RuneStart :: "char \<Rightarrow> bool" where "RuneStart c = (let n = of_char c :: nat in n < 128 \<or> 192 \<le> n)"

fun clip_loop :: "gostring \<Rightarrow> nat \<Rightarrow> nat" where
  "clip_loop value 0 = 0"
| "clip_loop value (Suc n) = (if \<not> RuneStart (value ! Suc n) then clip_loop value n else Suc n)"

definition clip :: "gostring \<Rightarrow> nat \<Rightarrow> gostring" where
  "clip value limit = (if length value \<le> limit then value else take (clip_loop value limit) value)"

definition put_octet :: "nat \<Rightarrow> gostring" where "put_octet v = be_bytes 1 v"
definition put_short :: "nat \<Rightarrow> gostring" where "put_short v = be_bytes 2 v"
definition put_long :: "nat \<Rightarrow> gostring" where "put_long v = be_bytes 4 v"
definition put_longlong :: "nat \<Rightarrow> gostring" where "put_longlong v = be_bytes 8 v"

definition put_shortstr :: "gostring \<Rightarrow> gostring" where
  "put_shortstr value = (let trimmed = clip value maxShortString in put_octet (length trimmed) @ trimmed)"

definition put_longstr :: "gostring \<Rightarrow> gostring" where "put_longstr value = put_long (length value) @ value"

definition put_table :: "gostring \<Rightarrow> gostring" where "put_table = put_longstr"

fun packed_flags :: "bool list \<Rightarrow> nat" where
  "packed_flags [] = 0"
| "packed_flags (v # vs) = of_bool v + 2 * packed_flags vs"

definition put_flags :: "bool list \<Rightarrow> gostring" where "put_flags values = put_octet (packed_flags values)"

definition field_text :: "gostring \<Rightarrow> gostring \<Rightarrow> gostring" where
  "field_text key value = put_shortstr key @ ''S'' @ put_longstr value"

definition field_flag :: "gostring \<Rightarrow> bool \<Rightarrow> gostring" where
  "field_flag key value = put_shortstr key @ ''t'' @ put_octet (if value then 1 else 0)"

definition field_nested :: "gostring \<Rightarrow> gostring \<Rightarrow> gostring" where
  "field_nested key inner = put_shortstr key @ ''F'' @ put_table inner"

section \<open>Methods\<close>

text \<open>A class and a method in one number.\<close>

definition methodID :: "nat \<Rightarrow> nat \<Rightarrow> nat" where "methodID cls method = cls * 65536 + method"

definition connectionStart :: nat where "connectionStart = methodID 10 10"
definition connectionStartOk :: nat where "connectionStartOk = methodID 10 11"
definition connectionTune :: nat where "connectionTune = methodID 10 30"
definition connectionTuneOk :: nat where "connectionTuneOk = methodID 10 31"
definition connectionOpen :: nat where "connectionOpen = methodID 10 40"
definition connectionOpenOk :: nat where "connectionOpenOk = methodID 10 41"
definition connectionClose :: nat where "connectionClose = methodID 10 50"
definition connectionCloseOk :: nat where "connectionCloseOk = methodID 10 51"
definition channelOpen :: nat where "channelOpen = methodID 20 10"
definition channelOpenOk :: nat where "channelOpenOk = methodID 20 11"
definition channelClose :: nat where "channelClose = methodID 20 40"
definition channelCloseOk :: nat where "channelCloseOk = methodID 20 41"
definition exchangeDeclare :: nat where "exchangeDeclare = methodID 40 10"
definition exchangeDeclareOk :: nat where "exchangeDeclareOk = methodID 40 11"
definition queueDeclare :: nat where "queueDeclare = methodID 50 10"
definition queueDeclareOk :: nat where "queueDeclareOk = methodID 50 11"
definition queueBind :: nat where "queueBind = methodID 50 20"
definition queueBindOk :: nat where "queueBindOk = methodID 50 21"
definition queuePurge :: nat where "queuePurge = methodID 50 30"
definition queuePurgeOk :: nat where "queuePurgeOk = methodID 50 31"
definition queueDelete :: nat where "queueDelete = methodID 50 40"
definition queueDeleteOk :: nat where "queueDeleteOk = methodID 50 41"
definition basicQos :: nat where "basicQos = methodID 60 10"
definition basicQosOk :: nat where "basicQosOk = methodID 60 11"
definition basicConsume :: nat where "basicConsume = methodID 60 20"
definition basicConsumeOk :: nat where "basicConsumeOk = methodID 60 21"
definition basicCancel :: nat where "basicCancel = methodID 60 30"
definition basicCancelOk :: nat where "basicCancelOk = methodID 60 31"
definition basicPublish :: nat where "basicPublish = methodID 60 40"
definition basicReturn :: nat where "basicReturn = methodID 60 50"
definition basicDeliver :: nat where "basicDeliver = methodID 60 60"
definition basicGet :: nat where "basicGet = methodID 60 70"
definition basicGetOk :: nat where "basicGetOk = methodID 60 71"
definition basicGetEmpty :: nat where "basicGetEmpty = methodID 60 72"
definition basicAck :: nat where "basicAck = methodID 60 80"
definition basicReject :: nat where "basicReject = methodID 60 90"
definition basicNack :: nat where "basicNack = methodID 60 120"
definition confirmSelect :: nat where "confirmSelect = methodID 85 10"
definition confirmSelectOk :: nat where "confirmSelectOk = methodID 85 11"

definition noReply :: nat where "noReply = 0"
definition noMethod :: nat where "noMethod = 0"
definition basicClass :: nat where "basicClass = 60"

lemmas method_ids = methodID_def connectionStart_def connectionStartOk_def connectionTune_def connectionTuneOk_def connectionOpen_def connectionOpenOk_def connectionClose_def connectionCloseOk_def channelOpen_def channelOpenOk_def channelClose_def channelCloseOk_def exchangeDeclare_def exchangeDeclareOk_def queueDeclare_def queueDeclareOk_def queueBind_def queueBindOk_def queuePurge_def queuePurgeOk_def queueDelete_def queueDeleteOk_def basicQos_def basicQosOk_def basicConsume_def basicConsumeOk_def basicCancel_def basicCancelOk_def basicPublish_def basicReturn_def basicDeliver_def basicGet_def basicGetOk_def basicGetEmpty_def basicAck_def basicReject_def basicNack_def confirmSelect_def confirmSelectOk_def
  noReply_def noMethod_def

definition method_class :: "nat \<Rightarrow> nat" where "method_class m = m div 65536 mod 65536"
definition method_method :: "nat \<Rightarrow> nat" where "method_method m = m mod 65536"

definition encode_method :: "nat \<Rightarrow> gostring" where
  "encode_method m = put_short (method_class m) @ put_short (method_method m)"

definition decode_method :: "gostring \<Rightarrow> nat \<times> field_reader" where
  "decode_method payload =
     (let (cls, r) = read_short (reader_of payload); (method, r) = read_short r in (methodID cls method, r))"

section \<open>The handshake\<close>

definition amqp_Port :: nat where "amqp_Port = 5672"
definition amqp_name :: gostring where "amqp_name = ''queue''"
definition proposedChannelMax :: nat where "proposedChannelMax = 2047"
definition proposedFrameMax :: nat where "proposedFrameMax = 131072"
definition proposedHeartbeat :: nat where "proposedHeartbeat = 0"
definition minimumFrameMax :: nat where "minimumFrameMax = 4096"
definition mechanisms :: gostring where "mechanisms = ''PLAIN''"
definition locales :: gostring where "locales = ''en_US''"

record tuning =
  tn_frameMax :: nat
  tn_heartbeat :: int

datatype handshake_error =
    HandshakeRead frame_error
  | NotTheHeader gostring
  | WrongFrame nat nat
  | WrongMethod nat nat
  | TuneTruncated
  | FrameMaxTooSmall nat

text \<open>A handshake reads the client's bytes and answers with its own; an answer that cannot be written is not
  noticed, so what is offered to the client is simply returned.\<close>

definition greet :: "gostring \<Rightarrow> handshake_error option \<times> gostring \<times> gostring" where
  "greet input =
     (if length input < length protocolHeader then (Some (HandshakeRead FrameStreamEnded), [], [])
      else (let offered = take (length protocolHeader) input; input = drop (length protocolHeader) input
            in if offered \<noteq> protocolHeader then (Some (NotTheHeader offered), protocolHeader, input)
               else (None, [], input)))"

definition expect_method :: "nat \<Rightarrow> gostring \<Rightarrow> (handshake_error + field_reader) \<times> gostring" where
  "expect_method wanted input =
     (case readFrame proposedFrameMax input of
        (Inl err, input) \<Rightarrow> (Inl (HandshakeRead err), input)
      | (Inr received, input) \<Rightarrow>
          if fr_kind received \<noteq> frameMethod \<or> fr_channel received \<noteq> 0
          then (Inl (WrongFrame (fr_kind received) (fr_channel received)), input)
          else (case decode_method (fr_payload received) of (i, arguments) \<Rightarrow>
                  if i \<noteq> wanted then (Inl (WrongMethod i wanted), input) else (Inr arguments, input)))"

definition accepted_tuning :: "gostring \<Rightarrow> (handshake_error + tuning) \<times> gostring" where
  "accepted_tuning input =
     (case expect_method connectionTuneOk input of
        (Inl err, input) \<Rightarrow> (Inl err, input)
      | (Inr r, input) \<Rightarrow>
          (let (_, r) = read_short r; (frameMax, r) = read_long r; (heartbeat, r) = read_short r
           in if \<not> reader_done r then (Inl TuneTruncated, input)
              else if frameMax \<noteq> 0 \<and> frameMax < minimumFrameMax then (Inl (FrameMaxTooSmall frameMax), input)
              else (let frameMax = (if frameMax = 0 \<or> frameMax > proposedFrameMax then proposedFrameMax else frameMax)
                    in (Inr \<lparr>tn_frameMax = frameMax, tn_heartbeat = int heartbeat * 1000000000 div 2\<rparr>, input))))"

definition serverProperties :: gostring where
  "serverProperties =
     (let capabilities = field_flag ''publisher_confirms'' True @ field_flag ''basic.nack'' True @
            field_flag ''consumer_cancel_notify'' False
      in field_text ''product'' ''emu'' @ field_text ''platform'' ''Go'' @
         field_text ''information'' (''an emulated broker '' @ [CHR 0xE2, CHR 0x80, CHR 0x94] @ '' see plans/emu-service.md'') @
         field_nested ''capabilities'' capabilities)"

definition method_frame :: "nat \<Rightarrow> gostring \<Rightarrow> frame" where
  "method_frame channel payload = \<lparr>fr_kind = frameMethod, fr_channel = channel, fr_payload = payload\<rparr>"

definition start_frame :: frame where
  "start_frame = method_frame 0 (encode_method connectionStart @ put_octet 0 @ put_octet 9 @ put_table serverProperties @
     put_longstr mechanisms @ put_longstr locales)"

definition tune_frame :: frame where
  "tune_frame = method_frame 0 (encode_method connectionTune @ put_short proposedChannelMax @ put_long proposedFrameMax @
     put_short proposedHeartbeat)"

definition negotiate :: "gostring \<Rightarrow> (handshake_error + tuning) \<times> gostring \<times> gostring" where
  "negotiate input =
     (case expect_method connectionStartOk input of
        (Inl err, input) \<Rightarrow> (Inl err, encodeFrame start_frame, input)
      | (Inr _, input) \<Rightarrow>
          (let sent = encodeFrame start_frame @ encodeFrame tune_frame
           in case accepted_tuning input of
                (Inl err, input) \<Rightarrow> (Inl err, sent, input)
              | (Inr agreed, input) \<Rightarrow>
                  (case expect_method connectionOpen input of
                     (Inl err, input) \<Rightarrow> (Inl err, sent, input)
                   | (Inr _, input) \<Rightarrow> (Inr agreed, sent, input))))"

section \<open>Round trips\<close>

definition frame_fits :: "nat \<Rightarrow> frame \<Rightarrow> bool" where
  "frame_fits limit f \<longleftrightarrow> fr_kind f < 256 \<and> fr_channel f < 65536 \<and> length (fr_payload f) \<le> limit"

lemma readFrame_encoded:
  assumes "frame_fits limit f" "limit < 2 ^ 32"
  shows "readFrame limit (encodeFrame f @ rest) = (Inr f, rest)"
proof -
  let ?h = "[char_of (fr_kind f)] @ be_bytes 2 (fr_channel f) @ be_bytes 4 (length (fr_payload f))"
  have h: "take 7 (encodeFrame f @ rest) = ?h" "drop 7 (encodeFrame f @ rest) = fr_payload f @ [frameEnd] @ rest"
    "7 \<le> length (encodeFrame f @ rest)"
    by (simp_all add: encodeFrame_def)
  have v: "drop 3 ?h = be_bytes 4 (length (fr_payload f))" "take 2 (drop 1 ?h) = be_bytes 2 (fr_channel f)" by simp_all
  have n: "be_value (drop 3 ?h) = length (fr_payload f)" "be_value (take 2 (drop 1 ?h)) = fr_channel f"
    unfolding v using assms by (simp_all add: frame_fits_def)
  have k: "of_char (?h ! 0) = fr_kind f" using assms by (simp add: frame_fits_def)
  show ?thesis
    using assms(1) h(3) unfolding readFrame_def frameHeaderSize_def Let_def h(1,2) n k
    by (auto simp: frame_fits_def nth_append)
qed

text \<open>What the reader goroutine of a session passes on before it stops, and why it stopped.\<close>

lemma readFrame_shorter: "readFrame limit input = (Inr f, rest) \<Longrightarrow> length rest < length input"
  by (auto simp: readFrame_def frameHeaderSize_def Let_def split: if_splits)

function read_frames :: "nat \<Rightarrow> gostring \<Rightarrow> frame list \<times> frame_error" where
  "read_frames limit input =
     (case readFrame limit input of
        (Inl err, _) \<Rightarrow> ([], err)
      | (Inr received, input) \<Rightarrow> (case read_frames limit input of (fs, err) \<Rightarrow> (received # fs, err)))"
  by pat_completeness auto
termination by (relation "measure (\<lambda>(limit, input). length input)") (auto dest: readFrame_shorter [OF sym])

declare read_frames.simps [simp del]

definition frame_dec :: "nat \<Rightarrow> gostring \<Rightarrow> (frame \<times> gostring) option" where
  "frame_dec limit input = (case readFrame limit input of (Inr f, rest) \<Rightarrow> Some (f, rest) | _ \<Rightarrow> None)"

interpretation amqp: codec encodeFrame "frame_dec proposedFrameMax" "frame_fits proposedFrameMax"
  by unfold_locales (simp add: frame_dec_def readFrame_encoded proposedFrameMax_def)

lemma frames_read:
  "list_all (frame_fits limit) fs \<Longrightarrow> limit < 2 ^ 32 \<Longrightarrow> length rest < frameHeaderSize \<Longrightarrow>
     read_frames limit (concat (map encodeFrame fs) @ rest) = (fs, FrameStreamEnded)"
proof (induction fs)
  case Nil
  then show ?case by (subst read_frames.simps) (simp add: readFrame_def)
next
  case (Cons f fs)
  then show ?case by (subst read_frames.simps) (simp add: readFrame_encoded)
qed

section \<open>Fields\<close>

text \<open>A reader that has read \<open>pre\<close> and has \<open>left\<close> before it.\<close>

definition reading_at :: "gostring \<Rightarrow> gostring \<Rightarrow> field_reader" where
  "reading_at pre left = \<lparr>rd_data = pre @ left, rd_at = length pre, rd_truncated = False\<rparr>"

named_theorems field_simps

lemma reader_start [field_simps]: "reader_of payload = reading_at [] payload"
  by (simp add: reader_of_def reading_at_def)

lemma take_field_at: "length xs = n \<Longrightarrow> take_field n (reading_at pre (xs @ left)) = (xs, reading_at (pre @ xs) left)"
  by (auto simp: take_field_def reading_at_def)

lemma done_at [field_simps]: "reader_done (reading_at pre left)"
  by (simp add: reader_done_def reading_at_def)

lemma read_numbers [field_simps]:
  "read_octet (reading_at pre (put_octet v @ left)) = (v mod 256, reading_at (pre @ put_octet v) left)"
  "read_bits (reading_at pre (put_octet v @ left)) = (v mod 256, reading_at (pre @ put_octet v) left)"
  "read_short (reading_at pre (put_short v @ left)) = (v mod 65536, reading_at (pre @ put_short v) left)"
  "read_long (reading_at pre (put_long v @ left)) = (v mod 2 ^ 32, reading_at (pre @ put_long v) left)"
  "read_longlong (reading_at pre (put_longlong v @ left)) = (v mod 2 ^ 64, reading_at (pre @ put_longlong v) left)"
  using take_field_at [of "be_bytes 1 v" 1 pre left]
  by (simp_all add: read_octet_def read_bits_def read_short_def read_long_def read_longlong_def read_number_def put_octet_def
      put_short_def put_long_def put_longlong_def take_field_at del: be_bytes.simps)

lemma read_shortstr_at [field_simps]:
  assumes "length v \<le> 255"
  shows "read_shortstr (reading_at pre (put_shortstr v @ left)) = (v, reading_at (pre @ put_shortstr v) left)"
proof -
  have "put_shortstr v = put_octet (length v) @ v" using assms by (simp add: put_shortstr_def clip_def maxShortString_def Let_def)
  then show ?thesis using assms by (simp add: read_shortstr_def read_numbers take_field_at)
qed

lemma read_table_at [field_simps]:
  "length v < 2 ^ 32 \<Longrightarrow> read_table (reading_at pre (put_table v @ left)) = (v, reading_at (pre @ put_table v) left)"
  by (simp add: read_table_def read_longstr_def put_table_def put_longstr_def read_numbers take_field_at)

lemma read_rest_at [field_simps]: "read_rest (reading_at pre left) = (left, reading_at (pre @ left) [])"
  using take_field_at [of left "length left" pre "[]"] by (simp add: read_rest_def reading_at_def)

lemma decode_encoded [field_simps]:
  assumes "m < 2 ^ 32"
  shows "decode_method (encode_method m @ left) = (m, reading_at (encode_method m) left)"
proof -
  have "m div 65536 * 65536 + m mod 65536 = m" by simp
  moreover have "m div 65536 < 65536" using assms by simp
  ultimately show ?thesis
    by (simp add: decode_method_def encode_method_def reader_start read_numbers methodID_def method_class_def method_method_def)
qed

lemma packed_flag_at: "length vs \<le> 8 \<Longrightarrow> i < length vs \<Longrightarrow> bits_at (packed_flags vs) i = vs ! i"
proof (induction vs arbitrary: i)
  case (Cons v vs)
  then show ?case
    by (cases i) (auto simp: bits_at_def div_mult2_eq)
qed simp

text \<open>A clipped string is the start of what was to be said, fits its field, and is not cut inside a rune.\<close>

lemma clip_loop_le: "clip_loop value n \<le> n"
  by (induction n) auto

lemma clip_loop_start: "0 < clip_loop value n \<Longrightarrow> RuneStart (value ! clip_loop value n)"
  by (induction n) auto

end
