(* ===== verification/AmqpSession.thy ===== *)
theory AmqpSession
  imports AmqpWire
begin

text \<open>
  One AMQP connection, \<open>internal/amqp/session.go\<close>, \<open>decode.go\<close> and \<open>outbox.go\<close>. The session is the Go struct with
  its output made explicit (what is buffered, what was sent, and whether writes still reach the client).
  \<open>Next\<close> waits on three channels at once; which of them comes first is a list of wake-ups it is given. The
  gauges of an operation are read from the backend while other connections change it, so each frame that
  arrives comes with the meter of that moment. A call that returns a nil error returns \<open>None\<close>.
\<close>

section \<open>State\<close>

definition codeNoRoute :: nat where "codeNoRoute = 312"
definition codeFrameError :: nat where "codeFrameError = 501"
definition codeSyntaxError :: nat where "codeSyntaxError = 502"
definition codeCommandInvalid :: nat where "codeCommandInvalid = 503"
definition codeChannelError :: nat where "codeChannelError = 504"
definition codeUnexpectedFrame :: nat where "codeUnexpectedFrame = 505"
definition codeNotImplemented :: nat where "codeNotImplemented = 540"
definition codeInternalError :: nat where "codeInternalError = 541"
definition defaultFaultCode :: nat where "defaultFaultCode = 506"

definition errRefused :: go_error where "errRefused = PlainErr ''amqp: the connection was refused by a fault rule''"
definition emptyProperties :: gostring where "emptyProperties = [CHR 0x00, CHR 0x00]"
definition amqp_defaultExchange :: gostring where "amqp_defaultExchange = []"

type_synonym meter = "gostring \<Rightarrow> gostring \<Rightarrow> (gostring \<times> int) list"

record channel =
  ch_closing :: bool
  ch_confirms :: bool
  ch_published :: nat
  ch_consumers :: "(gostring \<times> gostring) list"

record task =
  t_op :: "request op"
  t_channel :: nat
  t_cause :: nat
  t_answer :: nat

record publishing =
  pu_channel :: nat
  pu_message :: Message
  pu_mandatory :: bool
  pu_bodySize :: nat

record outbox =
  ob_waiting :: "Delivery list"
  ob_woken :: bool

record amqp_session =
  a_agreed :: tuning
  a_channels :: "(nat \<times> channel) list"
  a_staged :: "task list"
  a_active :: task
  a_pending :: "publishing option"
  a_deliveries :: outbox
  a_fromQueue :: "(nat \<times> gostring) list"
  a_alreadyOpen :: int
  a_greeted :: bool
  a_buffered :: gostring
  a_sent :: gostring
  a_writable :: bool

definition queue_op_of :: "gostring \<Rightarrow> gostring \<Rightarrow> request \<Rightarrow> request op" where
  "queue_op_of kind target payload =
     \<lparr>op_Emulator = [], op_Kind = kind, op_Target = target, op_Gauges = [], op_Payload = payload\<rparr>"

definition newOutbox :: outbox where "newOutbox = \<lparr>ob_waiting = [], ob_woken = False\<rparr>"

definition outbox_Deliver :: "Delivery \<Rightarrow> outbox \<Rightarrow> outbox" where
  "outbox_Deliver d o' = o'\<lparr>ob_waiting := ob_waiting o' @ [d], ob_woken := True\<rparr>"

definition outbox_take :: "outbox \<Rightarrow> Delivery list \<times> outbox" where
  "outbox_take o' = (ob_waiting o', o'\<lparr>ob_waiting := []\<rparr>)"

definition new_amqp_session :: "tuning \<Rightarrow> int \<Rightarrow> bool \<Rightarrow> amqp_session" where
  "new_amqp_session agreed alreadyOpen writable =
     \<lparr>a_agreed = agreed, a_channels = [], a_staged = [],
      a_active = \<lparr>t_op = queue_op_of [] [] NoRequest, t_channel = 0, t_cause = 0, t_answer = 0\<rparr>, a_pending = None,
      a_deliveries = newOutbox, a_fromQueue = [], a_alreadyOpen = alreadyOpen, a_greeted = False,
      a_buffered = [], a_sent = [], a_writable = writable\<rparr>"

section \<open>Writing\<close>

definition send :: "frame \<Rightarrow> amqp_session \<Rightarrow> amqp_session" where
  "send f s = s\<lparr>a_buffered := a_buffered s @ encodeFrame f\<rparr>"

definition amqp_flush :: "amqp_session \<Rightarrow> go_error option \<times> amqp_session" where
  "amqp_flush s =
     (if a_writable s then (None, s\<lparr>a_sent := a_sent s @ a_buffered s, a_buffered := []\<rparr>)
      else (Some (PlainErr ''write''), s))"

definition closure :: "nat \<Rightarrow> nat \<Rightarrow> nat \<Rightarrow> gostring \<Rightarrow> nat \<Rightarrow> frame" where
  "closure number i code reason cause =
     method_frame number (encode_method i @ put_short code @ put_shortstr reason @
       put_short (method_class cause) @ put_short (method_method cause))"

definition fatal :: "nat \<Rightarrow> nat \<Rightarrow> gostring \<Rightarrow> amqp_session \<Rightarrow> go_error option \<times> amqp_session" where
  "fatal code cause reason s =
     (Some (PlainErr (''amqp: '' @ reason)), snd (amqp_flush (send (closure 0 connectionClose code reason cause) s)))"

definition replyCodeOf :: "go_error \<Rightarrow> nat" where
  "replyCodeOf err =
     (case err of
        FaultErr fault \<Rightarrow>
          (case ParseUint 16 (f_Code fault) of
             Some code \<Rightarrow> if code > 0 then code else defaultFaultCode
           | None \<Rightarrow> defaultFaultCode)
      | ReplyCodeErr code _ \<Rightarrow> code
      | _ \<Rightarrow> codeInternalError)"

definition dotted :: "nat \<Rightarrow> gostring" where
  "dotted i = format_nat (method_class i) @ ''.'' @ format_nat (method_method i)"

text \<open>The body of a message in pieces of at most \<open>limit\<close> bytes. The Go loop steps by the limit, which the
  handshake keeps far above the overhead; a limit of zero would not end, and is cut off here.\<close>

function body_pieces :: "nat \<Rightarrow> gostring \<Rightarrow> gostring list" where
  "body_pieces limit body =
     (if body = [] \<or> limit = 0 then [] else take limit body # body_pieces limit (drop limit body))"
  by pat_completeness auto
termination by (relation "measure (\<lambda>(limit, body). length body)") auto

declare body_pieces.simps [simp del]

definition content_frames :: "nat \<Rightarrow> nat \<Rightarrow> Message \<Rightarrow> frame list" where
  "content_frames frameMax number message =
     (let properties = (if m_Properties message = [] then emptyProperties else m_Properties message)
      in \<lparr>fr_kind = frameHeader, fr_channel = number,
          fr_payload = put_short basicClass @ put_short 0 @ put_longlong (length (m_Body message)) @ properties\<rparr>
         # map (\<lambda>piece. \<lparr>fr_kind = frameBody, fr_channel = number, fr_payload = piece\<rparr>)
             (body_pieces (frameMax - frameOverhead) (m_Body message)))"

definition sendContent :: "nat \<Rightarrow> Message \<Rightarrow> amqp_session \<Rightarrow> amqp_session" where
  "sendContent number message s = fold send (content_frames (tn_frameMax (a_agreed s)) number message) s"

section \<open>Staging operations\<close>

definition op_gauges :: "meter \<Rightarrow> request op \<Rightarrow> (gostring \<times> int) list" where
  "op_gauges meter o' =
     (case op_Payload o' of
        Publish message _ \<Rightarrow> meter (m_Exchange message) (m_RoutingKey message)
      | _ \<Rightarrow> meter amqp_defaultExchange (op_Target o'))"

definition stage :: "meter \<Rightarrow> task \<Rightarrow> amqp_session \<Rightarrow> amqp_session" where
  "stage meter t s = s\<lparr>a_staged := a_staged s @ [t\<lparr>t_op := (t_op t)\<lparr>op_Gauges := op_gauges meter (t_op t)\<rparr>\<rparr>]\<rparr>"

definition decoded :: "meter \<Rightarrow> field_reader \<Rightarrow> task \<Rightarrow> amqp_session \<Rightarrow> go_error option \<times> amqp_session" where
  "decoded meter r t s =
     (if \<not> reader_done r
      then fatal codeSyntaxError (t_cause t) (''method '' @ dotted (t_cause t) @ '' ran off the end of its frame'') s
      else (None, stage meter t s))"

definition connectTask :: "meter \<Rightarrow> amqp_session \<Rightarrow> task" where
  "connectTask meter s =
     \<lparr>t_op = (queue_op_of KindConnect [] NoRequest)
        \<lparr>op_Gauges := AList.update ''connections'' (a_alreadyOpen s) (meter amqp_defaultExchange [])\<rparr>,
      t_channel = 0, t_cause = connectionOpen, t_answer = connectionOpenOk\<rparr>"

definition the_channel :: "nat \<Rightarrow> amqp_session \<Rightarrow> channel option" where
  "the_channel number s = map_of (a_channels s) number"

definition set_channel :: "nat \<Rightarrow> channel \<Rightarrow> amqp_session \<Rightarrow> amqp_session" where
  "set_channel number c s = s\<lparr>a_channels := AList.update number c (a_channels s)\<rparr>"

definition close_task :: "nat \<Rightarrow> channel \<Rightarrow> gostring \<Rightarrow> task" where
  "close_task number open' tag =
     \<lparr>t_op = queue_op_of KindCancel (the (map_of (ch_consumers open') tag)) (Cancel tag),
      t_channel = number, t_cause = channelClose, t_answer = noReply\<rparr>"

text \<open>The consumers are forgotten in the channel object, which matters only while the session still has it.\<close>

definition cancelConsumers :: "meter \<Rightarrow> nat \<Rightarrow> channel \<Rightarrow> amqp_session \<Rightarrow> amqp_session" where
  "cancelConsumers meter number open' s =
     (let s = fold (\<lambda>tag. stage meter (close_task number open' tag)) (sorted_keys (ch_consumers open')) s
      in case the_channel number s of
           None \<Rightarrow> s
         | Some _ \<Rightarrow> set_channel number (open'\<lparr>ch_consumers := []\<rparr>) s)"

definition unsupported :: "nat \<Rightarrow> nat \<Rightarrow> amqp_session \<Rightarrow> go_error option \<times> amqp_session" where
  "unsupported number i s =
     (let s = (case the_channel number s of Some c \<Rightarrow> set_channel number (c\<lparr>ch_closing := True\<rparr>) s | None \<Rightarrow> s)
      in amqp_flush (send (closure number channelClose codeNotImplemented (''emu does not implement method '' @ dotted i) i) s))"

section \<open>Decoding methods\<close>

definition declarePassive :: nat where "declarePassive = 0"
definition declareNoWait :: nat where "declareNoWait = 4"
definition bindNoWait :: nat where "bindNoWait = 0"
definition purgeNoWait :: nat where "purgeNoWait = 0"
definition deleteNoWait :: nat where "deleteNoWait = 2"
definition consumeNoAck :: nat where "consumeNoAck = 1"
definition consumeNoWait :: nat where "consumeNoWait = 3"
definition cancelNoWait :: nat where "cancelNoWait = 0"
definition publishMandatory :: nat where "publishMandatory = 0"
definition getNoAck :: nat where "getNoAck = 0"
definition ackMultiple :: nat where "ackMultiple = 0"
definition rejectRequeue :: nat where "rejectRequeue = 0"
definition nackMultiple :: nat where "nackMultiple = 0"
definition nackRequeue :: nat where "nackRequeue = 1"
definition confirmNoWait :: nat where "confirmNoWait = 0"

definition answered :: "nat \<Rightarrow> bool \<Rightarrow> nat" where "answered answer noWait = (if noWait then noReply else answer)"

type_synonym method_handler = "meter \<Rightarrow> nat \<Rightarrow> field_reader \<Rightarrow> amqp_session \<Rightarrow> go_error option \<times> amqp_session"

definition declareExchange_method :: method_handler where
  "declareExchange_method meter number r s =
     (let (_, r) = read_short r; (name, r) = read_shortstr r; (kind, r) = read_shortstr r; (flags, r) = read_bits r; (_, r) = read_table r
      in decoded meter r
           \<lparr>t_op = queue_op_of KindExchange name (Exchange kind (bits_at flags declarePassive)), t_channel = number,
            t_cause = exchangeDeclare, t_answer = answered exchangeDeclareOk (bits_at flags declareNoWait)\<rparr> s)"

definition namedQueue :: "field_reader \<Rightarrow> gostring \<times> nat \<times> field_reader" where
  "namedQueue r = (let (_, r) = read_short r; (name, r) = read_shortstr r; (flags, r) = read_bits r in (name, flags, r))"

definition declareQueue :: method_handler where
  "declareQueue meter number r s =
     (let (name, flags, r) = namedQueue r; (_, r) = read_table r
      in decoded meter r
           \<lparr>t_op = queue_op_of KindDeclare name (Declare (bits_at flags declarePassive)), t_channel = number,
            t_cause = queueDeclare, t_answer = answered queueDeclareOk (bits_at flags declareNoWait)\<rparr> s)"

definition bindQueue :: method_handler where
  "bindQueue meter number r s =
     (let (_, r) = read_short r; (name, r) = read_shortstr r; (ex, r) = read_shortstr r; (key, r) = read_shortstr r;
          (flags, r) = read_bits r; (_, r) = read_table r
      in decoded meter r
           \<lparr>t_op = queue_op_of KindBind name (Bind ex key), t_channel = number,
            t_cause = queueBind, t_answer = answered queueBindOk (bits_at flags bindNoWait)\<rparr> s)"

definition purgeQueue :: method_handler where
  "purgeQueue meter number r s =
     (let (name, flags, r) = namedQueue r
      in decoded meter r
           \<lparr>t_op = queue_op_of KindPurge name NoRequest, t_channel = number,
            t_cause = queuePurge, t_answer = answered queuePurgeOk (bits_at flags purgeNoWait)\<rparr> s)"

definition deleteQueue :: method_handler where
  "deleteQueue meter number r s =
     (let (name, flags, r) = namedQueue r
      in decoded meter r
           \<lparr>t_op = queue_op_of KindDelete name NoRequest, t_channel = number,
            t_cause = queueDelete, t_answer = answered queueDeleteOk (bits_at flags deleteNoWait)\<rparr> s)"

definition setQos :: method_handler where
  "setQos meter number r s =
     (let (bytes, r) = read_long r; (count, r) = read_short r; (_, r) = read_bits r
      in if bytes \<noteq> 0 then unsupported number basicQos s
         else decoded meter r
                \<lparr>t_op = queue_op_of KindQos [] (Qos number (int count)), t_channel = number,
                 t_cause = basicQos, t_answer = basicQosOk\<rparr> s)"

definition consume_method :: method_handler where
  "consume_method meter number r s =
     (let (_, r) = read_short r; (name, r) = read_shortstr r; (tag, r) = read_shortstr r; (flags, r) = read_bits r; (_, r) = read_table r
      in decoded meter r
           \<lparr>t_op = queue_op_of KindConsume name (Consume tag number (bits_at flags consumeNoAck)), t_channel = number,
            t_cause = basicConsume, t_answer = answered basicConsumeOk (bits_at flags consumeNoWait)\<rparr> s)"

text \<open>A Go map answers the empty string for a tag it does not have.\<close>

definition go_lookup :: "('k \<times> gostring) list \<Rightarrow> 'k \<Rightarrow> gostring" where
  "go_lookup m k = (case map_of m k of Some v \<Rightarrow> v | None \<Rightarrow> [])"

definition cancel_method :: method_handler where
  "cancel_method meter number r s =
     (let (tag, r) = read_shortstr r; (flags, r) = read_bits r;
          consumers = (case the_channel number s of Some c \<Rightarrow> ch_consumers c | None \<Rightarrow> [])
      in decoded meter r
           \<lparr>t_op = queue_op_of KindCancel (go_lookup consumers tag) (Cancel tag), t_channel = number,
            t_cause = basicCancel, t_answer = answered basicCancelOk (bits_at flags cancelNoWait)\<rparr> s)"

definition publish_method :: method_handler where
  "publish_method meter number r s =
     (let (_, r) = read_short r; (ex, r) = read_shortstr r; (key, r) = read_shortstr r; (flags, r) = read_bits r
      in if \<not> reader_done r then fatal codeSyntaxError basicPublish ''Basic.Publish ran off the end of its frame'' s
         else if a_pending s \<noteq> None
         then fatal codeUnexpectedFrame basicPublish
                (''a second Basic.Publish arrived before the first one'' @ [CHR 0x27] @ ''s content'') s
         else (None, s\<lparr>a_pending := Some
                \<lparr>pu_channel = number, pu_message = \<lparr>m_Exchange = ex, m_RoutingKey = key, m_Properties = [], m_Body = []\<rparr>,
                 pu_mandatory = bits_at flags publishMandatory, pu_bodySize = 0\<rparr>\<rparr>))"

definition publishComplete :: "meter \<Rightarrow> publishing \<Rightarrow> amqp_session \<Rightarrow> go_error option \<times> amqp_session" where
  "publishComplete meter p s =
     (if length (m_Body (pu_message p)) < pu_bodySize p then (None, s\<lparr>a_pending := Some p\<rparr>)
      else (None, stage meter
              \<lparr>t_op = queue_op_of KindPublish (m_RoutingKey (pu_message p)) (Publish (pu_message p) (pu_mandatory p)),
               t_channel = pu_channel p, t_cause = basicPublish, t_answer = noReply\<rparr> (s\<lparr>a_pending := None\<rparr>)))"

definition contentHeader :: "meter \<Rightarrow> frame \<Rightarrow> amqp_session \<Rightarrow> go_error option \<times> amqp_session" where
  "contentHeader meter received s =
     (case a_pending s of
        None \<Rightarrow> fatal codeUnexpectedFrame noMethod ''a content header arrived with no Basic.Publish waiting for it'' s
      | Some p \<Rightarrow>
          if pu_channel p \<noteq> fr_channel received
          then fatal codeUnexpectedFrame noMethod ''a content header arrived with no Basic.Publish waiting for it'' s
          else (let (cls, r) = read_short (reader_of (fr_payload received)); (_, r) = read_short r; (n, r) = read_longlong r;
                    (properties, r) = read_rest r
                in if \<not> reader_done r \<or> cls \<noteq> basicClass
                   then fatal codeSyntaxError noMethod
                          (''a content header for class '' @ format_nat cls @ '' is not one Basic.Publish can carry'') s
                   else publishComplete meter
                          (p\<lparr>pu_bodySize := n, pu_message := (pu_message p)\<lparr>m_Properties := properties\<rparr>\<rparr>) s))"

definition contentBody :: "meter \<Rightarrow> frame \<Rightarrow> amqp_session \<Rightarrow> go_error option \<times> amqp_session" where
  "contentBody meter received s =
     (case a_pending s of
        None \<Rightarrow> fatal codeUnexpectedFrame noMethod ''a content body arrived with no Basic.Publish waiting for it'' s
      | Some p \<Rightarrow>
          if pu_channel p \<noteq> fr_channel received
          then fatal codeUnexpectedFrame noMethod ''a content body arrived with no Basic.Publish waiting for it'' s
          else (let p = p\<lparr>pu_message := (pu_message p)\<lparr>m_Body := m_Body (pu_message p) @ fr_payload received\<rparr>\<rparr>
                in if length (m_Body (pu_message p)) > pu_bodySize p
                   then fatal codeFrameError noMethod
                          (''a message body is longer than the '' @ format_nat (pu_bodySize p) @ '' bytes its header announced'')
                          (s\<lparr>a_pending := Some p\<rparr>)
                   else publishComplete meter p s))"

definition get_method :: method_handler where
  "get_method meter number r s =
     (let (name, flags, r) = namedQueue r
      in decoded meter r
           \<lparr>t_op = queue_op_of KindGet name (Get number (bits_at flags getNoAck)), t_channel = number,
            t_cause = basicGet, t_answer = basicGetOk\<rparr> s)"

definition forget :: "nat \<Rightarrow> bool \<Rightarrow> amqp_session \<Rightarrow> amqp_session" where
  "forget tag multiple s =
     (if \<not> multiple then s\<lparr>a_fromQueue := AList.delete tag (a_fromQueue s)\<rparr>
      else s\<lparr>a_fromQueue := filter (\<lambda>(h, _). \<not> (tag = 0 \<or> h \<le> tag)) (a_fromQueue s)\<rparr>)"

definition settle_method :: "gostring \<Rightarrow> method_handler" where
  "settle_method kind meter number r s =
     (let (tag, r) = read_longlong r; (flags, r) = read_bits r; multiple = bits_at flags ackMultiple;
          from = go_lookup (a_fromQueue s) tag;
          t = (if kind = KindNack
               then \<lparr>t_op = queue_op_of kind from (Nack tag number (bits_at flags nackMultiple) (bits_at flags nackRequeue)),
                     t_channel = number, t_cause = basicNack, t_answer = noReply\<rparr>
               else \<lparr>t_op = queue_op_of kind from (Ack tag number multiple),
                     t_channel = number, t_cause = basicAck, t_answer = noReply\<rparr>)
      in decoded meter r t (forget tag multiple s))"

definition reject_method :: method_handler where
  "reject_method meter number r s =
     (let (tag, r) = read_longlong r; (flags, r) = read_bits r
      in decoded meter r
           \<lparr>t_op = queue_op_of KindNack (go_lookup (a_fromQueue s) tag) (Nack tag number False (bits_at flags rejectRequeue)),
            t_channel = number, t_cause = basicReject, t_answer = noReply\<rparr> (forget tag False s))"

definition selectConfirms :: method_handler where
  "selectConfirms meter number r s =
     (let (flags, r) = read_bits r
      in if \<not> reader_done r then fatal codeSyntaxError confirmSelect ''Confirm.Select ran off the end of its frame'' s
         else (let s = (case the_channel number s of Some c \<Rightarrow> set_channel number (c\<lparr>ch_confirms := True\<rparr>) s | None \<Rightarrow> s)
               in if bits_at flags confirmNoWait then (None, s)
                  else amqp_flush (send (method_frame number (encode_method confirmSelectOk)) s)))"

definition operation_method :: "meter \<Rightarrow> nat \<Rightarrow> nat \<Rightarrow> field_reader \<Rightarrow> amqp_session \<Rightarrow> go_error option \<times> amqp_session" where
  "operation_method meter number i r s =
     (if i = exchangeDeclare then declareExchange_method meter number r s
      else if i = queueDeclare then declareQueue meter number r s
      else if i = queueBind then bindQueue meter number r s
      else if i = queuePurge then purgeQueue meter number r s
      else if i = queueDelete then deleteQueue meter number r s
      else if i = basicQos then setQos meter number r s
      else if i = basicConsume then consume_method meter number r s
      else if i = basicCancel then cancel_method meter number r s
      else if i = basicPublish then publish_method meter number r s
      else if i = basicGet then get_method meter number r s
      else if i = basicAck then settle_method KindAck meter number r s
      else if i = basicNack then settle_method KindNack meter number r s
      else if i = basicReject then reject_method meter number r s
      else if i = confirmSelect then selectConfirms meter number r s
      else unsupported number i s)"

section \<open>Receiving\<close>

definition amqp_EOF :: go_error where "amqp_EOF = PlainErr ''EOF''"

definition connectionMethod :: "nat \<Rightarrow> amqp_session \<Rightarrow> go_error option \<times> amqp_session" where
  "connectionMethod i s =
     (if i = connectionClose
      then (Some amqp_EOF, snd (amqp_flush (send (method_frame 0 (encode_method connectionCloseOk)) s)))
      else if i = connectionCloseOk then (Some amqp_EOF, s)
      else fatal codeCommandInvalid i (''method '' @ dotted i @ '' is not one channel 0 accepts'') s)"

definition new_channel :: channel where
  "new_channel = \<lparr>ch_closing = False, ch_confirms = False, ch_published = 0, ch_consumers = []\<rparr>"

definition openChannel :: "nat \<Rightarrow> amqp_session \<Rightarrow> go_error option \<times> amqp_session" where
  "openChannel number s =
     (if number > proposedChannelMax
      then fatal codeChannelError channelOpen
             (''channel '' @ format_nat number @ '' is past the '' @ format_nat proposedChannelMax @ '' emu offered'') s
      else if the_channel number s \<noteq> None
      then fatal codeChannelError channelOpen (''channel '' @ format_nat number @ '' is already open'') s
      else amqp_flush (send (method_frame number (encode_method channelOpenOk @ put_longstr [])) (set_channel number new_channel s)))"

definition closeChannel :: "meter \<Rightarrow> nat \<Rightarrow> channel \<Rightarrow> amqp_session \<Rightarrow> go_error option \<times> amqp_session" where
  "closeChannel meter number open' s =
     (let s = s\<lparr>a_channels := AList.delete number (a_channels s)\<rparr>;
          s = send (method_frame number (encode_method channelCloseOk)) s
      in amqp_flush (cancelConsumers meter number open' s))"

definition channel_method :: "meter \<Rightarrow> nat \<Rightarrow> nat \<Rightarrow> field_reader \<Rightarrow> amqp_session \<Rightarrow> go_error option \<times> amqp_session" where
  "channel_method meter number i arguments s =
     (if number = 0 then connectionMethod i s
      else if i = channelOpen then openChannel number s
      else (case the_channel number s of
              None \<Rightarrow> fatal codeChannelError i (''channel '' @ format_nat number @ '' was never opened'') s
            | Some open' \<Rightarrow>
                if i = channelCloseOk then (None, s\<lparr>a_channels := AList.delete number (a_channels s)\<rparr>)
                else if ch_closing open' then (None, s)
                else if i = channelClose then closeChannel meter number open' s
                else operation_method meter number i arguments s))"

definition receive :: "meter \<Rightarrow> frame \<Rightarrow> amqp_session \<Rightarrow> go_error option \<times> amqp_session" where
  "receive meter received s =
     (if fr_kind received = frameHeartbeat then (None, s)
      else if fr_kind received = frameMethod
      then (case decode_method (fr_payload received) of (i, arguments) \<Rightarrow>
              channel_method meter (fr_channel received) i arguments s)
      else if fr_kind received = frameHeader then contentHeader meter received s
      else if fr_kind received = frameBody then contentBody meter received s
      else fatal codeFrameError noMethod (''frame type '' @ format_nat (fr_kind received) @ '' is not one AMQP has'') s)"

section \<open>Deliveries\<close>

definition remember :: "Delivery \<Rightarrow> amqp_session \<Rightarrow> amqp_session" where
  "remember d s = (if d_NoAck d then s else s\<lparr>a_fromQueue := AList.update (d_Tag d) (d_Queue d) (a_fromQueue s)\<rparr>)"

definition deliver_frame :: "Delivery \<Rightarrow> frame" where
  "deliver_frame d = method_frame (d_Channel d) (encode_method basicDeliver @ put_shortstr (d_Consumer d) @ put_longlong (d_Tag d) @
     put_flags [d_Redelivered d] @ put_shortstr (m_Exchange (d_Message d)) @ put_shortstr (m_RoutingKey (d_Message d)))"

definition sendDelivery :: "Delivery \<Rightarrow> amqp_session \<Rightarrow> amqp_session" where
  "sendDelivery d s =
     (case the_channel (d_Channel d) s of
        None \<Rightarrow> s
      | Some open' \<Rightarrow>
          if ch_closing open' then s
          else remember d (sendContent (d_Channel d) (d_Message d) (send (deliver_frame d) s)))"

definition deliver_waiting :: "amqp_session \<Rightarrow> go_error option \<times> amqp_session" where
  "deliver_waiting s =
     (case outbox_take (a_deliveries s) of (pushed, o') \<Rightarrow>
        let s = s\<lparr>a_deliveries := o'\<rparr>
        in if pushed = [] then (None, s) else amqp_flush (fold sendDelivery pushed s))"

section \<open>The session\<close>

text \<open>What can happen while a session waits: a frame arrives, the stream ends, another connection's publisher
  leaves a delivery, the session takes the outbox's signal, or a heartbeat is due.\<close>

datatype wake = Arrived meter frame | Ended go_error | Pushed Delivery | Woken | Pulse

definition poll :: "amqp_session \<Rightarrow> (go_error + request op) option \<times> amqp_session" where
  "poll s =
     (case a_staged s of
        t # ts \<Rightarrow> (Some (Inr (t_op t)), s\<lparr>a_active := t, a_staged := ts\<rparr>)
      | [] \<Rightarrow> (case deliver_waiting s of (Some err, s) \<Rightarrow> (Some (Inl err), s) | (None, s) \<Rightarrow> (None, s)))"

fun await :: "wake list \<Rightarrow> amqp_session \<Rightarrow> (go_error + request op) option \<times> wake list \<times> amqp_session" where
  "await [] s = (None, [], s)"
| "await (Pushed d # ws) s = await ws (s\<lparr>a_deliveries := outbox_Deliver d (a_deliveries s)\<rparr>)"
| "await (Ended err # ws) s = (Some (Inl err), ws, s)"
| "await (Arrived meter f # ws) s =
     (case receive meter f s of
        (Some err, s) \<Rightarrow> (Some (Inl err), ws, s)
      | (None, s) \<Rightarrow> (case poll s of (Some r, s) \<Rightarrow> (Some r, ws, s) | (None, s) \<Rightarrow> await ws s))"
| "await (Woken # ws) s =
     (if ob_woken (a_deliveries s)
      then (case poll (s\<lparr>a_deliveries := (a_deliveries s)\<lparr>ob_woken := False\<rparr>\<rparr>) of
              (Some r, s) \<Rightarrow> (Some r, ws, s) | (None, s) \<Rightarrow> await ws s)
      else await ws s)"
| "await (Pulse # ws) s =
     (if tn_heartbeat (a_agreed s) > 0
      then (case poll (snd (amqp_flush (send \<lparr>fr_kind = frameHeartbeat, fr_channel = 0, fr_payload = []\<rparr> s))) of
              (Some r, s) \<Rightarrow> (Some r, ws, s) | (None, s) \<Rightarrow> await ws s)
      else await ws s)"

text \<open>\<open>Next\<close>, with the meter it reads for a connection's announcement; no answer means it is still waiting.\<close>

definition amqp_Next :: "meter \<Rightarrow> wake list \<Rightarrow> amqp_session \<Rightarrow> (go_error + request op) option \<times> wake list \<times> amqp_session" where
  "amqp_Next meter ws s =
     (if \<not> a_greeted s
      then (let t = connectTask meter s in (Some (Inr (t_op t)), ws, s\<lparr>a_greeted := True, a_active := t\<rparr>))
      else (case poll s of (Some r, s) \<Rightarrow> (Some r, ws, s) | (None, s) \<Rightarrow> await ws s))"

definition track :: "Delivery Result \<Rightarrow> amqp_session \<Rightarrow> amqp_session" where
  "track result s =
     (let t = a_active s
      in case the_channel (t_channel t) s of
           None \<Rightarrow> s
         | Some open' \<Rightarrow>
             if op_Kind (t_op t) = KindConsume
             then set_channel (t_channel t) (open'\<lparr>ch_consumers := AList.update (res_Tag result) (op_Target (t_op t)) (ch_consumers open')\<rparr>) s
             else if op_Kind (t_op t) = KindCancel
             then set_channel (t_channel t) (open'\<lparr>ch_consumers := AList.delete (res_Tag result) (ch_consumers open')\<rparr>) s
             else s)"

definition gauge :: "Delivery Result \<Rightarrow> gostring \<Rightarrow> int" where
  "gauge result name = (case map_of (res_Gauges result) name of Some v \<Rightarrow> v | None \<Rightarrow> 0)"

text \<open>\<open>uint32\<close> of an \<open>int\<close>.\<close>

definition as_long :: "int \<Rightarrow> nat" where "as_long i = nat (i mod 2 ^ 32)"

definition answer_bytes :: "nat \<Rightarrow> Delivery Result \<Rightarrow> gostring" where
  "answer_bytes answer result =
     encode_method answer @
     (if answer = connectionOpenOk then put_shortstr []
      else if answer = queueDeclareOk
      then put_shortstr (res_Tag result) @ put_long (as_long (gauge result GaugeDepth)) @ put_long (as_long (gauge result GaugeConsumers))
      else if answer = queuePurgeOk \<or> answer = queueDeleteOk then put_long (as_long (gauge result GaugeRemoved))
      else if answer = basicConsumeOk \<or> answer = basicCancelOk then put_shortstr (res_Tag result)
      else [])"

definition returnMessage :: "Message \<Rightarrow> amqp_session \<Rightarrow> amqp_session" where
  "returnMessage message s =
     (let number = t_channel (a_active s)
      in sendContent number message
           (send (method_frame number (encode_method basicReturn @ put_short codeNoRoute @ put_shortstr ''NO_ROUTE'' @
              put_shortstr (m_Exchange message) @ put_shortstr (m_RoutingKey message))) s))"

definition confirm :: "amqp_session \<Rightarrow> amqp_session" where
  "confirm s =
     (let number = t_channel (a_active s)
      in case the_channel number s of
           None \<Rightarrow> s
         | Some open' \<Rightarrow>
             if \<not> ch_confirms open' then s
             else (let open' = open'\<lparr>ch_published := ch_published open' + 1\<rparr>
                   in send (method_frame number (encode_method basicAck @ put_longlong (ch_published open') @ put_flags [False]))
                        (set_channel number open' s)))"

definition async :: "Delivery Result \<Rightarrow> amqp_session \<Rightarrow> go_error option \<times> amqp_session" where
  "async result s =
     (if op_Kind (t_op (a_active s)) \<noteq> KindPublish then (None, s)
      else (case op_Payload (t_op (a_active s)) of
              Publish message mandatory \<Rightarrow>
                amqp_flush (confirm (if mandatory \<and> gauge result GaugeRouted = 0 then returnMessage message s else s))
            | _ \<Rightarrow> amqp_flush (confirm s)))"

definition fetched :: "Delivery Result \<Rightarrow> amqp_session \<Rightarrow> go_error option \<times> amqp_session" where
  "fetched result s =
     (let number = t_channel (a_active s)
      in case Fetch result of
           None \<Rightarrow> amqp_flush (send (method_frame number (encode_method basicGetEmpty @ put_shortstr [])) s)
         | Some d \<Rightarrow>
             amqp_flush (remember d (sendContent number (d_Message d)
               (send (method_frame number (encode_method basicGetOk @ put_longlong (d_Tag d) @ put_flags [d_Redelivered d] @
                  put_shortstr (m_Exchange (d_Message d)) @ put_shortstr (m_RoutingKey (d_Message d)) @
                  put_long (d_Remaining d))) s))))"

definition amqp_Reply :: "Delivery Result \<Rightarrow> amqp_session \<Rightarrow> go_error option \<times> amqp_session" where
  "amqp_Reply result s =
     (let s = track result s; answer = t_answer (a_active s)
      in if answer = noReply then async result s
         else if answer = basicGetOk then fetched result s
         else amqp_flush (send (method_frame (t_channel (a_active s)) (answer_bytes answer result)) s))"

definition amqp_Fail :: "meter \<Rightarrow> go_error \<Rightarrow> amqp_session \<Rightarrow> go_error option \<times> amqp_session" where
  "amqp_Fail meter err s =
     (let t = a_active s; number = t_channel t
      in if op_Kind (t_op t) = KindConnect
         then (Some errRefused,
               snd (amqp_flush (send (closure 0 connectionClose (replyCodeOf err) (error_text err) (t_cause t)) s)))
         else (case the_channel number s of
                 Some open' \<Rightarrow>
                   if ch_closing open' then (None, s)
                   else (let open' = open'\<lparr>ch_closing := True\<rparr>;
                             s = cancelConsumers meter number open' (set_channel number open' s)
                         in amqp_flush (send (closure number channelClose (replyCodeOf err) (error_text err) (t_cause t)) s))
               | None \<Rightarrow> amqp_flush (send (closure number channelClose (replyCodeOf err) (error_text err) (t_cause t)) s)))"

section \<open>Accepting\<close>

text \<open>The number of open connections is the protocol's only state.\<close>

definition amqp_Accept ::
  "gostring \<Rightarrow> bool \<Rightarrow> int \<Rightarrow> (handshake_error + amqp_session) \<times> gostring \<times> gostring \<times> int" where
  "amqp_Accept input writable connections =
     (case greet input of
        (Some err, sent, input) \<Rightarrow> (Inl err, sent, input, connections)
      | (None, sent, input) \<Rightarrow>
          (case negotiate input of
             (Inl err, more_sent, input) \<Rightarrow> (Inl err, sent @ more_sent, input, connections)
           | (Inr agreed, more_sent, input) \<Rightarrow>
               (Inr (new_amqp_session agreed connections writable), sent @ more_sent, input, connections + 1)))"

definition amqp_Close :: "int \<Rightarrow> int" where "amqp_Close connections = connections - 1"

end
