(* ===== verification/AmqpBehaviour.thy ===== *)
theory AmqpBehaviour
  imports AmqpSession
begin

text \<open>
  What an AMQP client may rely on: messages come out of the frames they were cut into, deliveries and
  confirms are written once and in order, limits agreed in the handshake are kept. And where the session
  departs from its comments: a channel that emu closed does not discard what was already under way.
\<close>

section \<open>Small steps\<close>

lemma flush_fields [simp]:
  "a_channels (snd (amqp_flush s)) = a_channels s" "a_staged (snd (amqp_flush s)) = a_staged s"
  "a_pending (snd (amqp_flush s)) = a_pending s" "a_active (snd (amqp_flush s)) = a_active s"
  "a_agreed (snd (amqp_flush s)) = a_agreed s" "a_fromQueue (snd (amqp_flush s)) = a_fromQueue s"
  "a_sent (snd (amqp_flush s)) @ a_buffered (snd (amqp_flush s)) = a_sent s @ a_buffered s"
  "a_writable (snd (amqp_flush s)) = a_writable s" "a_deliveries (snd (amqp_flush s)) = a_deliveries s"
  by (simp_all add: amqp_flush_def)

lemma send_fields [simp]:
  "a_channels (send f s) = a_channels s" "a_staged (send f s) = a_staged s" "a_pending (send f s) = a_pending s"
  "a_active (send f s) = a_active s" "a_agreed (send f s) = a_agreed s" "a_fromQueue (send f s) = a_fromQueue s"
  "a_sent (send f s) = a_sent s" "a_writable (send f s) = a_writable s" "a_deliveries (send f s) = a_deliveries s"
  "a_buffered (send f s) = a_buffered s @ encodeFrame f"
  by (simp_all add: send_def)

lemma fold_send: "fold send fs s = s\<lparr>a_buffered := a_buffered s @ concat (map encodeFrame fs)\<rparr>"
  by (induction fs arbitrary: s) (simp_all add: send_def)

lemma flush_writable: "a_writable s \<Longrightarrow> amqp_flush s = (None, s\<lparr>a_sent := a_sent s @ a_buffered s, a_buffered := []\<rparr>)"
  by (simp add: amqp_flush_def)

lemma flags_octet [field_simps]:
  "read_bits (reading_at pre (put_flags [v] @ left)) = (of_bool v, reading_at (pre @ put_flags [v]) left)"
  using read_numbers(2) [of pre "of_bool v" left] by (simp add: put_flags_def)

section \<open>Messages in pieces\<close>

lemma concat_pieces: "0 < limit \<Longrightarrow> concat (body_pieces limit body) = body"
proof (induction limit body rule: body_pieces.induct)
  case (1 limit body)
  then show ?case by (subst body_pieces.simps) auto
qed

lemma pieces_fit: "p \<in> set (body_pieces limit body) \<Longrightarrow> p \<noteq> [] \<and> length p \<le> limit"
proof (induction limit body rule: body_pieces.induct)
  case (1 limit body)
  then show ?case by (subst (asm) (2) body_pieces.simps) (auto split: if_splits)
qed

text \<open>How the frames of a client are taken, one after another.\<close>

fun receive_all :: "meter \<Rightarrow> frame list \<Rightarrow> amqp_session \<Rightarrow> go_error option \<times> amqp_session" where
  "receive_all meter [] s = (None, s)"
| "receive_all meter (f # fs) s =
     (case receive meter f s of (Some err, s) \<Rightarrow> (Some err, s) | (None, s) \<Rightarrow> receive_all meter fs s)"

definition publish_frame :: "nat \<Rightarrow> gostring \<Rightarrow> gostring \<Rightarrow> bool \<Rightarrow> frame" where
  "publish_frame number ex key mandatory =
     method_frame number (encode_method basicPublish @ put_short 0 @ put_shortstr ex @ put_shortstr key @ put_flags [mandatory])"

definition header_frame :: "nat \<Rightarrow> nat \<Rightarrow> gostring \<Rightarrow> frame" where
  "header_frame number n properties = \<lparr>fr_kind = frameHeader, fr_channel = number,
     fr_payload = put_short basicClass @ put_short 0 @ put_longlong n @ properties\<rparr>"

definition body_frame :: "nat \<Rightarrow> gostring \<Rightarrow> frame" where
  "body_frame number piece = \<lparr>fr_kind = frameBody, fr_channel = number, fr_payload = piece\<rparr>"

definition usable :: "nat \<Rightarrow> amqp_session \<Rightarrow> bool" where
  "usable number s \<longleftrightarrow> number \<noteq> 0 \<and> (\<exists>c. the_channel number s = Some c \<and> \<not> ch_closing c)"

lemmas frame_kinds = frameMethod_def frameHeader_def frameBody_def frameHeartbeat_def

lemma receive_publish:
  assumes "usable number s" "a_pending s = None" "length ex \<le> 255" "length key \<le> 255"
  shows "receive meter (publish_frame number ex key mandatory) s =
    (None, s\<lparr>a_pending := Some \<lparr>pu_channel = number, pu_message = \<lparr>m_Exchange = ex, m_RoutingKey = key, m_Properties = [], m_Body = []\<rparr>,
       pu_mandatory = mandatory, pu_bodySize = 0\<rparr>\<rparr>)"
proof -
  obtain c where c: "number \<noteq> 0" "the_channel number s = Some c" "\<not> ch_closing c" using assms(1) by (auto simp: usable_def)
  have r: "decode_method (fr_payload (publish_frame number ex key mandatory)) =
      (basicPublish, reading_at (encode_method basicPublish) (put_short 0 @ put_shortstr ex @ put_shortstr key @ put_flags [mandatory] @ []))"
    using decode_encoded [of basicPublish] by (simp add: publish_frame_def method_frame_def method_ids)
  have k: "fr_kind (publish_frame number ex key mandatory) = frameMethod" "fr_channel (publish_frame number ex key mandatory) = number"
    by (simp_all add: publish_frame_def method_frame_def)
  have p: "publish_method meter number
      (reading_at (encode_method basicPublish) (put_short 0 @ put_shortstr ex @ put_shortstr key @ put_flags [mandatory] @ [])) s =
    (None, s\<lparr>a_pending := Some \<lparr>pu_channel = number, pu_message = \<lparr>m_Exchange = ex, m_RoutingKey = key, m_Properties = [], m_Body = []\<rparr>,
       pu_mandatory = mandatory, pu_bodySize = 0\<rparr>\<rparr>)"
    unfolding publish_method_def using assms(2-4)
    by (simp only: read_numbers read_shortstr_at flags_octet Let_def prod.case done_at) (simp add: bits_at_def publishMandatory_def)
  have o': "channel_method meter number basicPublish r' s = publish_method meter number r' s" for r'
    using c by (simp add: channel_method_def operation_method_def method_ids)
  show ?thesis unfolding receive_def k r prod.case o' p by (simp add: frame_kinds)
qed

definition publish_task :: "publishing \<Rightarrow> task" where
  "publish_task p =
     \<lparr>t_op = queue_op_of KindPublish (m_RoutingKey (pu_message p)) (Publish (pu_message p) (pu_mandatory p)),
      t_channel = pu_channel p, t_cause = basicPublish, t_answer = noReply\<rparr>"

lemma receive_header:
  assumes "a_pending s = Some p" "pu_channel p = number" "n < 2 ^ 64"
  shows "receive meter (header_frame number n properties) s =
    publishComplete meter (p\<lparr>pu_bodySize := n, pu_message := (pu_message p)\<lparr>m_Properties := properties\<rparr>\<rparr>) s"
proof -
  have "contentHeader meter (header_frame number n properties) s =
      publishComplete meter (p\<lparr>pu_bodySize := n, pu_message := (pu_message p)\<lparr>m_Properties := properties\<rparr>\<rparr>) s"
    unfolding contentHeader_def using assms
    by (simp only: header_frame_def frame.simps reader_start read_numbers read_rest_at Let_def prod.case done_at option.case)
      (simp add: basicClass_def)
  then show ?thesis unfolding receive_def by (simp add: header_frame_def frame_kinds)
qed

lemma receive_body:
  assumes "a_pending s = Some p" "pu_channel p = number" "length (m_Body (pu_message p)) + length piece \<le> pu_bodySize p"
  shows "receive meter (body_frame number piece) s =
    publishComplete meter (p\<lparr>pu_message := (pu_message p)\<lparr>m_Body := m_Body (pu_message p) @ piece\<rparr>\<rparr>) s"
  using assms by (simp add: receive_def contentBody_def body_frame_def frame_kinds Let_def)

lemma receive_bodies:
  assumes "a_pending s = Some p" "pu_channel p = number" "pieces \<noteq> []" "\<forall>piece \<in> set pieces. piece \<noteq> []"
    "length (m_Body (pu_message p)) + length (concat pieces) = pu_bodySize p"
  shows "receive_all meter (map (body_frame number) pieces) s =
    (None, stage meter (publish_task (p\<lparr>pu_message := (pu_message p)\<lparr>m_Body := m_Body (pu_message p) @ concat pieces\<rparr>\<rparr>))
             (s\<lparr>a_pending := None\<rparr>))"
  using assms
proof (induction pieces arbitrary: s p)
  case (Cons piece pieces)
  let ?p = "p\<lparr>pu_message := (pu_message p)\<lparr>m_Body := m_Body (pu_message p) @ piece\<rparr>\<rparr>"
  have r: "receive meter (body_frame number piece) s = publishComplete meter ?p s"
    using Cons.prems by (intro receive_body) auto
  show ?case
  proof (cases "pieces = []")
    case True
    then show ?thesis using Cons.prems by (simp add: r publishComplete_def publish_task_def)
  next
    case False
    then have "0 < length (concat pieces)" using Cons.prems(4) by (cases pieces) auto
    moreover have "length (concat (piece # pieces)) = length piece + length (concat pieces)" by simp
    ultimately have "length (m_Body (pu_message p)) + length piece < pu_bodySize p" using Cons.prems(5) by linarith
    then have "publishComplete meter ?p s = (None, s\<lparr>a_pending := Some ?p\<rparr>)" by (simp add: publishComplete_def)
    then show ?thesis using Cons.IH [of "s\<lparr>a_pending := Some ?p\<rparr>" ?p] Cons.prems False by (simp add: r)
  qed
qed simp

lemma content_as_frames:
  "content_frames frameMax number m =
     header_frame number (length (m_Body m)) (if m_Properties m = [] then emptyProperties else m_Properties m) #
     map (body_frame number) (body_pieces (frameMax - frameOverhead) (m_Body m))"
  by (simp add: content_frames_def header_frame_def body_frame_def Let_def)

lemma content_received:
  assumes "usable number s" "a_pending s = None" "length (m_Exchange m) \<le> 255" "length (m_RoutingKey m) \<le> 255"
    "length (m_Body m) < 2 ^ 64" "frameOverhead < frameMax"
  shows "receive_all meter (publish_frame number (m_Exchange m) (m_RoutingKey m) mandatory # content_frames frameMax number m) s =
    (None, stage meter \<lparr>t_op = queue_op_of KindPublish (m_RoutingKey m)
        (Publish (if m_Properties m = [] then m\<lparr>m_Properties := emptyProperties\<rparr> else m) mandatory),
      t_channel = number, t_cause = basicPublish, t_answer = noReply\<rparr> s)"
proof -
  define props where "props = (if m_Properties m = [] then emptyProperties else m_Properties m)"
  let ?m = "\<lparr>m_Exchange = m_Exchange m, m_RoutingKey = m_RoutingKey m, m_Properties = [], m_Body = []\<rparr>"
  let ?start = "\<lparr>pu_channel = number, pu_message = ?m, pu_mandatory = mandatory, pu_bodySize = 0\<rparr>"
  let ?known = "?start\<lparr>pu_bodySize := length (m_Body m), pu_message := ?m\<lparr>m_Properties := props\<rparr>\<rparr>"
  let ?pieces = "body_pieces (frameMax - frameOverhead) (m_Body m)"
  have msg: "(if m_Properties m = [] then m\<lparr>m_Properties := emptyProperties\<rparr> else m) = ?m\<lparr>m_Properties := props, m_Body := m_Body m\<rparr>"
    by (cases m) (simp add: props_def)
  have pub: "receive meter (publish_frame number (m_Exchange m) (m_RoutingKey m) mandatory) s = (None, s\<lparr>a_pending := Some ?start\<rparr>)"
    by (rule receive_publish [OF assms(1-4)])
  have hdr: "receive meter (header_frame number (length (m_Body m)) props) (s\<lparr>a_pending := Some ?start\<rparr>) =
      publishComplete meter ?known (s\<lparr>a_pending := Some ?start\<rparr>)"
    using receive_header [of "s\<lparr>a_pending := Some ?start\<rparr>" ?start number "length (m_Body m)" meter props] assms(5) by simp
  have cc: "concat ?pieces = m_Body m" using assms(6) by (intro concat_pieces) simp
  have same: "s\<lparr>a_pending := None\<rparr> = s" using assms(2) by simp
  show ?thesis
  proof (cases "m_Body m = []")
    case True
    then have nil: "?pieces = []" by (simp add: body_pieces.simps)
    show ?thesis unfolding msg unfolding content_as_frames props_def [symmetric] nil receive_all.simps pub prod.case option.case hdr list.map
      using True same by (simp add: publishComplete_def)
  next
    case False
    then have ne: "?pieces \<noteq> []" using cc by auto
    have wait: "publishComplete meter ?known (s\<lparr>a_pending := Some ?start\<rparr>) = (None, s\<lparr>a_pending := Some ?known\<rparr>)"
      using False by (simp add: publishComplete_def)
    have "receive_all meter (map (body_frame number) ?pieces) (s\<lparr>a_pending := Some ?known\<rparr>) =
      (None, stage meter (publish_task (?known\<lparr>pu_message := (pu_message ?known)\<lparr>m_Body := m_Body (pu_message ?known) @ concat ?pieces\<rparr>\<rparr>))
         ((s\<lparr>a_pending := Some ?known\<rparr>)\<lparr>a_pending := None\<rparr>))"
      using ne pieces_fit cc by (intro receive_bodies) auto
    then show ?thesis unfolding msg unfolding content_as_frames props_def [symmetric] receive_all.simps pub prod.case option.case hdr wait
      using same cc by (simp add: publish_task_def)
  qed
qed

lemma body_frames_fit:
  assumes "frameOverhead < frameMax" "f \<in> set (tl (content_frames frameMax number m))"
  shows "length (encodeFrame f) \<le> frameMax"
proof -
  obtain piece where p: "piece \<in> set (body_pieces (frameMax - frameOverhead) (m_Body m))" "f = body_frame number piece"
    using assms(2) by (auto simp: content_as_frames)
  have "length piece \<le> frameMax - frameOverhead" using pieces_fit [OF p(1)] by simp
  then show ?thesis using assms(1) by (simp add: p(2) body_frame_def encodeFrame_def frameOverhead_def frameHeaderSize_def)
qed

text \<open>C17. A message survives being cut into frames: the header and body frames emu writes for a message of any
  size, read after a Basic.Publish by a session like its own, are put together to exactly that message (an
  empty property block becoming the two zero octets AMQP asks for) and staged as one publish operation,
  with nothing else of the session changed; and no body frame is larger than the size agreed on.\<close>

theorem content_round_trip:
  assumes "usable number s" "a_pending s = None" "length (m_Exchange m) \<le> 255" "length (m_RoutingKey m) \<le> 255"
    "length (m_Body m) < 2 ^ 64" "frameOverhead < frameMax"
  shows "receive_all meter (publish_frame number (m_Exchange m) (m_RoutingKey m) mandatory # content_frames frameMax number m) s =
      (None, stage meter \<lparr>t_op = queue_op_of KindPublish (m_RoutingKey m)
          (Publish (if m_Properties m = [] then m\<lparr>m_Properties := emptyProperties\<rparr> else m) mandatory),
        t_channel = number, t_cause = basicPublish, t_answer = noReply\<rparr> s) \<and>
    (\<forall>f \<in> set (tl (content_frames frameMax number m)). length (encodeFrame f) \<le> frameMax)"
  using content_received [OF assms] body_frames_fit [OF assms(6)] by blast

definition open_session :: amqp_session where
  "open_session = (new_amqp_session \<lparr>tn_frameMax = 4096, tn_heartbeat = 0\<rparr> 0 True)
     \<lparr>a_greeted := True, a_channels := [(1, new_channel\<lparr>ch_consumers := [(''w'', ''jobs'')]\<rparr>)]\<rparr>"

lemma open_usable: "usable 1 open_session" "a_pending open_session = None" "a_writable open_session" "a_staged open_session = []"
  "the_channel 1 open_session = Some (new_channel\<lparr>ch_consumers := [(''w'', ''jobs'')]\<rparr>)"
  by (simp_all add: usable_def open_session_def the_channel_def new_channel_def new_amqp_session_def)

definition order_placed :: Message where
  "order_placed = \<lparr>m_Exchange = ''events'', m_RoutingKey = ''order.new'', m_Properties = [], m_Body = ''hello''\<rparr>"

theorem content_round_trip_witness:
  "fst (receive_all (\<lambda>_ _. []) (publish_frame 1 ''events'' ''order.new'' True # content_frames 4096 1 order_placed) open_session) = None \<and>
   map (op_Target \<circ> t_op) (a_staged (snd (receive_all (\<lambda>_ _. [])
     (publish_frame 1 ''events'' ''order.new'' True # content_frames 4096 1 order_placed) open_session))) = [''order.new'']"
proof -
  have fits: "length (m_Exchange order_placed) \<le> 255" "length (m_RoutingKey order_placed) \<le> 255" "length (m_Body order_placed) < 2 ^ 64"
    "frameOverhead < 4096" "m_Exchange order_placed = ''events''" "m_RoutingKey order_placed = ''order.new''"
    by (simp_all add: order_placed_def frameOverhead_def frameHeaderSize_def)
  show ?thesis using content_round_trip [OF open_usable(1,2) fits(1-4), of "\<lambda>_ _. []" True] open_usable(4)
    by (simp add: fits(5,6) stage_def queue_op_of_def)
qed

section \<open>The handshake\<close>

lemma accepted_bounds:
  "accepted_tuning input = (Inr agreed, rest) \<Longrightarrow>
     4096 \<le> tn_frameMax agreed \<and> tn_frameMax agreed \<le> 131072 \<and> 0 \<le> tn_heartbeat agreed"
  by (auto simp: accepted_tuning_def Let_def minimumFrameMax_def proposedFrameMax_def split: prod.splits sum.splits if_splits)

definition tune_ok :: "nat \<Rightarrow> nat \<Rightarrow> frame" where
  "tune_ok frameMax heartbeat =
     method_frame 0 (encode_method connectionTuneOk @ put_short 2047 @ put_long frameMax @ put_short heartbeat)"

definition start_ok :: "gostring \<Rightarrow> frame" where "start_ok credentials = method_frame 0 (encode_method connectionStartOk @ credentials)"
definition open_frame :: "gostring \<Rightarrow> frame" where "open_frame arguments = method_frame 0 (encode_method connectionOpen @ arguments)"

lemma expect_method_frame:
  assumes "length payload \<le> proposedFrameMax" "payload = encode_method wanted @ arguments" "wanted < 2 ^ 32"
  shows "expect_method wanted (encodeFrame (method_frame 0 payload) @ rest) = (Inr (reading_at (encode_method wanted) arguments), rest)"
proof -
  have "frame_fits proposedFrameMax (method_frame 0 payload)"
    using assms(1) by (simp add: frame_fits_def method_frame_def frameMethod_def)
  from readFrame_encoded [OF this, of rest] show ?thesis
    using assms by (simp add: expect_method_def proposedFrameMax_def method_frame_def decode_encoded)
qed

text \<open>The handshake: a client that sends Start-Ok with any credentials, Tune-Ok and Open is told Start and Tune and
  accepted, with its frame size where it lowered emu's offer and emu's where it did not, and heartbeats at
  half the interval it asked for; below the floor of 4096 bytes it is refused. What follows stays unread.\<close>

theorem handshake_negotiates:
  assumes "length credentials \<le> 131068" "length arguments \<le> 131068" "frameMax < 2 ^ 32" "heartbeat < 65536"
  shows "negotiate (encodeFrame (start_ok credentials) @ encodeFrame (tune_ok frameMax heartbeat) @ encodeFrame (open_frame arguments) @ rest) =
    (if frameMax \<noteq> 0 \<and> frameMax < 4096
     then (Inl (FrameMaxTooSmall frameMax), encodeFrame start_frame @ encodeFrame tune_frame, encodeFrame (open_frame arguments) @ rest)
     else (Inr \<lparr>tn_frameMax = (if frameMax = 0 then 131072 else min frameMax 131072), tn_heartbeat = int heartbeat * 500000000\<rparr>,
           encodeFrame start_frame @ encodeFrame tune_frame, rest))"
proof -
  have len: "length (encode_method i) = 4" for i by (simp add: encode_method_def put_short_def)
  have st: "expect_method connectionStartOk (encodeFrame (start_ok credentials) @ more) =
      (Inr (reading_at (encode_method connectionStartOk) credentials), more)" for more
    using assms(1) by (simp add: start_ok_def expect_method_frame len proposedFrameMax_def method_ids)
  have op: "expect_method connectionOpen (encodeFrame (open_frame arguments) @ more) =
      (Inr (reading_at (encode_method connectionOpen) arguments), more)" for more
    using assms(2) by (simp add: open_frame_def expect_method_frame len proposedFrameMax_def method_ids)
  have tn: "expect_method connectionTuneOk (encodeFrame (tune_ok frameMax heartbeat) @ more) =
      (Inr (reading_at (encode_method connectionTuneOk) (put_short 2047 @ put_long frameMax @ put_short heartbeat @ [])), more)" for more
    by (simp add: tune_ok_def expect_method_frame len proposedFrameMax_def method_ids put_short_def put_long_def)
  have acc: "accepted_tuning (encodeFrame (tune_ok frameMax heartbeat) @ more) =
      (if frameMax \<noteq> 0 \<and> frameMax < 4096 then (Inl (FrameMaxTooSmall frameMax), more)
       else (Inr \<lparr>tn_frameMax = (if frameMax = 0 then 131072 else min frameMax 131072), tn_heartbeat = int heartbeat * 500000000\<rparr>, more))" for more
    unfolding accepted_tuning_def tn using assms(3,4)
    by (simp only: prod.case sum.case read_numbers Let_def done_at) (simp add: minimumFrameMax_def proposedFrameMax_def min_def)
  show ?thesis unfolding negotiate_def st prod.case sum.case acc by (simp add: op Let_def)
qed

theorem handshake_negotiates_witness:
  "negotiate (encodeFrame (start_ok ''guest'') @ encodeFrame (tune_ok 0 60) @ encodeFrame (open_frame ''/'') @ ''rest'') =
     (Inr \<lparr>tn_frameMax = 131072, tn_heartbeat = 30000000000\<rparr>, encodeFrame start_frame @ encodeFrame tune_frame, ''rest'')"
  using handshake_negotiates [of "''guest''" "''/''" 0 60 "''rest''"] by simp

section \<open>Deliveries and confirms\<close>

definition writable_to :: "amqp_session \<Rightarrow> Delivery \<Rightarrow> bool" where
  "writable_to s d = (case the_channel (d_Channel d) s of None \<Rightarrow> False | Some c \<Rightarrow> \<not> ch_closing c)"

definition delivery_frames :: "amqp_session \<Rightarrow> Delivery \<Rightarrow> frame list" where
  "delivery_frames s d = deliver_frame d # content_frames (tn_frameMax (a_agreed s)) (d_Channel d) (d_Message d)"

lemma sendDelivery_eq:
  "sendDelivery d s =
     (if writable_to s d
      then s\<lparr>a_buffered := a_buffered s @ concat (map encodeFrame (delivery_frames s d)),
             a_fromQueue := (if d_NoAck d then a_fromQueue s else AList.update (d_Tag d) (d_Queue d) (a_fromQueue s))\<rparr>
      else s)"
  by (auto simp: sendDelivery_def writable_to_def delivery_frames_def sendContent_def fold_send remember_def send_def split: option.split)

lemma fold_sendDelivery:
  "fold sendDelivery ds s = s\<lparr>a_buffered := a_buffered s @ concat (map encodeFrame (concat (map (delivery_frames s) (filter (writable_to s) ds)))),
     a_fromQueue := fold (\<lambda>d m. if writable_to s d \<and> \<not> d_NoAck d then AList.update (d_Tag d) (d_Queue d) m else m) ds (a_fromQueue s)\<rparr>"
proof (induction ds arbitrary: s)
  case (Cons d ds)
  have "writable_to (sendDelivery d s) = writable_to s" "delivery_frames (sendDelivery d s) = delivery_frames s"
    by (simp_all add: sendDelivery_eq writable_to_def delivery_frames_def the_channel_def fun_eq_iff)
  then show ?case by (simp add: Cons.IH) (simp add: sendDelivery_eq)
qed simp

text \<open>What the broker pushed is written out once and in order: when the session next looks, every waiting
  delivery whose channel is open goes to the client as its Basic.Deliver, header and body frames, those of
  channels being closed are left out, and the outbox is empty.\<close>

theorem deliveries_written:
  assumes "a_writable s" "ob_waiting (a_deliveries s) = ds" "ds \<noteq> []"
  shows "fst (deliver_waiting s) = None \<and> ob_waiting (a_deliveries (snd (deliver_waiting s))) = [] \<and>
    a_sent (snd (deliver_waiting s)) =
      a_sent s @ a_buffered s @ concat (map encodeFrame (concat (map (delivery_frames s) (filter (writable_to s) ds)))) \<and>
    a_buffered (snd (deliver_waiting s)) = []"
proof -
  let ?s = "s\<lparr>a_deliveries := (a_deliveries s)\<lparr>ob_waiting := []\<rparr>\<rparr>"
  have "writable_to ?s = writable_to s" "delivery_frames ?s = delivery_frames s"
    by (simp_all add: writable_to_def delivery_frames_def the_channel_def fun_eq_iff)
  then show ?thesis using assms by (simp add: deliver_waiting_def outbox_take_def fold_sendDelivery amqp_flush_def)
qed

definition pushed_order :: Delivery where
  "pushed_order = \<lparr>d_Message = order_placed, d_Queue = ''jobs'', d_Tag = 1, d_Consumer = ''w'', d_Channel = 1, d_NoAck = False,
     d_Redelivered = False, d_Remaining = 0\<rparr>"

theorem deliveries_written_witness:
  "a_sent (snd (deliver_waiting (open_session\<lparr>a_deliveries := outbox_Deliver pushed_order newOutbox\<rparr>))) =
     encodeFrame (deliver_frame pushed_order) @ encodeFrame (header_frame 1 5 emptyProperties) @ encodeFrame (body_frame 1 ''hello'')"
proof -
  let ?s = "open_session\<lparr>a_deliveries := outbox_Deliver pushed_order newOutbox\<rparr>"
  have p: "a_writable ?s" "ob_waiting (a_deliveries ?s) = [pushed_order]"
    by (simp_all add: open_usable outbox_Deliver_def newOutbox_def)
  have c: "the_channel 1 ?s = Some (new_channel\<lparr>ch_consumers := [(''w'', ''jobs'')]\<rparr>)" "tn_frameMax (a_agreed open_session) = 4096"
    "a_sent ?s = []" "a_buffered ?s = []"
    using open_usable(5) by (simp_all add: the_channel_def open_session_def new_amqp_session_def)
  have w: "writable_to ?s pushed_order" using c(1) by (simp add: writable_to_def pushed_order_def new_channel_def)
  have "body_pieces (4096 - 8) ''hello'' = [''hello'']" by (simp add: body_pieces.simps)
  then have "delivery_frames ?s pushed_order =
      [deliver_frame pushed_order, header_frame 1 5 emptyProperties, body_frame 1 ''hello'']"
    by (simp add: delivery_frames_def c(2) content_as_frames pushed_order_def order_placed_def frameOverhead_def frameHeaderSize_def eval_nat_numeral)
  then show ?thesis using deliveries_written [OF p] w c(3,4) by simp
qed

definition ack_frame :: "nat \<Rightarrow> nat \<Rightarrow> frame" where
  "ack_frame number n = method_frame number (encode_method basicAck @ put_longlong n @ put_flags [False])"

text \<open>A publish that was carried out and owes its publisher nothing but the confirm.\<close>

definition plain_publish :: "nat \<Rightarrow> task \<times> Delivery Result \<Rightarrow> bool" where
  "plain_publish number = (\<lambda>(t, r). t_channel t = number \<and> t_answer t = noReply \<and> op_Kind (t_op t) = KindPublish \<and>
     (\<exists>m mandatory. op_Payload (t_op t) = Publish m mandatory \<and> \<not> (mandatory \<and> gauge r GaugeRouted = 0)))"

fun reply_all :: "(task \<times> Delivery Result) list \<Rightarrow> amqp_session \<Rightarrow> amqp_session" where
  "reply_all [] s = s"
| "reply_all ((t, r) # rs) s = reply_all rs (snd (amqp_Reply r (s\<lparr>a_active := t\<rparr>)))"

lemma reply_plain_publish:
  assumes "plain_publish number (t, r)" "the_channel number s = Some c" "ch_confirms c" "a_writable s"
  shows "snd (amqp_Reply r (s\<lparr>a_active := t\<rparr>)) =
    (set_channel number (c\<lparr>ch_published := ch_published c + 1\<rparr>) s)
      \<lparr>a_active := t, a_sent := a_sent s @ a_buffered s @ encodeFrame (ack_frame number (ch_published c + 1)), a_buffered := []\<rparr>"
proof -
  have kinds: "KindPublish \<noteq> KindConsume" "KindPublish \<noteq> KindCancel"
    by (simp_all add: KindPublish_def KindConsume_def KindCancel_def)
  obtain m mandatory where t: "t_channel t = number" "t_answer t = noReply" "op_Kind (t_op t) = KindPublish"
    "op_Payload (t_op t) = Publish m mandatory" "\<not> (mandatory \<and> gauge r GaugeRouted = 0)"
    using assms(1) by (auto simp: plain_publish_def)
  have "track r (s\<lparr>a_active := t\<rparr>) = s\<lparr>a_active := t\<rparr>"
    using assms(2) t kinds by (simp add: track_def the_channel_def Let_def)
  moreover have "async r (s\<lparr>a_active := t\<rparr>) = amqp_flush (confirm (s\<lparr>a_active := t\<rparr>))" using t by (auto simp: async_def)
  ultimately show ?thesis
    using t assms(2-) by (simp add: amqp_Reply_def confirm_def the_channel_def amqp_flush_def send_def set_channel_def ack_frame_def)
qed

lemma replies_confirmed:
  assumes "list_all (plain_publish number) rs" "the_channel number s = Some c" "ch_confirms c" "a_writable s" "a_buffered s = []"
  shows "a_sent (reply_all rs s) = a_sent s @
      concat (map (\<lambda>n. encodeFrame (ack_frame number n)) [Suc (ch_published c)..<Suc (ch_published c + length rs)]) \<and>
    the_channel number (reply_all rs s) = Some (c\<lparr>ch_published := ch_published c + length rs\<rparr>)"
  using assms
proof (induction rs arbitrary: s c)
  case (Cons x rs)
  obtain t r where x: "x = (t, r)" by force
  let ?c = "c\<lparr>ch_published := ch_published c + 1\<rparr>"
  let ?s = "snd (amqp_Reply r (s\<lparr>a_active := t\<rparr>))"
  have s: "?s = (set_channel number ?c s)
      \<lparr>a_active := t, a_sent := a_sent s @ a_buffered s @ encodeFrame (ack_frame number (ch_published c + 1)), a_buffered := []\<rparr>"
    using Cons.prems x by (intro reply_plain_publish) auto
  have "the_channel number ?s = Some ?c" by (simp add: s the_channel_def set_channel_def)
  then have "a_sent (reply_all rs ?s) = a_sent ?s @
      concat (map (\<lambda>n. encodeFrame (ack_frame number n)) [Suc (ch_published ?c)..<Suc (ch_published ?c + length rs)]) \<and>
    the_channel number (reply_all rs ?s) = Some (?c\<lparr>ch_published := ch_published ?c + length rs\<rparr>)"
    using Cons.prems by (intro Cons.IH) (auto simp: s set_channel_def)
  moreover have "[Suc (ch_published c)..<Suc (ch_published c + length (x # rs))] =
      Suc (ch_published c) # [Suc (ch_published ?c)..<Suc (ch_published ?c + length rs)]"
    by (simp add: upt_conv_Cons del: upt_Suc)
  ultimately show ?case using Cons.prems(5) by (simp add: x s set_channel_def del: upt_Suc)
qed simp

text \<open>Publisher confirms are numbered as the client counts: on a channel in confirm mode, publishes that were
  carried out are acknowledged one by one, in order, with consecutive numbers after the last one given,
  and nothing else is written for them.\<close>

theorem confirms_numbered:
  assumes "list_all (plain_publish number) rs" "the_channel number s = Some c" "ch_confirms c" "a_writable s" "a_buffered s = []"
  shows "a_sent (reply_all rs s) = a_sent s @
      concat (map (\<lambda>n. encodeFrame (ack_frame number n)) [Suc (ch_published c)..<Suc (ch_published c + length rs)]) \<and>
    the_channel number (reply_all rs s) = Some (c\<lparr>ch_published := ch_published c + length rs\<rparr>)"
  by (rule replies_confirmed [OF assms])

definition order_task :: task where
  "order_task = publish_task \<lparr>pu_channel = 2, pu_message = order_placed, pu_mandatory = True, pu_bodySize = 5\<rparr>"

definition confirming_session :: amqp_session where
  "confirming_session = open_session\<lparr>a_channels := [(2, new_channel\<lparr>ch_confirms := True\<rparr>)]\<rparr>"

theorem confirms_numbered_witness:
  "a_sent (reply_all [(order_task, empty_Result\<lparr>res_Gauges := [(GaugeRouted, 1)]\<rparr>), (order_task, empty_Result\<lparr>res_Gauges := [(GaugeRouted, 3)]\<rparr>)]
     confirming_session) = encodeFrame (ack_frame 2 1) @ encodeFrame (ack_frame 2 2)"
proof -
  let ?rs = "[(order_task, empty_Result\<lparr>res_Gauges := [(GaugeRouted, 1)]\<rparr>), (order_task, empty_Result\<lparr>res_Gauges := [(GaugeRouted, 3)]\<rparr>)]"
  have "list_all (plain_publish 2) ?rs"
    by (auto simp: plain_publish_def order_task_def publish_task_def queue_op_of_def gauge_def)
  moreover have "the_channel 2 confirming_session = Some (new_channel\<lparr>ch_confirms := True\<rparr>)" "a_writable confirming_session"
    "a_buffered confirming_session = []" "a_sent confirming_session = []"
    by (simp_all add: confirming_session_def the_channel_def open_session_def new_amqp_session_def)
  ultimately show ?thesis using confirms_numbered [of 2 ?rs confirming_session "new_channel\<lparr>ch_confirms := True\<rparr>"]
    by (simp add: new_channel_def upt_rec numeral_2_eq_2)
qed

section \<open>Channel exceptions\<close>

lemma fold_stage:
  "fold (\<lambda>x. stage meter (f x)) xs s =
     s\<lparr>a_staged := a_staged s @ map (\<lambda>x. (f x)\<lparr>t_op := (t_op (f x))\<lparr>op_Gauges := op_gauges meter (t_op (f x))\<rparr>\<rparr>) xs\<rparr>"
  by (induction xs arbitrary: s) (simp_all add: stage_def)

lemma Fail_channel:
  assumes "the_channel number s = Some c" "\<not> ch_closing c" "t_channel (a_active s) = number" "op_Kind (t_op (a_active s)) \<noteq> KindConnect"
    "a_writable s"
  shows "amqp_Fail meter err s = (None, s\<lparr>
      a_channels := AList.update number (c\<lparr>ch_closing := True, ch_consumers := []\<rparr>) (a_channels s),
      a_staged := a_staged s @ map (\<lambda>tag. (close_task number c tag)\<lparr>t_op := (t_op (close_task number c tag))
        \<lparr>op_Gauges := op_gauges meter (t_op (close_task number c tag))\<rparr>\<rparr>) (sorted_keys (ch_consumers c)),
      a_sent := a_sent s @ a_buffered s @ encodeFrame (closure number channelClose (replyCodeOf err) (error_text err) (t_cause (a_active s))),
      a_buffered := []\<rparr>)"
proof -
  have u: "AList.update k v (AList.update k w m) = AList.update k v m" for k and v w :: channel and m
    by (induction m) auto
  show ?thesis using assms
    by (simp add: amqp_Fail_def cancelConsumers_def fold_stage the_channel_def set_channel_def amqp_flush_def send_def close_task_def u Let_def)
qed

text \<open>A failed operation is a channel exception and nothing more: the client is sent exactly one Channel.Close,
  with the code of the failure and the method that caused it, the channel stops taking requests, every
  consumer it had is cancelled, in tag order, and no other channel is touched.\<close>

theorem failure_closes_channel:
  assumes "the_channel number s = Some c" "\<not> ch_closing c" "t_channel (a_active s) = number" "op_Kind (t_op (a_active s)) \<noteq> KindConnect"
    "a_writable s" "a_buffered s = []"
  shows "\<exists>s'. amqp_Fail meter err s = (None, s') \<and>
    a_sent s' = a_sent s @ encodeFrame (closure number channelClose (replyCodeOf err) (error_text err) (t_cause (a_active s))) \<and>
    map (\<lambda>t. (op_Kind (t_op t), op_Payload (t_op t), t_channel t)) (a_staged s') =
      map (\<lambda>t. (op_Kind (t_op t), op_Payload (t_op t), t_channel t)) (a_staged s) @
      map (\<lambda>tag. (''cancel'', Cancel tag, number)) (sorted_keys (ch_consumers c)) \<and>
    (\<exists>c'. the_channel number s' = Some c' \<and> ch_closing c' \<and> ch_consumers c' = []) \<and>
    (\<forall>other. other \<noteq> number \<longrightarrow> the_channel other s' = the_channel other s)"
  using Fail_channel [OF assms(1-5), of meter err] assms(6)
  by (simp add: the_channel_def close_task_def queue_op_of_def KindCancel_def)

definition refused_publish :: amqp_session where
  "refused_publish = open_session\<lparr>a_active := order_task\<lparr>t_channel := 1\<rparr>\<rparr>"

lemma refused_channel:
  "the_channel 1 refused_publish = Some (new_channel\<lparr>ch_consumers := [(''w'', ''jobs'')]\<rparr>)" "a_writable refused_publish"
  "t_channel (a_active refused_publish) = 1" "op_Kind (t_op (a_active refused_publish)) \<noteq> KindConnect" "a_pending refused_publish = None"
  "a_buffered refused_publish = []" "a_staged refused_publish = []"
  "\<not> ch_closing (new_channel\<lparr>ch_consumers := [(''w'', ''jobs'')]\<rparr>)"
  by (simp_all add: refused_publish_def the_channel_def open_session_def new_amqp_session_def order_task_def publish_task_def
      queue_op_of_def KindPublish_def KindConnect_def new_channel_def)

theorem failure_closes_channel_witness:
  "map (\<lambda>t. (op_Kind (t_op t), op_Payload (t_op t), t_channel t))
     (a_staged (snd (amqp_Fail (\<lambda>_ _. []) (ReplyCodeErr 406 ''full'') refused_publish))) = [(''cancel'', Cancel ''w'', 1)]"
  using failure_closes_channel [OF refused_channel(1,8,3,4,2,6), of "\<lambda>_ _. []" "ReplyCodeErr 406 ''full''"] refused_channel(7)
  by (auto simp: sorted_keys_def)

text \<open>A publish already on its way kills the connection: after a channel exception the comment on the channel
  promises that everything arriving on it is discarded until the client confirms. The method frame of a
  publish is, but its content header is not: it is taken for content nobody announced, and the whole
  connection is closed with an unexpected-frame error.\<close>

theorem pipelined_publish_kills_connection:
  assumes "the_channel number s = Some c" "\<not> ch_closing c" "t_channel (a_active s) = number" "op_Kind (t_op (a_active s)) \<noteq> KindConnect"
    "a_writable s" "a_pending s = None" "number \<noteq> 0" "s' = snd (amqp_Fail meter err s)"
  shows "receive meter (publish_frame number ex key mandatory) s' = (None, s') \<and>
    fst (receive meter (header_frame number n properties) s') =
      Some (PlainErr ''amqp: a content header arrived with no Basic.Publish waiting for it'') \<and>
    a_sent (snd (receive meter (header_frame number n properties) s')) = a_sent s' @ encodeFrame
      (closure 0 connectionClose 505 ''a content header arrived with no Basic.Publish waiting for it'' 0)"
proof -
  have s: "the_channel number s' = Some (c\<lparr>ch_closing := True, ch_consumers := []\<rparr>)" "a_pending s' = None" "a_writable s'" "a_buffered s' = []"
    using Fail_channel [OF assms(1-5), of meter err] assms(5,6) by (simp_all add: assms(8) the_channel_def)
  have "decode_method (fr_payload (publish_frame number ex key mandatory)) =
      (basicPublish, reading_at (encode_method basicPublish) (put_short 0 @ put_shortstr ex @ put_shortstr key @ put_flags [mandatory]))"
    using decode_encoded [of basicPublish] by (simp add: publish_frame_def method_frame_def method_ids)
  then have "receive meter (publish_frame number ex key mandatory) s' = (None, s')"
    using s(1) assms(7) by (simp add: receive_def channel_method_def publish_frame_def method_frame_def frame_kinds method_ids)
  moreover have "receive meter (header_frame number n properties) s' =
      fatal 505 0 ''a content header arrived with no Basic.Publish waiting for it'' s'"
    using s(2) by (simp add: receive_def header_frame_def contentHeader_def frame_kinds codeUnexpectedFrame_def noMethod_def)
  ultimately show ?thesis using s(3,4) by (simp add: fatal_def amqp_flush_def)
qed

theorem pipelined_publish_kills_connection_witness:
  "fst (receive (\<lambda>_ _. []) (header_frame 1 5 emptyProperties) (snd (amqp_Fail (\<lambda>_ _. []) (ReplyCodeErr 406 ''full'') refused_publish))) =
     Some (PlainErr ''amqp: a content header arrived with no Basic.Publish waiting for it'')"
  using pipelined_publish_kills_connection [OF refused_channel(1,8,3,4,2,5) _ refl,
      where meter = "\<lambda>_ _. []" and err = "ReplyCodeErr 406 ''full''" and n = 5 and properties = emptyProperties]
  by simp

definition implemented_methods :: "nat list" where
  "implemented_methods = [exchangeDeclare, queueDeclare, queueBind, queuePurge, queueDelete, basicQos, basicConsume, basicCancel,
     basicPublish, basicGet, basicAck, basicNack, basicReject, confirmSelect, channelOpen, channelClose, channelCloseOk]"

text \<open>A method emu does not implement leaks the channel's consumers: the channel is closed with an exception, as
  for any failure, but no cancellation is staged for the consumers it has, and once the client confirms
  the close the session has forgotten them. The broker goes on pushing to them, and what it pushes is
  dropped, unacknowledged, until the connection ends.\<close>

theorem unsupported_leaks_consumers:
  assumes "the_channel number s = Some c" "\<not> ch_closing c" "number \<noteq> 0" "i < 2 ^ 32" "i \<notin> set implemented_methods"
    "s1 = snd (receive meter (method_frame number (encode_method i @ arguments)) s)"
    "s2 = snd (receive meter (method_frame number (encode_method channelCloseOk)) s1)"
  shows "the_channel number s1 = Some (c\<lparr>ch_closing := True\<rparr>) \<and> a_staged s1 = a_staged s \<and>
    the_channel number s2 = None \<and> a_staged s2 = a_staged s \<and>
    (d_Channel d = number \<longrightarrow> sendDelivery d s1 = s1 \<and> sendDelivery d s2 = s2)"
proof -
  have u: "receive meter (method_frame number (encode_method i @ arguments)) s = unsupported number i s"
    using assms(1-5) by (simp add: receive_def method_frame_def frame_kinds decode_encoded channel_method_def operation_method_def
        implemented_methods_def)
  have s1: "the_channel number s1 = Some (c\<lparr>ch_closing := True\<rparr>)" "a_staged s1 = a_staged s"
    using assms(1) by (simp_all add: assms(6) u unsupported_def Let_def the_channel_def set_channel_def)
  have k: "decode_method (encode_method channelCloseOk) = (channelCloseOk, reading_at (encode_method channelCloseOk) [])"
    using decode_encoded [of channelCloseOk "[]"] by (simp add: method_ids)
  have ne: "channelCloseOk \<noteq> channelOpen" by (simp add: method_ids)
  have s2: "s2 = s1\<lparr>a_channels := AList.delete number (a_channels s1)\<rparr>"
    using s1(1) assms(3) ne by (simp add: assms(7) receive_def method_frame_def frame_kinds k channel_method_def)
  show ?thesis using s1 by (simp add: s2 sendDelivery_def the_channel_def)
qed

theorem unsupported_leaks_consumers_witness:
  "a_staged (snd (receive (\<lambda>_ _. []) (method_frame 1 (encode_method (methodID 50 50))) open_session)) = []"
  using unsupported_leaks_consumers [OF open_usable(5) _ _ _ _ refl refl,
      where i = "methodID 50 50" and meter = "\<lambda>_ _. []" and arguments = "[]"] open_usable(4)
  by (simp add: new_channel_def implemented_methods_def method_ids)

section \<open>Reading the stream\<close>

text \<open>Frames survive the wire: the reader of a session passes on exactly the frames a client encoded, whole and
  in order, whatever their payloads hold, and then reports that the stream ended; a few stray bytes at
  the end never become a frame.\<close>

theorem frames_survive_the_wire:
  assumes "list_all (frame_fits limit) fs" "limit < 2 ^ 32" "length rest < 7"
  shows "read_frames limit (concat (map encodeFrame fs) @ rest) = (fs, FrameStreamEnded)"
  using frames_read [OF assms(1,2)] assms(3) by (simp add: frameHeaderSize_def)

theorem frames_survive_the_wire_witness:
  "read_frames 4096 (encodeFrame (header_frame 1 0 []) @ encodeFrame (body_frame 1 [CHR 0xCE]) @ ''AMQP'') =
     ([header_frame 1 0 [], body_frame 1 [CHR 0xCE]], FrameStreamEnded)"
  using frames_survive_the_wire [of 4096 "[header_frame 1 0 [], body_frame 1 [CHR 0xCE]]" "''AMQP''"]
  by (simp add: frame_fits_def header_frame_def body_frame_def frame_kinds put_short_def put_longlong_def)

end
