(* ===== verification/Sqltext.thy ===== *)
theory Sqltext
  imports Prelude
begin

text \<open>
  Reading SQL, \<open>internal/sqltext\<close>: the scanner of \<open>scan.go\<close> with its byte positions, and what \<open>sqltext.go\<close> asks of
  its words. The theorems compare it with a lexer of five modes that knows nothing of words: where
  statements end, and which bytes become placeholders. \<open>strings.ToLower\<close> and \<open>strings.TrimSpace\<close> are modelled on
  ASCII, so a query with letters beyond it is outside the theorems that mention them.
\<close>

section \<open>Strings\<close>

definition slice_of :: "gostring \<Rightarrow> nat \<Rightarrow> nat \<Rightarrow> gostring" where
  "slice_of s from to = take (to - from) (drop from s)"

fun IndexByte :: "gostring \<Rightarrow> char \<Rightarrow> nat option" where
  "IndexByte [] c = None"
| "IndexByte (x # xs) c = (if x = c then Some 0 else map_option Suc (IndexByte xs c))"

fun Index :: "gostring \<Rightarrow> gostring \<Rightarrow> nat option" where
  "Index [] sub = (if sub = [] then Some 0 else None)"
| "Index (x # xs) sub = (if take (length sub) (x # xs) = sub then Some 0 else map_option Suc (Index xs sub))"

definition isSpace :: "char \<Rightarrow> bool" where
  "isSpace c = (c \<in> {CHR '' '', CHR 0x09, CHR 0x0A, CHR 0x0D, CHR 0x0B, CHR 0x0C})"

definition TrimSpace :: "gostring \<Rightarrow> gostring" where
  "TrimSpace s = rev (dropWhile isSpace (rev (dropWhile isSpace s)))"

text \<open>\<open>strings.ReplaceAll(s, fence + fence, fence)\<close>.\<close>

fun undouble :: "char \<Rightarrow> gostring \<Rightarrow> gostring" where
  "undouble mark (a # b # s) = (if a = mark \<and> b = mark then mark # undouble mark s else a # undouble mark (b # s))"
| "undouble mark s = s"

section \<open>The scanner\<close>

record sqlword =
  w_text :: gostring
  w_raw :: gostring
  w_at :: nat
  w_name :: bool

definition quote_mark :: char where "quote_mark = CHR 0x27"
definition identifier_mark :: char where "identifier_mark = CHR 0x22"
definition backtick_mark :: char where "backtick_mark = CHR 0x60"

definition peek :: "gostring \<Rightarrow> nat \<Rightarrow> char" where
  "peek sql index = (if index + 1 < length sql then sql ! (index + 1) else CHR 0x00)"

definition isNameByte :: "char \<Rightarrow> bool" where
  "isNameByte c =
     (let n = of_char c :: nat in
      97 \<le> n \<and> n \<le> 122 \<or> 65 \<le> n \<and> n \<le> 90 \<or> 48 \<le> n \<and> n \<le> 57 \<or> c = CHR ''_'' \<or> c = CHR ''$'' \<or> 128 \<le> n)"

function skipQuoted_loop :: "gostring \<Rightarrow> nat \<Rightarrow> char \<Rightarrow> nat" where
  "skipQuoted_loop sql index mark =
     (if index < length sql
      then (if sql ! index \<noteq> mark then skipQuoted_loop sql (index + 1) mark
            else if peek sql index = mark then skipQuoted_loop sql (index + 2) mark
            else index + 1)
      else length sql)"
  by pat_completeness auto
termination by (relation "measure (\<lambda>(sql, index, mark). length sql - index)") auto

declare skipQuoted_loop.simps [simp del]

definition skipQuoted :: "gostring \<Rightarrow> nat \<Rightarrow> char \<Rightarrow> nat" where
  "skipQuoted sql start mark = skipQuoted_loop sql (start + 1) mark"

definition skipLineComment :: "gostring \<Rightarrow> nat \<Rightarrow> nat" where
  "skipLineComment sql start =
     (case IndexByte (drop start sql) (CHR 0x0A) of Some e \<Rightarrow> start + e + 1 | None \<Rightarrow> length sql)"

definition skipBlockComment :: "gostring \<Rightarrow> nat \<Rightarrow> nat" where
  "skipBlockComment sql start =
     (case Index (drop (start + 2) sql) ''*/'' of Some e \<Rightarrow> start + 2 + e + 2 | None \<Rightarrow> length sql)"

definition quotedName :: "gostring \<Rightarrow> nat \<Rightarrow> nat \<Rightarrow> char \<Rightarrow> sqlword" where
  "quotedName sql start e mark =
     (let inner = TrimSuffix (TrimPrefix (slice_of sql start e) [mark]) [mark];
          raw = undouble mark inner
      in \<lparr>w_text = ToLower raw, w_raw = raw, w_at = start, w_name = True\<rparr>)"

function name_end :: "gostring \<Rightarrow> nat \<Rightarrow> nat" where
  "name_end sql e = (if e < length sql \<and> isNameByte (sql ! e) then name_end sql (e + 1) else e)"
  by pat_completeness auto
termination by (relation "measure (\<lambda>(sql, e). length sql - e)") auto

declare name_end.simps [simp del]

text \<open>Every skip moves on, so the scan ends; and none runs past the end.\<close>

lemma skipQuoted_loop_bounds: "min index (length sql) \<le> skipQuoted_loop sql index mark \<and> skipQuoted_loop sql index mark \<le> length sql"
proof (induction sql index mark rule: skipQuoted_loop.induct)
  case (1 sql index mark)
  then show ?case by (subst (1 2) skipQuoted_loop.simps) (auto split: if_splits)
qed

lemma skipQuoted_bounds: "start < length sql \<Longrightarrow> start < skipQuoted sql start mark \<and> skipQuoted sql start mark \<le> length sql"
  using skipQuoted_loop_bounds [of "start + 1" sql mark] by (simp add: skipQuoted_def)

lemma IndexByte_bound: "IndexByte s c = Some e \<Longrightarrow> e < length s"
  by (induction s arbitrary: e) (auto split: if_splits)

lemma Index_bound: "Index s sub = Some e \<Longrightarrow> e + length sub \<le> length s"
proof (induction s arbitrary: e)
  case (Cons x xs)
  show ?case
  proof (cases "take (length sub) (x # xs) = sub")
    case True
    then have "length sub \<le> length (x # xs)" by (metis length_take min.cobounded1)
    with True Cons.prems show ?thesis by simp
  qed (use Cons in auto)
qed (auto split: if_splits)

lemma comment_bounds:
  assumes "start < length sql"
  shows "start < skipLineComment sql start \<and> skipLineComment sql start \<le> length sql"
    "start < skipBlockComment sql start \<and> skipBlockComment sql start \<le> length sql"
  using assms IndexByte_bound [of "drop start sql" "CHR 0x0A"] Index_bound [of "drop (start + 2) sql" "''*/''"]
  by (fastforce simp: skipLineComment_def skipBlockComment_def split: option.split)+

lemma name_end_bounds: "e \<le> length sql \<Longrightarrow> e \<le> name_end sql e \<and> name_end sql e \<le> length sql"
proof (induction sql e rule: name_end.induct)
  case (1 sql e)
  then show ?case by (subst (1 2) name_end.simps) auto
qed

lemma name_end_moves: "e < length sql \<Longrightarrow> isNameByte (sql ! e) \<Longrightarrow> e < name_end sql e"
  using name_end_bounds [of "e + 1" sql] by (subst name_end.simps) simp

function tokens_from :: "gostring \<Rightarrow> nat \<Rightarrow> sqlword list" where
  "tokens_from sql index =
     (if index < length sql
      then (let c = sql ! index in
            if c = CHR ''-'' \<and> peek sql index = CHR ''-'' then tokens_from sql (skipLineComment sql index)
            else if c = CHR ''/'' \<and> peek sql index = CHR ''*'' then tokens_from sql (skipBlockComment sql index)
            else if c = quote_mark then tokens_from sql (skipQuoted sql index quote_mark)
            else if c = identifier_mark \<or> c = backtick_mark
            then (let e = skipQuoted sql index c in quotedName sql index e c # tokens_from sql e)
            else if isNameByte c
            then (let e = name_end sql index
                  in \<lparr>w_text = ToLower (slice_of sql index e), w_raw = slice_of sql index e, w_at = index, w_name = True\<rparr>
                     # tokens_from sql e)
            else if isSpace c then tokens_from sql (index + 1)
            else \<lparr>w_text = slice_of sql index (index + 1), w_raw = slice_of sql index (index + 1), w_at = index, w_name = False\<rparr>
                 # tokens_from sql (index + 1))
      else [])"
  by pat_completeness auto
termination
  by (relation "measure (\<lambda>(sql, index). length sql - index)")
    (auto simp: comment_bounds skipQuoted_bounds name_end_moves diff_less_mono2)

declare tokens_from.simps [simp del]

definition tokenize :: "gostring \<Rightarrow> sqlword list" where "tokenize sql = tokens_from sql 0"

section \<open>Statements\<close>

definition appendStatement :: "gostring list \<Rightarrow> gostring \<Rightarrow> gostring list" where
  "appendStatement statements text =
     (let trimmed = TrimSpace text in if trimmed \<noteq> [] then statements @ [trimmed] else statements)"

fun split_loop :: "gostring \<Rightarrow> sqlword list \<Rightarrow> gostring list \<Rightarrow> nat \<Rightarrow> gostring list" where
  "split_loop sql [] statements start = appendStatement statements (drop start sql)"
| "split_loop sql (w # ws) statements start =
     (if w_text w \<noteq> '';'' then split_loop sql ws statements start
      else split_loop sql ws (appendStatement statements (slice_of sql start (w_at w))) (w_at w + 1))"

definition Split :: "gostring \<Rightarrow> gostring list" where "Split sql = split_loop sql (tokenize sql) [] 0"

section \<open>Placeholders\<close>

definition isPlaceholder :: "gostring \<Rightarrow> sqlword \<Rightarrow> bool" where
  "isPlaceholder sql item =
     (if \<not> w_name item \<or> length (w_raw item) < 2 \<or> sql ! w_at item \<noteq> CHR ''$'' then False
      else list_all is_digit (drop 1 (w_raw item)))"

fun bindable_loop :: "gostring \<Rightarrow> sqlword list \<Rightarrow> gostring \<Rightarrow> nat \<Rightarrow> gostring \<times> nat" where
  "bindable_loop sql [] rewritten copied = (rewritten, copied)"
| "bindable_loop sql (item # items) rewritten copied =
     (if \<not> isPlaceholder sql item then bindable_loop sql items rewritten copied
      else bindable_loop sql items
             (rewritten @ slice_of sql copied (w_at item) @ [CHR 0x3F] @ drop 1 (w_raw item))
             (w_at item + length (w_raw item)))"

definition bindable :: "gostring \<Rightarrow> gostring" where
  "bindable sql =
     (case bindable_loop sql (tokenize sql) [] 0 of (rewritten, copied) \<Rightarrow>
        if copied = 0 then sql else rewritten @ drop copied sql)"

fun count_loop :: "gostring \<Rightarrow> sqlword list \<Rightarrow> int \<Rightarrow> int" where
  "count_loop sql [] highest = highest"
| "count_loop sql (item # items) highest =
     (if \<not> isPlaceholder sql item then count_loop sql items highest
      else (case Atoi (drop 1 (w_raw item)) of
              Some number \<Rightarrow> count_loop sql items (if number > highest then number else highest)
            | None \<Rightarrow> count_loop sql items highest))"

definition countPlaceholders :: "gostring \<Rightarrow> int" where
  "countPlaceholders sql = count_loop sql (tokenize sql) 0"

section \<open>What a statement is\<close>

definition KindSelect :: gostring where "KindSelect = ''SELECT''"
definition KindInsert :: gostring where "KindInsert = ''INSERT''"
definition KindUpdate :: gostring where "KindUpdate = ''UPDATE''"
definition KindDeleteRows :: gostring where "KindDeleteRows = ''DELETE''"
definition KindBegin :: gostring where "KindBegin = ''BEGIN''"
definition KindCommit :: gostring where "KindCommit = ''COMMIT''"
definition KindRollback :: gostring where "KindRollback = ''ROLLBACK''"
definition KindQuery :: gostring where "KindQuery = ''QUERY''"

definition verbs :: "(gostring \<times> gostring) list" where
  "verbs = [(''select'', KindSelect), (''insert'', KindInsert), (''update'', KindUpdate), (''delete'', KindDeleteRows),
     (''begin'', KindBegin), (''start'', KindBegin), (''commit'', KindCommit), (''end'', KindCommit),
     (''rollback'', KindRollback), (''abort'', KindRollback)]"

definition rowProducers :: "gostring list" where
  "rowProducers = [''select'', ''with'', ''values'', ''table'', ''pragma'', ''explain'']"

definition twoWordCommands :: "gostring list" where "twoWordCommands = [''create'', ''drop'', ''alter'']"

definition namesTable :: "gostring list" where "namesTable = [''from'', ''into'', ''update'', ''table'']"

definition kindOf :: "sqlword list \<Rightarrow> gostring" where
  "kindOf words =
     (case words of [] \<Rightarrow> KindQuery | w # _ \<Rightarrow> (case map_of verbs (w_text w) of Some kind \<Rightarrow> kind | None \<Rightarrow> KindQuery))"

definition returnsRows :: "sqlword list \<Rightarrow> bool" where
  "returnsRows words =
     (case words of [] \<Rightarrow> False
      | w # _ \<Rightarrow> if w_text w \<in> set rowProducers then True else list_ex (\<lambda>v. w_text v = ''returning'') words)"

definition commandOf :: "sqlword list \<Rightarrow> gostring" where
  "commandOf words =
     (case words of [] \<Rightarrow> []
      | [w] \<Rightarrow> ToUpper (w_text w)
      | w # v # _ \<Rightarrow>
          if w_text w \<in> set twoWordCommands \<and> w_name v then ToUpper (w_text w) @ '' '' @ ToUpper (w_text v)
          else ToUpper (w_text w))"

fun qualified_loop :: "gostring \<Rightarrow> sqlword list \<Rightarrow> gostring" where
  "qualified_loop name (a # b # c # ws) =
     (if w_text b = ''.'' \<and> w_name c then qualified_loop (w_raw c) (c # ws) else name)"
| "qualified_loop name ws = name"

definition qualified_table :: "sqlword list \<Rightarrow> gostring" where
  "qualified_table words = qualified_loop (w_raw (hd words)) words"

fun tableOf :: "sqlword list \<Rightarrow> gostring" where
  "tableOf (w # v # ws) =
     (if w_text w \<notin> set namesTable \<or> \<not> w_name v then tableOf (v # ws) else qualified_table (v # ws))"
| "tableOf ws = []"

record 'v Statement =
  s_SQL :: gostring
  s_Params :: "'v list"
  s_Kind :: gostring
  s_Table :: gostring
  s_ReturnsRows :: bool
  s_Command :: gostring
  s_Parameters :: int

definition Parse :: "gostring \<Rightarrow> 'v list \<Rightarrow> 'v Statement" where
  "Parse sql params =
     (let words = tokenize sql
      in \<lparr>s_SQL = bindable sql, s_Params = params, s_Kind = kindOf words, s_Table = tableOf words,
          s_ReturnsRows = returnsRows words, s_Command = commandOf words, s_Parameters = countPlaceholders sql\<rparr>)"

section \<open>Where statements end\<close>

text \<open>A lexer that only knows whether it is in a quoted run, in a comment or in neither, and answers the
  positions of the semicolons it meets in neither.\<close>

datatype lexmode = Code | InQuote char | InLine | InBlock

fun cuts :: "lexmode \<Rightarrow> nat \<Rightarrow> gostring \<Rightarrow> nat list" where
  "cuts m i [] = []"
| "cuts Code i (c # s) =
     (if c = CHR ''-'' \<and> take 1 s = ''-'' then cuts InLine (i + 2) (drop 1 s)
      else if c = CHR ''/'' \<and> take 1 s = ''*'' then cuts InBlock (i + 2) (drop 1 s)
      else if c = CHR 0x27 \<or> c = CHR 0x22 \<or> c = CHR 0x60 then cuts (InQuote c) (i + 1) s
      else if c = CHR '';'' then i # cuts Code (i + 1) s
      else cuts Code (i + 1) s)"
| "cuts (InQuote q) i (c # s) =
     (if c \<noteq> q then cuts (InQuote q) (i + 1) s
      else if take 1 s = [q] then cuts (InQuote q) (i + 2) (drop 1 s)
      else cuts Code (i + 1) s)"
| "cuts InLine i (c # s) = (if c = CHR 0x0A then cuts Code (i + 1) s else cuts InLine (i + 1) s)"
| "cuts InBlock i (c # s) =
     (if c = CHR ''*'' \<and> take 1 s = ''/'' then cuts Code (i + 2) (drop 1 s) else cuts InBlock (i + 1) s)"

fun pieces :: "gostring \<Rightarrow> nat \<Rightarrow> nat list \<Rightarrow> gostring list" where
  "pieces sql start [] = [drop start sql]"
| "pieces sql start (p # ps) = slice_of sql start p # pieces sql (p + 1) ps"

lemma peek_take: "q \<noteq> CHR 0x00 \<Longrightarrow> peek sql i = q \<longleftrightarrow> take 1 (drop (Suc i) sql) = [q]"
  by (cases "drop (Suc i) sql") (auto simp: peek_def nth_via_drop dest: drop_eq_Nil [THEN iffD1] nth_via_drop)

lemma cuts_line: "cuts InLine i s = (case IndexByte s (CHR 0x0A) of None \<Rightarrow> [] | Some e \<Rightarrow> cuts Code (i + e + 1) (drop (e + 1) s))"
  by (induction s arbitrary: i) (auto split: option.split)

lemma cuts_block: "cuts InBlock i s = (case Index s ''*/'' of None \<Rightarrow> [] | Some e \<Rightarrow> cuts Code (i + e + 2) (drop (e + 2) s))"
proof (induction s arbitrary: i)
  case (Cons c s)
  have "take (length ''*/'') (c # s) = ''*/'' \<longleftrightarrow> c = CHR ''*'' \<and> take 1 s = ''/''" by (cases s) auto
  then show ?case by (auto simp: Cons.IH split: option.split)
qed simp

lemma cuts_quote:
  assumes "q \<noteq> CHR 0x00"
  shows "cuts (InQuote q) i (drop i sql) = cuts Code (skipQuoted_loop sql i q) (drop (skipQuoted_loop sql i q) sql)"
  using assms
proof (induction sql i q rule: skipQuoted_loop.induct)
  case (1 sql i q)
  show ?case
  proof (cases "i < length sql")
    case True
    note d = Cons_nth_drop_Suc [OF True, symmetric]
    show ?thesis
      using 1 True peek_take [OF "1.prems", of sql i]
      by (subst (1 2) skipQuoted_loop.simps) (auto simp: d)
  qed (subst (1 2) skipQuoted_loop.simps, simp)
qed

lemma cuts_name: "cuts Code e (drop e sql) = cuts Code (name_end sql e) (drop (name_end sql e) sql)"
proof (induction sql e rule: name_end.induct)
  case (1 sql e)
  show ?case
  proof (cases "e < length sql \<and> isNameByte (sql ! e)")
    case True
    then have d: "drop e sql = sql ! e # drop (Suc e) sql" by (simp add: Cons_nth_drop_Suc)
    have "sql ! e \<notin> {CHR ''-'', CHR ''/'', CHR 0x27, CHR 0x22, CHR 0x60, CHR '';''}"
      using True by (auto simp: isNameByte_def)
    then have "cuts Code e (drop e sql) = cuts Code (e + 1) (drop (e + 1) sql)" by (simp add: d)
    then show ?thesis using 1 [OF True] True by (subst (1 2) name_end.simps) simp
  qed (subst (1 2) name_end.simps, auto)
qed

definition ends_statement :: "sqlword \<Rightarrow> bool" where "ends_statement w = (w_text w = '';'' \<and> \<not> w_name w)"

lemma ends_name [simp]: "w_name w \<Longrightarrow> \<not> ends_statement w"
  by (simp add: ends_statement_def)

lemma ends_word [simp]: "ends_statement \<lparr>w_text = t, w_raw = r, w_at = a, w_name = n\<rparr> \<longleftrightarrow> t = '';'' \<and> \<not> n"
  by (simp add: ends_statement_def)

lemma quotedName_name [simp]: "w_name (quotedName sql start e mark)" "w_at (quotedName sql start e mark) = start"
  by (simp_all add: quotedName_def Let_def)

lemma tokens_cuts: "map w_at (filter ends_statement (tokens_from sql i)) = cuts Code i (drop i sql)"
proof (induction sql i rule: tokens_from.induct)
  case (1 sql i)
  show ?case
  proof (cases "i < length sql")
    case True
    let ?c = "sql ! i" and ?s = "drop (Suc i) sql"
    have d: "drop i sql = ?c # ?s" using True by (simp add: Cons_nth_drop_Suc)
    have sl: "slice_of sql i (i + 1) = [?c]" using True by (simp add: slice_of_def d)
    have dd: "drop (i + 2) sql = drop 1 ?s" by simp
    consider (line) "?c = CHR ''-''" "peek sql i = CHR ''-''"
      | (block) "?c = CHR ''/''" "peek sql i = CHR ''*''"
      | (string) "?c = quote_mark"
      | (ident) "?c = identifier_mark \<or> ?c = backtick_mark"
      | (name) "isNameByte ?c"
      | (space) "isSpace ?c"
      | (other) "\<not> (?c = CHR ''-'' \<and> peek sql i = CHR ''-'')" "\<not> (?c = CHR ''/'' \<and> peek sql i = CHR ''*'')"
          "?c \<noteq> quote_mark" "?c \<noteq> identifier_mark" "?c \<noteq> backtick_mark" "\<not> isNameByte ?c" "\<not> isSpace ?c" by blast
    then show ?thesis
    proof cases
      case line
      then have t: "take 1 ?s = ''-''" by (simp add: peek_take)
      have "cuts Code i (drop i sql) = cuts InLine (i + 2) (drop (i + 2) sql)" using line t by (simp add: d dd)
      also have "\<dots> = cuts Code (skipLineComment sql i) (drop (skipLineComment sql i) sql)"
      proof -
        have "drop (i + 2) sql = tl ?s" by (simp add: drop_Suc tl_drop)
        then have "drop i sql = ''--'' @ drop (i + 2) sql" using line t by (cases ?s) (auto simp: d)
        then show ?thesis by (auto simp: skipLineComment_def cuts_line add_ac split: option.split)
      qed
      finally show ?thesis using 1(1) [OF True refl] line True by (subst tokens_from.simps) simp
    next
      case block
      then have t: "take 1 ?s = ''*''" by (simp add: peek_take)
      have "cuts Code i (drop i sql) = cuts InBlock (i + 2) (drop (i + 2) sql)" using block t by (simp add: d dd)
      also have "\<dots> = cuts Code (skipBlockComment sql i) (drop (skipBlockComment sql i) sql)"
        by (auto simp: skipBlockComment_def cuts_block add_ac split: option.split)
      finally show ?thesis using 1(2) [OF True refl] block True by (subst tokens_from.simps) simp
    next
      case string
      then have "cuts Code i (drop i sql) = cuts (InQuote ?c) (i + 1) (drop (i + 1) sql)" by (simp add: d quote_mark_def)
      then show ?thesis using 1(3) [OF True refl] string True cuts_quote [of ?c "i + 1" sql]
        by (subst tokens_from.simps) (simp add: skipQuoted_def quote_mark_def)
    next
      case ident
      then have "cuts Code i (drop i sql) = cuts (InQuote ?c) (i + 1) (drop (i + 1) sql)"
        by (auto simp: d identifier_mark_def backtick_mark_def)
      then show ?thesis using 1(4) [OF True refl _ _ _ ident refl] ident True cuts_quote [of ?c "i + 1" sql]
        by (subst tokens_from.simps)
          (auto simp: skipQuoted_def quote_mark_def identifier_mark_def backtick_mark_def Let_def)
    next
      case name
      then have "?c \<notin> {CHR ''-'', CHR ''/'', quote_mark, identifier_mark, backtick_mark}"
        by (auto simp: isNameByte_def quote_mark_def identifier_mark_def backtick_mark_def)
      then show ?thesis using 1(5) [OF True refl] name True cuts_name [of i sql]
        by (subst tokens_from.simps) (simp add: Let_def)
    next
      case space
      then have "?c \<notin> {CHR ''-'', CHR ''/'', quote_mark, identifier_mark, backtick_mark, CHR '';''} \<and> \<not> isNameByte ?c"
        by (auto simp: isSpace_def isNameByte_def quote_mark_def identifier_mark_def backtick_mark_def)
      then show ?thesis using 1(6) [OF True refl] space True
        by (subst tokens_from.simps) (simp add: d quote_mark_def identifier_mark_def backtick_mark_def)
    next
      case other
      then have "cuts Code i (drop i sql) = (if ?c = CHR '';'' then [i] else []) @ cuts Code (i + 1) (drop (i + 1) sql)"
        using peek_take [of "CHR ''-''" sql i] peek_take [of "CHR ''*''" sql i]
        by (auto simp: d quote_mark_def identifier_mark_def backtick_mark_def)
      moreover have "tokens_from sql i = \<lparr>w_text = [?c], w_raw = [?c], w_at = i, w_name = False\<rparr> # tokens_from sql (i + 1)"
        using other True sl by (subst tokens_from.simps) (auto simp: Let_def)
      moreover have "map w_at (filter ends_statement (tokens_from sql (i + 1))) = cuts Code (i + 1) (drop (i + 1) sql)"
        using other by (intro 1(7) [OF True refl]) auto
      ultimately show ?thesis by simp
    qed
  qed (subst tokens_from.simps, simp)
qed

lemma split_loop_pieces:
  assumes "\<forall>w \<in> set ws. w_name w \<longrightarrow> w_text w \<noteq> '';''"
  shows "split_loop sql ws sts start =
    sts @ filter (\<lambda>t. t \<noteq> []) (map TrimSpace (pieces sql start (map w_at (filter ends_statement ws))))"
  using assms
  by (induction ws arbitrary: sts start) (auto simp: appendStatement_def ends_statement_def Let_def)

text \<open>The exception below is real: a quoted identifier that is a lone semicolon is taken for the end of a statement,
  and the query is cut in two inside it.\<close>

lemma quoted_semicolon_splits:
  "Split (''DROP TABLE '' @ [CHR 0x22] @ '';'' @ [CHR 0x22]) = [''DROP TABLE'', '';'' @ [CHR 0x22]]"
  by code_simp

text \<open>C22. A query in which no quoted identifier spells a lone semicolon is split exactly at the semicolons that a lexer
  of quotes and comments meets outside both, and the statements are what lies between, trimmed, the empty
  ones left out. A quoted identifier that is a lone semicolon is cut in two: \<open>DROP TABLE ";"\<close> comes apart inside
  its quotes.\<close>

theorem split_at_semicolons:
  assumes "\<forall>w \<in> set (tokenize sql). w_name w \<longrightarrow> w_text w \<noteq> '';''"
  shows "Split sql = filter (\<lambda>t. t \<noteq> []) (map TrimSpace (pieces sql 0 (cuts Code 0 sql))) \<and>
    Split (''DROP TABLE '' @ [CHR 0x22] @ '';'' @ [CHR 0x22]) = [''DROP TABLE'', '';'' @ [CHR 0x22]]"
  using split_loop_pieces [OF assms, of sql "[]" 0] tokens_cuts [of sql 0] quoted_semicolon_splits
  by (simp add: Split_def tokenize_def)

theorem split_at_semicolons_witness:
  "Split (''SELECT ';' -- a;'' @ [CHR 0x0A] @ ''; COMMIT'') = [''SELECT ';' -- a;'', ''COMMIT'']"
proof -
  let ?sql = "''SELECT ';' -- a;'' @ [CHR 0x0A] @ ''; COMMIT''"
  have "\<forall>w \<in> set (tokenize ?sql). w_name w \<longrightarrow> w_text w \<noteq> '';''" by code_simp
  note s = conjunct1 [OF split_at_semicolons [OF this]]
  have "filter (\<lambda>t. t \<noteq> []) (map TrimSpace (pieces ?sql 0 (cuts Code 0 ?sql))) = [''SELECT ';' -- a;'', ''COMMIT'']" by code_simp
  with s show ?thesis by simp
qed

section \<open>Which bytes are placeholders\<close>

text \<open>One round of the scan: it moves on, adding nothing or a word that starts where the round did and, unless it
  is a quoted identifier, spells what the round read.\<close>

lemma tokens_step:
  assumes i: "i < length sql"
  obtains (skip) j where "i < j" "j \<le> length sql" "tokens_from sql i = tokens_from sql j"
  | (found) j w where "i < j" "j \<le> length sql" "tokens_from sql i = w # tokens_from sql j" "w_at w = i"
      "sql ! i \<noteq> CHR ''$'' \<or> w_raw w = slice_of sql i j"
proof -
  let ?c = "sql ! i"
  note b = comment_bounds [OF i] skipQuoted_bounds [OF i] name_end_bounds [of i sql] name_end_moves [OF i]
  consider (line) "?c = CHR ''-'' \<and> peek sql i = CHR ''-''"
    | (block) "\<not> (?c = CHR ''-'' \<and> peek sql i = CHR ''-'')" "?c = CHR ''/'' \<and> peek sql i = CHR ''*''"
    | (string) "\<not> (?c = CHR ''-'' \<and> peek sql i = CHR ''-'')" "\<not> (?c = CHR ''/'' \<and> peek sql i = CHR ''*'')" "?c = quote_mark"
    | (code) "\<not> (?c = CHR ''-'' \<and> peek sql i = CHR ''-'')" "\<not> (?c = CHR ''/'' \<and> peek sql i = CHR ''*'')" "?c \<noteq> quote_mark" by blast
  then show ?thesis
  proof cases
    case line
    then show ?thesis using i b(1) by (intro skip [of "skipLineComment sql i"]) (simp_all add: tokens_from.simps [of sql i])
  next
    case block
    then show ?thesis using i b(2) by (intro skip [of "skipBlockComment sql i"]) (simp_all add: tokens_from.simps [of sql i])
  next
    case string
    then show ?thesis using i b(3) [of quote_mark]
      by (intro skip [of "skipQuoted sql i quote_mark"]) (auto simp: tokens_from.simps [of sql i])
  next
    case code
    then have t: "tokens_from sql i =
      (if ?c = identifier_mark \<or> ?c = backtick_mark
       then quotedName sql i (skipQuoted sql i ?c) ?c # tokens_from sql (skipQuoted sql i ?c)
       else if isNameByte ?c
       then \<lparr>w_text = ToLower (slice_of sql i (name_end sql i)), w_raw = slice_of sql i (name_end sql i), w_at = i, w_name = True\<rparr>
            # tokens_from sql (name_end sql i)
       else if isSpace ?c then tokens_from sql (i + 1)
       else \<lparr>w_text = slice_of sql i (i + 1), w_raw = slice_of sql i (i + 1), w_at = i, w_name = False\<rparr> # tokens_from sql (i + 1))"
      using i by (subst tokens_from.simps) (simp only: Let_def if_True if_False)
    consider "?c = identifier_mark \<or> ?c = backtick_mark" | "?c \<noteq> identifier_mark \<and> ?c \<noteq> backtick_mark" "isNameByte ?c"
      | "?c \<noteq> identifier_mark \<and> ?c \<noteq> backtick_mark" "\<not> isNameByte ?c" "isSpace ?c"
      | "?c \<noteq> identifier_mark \<and> ?c \<noteq> backtick_mark" "\<not> isNameByte ?c" "\<not> isSpace ?c" by blast
    then show ?thesis
    proof cases
      case 1
      then show ?thesis using t b(3) [of ?c]
        by (intro found [of "skipQuoted sql i ?c"]) (auto simp: identifier_mark_def backtick_mark_def)
    next
      case 2
      then show ?thesis using t b(4,5) i by (intro found [of "name_end sql i"]) auto
    next
      case 3
      then show ?thesis using t i by (intro skip [of "i + 1"]) auto
    next
      case 4
      then show ?thesis using t i by (intro found [of "i + 1"]) auto
    qed
  qed
qed

lemma tokens_at: "w \<in> set (tokens_from sql i) \<Longrightarrow> i \<le> w_at w \<and> w_at w < length sql"
proof (induction "length sql - i" arbitrary: i rule: less_induct)
  case less
  show ?case
  proof (cases "i < length sql")
    case True
    then show ?thesis
    proof (cases rule: tokens_step)
      case (skip j)
      then have "length sql - j < length sql - i" using True by linarith
      then show ?thesis using less(1) [of j] less(2) skip by auto
    next
      case (found j w')
      then have "length sql - j < length sql - i" using True by linarith
      then show ?thesis using less(1) [of j] less(2) True found by auto
    qed
  qed (use less in \<open>simp add: tokens_from.simps [of sql i]\<close>)
qed

lemma slice_nth: "b \<le> length s \<Longrightarrow> slice_of s a b = map (nth s) [a..<b]"
  by (auto simp: slice_of_def intro: nth_equalityI)

definition bound_byte :: "gostring \<Rightarrow> sqlword list \<Rightarrow> nat \<Rightarrow> char" where
  "bound_byte sql ws j = (if \<exists>w \<in> set ws. isPlaceholder sql w \<and> w_at w = j then CHR 0x3F else sql ! j)"

lemma bound_byte_before: "j < i \<Longrightarrow> bound_byte sql (tokens_from sql i) j = sql ! j"
  using tokens_at by (fastforce simp: bound_byte_def)

lemma bound_byte_skip: "\<not> isPlaceholder sql w \<Longrightarrow> bound_byte sql (w # ws) = bound_byte sql ws"
  by (auto simp: bound_byte_def fun_eq_iff)

lemma bindable_loop_untouched: "bindable_loop sql ws out c = (out', 0) \<Longrightarrow> out' = out \<and> c = 0"
  by (induction ws arbitrary: out c) (fastforce simp: isPlaceholder_def split: if_splits)+

lemma upt_split: "a \<le> b \<Longrightarrow> b \<le> c \<Longrightarrow> [a..<c] = [a..<b] @ [b..<c]"
  by (metis le_add_diff_inverse upt_add_eq_append)

lemma bound_byte_split:
  assumes "copied \<le> i" "i < j" "j \<le> length sql" "isPlaceholder sql w" "w_at w = i"
  shows "map (bound_byte sql (w # tokens_from sql j)) [copied..<length sql] =
    slice_of sql copied i @ [CHR 0x3F] @ drop 1 (slice_of sql i j) @ map (bound_byte sql (tokens_from sql j)) [j..<length sql]"
proof -
  let ?f = "bound_byte sql (w # tokens_from sql j)"
  have up: "[copied..<length sql] = [copied..<i] @ [i] @ [Suc i..<j] @ [j..<length sql]"
    using assms(1-3) upt_split [of copied i "length sql"] upt_split [of i j "length sql"] upt_conv_Cons [of i j] by simp
  have f: "?f k = (if k = i then CHR 0x3F else bound_byte sql (tokens_from sql j) k)" for k
    using assms(4,5) by (auto simp: bound_byte_def)
  have "map ?f [copied..<i] = slice_of sql copied i" "map ?f [Suc i..<j] = drop 1 (slice_of sql i j)"
    using assms(2,3) by (auto simp: slice_nth f bound_byte_before drop_map upt_conv_Cons [of i j])
  moreover have "map ?f [j..<length sql] = map (bound_byte sql (tokens_from sql j)) [j..<length sql]"
    using assms(2) by (auto simp: f)
  ultimately show ?thesis by (simp add: up f)
qed

lemma bindable_loop_bytes:
  assumes "copied \<le> i" "i \<le> length sql" "bindable_loop sql (tokens_from sql i) out copied = (out', c')"
  shows "out' @ drop c' sql = out @ map (bound_byte sql (tokens_from sql i)) [copied..<length sql]"
  using assms
proof (induction "length sql - i" arbitrary: i out copied rule: less_induct)
  case less
  show ?case
  proof (cases "i < length sql")
    case False
    then have "tokens_from sql i = []" by (simp add: tokens_from.simps [of sql i])
    then show ?thesis using less(4) slice_nth [of "length sql" sql copied] by (auto simp: bound_byte_def slice_of_def)
  next
    case True
    then show ?thesis
    proof (cases rule: tokens_step)
      case (skip j)
      then show ?thesis using less(1) [of j copied out] less(2-) True by auto
    next
      case (found j w)
      show ?thesis
      proof (cases "isPlaceholder sql w")
        case False
        then show ?thesis using less(1) [of j copied out] less(2-) True found by (simp add: bound_byte_skip)
      next
        case p: True
        then have raw: "w_raw w = slice_of sql i j" using found by (auto simp: isPlaceholder_def split: if_splits)
        have "w_at w + length (w_raw w) = j" using found by (simp add: raw slice_of_def)
        then show ?thesis
          using less(1) [of j j "out @ slice_of sql copied i @ [CHR 0x3F] @ drop 1 (w_raw w)"] less(2-) True p found
          by (simp add: bound_byte_split raw)
      qed
    qed
  qed
qed

text \<open>C29. \<open>bindable\<close> changes nothing but the dollar of each placeholder, which becomes a question mark: the query keeps
  its length, and every other byte, inside literals, quoted identifiers and comments too, stays where it is.\<close>

theorem bindable_marks_placeholders:
  "bindable sql = map (\<lambda>i. if \<exists>w \<in> set (tokenize sql). isPlaceholder sql w \<and> w_at w = i then CHR 0x3F else sql ! i) [0..<length sql]"
proof -
  obtain out c where l: "bindable_loop sql (tokens_from sql 0) [] 0 = (out, c)" by force
  then have "bindable sql = out @ drop c sql"
    using bindable_loop_untouched [of sql "tokens_from sql 0" "[]" 0 out] by (auto simp: bindable_def tokenize_def)
  then show ?thesis using bindable_loop_bytes [OF _ _ l] by (simp add: bound_byte_def tokenize_def)
qed

end
