(* ===== verification/Config.thy ===== *)
theory Config
  imports Rules
begin

text \<open>
  A lesson's configuration, \<open>internal/config/config.go\<close>: what is checked before anything starts. Decoding JSON is
  outside; a decoded configuration, or the decoder's error, is what \<open>Parse\<close> is given. Seeds stay raw. The
  theorems say which configurations are accepted, and that an accepted fault can strike.
\<close>

definition KnownServices :: "gostring list" where
  "KnownServices = [''postgres'', ''redis'', ''queue'', ''mongo'']"

record 'raw Config =
  cf_Services :: "gostring list"
  cf_Seed :: "(gostring \<times> 'raw) list"
  cf_Faults :: "Rule list"
  cf_LogLimit :: int

datatype config_error =
    UndecodableConfig gostring
  | NoServices
  | NegativeLogLimit int
  | UnknownService gostring
  | ServiceTwice gostring
  | SeedUndeclared gostring
  | FaultUndeclared gostring gostring

text \<open>The services still to check, and those already passed.\<close>

fun validateServices :: "gostring list \<Rightarrow> gostring list \<Rightarrow> config_error option" where
  "validateServices before [] = None"
| "validateServices before (service # services) =
     (if service \<notin> set KnownServices then Some (UnknownService service)
      else if service \<in> set before then Some (ServiceTwice service)
      else validateServices (before @ [service]) services)"

fun seed_loop :: "gostring list \<Rightarrow> gostring list \<Rightarrow> config_error option" where
  "seed_loop services [] = None"
| "seed_loop services (service # rest) =
     (if service \<notin> set services then Some (SeedUndeclared service) else seed_loop services rest)"

definition validateSeed :: "'raw Config \<Rightarrow> config_error option" where
  "validateSeed c = seed_loop (cf_Services c) (sorted_keys (cf_Seed c))"

fun faults_loop :: "gostring list \<Rightarrow> Rule list \<Rightarrow> config_error option" where
  "faults_loop services [] = None"
| "faults_loop services (rule # rules) =
     (let emulator = PatternEmulator (r_Match rule)
      in if emulator \<noteq> Wildcard \<and> emulator \<notin> set services then Some (FaultUndeclared (r_Match rule) emulator)
         else faults_loop services rules)"

definition validateFaults :: "'raw Config \<Rightarrow> config_error option" where
  "validateFaults c = faults_loop (cf_Services c) (cf_Faults c)"

definition validate_config :: "'raw Config \<Rightarrow> config_error option" where
  "validate_config c =
     (if cf_Services c = [] then Some NoServices
      else if cf_LogLimit c < 0 then Some (NegativeLogLimit (cf_LogLimit c))
      else (case validateServices [] (cf_Services c) of
              Some err \<Rightarrow> Some err
            | None \<Rightarrow> (case validateSeed c of Some err \<Rightarrow> Some err | None \<Rightarrow> validateFaults c)))"

text \<open>Go hands back the configuration beside the error; callers look at the error first.\<close>

definition Parse_config :: "gostring + 'raw Config \<Rightarrow> config_error option \<times> 'raw Config option" where
  "Parse_config decoding =
     (case decoding of Inl err \<Rightarrow> (Some (UndecodableConfig err), None) | Inr c \<Rightarrow> (validate_config c, Some c))"

text \<open>A file that cannot be opened, one that cannot be parsed, or its configuration. \<open>opened\<close> is what the file's
  bytes decode to.\<close>

definition empty_config :: "'raw Config" where
  "empty_config = \<lparr>cf_Services = [], cf_Seed = [], cf_Faults = [], cf_LogLimit = 0\<rparr>"

datatype load_error = NotReadable gostring | NotParsed gostring config_error

definition Load_config :: "(gostring \<Rightarrow> gostring + (gostring + 'raw Config)) \<Rightarrow> gostring \<Rightarrow> load_error + 'raw Config" where
  "Load_config opened path =
     (case opened path of
        Inl err \<Rightarrow> Inl (NotReadable err)
      | Inr decoding \<Rightarrow>
          (case Parse_config decoding of
             (Some err, c) \<Rightarrow> Inl (NotParsed path err)
           | (None, c) \<Rightarrow> Inr (case c of Some c \<Rightarrow> c | None \<Rightarrow> empty_config)))"

section \<open>What is accepted\<close>

lemma validateServices_None:
  "validateServices before ss = None \<longleftrightarrow> set ss \<subseteq> set KnownServices \<and> distinct ss \<and> set ss \<inter> set before = {}"
  by (induction ss arbitrary: before) auto

lemma seed_loop_None: "seed_loop services ks = None \<longleftrightarrow> set ks \<subseteq> set services"
  by (induction ks) auto

lemma faults_loop_None:
  "faults_loop services rs = None \<longleftrightarrow>
     (\<forall>r \<in> set rs. PatternEmulator (r_Match r) = Wildcard \<or> PatternEmulator (r_Match r) \<in> set services)"
  by (induction rs) (auto simp: Let_def)

lemma validate_config_None:
  "validate_config c = None \<longleftrightarrow>
     cf_Services c \<noteq> [] \<and> 0 \<le> cf_LogLimit c \<and> set (cf_Services c) \<subseteq> set KnownServices \<and> distinct (cf_Services c) \<and>
     dom (map_of (cf_Seed c)) \<subseteq> set (cf_Services c) \<and>
     (\<forall>r \<in> set (cf_Faults c). PatternEmulator (r_Match r) = Wildcard \<or> PatternEmulator (r_Match r) \<in> set (cf_Services c))"
proof -
  have "validate_config c = None \<longleftrightarrow> cf_Services c \<noteq> [] \<and> 0 \<le> cf_LogLimit c \<and> validateServices [] (cf_Services c) = None \<and>
      validateSeed c = None \<and> validateFaults c = None"
    by (auto simp: validate_config_def split: option.split)
  then show ?thesis
    by (auto simp: validateServices_None validateSeed_def seed_loop_None validateFaults_def faults_loop_None)
qed

lemma known_no_dot: "s \<in> set KnownServices \<Longrightarrow> patternSeparator \<notin> set s"
  by (auto simp: KnownServices_def patternSeparator_def)

text \<open>An accepted configuration starts what it means to: at least one service, each known and named once, seeds
  only for those; and every fault it arms whose rule is well formed is one that can strike: some operation
  of a service the lesson starts carries a name its pattern matches.\<close>

theorem accepted_faults_can_strike:
  assumes "fst (Parse_config decoding) = None"
  shows "\<exists>c. decoding = Inr c \<and> cf_Services c \<noteq> [] \<and> distinct (cf_Services c) \<and> set (cf_Services c) \<subseteq> set KnownServices \<and>
    dom (map_of (cf_Seed c)) \<subseteq> set (cf_Services c) \<and>
    (\<forall>r \<in> set (cf_Faults c). Validate r = None \<longrightarrow>
       (\<exists>o'. op_Emulator o' \<in> set (cf_Services c) \<and> matchName (r_Match r) (op_Name (o' :: unit op))))"
proof -
  obtain c where c: "decoding = Inr c" "validate_config c = None"
    using assms by (auto simp: Parse_config_def split: sum.splits)
  note v = c(2) [unfolded validate_config_None]
  have "\<exists>o'. op_Emulator o' \<in> set (cf_Services c) \<and> matchName (r_Match r) (op_Name (o' :: unit op))"
    if r: "r \<in> set (cf_Faults c)" "Validate r = None" for r
  proof (cases "r_Match r = Wildcard")
    case True
    then show ?thesis using v by (cases "cf_Services c")
      (auto simp: matchName_def intro!: exI [of _ "\<lparr>op_Emulator = s, op_Kind = [], op_Target = [], op_Gauges = [], op_Payload = ()\<rparr>" for s])
  next
    case False
    have "validatePattern (r_Match r) = None" using r(2) by (auto simp: Validate_def split: option.splits if_splits)
    then obtain e k where p: "r_Match r = e @ patternSeparator # k" "patternSeparator \<notin> set e"
      using False by (auto simp: validatePattern_None)
    then have cut: "Cut (r_Match r) patternSeparator = (e, k, True)" using Cut_split [of patternSeparator e k] by simp
    obtain s where s: "s \<in> set (cf_Services c)" "e = Wildcard \<or> e = s"
    proof (cases "e = Wildcard")
      case True
      then show ?thesis using that v by (cases "cf_Services c") auto
    next
      case no: False
      have "e \<in> set (cf_Services c)" using v r(1) False no cut by (auto simp: PatternEmulator_def)
      then show ?thesis using that by blast
    qed
    let ?o = "\<lparr>op_Emulator = s, op_Kind = k, op_Target = [], op_Gauges = [], op_Payload = ()\<rparr>"
    have "Cut (op_Name ?o) patternSeparator = (s, k, True)"
      using op_Name_Cut [of ?o] known_no_dot [of s] v s(1) by auto
    then have "matchName (r_Match r) (op_Name ?o)" using cut s(2) by (simp add: matchName_def segmentMatches_def)
    then show ?thesis using s(1) by (intro exI [of _ ?o]) simp
  qed
  with c(1) v show ?thesis by blast
qed

theorem accepted_faults_can_strike_witness:
  "\<exists>o'. op_Emulator o' = ''redis'' \<and> matchName ''*.GET'' (op_Name (o' :: unit op))"
proof -
  let ?c = "\<lparr>cf_Services = [''redis''], cf_Seed = [(''redis'', ''{}'')], cf_Faults = [sample_rule\<lparr>r_Match := ''*.GET'', r_Limit := 1\<rparr>],
    cf_LogLimit = 0\<rparr>"
  have "fst (Parse_config (Inr ?c)) = None" by code_simp
  from accepted_faults_can_strike [OF this] have "Validate (sample_rule\<lparr>r_Match := ''*.GET'', r_Limit := 1\<rparr>) = None \<longrightarrow>
    (\<exists>o'. op_Emulator o' \<in> {''redis''} \<and> matchName ''*.GET'' (op_Name (o' :: unit op)))" by auto
  moreover have "Validate (sample_rule\<lparr>r_Match := ''*.GET'', r_Limit := 1\<rparr>) = None" by code_simp
  ultimately show ?thesis by auto
qed

end
