(* ===== verification/Fleet.thy ===== *)
theory Fleet
  imports Config
begin

text \<open>
  Starting a lesson's emulators, \<open>internal/fleet/fleet.go\<close>: each declared service is built, seeded, bound and
  served, and a failure anywhere takes down what was started. What the operating system and the backends
  answer is a \<open>machine\<close>; what was done to it is the list \<open>fl_done\<close>.
\<close>

definition loopback :: gostring where "loopback = ''127.0.0.1''"

definition builders :: "gostring list" where "builders = [''postgres'', ''redis'', ''queue'', ''mongo'']"

text \<open>Whether building, seeding, binding and closing fail, and the port of a service.\<close>

record 'raw machine =
  mc_build :: "gostring \<Rightarrow> gostring option"
  mc_seed :: "gostring \<Rightarrow> 'raw option \<Rightarrow> gostring option"
  mc_port :: "gostring \<Rightarrow> nat"
  mc_listen :: "gostring \<Rightarrow> gostring + gostring"
  mc_close_listener :: "gostring \<Rightarrow> gostring option"
  mc_close_backend :: "gostring \<Rightarrow> gostring option"

datatype deed = Built gostring | Bound gostring | Serving gostring | ListenerClosed gostring | BackendClosed gostring

record fleet =
  fl_listeners :: "gostring list"
  fl_backends :: "gostring list"
  fl_addresses :: "(gostring \<times> gostring) list"
  fl_done :: "deed list"

datatype fleet_error =
    NoEmulatorYet gostring
  | NotBuilt gostring gostring
  | NotSeeded gostring
  | NotBound gostring gostring gostring

definition new_fleet :: fleet where
  "new_fleet = \<lparr>fl_listeners = [], fl_backends = [], fl_addresses = [], fl_done = []\<rparr>"

definition add_service :: "'raw machine \<Rightarrow> gostring \<Rightarrow> 'raw option \<Rightarrow> fleet \<Rightarrow> fleet_error option \<times> fleet" where
  "add_service w service seed f =
     (if service \<notin> set builders then (Some (NoEmulatorYet service), f)
      else (case mc_build w service of
              Some err \<Rightarrow> (Some (NotBuilt service err), f)
            | None \<Rightarrow>
                (let f = f\<lparr>fl_backends := fl_backends f @ [service], fl_done := fl_done f @ [Built service]\<rparr>
                 in case mc_seed w service seed of
                      Some err \<Rightarrow> (Some (NotSeeded err), f)
                    | None \<Rightarrow>
                        (let address = loopback @ '':'' @ format_nat (mc_port w service)
                         in case mc_listen w address of
                              Inl err \<Rightarrow> (Some (NotBound service address err), f)
                            | Inr bound \<Rightarrow>
                                (None, f\<lparr>fl_listeners := fl_listeners f @ [service],
                                         fl_addresses := AList.update service bound (fl_addresses f),
                                         fl_done := fl_done f @ [Bound service, Serving service]\<rparr>)))))"

definition Close_fleet :: "'raw machine \<Rightarrow> fleet \<Rightarrow> gostring list \<times> fleet" where
  "Close_fleet w f =
     (List.map_filter (mc_close_listener w) (fl_listeners f) @ List.map_filter (mc_close_backend w) (fl_backends f),
      f\<lparr>fl_listeners := [], fl_backends := [],
        fl_done := fl_done f @ map ListenerClosed (fl_listeners f) @ map BackendClosed (fl_backends f)\<rparr>)"

fun start_services :: "'raw machine \<Rightarrow> (gostring \<times> 'raw) list \<Rightarrow> gostring list \<Rightarrow> fleet \<Rightarrow> fleet_error option \<times> fleet" where
  "start_services w seeds [] f = (None, f)"
| "start_services w seeds (service # services) f =
     (case add_service w service (map_of seeds service) f of
        (Some err, f) \<Rightarrow> (Some err, snd (Close_fleet w f))
      | (None, f) \<Rightarrow> start_services w seeds services f)"

definition Start :: "'raw machine \<Rightarrow> 'raw Config \<Rightarrow> fleet_error option \<times> fleet" where
  "Start w settings = start_services w (cf_Seed settings) (cf_Services settings) new_fleet"

section \<open>All or nothing\<close>

text \<open>What is open is what was opened and not closed.\<close>

definition fleet_ok :: "fleet \<Rightarrow> bool" where
  "fleet_ok f \<longleftrightarrow> (\<forall>s.
     count_list (fl_done f) (Built s) = count_list (fl_done f) (BackendClosed s) + count_list (fl_backends f) s \<and>
     count_list (fl_done f) (Bound s) = count_list (fl_done f) (ListenerClosed s) + count_list (fl_listeners f) s)"

lemma count_map_inj: "inj g \<Longrightarrow> count_list (map g xs) (g x) = count_list xs x"
  by (induction xs) (auto dest: injD)

lemma count_map_other: "(\<And>y. g y \<noteq> x) \<Longrightarrow> count_list (map g xs) x = 0"
  by (induction xs) auto

lemma Close_fleet_ok: "fleet_ok f \<Longrightarrow> fleet_ok (snd (Close_fleet w f)) \<and> fl_backends (snd (Close_fleet w f)) = [] \<and>
    fl_listeners (snd (Close_fleet w f)) = []"
  by (simp add: fleet_ok_def Close_fleet_def count_map_inj count_map_other inj_def)

lemma add_service_ok: "fleet_ok f \<Longrightarrow> fleet_ok (snd (add_service w service seed f))"
  by (auto simp: add_service_def fleet_ok_def Let_def split: option.split sum.split)

lemma start_services_ok:
  assumes "fleet_ok f" "start_services w seeds services f = (r, f')"
  shows "fleet_ok f' \<and> (r \<noteq> None \<longrightarrow> fl_backends f' = [] \<and> fl_listeners f' = [])"
  using assms
proof (induction services arbitrary: f)
  case (Cons service services)
  obtain q g where a: "add_service w service (map_of seeds service) f = (q, g)" by force
  have "fleet_ok g" using add_service_ok [OF Cons.prems(1), of w service "map_of seeds service"] a by simp
  then show ?case using Cons a Close_fleet_ok [of g w] by (cases q) auto
qed simp

lemma add_service_starts:
  "add_service w service seed f = (None, f') \<Longrightarrow>
     fl_listeners f' = fl_listeners f @ [service] \<and> dom (map_of (fl_addresses f')) = insert service (dom (map_of (fl_addresses f)))"
  by (auto simp: add_service_def Let_def split: if_splits option.splits sum.splits)

lemma start_services_starts:
  "start_services w seeds services f = (None, f') \<Longrightarrow>
     fl_listeners f' = fl_listeners f @ services \<and> dom (map_of (fl_addresses f')) = dom (map_of (fl_addresses f)) \<union> set services"
proof (induction services arbitrary: f)
  case (Cons service services)
  then obtain g where a: "add_service w service (map_of seeds service) f = (None, g)" "start_services w seeds services g = (None, f')"
    by (auto split: prod.splits option.splits)
  from Cons.IH [OF a(2)] add_service_starts [OF a(1)] show ?case by auto
qed simp

text \<open>C33. Starting a lesson is all or nothing, whatever fails and wherever: if \<open>Start\<close> reports an error, every backend
  that was built and every port that was bound has been closed again, exactly as often as it was opened;
  if it does not, every declared service is listening, in the order declared, and has an address.\<close>

theorem fleet_all_or_nothing:
  "(case Start w settings of
      (Some err, f) \<Rightarrow> \<forall>s. count_list (fl_done f) (Built s) = count_list (fl_done f) (BackendClosed s) \<and>
        count_list (fl_done f) (Bound s) = count_list (fl_done f) (ListenerClosed s)
    | (None, f) \<Rightarrow> fl_listeners f = cf_Services settings \<and> dom (map_of (fl_addresses f)) = set (cf_Services settings))"
proof -
  have "fleet_ok new_fleet" by (simp add: fleet_ok_def new_fleet_def)
  note ok = start_services_ok [OF this]
  show ?thesis
    using ok [of w "cf_Seed settings" "cf_Services settings"] start_services_starts [of w "cf_Seed settings" "cf_Services settings" new_fleet]
    by (auto simp: Start_def fleet_ok_def new_fleet_def split: prod.split option.split)
qed

end
