(* ===== verification/Bson.thy ===== *)
theory Bson
  imports Complex_Main Prelude
begin

text \<open>
  The values of BSON as \<open>internal/docstore/values.go\<close> handles them: IEEE doubles, the order MongoDB puts values of
  all types in, dotted paths and copies. The types a decoded document can hold are the constructors
  below; the driver's \<open>bson.M\<close> and Go's own \<open>int\<close>, which the code also accepts, never come out of a
  decoder, and null decodes to Go's nil, so \<open>bson.Null\<close> does not come out of one either. \<open>BOther\<close> is every
  type the code was not taught to order, by its Go name and its bytes.
\<close>

section \<open>IEEE doubles\<close>

text \<open>A finite double is a sign, a significand and a power of two; both zeros are there. Only what the
  code does with doubles is defined: conversion from \<open>int64\<close>, comparison, addition and truncation.\<close>

datatype float64 = NaN | Inf bool | Fin bool nat int

definition f_one :: float64 where "f_one = Fin False 1 0"
definition f_zero :: float64 where "f_zero = Fin False 0 0"

fun bit_length :: "nat \<Rightarrow> nat" where
  "bit_length n = (if n = 0 then 0 else Suc (bit_length (n div 2)))"

declare bit_length.simps [simp del]

text \<open>The double nearest to a number, ties to the even significand, infinity from the overflow
  threshold on.\<close>

definition shifted_out :: "nat \<Rightarrow> int \<Rightarrow> int" where
  "shifted_out m e = max (int (bit_length m) - 53) (- 1074 - e)"

definition round_half_even :: "nat \<Rightarrow> nat \<Rightarrow> nat" where
  "round_half_even m k =
     (let q = m div 2 ^ k; r = m mod 2 ^ k
      in if 2 * r > 2 ^ k \<or> 2 * r = 2 ^ k \<and> odd q then Suc q else q)"

definition f_round :: "bool \<Rightarrow> nat \<Rightarrow> int \<Rightarrow> float64" where
  "f_round s m e =
     (let k = shifted_out m e; (m, e) = (if k \<le> 0 then (m, e) else (round_half_even m (nat k), e + k))
      in if m \<noteq> 0 \<and> int (bit_length m) + e > 1024 then Inf s else Fin s m e)"

definition f_of_int :: "int \<Rightarrow> float64" where
  "f_of_int i = f_round (i < 0) (nat \<bar>i\<bar>) 0"

definition f_signed :: "bool \<Rightarrow> nat \<Rightarrow> int" where
  "f_signed s m = (if s then - int m else int m)"

text \<open>The significands of two finite doubles over their smaller exponent.\<close>

definition f_align :: "bool \<Rightarrow> nat \<Rightarrow> int \<Rightarrow> int \<Rightarrow> int" where
  "f_align s m e e' = f_signed s m * 2 ^ nat (e - min e e')"

fun f_less :: "float64 \<Rightarrow> float64 \<Rightarrow> bool" where
  "f_less NaN _ = False"
| "f_less _ NaN = False"
| "f_less (Inf s) (Inf t) = (s \<and> \<not> t)"
| "f_less (Inf s) (Fin _ _ _) = s"
| "f_less (Fin _ _ _) (Inf t) = (\<not> t)"
| "f_less (Fin s m e) (Fin t n d) = (f_align s m e d < f_align t n d e)"

text \<open>Go's \<open>==\<close> on doubles.\<close>

definition f_eq :: "float64 \<Rightarrow> float64 \<Rightarrow> bool" where
  "f_eq x y \<longleftrightarrow> x \<noteq> NaN \<and> y \<noteq> NaN \<and> \<not> f_less x y \<and> \<not> f_less y x"

fun f_add :: "float64 \<Rightarrow> float64 \<Rightarrow> float64" where
  "f_add NaN _ = NaN"
| "f_add _ NaN = NaN"
| "f_add (Inf s) (Inf t) = (if s = t then Inf s else NaN)"
| "f_add (Inf s) (Fin _ _ _) = Inf s"
| "f_add (Fin _ _ _) (Inf t) = Inf t"
| "f_add (Fin s m e) (Fin t n d) =
     (let v = f_align s m e d + f_align t n d e
      in f_round (if v = 0 then s \<and> t else v < 0) (nat \<bar>v\<bar>) (min e d))"

text \<open>\<open>int(f)\<close> truncates. For a value no \<open>int\<close> holds Go leaves the result to the machine: the
  argument \<open>stray\<close>.\<close>

definition f_trunc :: "bool \<Rightarrow> nat \<Rightarrow> int \<Rightarrow> int" where
  "f_trunc s m e = f_signed s (if 0 \<le> e then m * 2 ^ nat e else m div 2 ^ nat (- e))"

definition f_to_int :: "(float64 \<Rightarrow> int) \<Rightarrow> float64 \<Rightarrow> int" where
  "f_to_int stray x = (case x of
       Fin s m e \<Rightarrow> (if int64_range (f_trunc s m e) then f_trunc s m e else stray x)
     | _ \<Rightarrow> stray x)"

section \<open>Values\<close>

datatype bson =
    BNull
  | BUndefined
  | BMinKey
  | BMaxKey
  | BBool bool
  | BInt32 int
  | BInt64 int
  | BDouble float64
  | BString gostring
  | BDoc "(gostring \<times> bson) list"
  | BArr "bson list"
  | BBinary nat gostring
  | BOid gostring
  | BDate int
  | BTimestamp nat nat
  | BRegex gostring gostring
  | BOther gostring gostring

type_synonym doc = "(gostring \<times> bson) list"

text \<open>What \<open>%T\<close> prints.\<close>

fun type_name :: "bson \<Rightarrow> gostring" where
  "type_name BNull = ''<nil>''"
| "type_name BUndefined = ''bson.Undefined''"
| "type_name BMinKey = ''bson.MinKey''"
| "type_name BMaxKey = ''bson.MaxKey''"
| "type_name (BBool _) = ''bool''"
| "type_name (BInt32 _) = ''int32''"
| "type_name (BInt64 _) = ''int64''"
| "type_name (BDouble _) = ''float64''"
| "type_name (BString _) = ''string''"
| "type_name (BDoc _) = ''bson.D''"
| "type_name (BArr _) = ''bson.A''"
| "type_name (BBinary _ _) = ''bson.Binary''"
| "type_name (BOid _) = ''bson.ObjectID''"
| "type_name (BDate _) = ''bson.DateTime''"
| "type_name (BTimestamp _ _) = ''bson.Timestamp''"
| "type_name (BRegex _ _) = ''bson.Regex''"
| "type_name (BOther name _) = name"

text \<open>\<open>mongocmd.Lookup\<close> and \<open>mongocmd.Field\<close>: the first field of a name.\<close>

fun Lookup :: "doc \<Rightarrow> gostring \<Rightarrow> bson option" where
  "Lookup [] key = None"
| "Lookup ((k, v) # rest) key = (if k = key then Some v else Lookup rest key)"

abbreviation Field :: "gostring \<Rightarrow> bson \<Rightarrow> gostring \<times> bson" where "Field key v \<equiv> (key, v)"

section \<open>The order of values\<close>

definition rankMinKey :: int where "rankMinKey = 0"
definition rankNull :: int where "rankNull = 1"
definition rankNumber :: int where "rankNumber = 2"
definition rankString :: int where "rankString = 3"
definition rankObject :: int where "rankObject = 4"
definition rankArray :: int where "rankArray = 5"
definition rankBinary :: int where "rankBinary = 6"
definition rankObjectID :: int where "rankObjectID = 7"
definition rankBool :: int where "rankBool = 8"
definition rankDate :: int where "rankDate = 9"
definition rankTimestamp :: int where "rankTimestamp = 10"
definition rankRegex :: int where "rankRegex = 11"
definition rankMaxKey :: int where "rankMaxKey = 12"
definition rankUnknown :: int where "rankUnknown = 13"

lemmas rank_defs = rankMinKey_def rankNull_def rankNumber_def rankString_def rankObject_def rankArray_def
  rankBinary_def rankObjectID_def rankBool_def rankDate_def rankTimestamp_def rankRegex_def rankMaxKey_def
  rankUnknown_def

fun rankOf :: "bson \<Rightarrow> int" where
  "rankOf BMinKey = rankMinKey"
| "rankOf BNull = rankNull"
| "rankOf BUndefined = rankNull"
| "rankOf (BInt32 _) = rankNumber"
| "rankOf (BInt64 _) = rankNumber"
| "rankOf (BDouble _) = rankNumber"
| "rankOf (BString _) = rankString"
| "rankOf (BDoc _) = rankObject"
| "rankOf (BArr _) = rankArray"
| "rankOf (BBinary _ _) = rankBinary"
| "rankOf (BOid _) = rankObjectID"
| "rankOf (BBool _) = rankBool"
| "rankOf (BDate _) = rankDate"
| "rankOf (BTimestamp _ _) = rankTimestamp"
| "rankOf (BRegex _ _) = rankRegex"
| "rankOf BMaxKey = rankMaxKey"
| "rankOf (BOther _ _) = rankUnknown"

definition sign :: "int \<Rightarrow> int" where
  "sign difference = (if difference < 0 then -1 else if difference > 0 then 1 else 0)"

definition boolRank :: "bool \<Rightarrow> int" where "boolRank v = (if v then 1 else 0)"

text \<open>\<open>strings.Compare\<close> and \<open>bytes.Compare\<close>.\<close>

definition compareString :: "gostring \<Rightarrow> gostring \<Rightarrow> int" where
  "compareString left right = (if left < right then -1 else if right < left then 1 else 0)"

definition compareFloat :: "float64 \<Rightarrow> float64 \<Rightarrow> int" where
  "compareFloat left right = (if f_less left right then -1 else if f_less right left then 1 else 0)"

definition compareInt :: "int \<Rightarrow> int \<Rightarrow> int" where
  "compareInt left right = sign (wrap64 (left - right))"

definition compareTimestamps :: "nat \<Rightarrow> nat \<Rightarrow> nat \<Rightarrow> nat \<Rightarrow> int" where
  "compareTimestamps t i t' i' =
     (let order = compareInt (int t) (int t') in if order \<noteq> 0 then order else compareInt (int i) (int i'))"

definition compareRegexes :: "gostring \<Rightarrow> gostring \<Rightarrow> gostring \<Rightarrow> gostring \<Rightarrow> int" where
  "compareRegexes p o' p' o'' =
     (let order = compareString p p' in if order \<noteq> 0 then order else compareString o' o'')"

text \<open>\<open>numberOf\<close> asserts a \<open>float64\<close> for what is no integer; the code only asks it of numbers.\<close>

fun numberOf :: "bson \<Rightarrow> float64" where
  "numberOf (BInt32 i) = f_of_int i"
| "numberOf (BInt64 i) = f_of_int i"
| "numberOf (BDouble x) = x"
| "numberOf _ = NaN"

definition isNumber :: "bson \<Rightarrow> bool" where "isNumber v \<longleftrightarrow> rankOf v = rankNumber"

text \<open>\<open>compare\<close>, \<open>compareDocuments\<close> and \<open>compareArrays\<close> call each other. Go's type assertions on the right value
  hold because the ranks are the same; the branches they exclude answer 0.\<close>

function compare :: "bson \<Rightarrow> bson \<Rightarrow> int"
  and compareDocuments :: "doc \<Rightarrow> doc \<Rightarrow> int"
  and compareArrays :: "bson list \<Rightarrow> bson list \<Rightarrow> int" where
  "compare left right =
     (if rankOf left \<noteq> rankOf right then sign (rankOf left - rankOf right)
      else if isNumber left then compareFloat (numberOf left) (numberOf right)
      else case left of
        BString l \<Rightarrow> (case right of BString r \<Rightarrow> compareString l r | _ \<Rightarrow> 0)
      | BDoc l \<Rightarrow> (case right of BDoc r \<Rightarrow> compareDocuments l r | _ \<Rightarrow> 0)
      | BArr l \<Rightarrow> (case right of BArr r \<Rightarrow> compareArrays l r | _ \<Rightarrow> 0)
      | BBinary _ l \<Rightarrow> (case right of BBinary _ r \<Rightarrow> compareString l r | _ \<Rightarrow> 0)
      | BOid l \<Rightarrow> (case right of BOid r \<Rightarrow> compareString l r | _ \<Rightarrow> 0)
      | BBool l \<Rightarrow> (case right of BBool r \<Rightarrow> sign (boolRank l - boolRank r) | _ \<Rightarrow> 0)
      | BDate l \<Rightarrow> (case right of BDate r \<Rightarrow> compareInt l r | _ \<Rightarrow> 0)
      | BTimestamp t i \<Rightarrow> (case right of BTimestamp t' i' \<Rightarrow> compareTimestamps t i t' i' | _ \<Rightarrow> 0)
      | BRegex p o' \<Rightarrow> (case right of BRegex p' o'' \<Rightarrow> compareRegexes p o' p' o'' | _ \<Rightarrow> 0)
      | _ \<Rightarrow> 0)"
| "compareDocuments [] right = sign (- int (length right))"
| "compareDocuments (l # ls) [] = sign (int (length (l # ls)))"
| "compareDocuments ((k, v) # ls) ((k', v') # rs) =
     (let order = compareString k k' in if order \<noteq> 0 then order
      else let order = compare v v' in if order \<noteq> 0 then order else compareDocuments ls rs)"
| "compareArrays [] right = sign (- int (length right))"
| "compareArrays (l # ls) [] = sign (int (length (l # ls)))"
| "compareArrays (v # ls) (v' # rs) =
     (let order = compare v v' in if order \<noteq> 0 then order else compareArrays ls rs)"
  by pat_completeness auto
termination
  by (relation "measure (case_sum (\<lambda>(v, _). size v)
      (case_sum (\<lambda>(d, _). size_list (size_prod (\<lambda>_. 0) size) d) (\<lambda>(a, _). size_list size a)))") auto

declare compare.simps [simp del]

definition equal_values :: "bson \<Rightarrow> bson \<Rightarrow> bool" where
  "equal_values left right \<longleftrightarrow> rankOf left = rankOf right \<and> compare left right = 0"

section \<open>Paths and copies\<close>

definition is_document :: "bson \<Rightarrow> bool" where
  "is_document v = (case v of BDoc _ \<Rightarrow> True | _ \<Rightarrow> False)"

function resolve :: "bson \<Rightarrow> gostring list \<Rightarrow> bson list"
  and resolveArray :: "bson list \<Rightarrow> gostring list \<Rightarrow> bson list" where
  "resolve v path =
     (case path of
        [] \<Rightarrow> [v]
      | p # ps \<Rightarrow> (case v of
            BDoc d \<Rightarrow> (case Lookup d p of None \<Rightarrow> [] | Some held \<Rightarrow> resolve held ps)
          | BArr a \<Rightarrow> resolveArray a (p # ps)
          | _ \<Rightarrow> []))"
| "resolveArray a path =
     (case Atoi (hd path) of
        Some index \<Rightarrow> (if 0 \<le> index \<and> index < int (length a) \<and> path \<noteq> [] then resolve (a ! nat index) (tl path) else [])
      | None \<Rightarrow> [])
     @ concat (map (\<lambda>element. if is_document element then resolve element path else []) a)"
  by pat_completeness auto
termination
proof (relation "inv_image (less_than <*lex*> less_than <*lex*> less_than) (case_sum (\<lambda>(v, p). (length p, size v, 0 :: nat))
     (\<lambda>(a, p). (length p, size_list size a, 1)))", goal_cases)
  case (5 a path x)
  then have "size x \<le> size_list size a" using size_list_estimation' [of x a "size x" size] by simp
  then show ?case by auto
qed (auto simp: neq_Nil_conv)

declare resolve.simps [simp del] resolveArray.simps [simp del]

definition valuesAt :: "doc \<Rightarrow> gostring \<Rightarrow> bson list" where
  "valuesAt document path = resolve (BDoc document) (Split_on (CHR ''.'') path)"

fun clone :: "bson \<Rightarrow> bson" where
  "clone (BDoc d) = BDoc (map (\<lambda>(key, v). Field key (clone v)) d)"
| "clone (BArr a) = BArr (map clone a)"
| "clone v = v"

definition cloneDocument :: "doc \<Rightarrow> doc" where
  "cloneDocument document = (case clone (BDoc document) of BDoc copied \<Rightarrow> copied | _ \<Rightarrow> [])"

end
