(* ===== verification/Mongocmd.thy ===== *)
theory Mongocmd
  imports Emulator Bson
begin

text \<open>
  The command vocabulary of \<open>internal/mongocmd\<close> (\<open>mongocmd.go\<close>, \<open>errors.go\<close>): MongoDB's error codes, the table
  of commands, decoding a command document, and the convention that carries a reply document across
  the seam. An error keeps the format and the arguments \<open>Fail\<close> was given; what \<open>fmt.Sprintf\<close> makes of them
  is asked for where the text is needed.
\<close>

section \<open>Errors\<close>

datatype arg = AStr gostring | AVal bson | AInt int | AStrs "gostring list"

record mongo_error =
  me_Code :: int
  me_Name :: gostring
  me_Format :: gostring
  me_Arguments :: "arg list"

definition CodeBadValue :: int where "CodeBadValue = 2"
definition CodeUnknown :: int where "CodeUnknown = 8"
definition CodeFailedToParse :: int where "CodeFailedToParse = 9"
definition CodeTypeMismatch :: int where "CodeTypeMismatch = 14"
definition CodeNamespaceNotFound :: int where "CodeNamespaceNotFound = 26"
definition CodeCursorNotFound :: int where "CodeCursorNotFound = 43"
definition CodeCommandNotFound :: int where "CodeCommandNotFound = 59"
definition CodeImmutableField :: int where "CodeImmutableField = 66"
definition CodeCommandNotSupported :: int where "CodeCommandNotSupported = 115"
definition CodeWriteConflict :: int where "CodeWriteConflict = 112"
definition CodeDuplicateKey :: int where "CodeDuplicateKey = 11000"

lemmas code_defs = CodeBadValue_def CodeUnknown_def CodeFailedToParse_def CodeTypeMismatch_def
  CodeNamespaceNotFound_def CodeCursorNotFound_def CodeCommandNotFound_def CodeImmutableField_def
  CodeCommandNotSupported_def CodeWriteConflict_def CodeDuplicateKey_def

definition code_names :: "(int \<times> gostring) list" where
  "code_names =
    [(CodeBadValue, ''BadValue''), (CodeUnknown, ''UnknownError''), (CodeFailedToParse, ''FailedToParse''),
     (CodeTypeMismatch, ''TypeMismatch''), (CodeNamespaceNotFound, ''NamespaceNotFound''),
     (CodeCursorNotFound, ''CursorNotFound''), (CodeCommandNotFound, ''CommandNotFound''),
     (CodeImmutableField, ''ImmutableField''), (CodeCommandNotSupported, ''CommandNotSupported''),
     (CodeWriteConflict, ''WriteConflict''), (CodeDuplicateKey, ''DuplicateKey'')]"

definition code_name :: "int \<Rightarrow> gostring" where
  "code_name code = (case map_of code_names code of Some word \<Rightarrow> word | None \<Rightarrow> [])"

definition mongo_fail :: "int \<Rightarrow> gostring \<Rightarrow> arg list \<Rightarrow> mongo_error" where
  "mongo_fail code format arguments =
     \<lparr>me_Code = code, me_Name = code_name code, me_Format = format, me_Arguments = arguments\<rparr>"

definition Invalid :: "gostring \<Rightarrow> arg list \<Rightarrow> mongo_error" where
  "Invalid format arguments = mongo_fail CodeBadValue format arguments"

definition Unsupported :: "gostring \<Rightarrow> arg list \<Rightarrow> mongo_error" where
  "Unsupported format arguments = mongo_fail CodeCommandNotSupported (''emu does not support '' @ format) arguments"

text \<open>The error as it crosses the seam, its message formatted by \<open>sprintf\<close>.\<close>

definition raised :: "(gostring \<Rightarrow> arg list \<Rightarrow> gostring) \<Rightarrow> mongo_error \<Rightarrow> go_error" where
  "raised sprintf err = MongoErr (me_Code err) (me_Name err) (sprintf (me_Format err) (me_Arguments err))"

definition CodeOf :: "go_error \<Rightarrow> int \<times> gostring" where
  "CodeOf err = (case err of MongoErr code name _ \<Rightarrow> (code, name) | _ \<Rightarrow> (CodeUnknown, code_name CodeUnknown))"

section \<open>Commands\<close>

definition Mongo_KindInsert :: gostring where "Mongo_KindInsert = ''insert''"
definition Mongo_KindFind :: gostring where "Mongo_KindFind = ''find''"
definition Mongo_KindUpdate :: gostring where "Mongo_KindUpdate = ''update''"
definition Mongo_KindDelete :: gostring where "Mongo_KindDelete = ''delete''"
definition Mongo_KindGetMore :: gostring where "Mongo_KindGetMore = ''getMore''"
definition Mongo_KindKillCursors :: gostring where "Mongo_KindKillCursors = ''killCursors''"
definition Mongo_KindCount :: gostring where "Mongo_KindCount = ''count''"
definition Mongo_KindAggregate :: gostring where "Mongo_KindAggregate = ''aggregate''"
definition Mongo_KindCreateIndexes :: gostring where "Mongo_KindCreateIndexes = ''createIndexes''"
definition Mongo_KindListCollections :: gostring where "Mongo_KindListCollections = ''listCollections''"
definition Mongo_KindListDatabases :: gostring where "Mongo_KindListDatabases = ''listDatabases''"
definition Mongo_KindDrop :: gostring where "Mongo_KindDrop = ''drop''"
definition Mongo_KindDropDatabase :: gostring where "Mongo_KindDropDatabase = ''dropDatabase''"

lemmas mongo_kind_defs = Mongo_KindInsert_def Mongo_KindFind_def Mongo_KindUpdate_def Mongo_KindDelete_def Mongo_KindGetMore_def Mongo_KindKillCursors_def
  Mongo_KindCount_def Mongo_KindAggregate_def Mongo_KindCreateIndexes_def Mongo_KindListCollections_def Mongo_KindListDatabases_def
  Mongo_KindDrop_def Mongo_KindDropDatabase_def

definition mongo_Database :: gostring where "mongo_Database = ''emu''"

datatype scope = onCollection | onCursor | onDatabase

definition mongo_commands :: "(gostring \<times> gostring \<times> scope) list" where
  "mongo_commands =
    [(''insert'', Mongo_KindInsert, onCollection), (''find'', Mongo_KindFind, onCollection),
     (''update'', Mongo_KindUpdate, onCollection), (''delete'', Mongo_KindDelete, onCollection),
     (''getmore'', Mongo_KindGetMore, onCursor), (''killcursors'', Mongo_KindKillCursors, onCollection),
     (''count'', Mongo_KindCount, onCollection), (''aggregate'', Mongo_KindAggregate, onCollection),
     (''createindexes'', Mongo_KindCreateIndexes, onCollection), (''drop'', Mongo_KindDrop, onCollection),
     (''listcollections'', Mongo_KindListCollections, onDatabase),
     (''listdatabases'', Mongo_KindListDatabases, onDatabase), (''dropdatabase'', Mongo_KindDropDatabase, onDatabase)]"

definition serverCommands :: "gostring list" where
  "serverCommands = [''hello'', ''ismaster'', ''ping'', ''buildinfo'', ''getparameter'', ''endsessions'']"

record Command =
  cm_Name :: gostring
  cm_Kind :: gostring
  cm_Target :: gostring
  cm_Collection :: bool
  cm_Database :: gostring
  cm_Document :: doc
  cm_Server :: bool

definition databaseOf :: "doc \<Rightarrow> gostring" where
  "databaseOf document =
     (case Lookup document ''$db'' of
        Some (BString name) \<Rightarrow> (if name \<noteq> [] then name else mongo_Database)
      | _ \<Rightarrow> mongo_Database)"

definition stringField :: "Command \<Rightarrow> gostring \<Rightarrow> mongo_error + gostring" where
  "stringField command key =
     (case Lookup (cm_Document command) key of
        None \<Rightarrow> Inl (Invalid ''the %s command needs a %q field'' [AStr (cm_Name command), AStr key])
      | Some (BString word) \<Rightarrow> Inr word
      | Some v \<Rightarrow> Inl (Invalid ''%s.%s is %T, want a string'' [AStr (cm_Name command), AStr key, AVal v]))"

definition scope_target :: "scope \<Rightarrow> Command \<Rightarrow> mongo_error + gostring" where
  "scope_target s command =
     (case s of
        onDatabase \<Rightarrow> Inr (cm_Database command)
      | onCursor \<Rightarrow> stringField command ''collection''
      | onCollection \<Rightarrow>
          (case snd (hd (cm_Document command)) of
             BString name \<Rightarrow> Inr name
           | v \<Rightarrow> Inl (Invalid ''the %s command names its collection as its own value, got %T''
                    [AStr (cm_Name command), AVal v])))"

definition Read :: "doc \<Rightarrow> mongo_error + Command" where
  "Read document =
     (case document of
        [] \<Rightarrow> Inl (mongo_fail CodeCommandNotFound ''an empty command document names no command'' [])
      | (name, _) # _ \<Rightarrow>
         (let command = \<lparr>cm_Name = name, cm_Kind = [], cm_Target = [], cm_Collection = False,
                cm_Database = databaseOf document, cm_Document = document, cm_Server = False\<rparr>;
              folded = ToLower name
          in if folded \<in> set serverCommands then Inr (command\<lparr>cm_Server := True, cm_Kind := folded\<rparr>)
             else (case map_of mongo_commands folded of
                None \<Rightarrow> Inl (mongo_fail CodeCommandNotFound ''emu does not implement the %q command'' [AStr name])
              | Some (kind, scope) \<Rightarrow>
                  (let command = command\<lparr>cm_Kind := kind, cm_Collection := (scope \<noteq> onDatabase)\<rparr>
                   in case scope_target scope command of
                        Inl err \<Rightarrow> Inl err
                      | Inr target \<Rightarrow> Inr (command\<lparr>cm_Target := target\<rparr>)))))"

section \<open>Replies across the seam\<close>

definition mongo_Reply :: "doc \<Rightarrow> bson Result" where
  "mongo_Reply document = empty_Result\<lparr>res_Rows := [[BDoc document]]\<rparr>"

definition Document :: "bson Result \<Rightarrow> go_error + doc" where
  "Document result =
     (if length (res_Rows result) \<noteq> 1 \<or> length (hd (res_Rows result)) \<noteq> 1
      then Inl (PlainErr (''a MongoDB reply is one document, got '' @ FormatInt (int (length (res_Rows result))) @ '' rows''))
      else (case hd (hd (res_Rows result)) of
              BDoc document \<Rightarrow> Inr document
            | v \<Rightarrow> Inl (PlainErr (''a MongoDB reply is a bson.D, got '' @ type_name v))))"

lemma Document_Reply [simp]: "Document (mongo_Reply document) = Inr document"
  by (simp add: Document_def mongo_Reply_def empty_Result_def)

section \<open>What Read accepts\<close>

definition known_kinds :: "gostring list" where "known_kinds = map (fst \<circ> snd) mongo_commands"

lemma Read_kind: "Read document = Inr command \<Longrightarrow> \<not> cm_Server command \<Longrightarrow> cm_Kind command \<in> set known_kinds"
  by (auto simp: Read_def Let_def known_kinds_def split: list.splits prod.splits if_splits option.splits sum.splits
      dest!: map_of_SomeD intro: rev_image_eqI)

lemma Read_document: "Read document = Inr command \<Longrightarrow> cm_Document command = document \<and> document \<noteq> []"
  by (auto simp: Read_def Let_def split: list.splits prod.splits if_splits option.splits sum.splits)

end
