(* ===== verification/DocQuery.thy ===== *)
theory DocQuery
  imports Mongocmd
begin

text \<open>
  Reading a command's fields and evaluating its filter: \<open>internal/docstore/fields.go\<close> and \<open>query.go\<close>. What the
  code takes from outside is the record \<open>host\<close>: the regular expression compiler of the package \<open>regexp\<close>
  (an error text, or the predicate \<open>MatchString\<close>), what the machine makes of a \<open>float64\<close> no \<open>int\<close> holds,
  \<open>fmt.Sprintf\<close>, and the object identifiers the driver generates, the n-th of them. A filter either holds, does
  not hold, or is refused with an error; conditions are tried in the filter's order and the first that
  does not hold or is refused decides.
\<close>

record host =
  h_compile :: "gostring \<Rightarrow> gostring + (gostring \<Rightarrow> bool)"
  h_stray :: "float64 \<Rightarrow> int"
  h_sprintf :: "gostring \<Rightarrow> arg list \<Rightarrow> gostring"
  h_oid :: "nat \<Rightarrow> gostring"

section \<open>Fields of a command\<close>

definition documentAt :: "gostring \<Rightarrow> doc \<Rightarrow> gostring \<Rightarrow> mongo_error + doc" where
  "documentAt where' document key =
     (case Lookup document key of
        None \<Rightarrow> Inr []
      | Some BNull \<Rightarrow> Inr []
      | Some (BDoc embedded) \<Rightarrow> Inr embedded
      | Some v \<Rightarrow> Inl (mongo_fail CodeTypeMismatch ''%s.%s is %T, want a document'' [AStr where', AStr key, AVal v]))"

definition requiredDocument :: "gostring \<Rightarrow> doc \<Rightarrow> gostring \<Rightarrow> mongo_error + doc" where
  "requiredDocument where' document key =
     (if Lookup document key = None
      then Inl (mongo_fail CodeFailedToParse ''%s needs a %q field'' [AStr where', AStr key])
      else documentAt where' document key)"

definition intAt :: "host \<Rightarrow> gostring \<Rightarrow> doc \<Rightarrow> gostring \<Rightarrow> int \<Rightarrow> mongo_error + int" where
  "intAt h where' document key fallback =
     (case Lookup document key of
        None \<Rightarrow> Inr fallback
      | Some v \<Rightarrow>
          if v = BNull then Inr fallback
          else if \<not> isNumber v
          then Inl (mongo_fail CodeTypeMismatch ''%s.%s is %T, want a number'' [AStr where', AStr key, AVal v])
          else Inr (f_to_int (h_stray h) (numberOf v)))"

definition boolAt :: "gostring \<Rightarrow> doc \<Rightarrow> gostring \<Rightarrow> bool \<Rightarrow> mongo_error + bool" where
  "boolAt where' document key fallback =
     (case Lookup document key of
        None \<Rightarrow> Inr fallback
      | Some BNull \<Rightarrow> Inr fallback
      | Some (BBool flag) \<Rightarrow> Inr flag
      | Some v \<Rightarrow>
          if isNumber v then Inr (\<not> f_eq (numberOf v) f_zero)
          else Inl (mongo_fail CodeTypeMismatch ''%s.%s is %T, want true or false'' [AStr where', AStr key, AVal v]))"

definition documentField :: "Command \<Rightarrow> gostring \<Rightarrow> mongo_error + doc" where
  "documentField command key = documentAt (cm_Name command) (cm_Document command) key"

definition intField :: "host \<Rightarrow> Command \<Rightarrow> gostring \<Rightarrow> int \<Rightarrow> mongo_error + int" where
  "intField h command key fallback = intAt h (cm_Name command) (cm_Document command) key fallback"

definition boolField :: "Command \<Rightarrow> gostring \<Rightarrow> bool \<Rightarrow> mongo_error + bool" where
  "boolField command key fallback = boolAt (cm_Name command) (cm_Document command) key fallback"

text \<open>The loop both lists of documents are read by: the first entry that is not one is an error naming
  its index.\<close>

fun documents_of :: "(nat \<Rightarrow> bson \<Rightarrow> mongo_error) \<Rightarrow> nat \<Rightarrow> bson list \<Rightarrow> mongo_error + doc list" where
  "documents_of wrong index [] = Inr []"
| "documents_of wrong index (entry # rest) =
     (case entry of
        BDoc document \<Rightarrow>
          (case documents_of wrong (Suc index) rest of Inl err \<Rightarrow> Inl err | Inr ds \<Rightarrow> Inr (document # ds))
      | v \<Rightarrow> Inl (wrong index v))"

definition nil_or :: "bson option \<Rightarrow> bson" where
  "nil_or v = (case v of Some held \<Rightarrow> held | None \<Rightarrow> BNull)"

definition documentList :: "Command \<Rightarrow> gostring \<Rightarrow> mongo_error + doc list" where
  "documentList command key =
     (case Lookup (cm_Document command) key of
        Some (BArr listed) \<Rightarrow>
          documents_of (\<lambda>index v. mongo_fail CodeTypeMismatch ''%s.%s[%d] is %T, want a document''
            [AStr (cm_Name command), AStr key, AInt (int index), AVal v]) 0 listed
      | v \<Rightarrow> Inl (mongo_fail CodeFailedToParse ''%s needs a %q array, got %T''
            [AStr (cm_Name command), AStr key, AVal (nil_or v)]))"

section \<open>Regular expressions\<close>

definition regexFlags :: "(char \<times> gostring) list" where
  "regexFlags = [(CHR ''i'', ''i''), (CHR ''m'', ''m''), (CHR ''s'', ''s'')]"

definition regexParts :: "bson \<Rightarrow> gostring \<Rightarrow> mongo_error + gostring \<times> gostring" where
  "regexParts pattern flags =
     (case pattern of
        BString typed \<Rightarrow> Inr (typed, flags)
      | BRegex typed options \<Rightarrow>
          (if flags \<noteq> [] then Inl (Invalid ''$options cannot be given beside a regular expression that carries its own'' [])
           else Inr (typed, options))
      | v \<Rightarrow> Inl (mongo_fail CodeTypeMismatch ''$regex is %T, want a pattern'' [AVal v]))"

fun translate_flags :: "gostring \<Rightarrow> mongo_error + gostring" where
  "translate_flags [] = Inr []"
| "translate_flags (flag # rest) =
     (case map_of regexFlags flag of
        None \<Rightarrow> Inl (Unsupported ''the %q regular expression option'' [AStr [flag]])
      | Some equivalent \<Rightarrow>
          (case translate_flags rest of Inl err \<Rightarrow> Inl err | Inr translated \<Rightarrow> Inr (equivalent @ translated)))"

definition compileRegex :: "host \<Rightarrow> bson \<Rightarrow> gostring \<Rightarrow> mongo_error + (gostring \<Rightarrow> bool)" where
  "compileRegex h pattern flags =
     (case regexParts pattern flags of
        Inl err \<Rightarrow> Inl err
      | Inr (expression, options) \<Rightarrow>
          (case translate_flags options of
             Inl err \<Rightarrow> Inl err
           | Inr translated \<Rightarrow>
               (let expression = (if translated \<noteq> [] then ''(?'' @ translated @ '')'' @ expression else expression)
                in case h_compile h expression of
                     Inl err \<Rightarrow> Inl (Invalid ''%s is not a regular expression emu can compile: %v'' [AStr expression, AStr err])
                   | Inr matcher \<Rightarrow> Inr matcher)))"

section \<open>Values against a condition\<close>

definition array_of :: "bson \<Rightarrow> bson list" where
  "array_of v = (case v of BArr a \<Rightarrow> a | _ \<Rightarrow> [])"

fun anyValue :: "bson list \<Rightarrow> (bson \<Rightarrow> bool) \<Rightarrow> bool" where
  "anyValue [] predicate = False"
| "anyValue (v # vs) predicate =
     (if predicate v then True else if list_ex predicate (array_of v) then True else anyValue vs predicate)"

definition matchValue :: "bson list \<Rightarrow> bson \<Rightarrow> bool" where
  "matchValue values wanted =
     (if wanted = BNull \<and> values = [] then True else anyValue values (\<lambda>v. equal_values v wanted))"

definition orderings :: "(gostring \<times> int list) list" where
  "orderings = [(''$gt'', [1]), (''$gte'', [0, 1]), (''$lt'', [-1]), (''$lte'', [-1, 0])]"

definition matchOrdering :: "bson list \<Rightarrow> gostring \<times> bson \<Rightarrow> bool" where
  "matchOrdering values operator =
     (let accepted = (case map_of orderings (fst operator) of Some a \<Rightarrow> a | None \<Rightarrow> [])
      in anyValue values (\<lambda>v.
           if rankOf v \<noteq> rankOf (snd operator) then False
           else list_ex (\<lambda>wanted. compare v (snd operator) = wanted) accepted))"

definition matchRegex :: "host \<Rightarrow> bson list \<Rightarrow> bson \<Rightarrow> gostring \<Rightarrow> mongo_error + bool" where
  "matchRegex h values pattern flags =
     (case compileRegex h pattern flags of
        Inl err \<Rightarrow> Inl err
      | Inr matcher \<Rightarrow> Inr (anyValue values (\<lambda>v. case v of BString s \<Rightarrow> matcher s | _ \<Rightarrow> False)))"

definition matchMember :: "host \<Rightarrow> bson list \<Rightarrow> bson \<Rightarrow> mongo_error + bool" where
  "matchMember h values wanted =
     (case wanted of BRegex _ _ \<Rightarrow> matchRegex h values wanted [] | _ \<Rightarrow> Inr (matchValue values wanted))"

fun member_loop :: "host \<Rightarrow> bson list \<Rightarrow> gostring \<Rightarrow> bson list \<Rightarrow> mongo_error + bool" where
  "member_loop h values key [] = Inr (key = ''$nin'')"
| "member_loop h values key (wanted # rest) =
     (case matchMember h values wanted of
        Inl err \<Rightarrow> Inl err
      | Inr held \<Rightarrow> if held then Inr (key = ''$in'') else member_loop h values key rest)"

definition matchMembership :: "host \<Rightarrow> bson list \<Rightarrow> gostring \<times> bson \<Rightarrow> mongo_error + bool" where
  "matchMembership h values operator =
     (case snd operator of
        BArr listed \<Rightarrow> member_loop h values (fst operator) listed
      | _ \<Rightarrow> Inl (Invalid ''%s needs an array'' [AStr (fst operator)]))"

definition matchExists :: "bson list \<Rightarrow> bson \<Rightarrow> mongo_error + bool" where
  "matchExists values v =
     (case v of
        BBool wanted \<Rightarrow> Inr ((values \<noteq> []) = wanted)
      | _ \<Rightarrow> Inl (mongo_fail CodeTypeMismatch ''$exists needs true or false, got %T'' [AVal v]))"

definition matchOptions :: "doc \<Rightarrow> mongo_error + bool" where
  "matchOptions operators =
     (if Lookup operators ''$regex'' \<noteq> None then Inr True else Inl (Invalid ''$options needs a $regex beside it'' []))"

definition regex_options :: "doc \<Rightarrow> gostring" where
  "regex_options operators = (case Lookup operators ''$options'' of Some (BString flags) \<Rightarrow> flags | _ \<Rightarrow> [])"

definition has_dollar :: "gostring \<Rightarrow> bool" where "has_dollar key = prefix ''$'' key"

definition operatorDocument :: "bson \<Rightarrow> doc option" where
  "operatorDocument v =
     (case v of BDoc document \<Rightarrow> (if document = [] \<or> \<not> has_dollar (fst (hd document)) then None else Some document)
      | _ \<Rightarrow> None)"

lemma operatorDocument_doc [dest]: "operatorDocument v = Some d \<Longrightarrow> v = BDoc d"
  by (auto simp: operatorDocument_def split: bson.splits if_splits)

text \<open>\<open>matchOperators\<close> is the loop over the operators left to try; each of them may look at all of them.\<close>

function matchOperators :: "host \<Rightarrow> bson list \<Rightarrow> doc \<Rightarrow> doc \<Rightarrow> mongo_error + bool"
  and matchOperator :: "host \<Rightarrow> bson list \<Rightarrow> doc \<Rightarrow> gostring \<Rightarrow> bson \<Rightarrow> mongo_error + bool" where
  "matchOperators h values operators [] = Inr True"
| "matchOperators h values operators ((key, v) # rest) =
     (case matchOperator h values operators key v of
        Inl err \<Rightarrow> Inl err
      | Inr held \<Rightarrow> if held then matchOperators h values operators rest else Inr False)"
| "matchOperator h values operators key v =
     (if key = ''$eq'' then Inr (matchValue values v)
      else if key = ''$ne'' then Inr (\<not> matchValue values v)
      else if key \<in> {''$gt'', ''$gte'', ''$lt'', ''$lte''} then Inr (matchOrdering values (key, v))
      else if key \<in> {''$in'', ''$nin''} then matchMembership h values (key, v)
      else if key = ''$exists'' then matchExists values v
      else if key = ''$regex'' then matchRegex h values v (regex_options operators)
      else if key = ''$options'' then matchOptions operators
      else if key = ''$not'' then
        (case v of
           BRegex _ _ \<Rightarrow> (case matchRegex h values v [] of Inl err \<Rightarrow> Inl err | Inr held \<Rightarrow> Inr (\<not> held))
         | _ \<Rightarrow>
            (case operatorDocument v of
               None \<Rightarrow> Inl (Invalid ''$not needs a set of operators or a regular expression'' [])
             | Some negated \<Rightarrow>
                 (case matchOperators h values negated negated of Inl err \<Rightarrow> Inl err | Inr held \<Rightarrow> Inr (\<not> held))))
      else Inl (Unsupported ''the %s query operator'' [AStr key]))"
  by pat_completeness auto
termination
  by (relation "measure (case_sum (\<lambda>(_, _, _, d). size_list (size_prod (\<lambda>_. 0) size) d) (\<lambda>(_, _, _, _, v). size v))") auto

declare matchOperator.simps [simp del]

section \<open>Filters\<close>

definition branchesOf :: "gostring \<Rightarrow> bson \<Rightarrow> mongo_error + doc list" where
  "branchesOf key v =
     (if key \<noteq> ''$and'' \<and> key \<noteq> ''$or'' then Inl (Unsupported ''the %s query operator'' [AStr key])
      else case v of
        BArr listed \<Rightarrow>
          (if listed = [] then Inl (Invalid ''%s needs a non-empty array of filters'' [AStr key])
           else documents_of (\<lambda>index branch. Invalid ''%s[%d] is %T, want a filter document''
             [AStr key, AInt (int index), AVal branch]) 0 listed)
      | _ \<Rightarrow> Inl (Invalid ''%s needs a non-empty array of filters'' [AStr key]))"

abbreviation doc_size :: "doc \<Rightarrow> nat" where "doc_size \<equiv> size_list (size_prod (\<lambda>_. 0) size)"

lemma documents_of_size: "documents_of wrong n a = Inr ds \<Longrightarrow> size_list doc_size ds \<le> size_list size a"
proof (induction a arbitrary: n ds)
  case (Cons v a)
  then obtain d ds' where *: "v = BDoc d" "ds = d # ds'" "documents_of wrong (Suc n) a = Inr ds'"
    by (auto split: bson.splits sum.splits)
  then show ?case using Cons.IH [of "Suc n" ds'] by simp
qed simp

lemma branchesOf_size: "branchesOf key v = Inr ds \<Longrightarrow> size_list doc_size ds < size v"
  by (auto simp: branchesOf_def split: if_splits bson.splits dest!: documents_of_size)

text \<open>\<open>matches\<close>, \<open>matchCondition\<close> and the loop of \<open>matchLogical\<close>.\<close>

function doc_matches :: "host \<Rightarrow> doc \<Rightarrow> doc \<Rightarrow> mongo_error + bool"
  and matchCondition :: "host \<Rightarrow> doc \<Rightarrow> gostring \<Rightarrow> bson \<Rightarrow> mongo_error + bool"
  and logical_loop :: "host \<Rightarrow> doc \<Rightarrow> gostring \<Rightarrow> doc list \<Rightarrow> mongo_error + bool" where
  "doc_matches h document [] = Inr True"
| "doc_matches h document ((key, v) # rest) =
     (case matchCondition h document key v of
        Inl err \<Rightarrow> Inl err
      | Inr held \<Rightarrow> if held then doc_matches h document rest else Inr False)"
| "matchCondition h document key v =
     (if has_dollar key
      then (case branchesOf key v of Inl err \<Rightarrow> Inl err | Inr branches \<Rightarrow> logical_loop h document key branches)
      else let values = valuesAt document key
        in case operatorDocument v of
             Some operators \<Rightarrow> matchOperators h values operators operators
           | None \<Rightarrow> (case v of BRegex _ _ \<Rightarrow> matchRegex h values v [] | _ \<Rightarrow> Inr (matchValue values v)))"
| "logical_loop h document key [] = Inr (key = ''$and'')"
| "logical_loop h document key (branch # rest) =
     (case doc_matches h document branch of
        Inl err \<Rightarrow> Inl err
      | Inr held \<Rightarrow> if held \<noteq> (key = ''$and'') then Inr held else logical_loop h document key rest)"
  by pat_completeness auto
termination
  by (relation "measure (case_sum (\<lambda>(_, _, f). doc_size f)
      (case_sum (\<lambda>(_, _, _, v). size v) (\<lambda>(_, _, _, bs). size_list doc_size bs)))") (auto dest: branchesOf_size)

declare matchCondition.simps [simp del]

end
