(* ===== verification/DocUpdate.thy ===== *)
theory DocUpdate
  imports DocQuery
begin

text \<open>
  What an update makes of a document: \<open>internal/docstore/update.go\<close>, and the identifier every stored document
  has first (\<open>identifierOf\<close>, \<open>withIdentifier\<close> of \<open>docstore.go\<close>). Paths are the pieces of \<open>strings.Split\<close>, of which
  there is always at least one; the clauses for an empty path are never reached. Where the code draws a
  fresh object identifier, the number of those drawn so far is an argument and a result.
\<close>

definition identifierField :: gostring where "identifierField = ''_id''"

section \<open>Writing a field\<close>

fun without :: "doc \<Rightarrow> gostring \<Rightarrow> doc" where
  "without [] key = []"
| "without ((k, v) # rest) key = (if k \<noteq> key then (k, v) # without rest key else without rest key)"

fun withField :: "doc \<Rightarrow> gostring \<Rightarrow> bson \<Rightarrow> doc" where
  "withField [] key v = [Field key v]"
| "withField ((k, held) # rest) key v = (if k = key then (k, v) # rest else (k, held) # withField rest key v)"

definition withIdentifier :: "doc \<Rightarrow> bson \<Rightarrow> doc" where
  "withIdentifier document identifier = Field identifierField identifier # without document identifierField"

definition identifierOf :: "host \<Rightarrow> doc \<Rightarrow> nat \<Rightarrow> bson \<times> nat" where
  "identifierOf h document drawn =
     (case Lookup document identifierField of
        Some identifier \<Rightarrow> (identifier, drawn)
      | None \<Rightarrow> (BOid (h_oid h drawn), Suc drawn))"

text \<open>\<open>valueAt\<close>, \<open>setPath\<close> and \<open>unsetPath\<close>.\<close>

fun valueAt :: "doc \<Rightarrow> gostring list \<Rightarrow> bson option" where
  "valueAt document [] = None"
| "valueAt document (p # ps) =
     (case Lookup document p of
        None \<Rightarrow> None
      | Some v \<Rightarrow> if ps = [] then Some v
                  else (case v of BDoc embedded \<Rightarrow> valueAt embedded ps | _ \<Rightarrow> None))"

fun setPath :: "doc \<Rightarrow> gostring list \<Rightarrow> bson \<Rightarrow> mongo_error + doc" where
  "setPath document [] v = Inr document"
| "setPath document (p # ps) v =
     (if ps = [] then Inr (withField document p v)
      else (case (case Lookup document p of None \<Rightarrow> BDoc [] | Some held \<Rightarrow> held) of
              BDoc embedded \<Rightarrow>
                (case setPath embedded ps v of
                   Inl err \<Rightarrow> Inl err
                 | Inr updated \<Rightarrow> Inr (withField document p (BDoc updated)))
            | held \<Rightarrow> Inl (Invalid ''cannot create %q inside %s, which holds %T'' [AStr (Join ps ''.''), AStr p, AVal held])))"

fun unsetPath :: "doc \<Rightarrow> gostring list \<Rightarrow> doc" where
  "unsetPath document [] = document"
| "unsetPath document (p # ps) =
     (if ps = [] then without document p
      else (case Lookup document p of
              Some (BDoc embedded) \<Rightarrow> withField document p (BDoc (unsetPath embedded ps))
            | _ \<Rightarrow> document))"

section \<open>Operators\<close>

definition steps :: "gostring \<Rightarrow> gostring list" where "steps path = Split_on (CHR ''.'') path"

definition setField :: "doc \<Rightarrow> gostring \<Rightarrow> bson \<Rightarrow> mongo_error + doc" where
  "setField document path v = setPath document (steps path) (clone v)"

definition unsetField :: "doc \<Rightarrow> gostring \<Rightarrow> bson \<Rightarrow> mongo_error + doc" where
  "unsetField document path _ = Inr (unsetPath document (steps path))"

fun isWhole :: "bson \<Rightarrow> bool" where
  "isWhole (BInt32 _) = True"
| "isWhole (BInt64 _) = True"
| "isWhole _ = False"

fun wholeOf :: "bson \<Rightarrow> int" where
  "wholeOf (BInt32 i) = i"
| "wholeOf (BInt64 i) = i"
| "wholeOf _ = 0"

definition bson_sum :: "bson \<Rightarrow> bson \<Rightarrow> bson" where
  "bson_sum current by =
     (if isWhole current \<and> isWhole by then BInt64 (wrap64 (wholeOf current + wholeOf by))
      else BDouble (f_add (numberOf current) (numberOf by)))"

definition incrementField :: "doc \<Rightarrow> gostring \<Rightarrow> bson \<Rightarrow> mongo_error + doc" where
  "incrementField document path by =
     (if \<not> isNumber by then Inl (mongo_fail CodeTypeMismatch ''$inc on %s is %T, want a number'' [AStr path, AVal by])
      else (case valueAt document (steps path) of
              None \<Rightarrow> setPath document (steps path) by
            | Some current \<Rightarrow>
                if \<not> isNumber current
                then Inl (mongo_fail CodeTypeMismatch ''$inc on %s, which holds %T rather than a number'' [AStr path, AVal current])
                else setPath document (steps path) (bson_sum current by)))"

definition update_operators :: "(gostring \<times> (doc \<Rightarrow> gostring \<Rightarrow> bson \<Rightarrow> mongo_error + doc)) list" where
  "update_operators = [(''$set'', setField), (''$inc'', incrementField), (''$unset'', unsetField)]"

fun apply_changes ::
  "(doc \<Rightarrow> gostring \<Rightarrow> bson \<Rightarrow> mongo_error + doc) \<Rightarrow> doc \<Rightarrow> doc \<Rightarrow> mongo_error + doc" where
  "apply_changes apply document [] = Inr document"
| "apply_changes apply document ((path, v) # changes) =
     (case apply document path v of Inl err \<Rightarrow> Inl err | Inr updated \<Rightarrow> apply_changes apply updated changes)"

definition applyOperator :: "doc \<Rightarrow> gostring \<Rightarrow> bson \<Rightarrow> mongo_error + doc" where
  "applyOperator document key v =
     (case map_of update_operators key of
        None \<Rightarrow> Inl (Unsupported ''the %s update operator'' [AStr key])
      | Some apply \<Rightarrow>
          (case v of
             BDoc changes \<Rightarrow> apply_changes apply document changes
           | _ \<Rightarrow> Inl (mongo_fail CodeTypeMismatch ''%s is %T, want a document of fields'' [AStr key, AVal v])))"

definition checkUpdateShape :: "doc \<Rightarrow> mongo_error option" where
  "checkUpdateShape update =
     (let withOperators = filter has_dollar (map fst update);
          withFields = filter (\<lambda>k. \<not> has_dollar k) (map fst update)
      in if withOperators \<noteq> [] \<and> withFields \<noteq> []
         then Some (mongo_fail CodeFailedToParse ''an update is operators or a replacement, not both: %v beside %v''
           [AStrs withOperators, AStrs withFields])
         else None)"

definition replace_document :: "doc \<Rightarrow> doc \<Rightarrow> doc" where
  "replace_document document replacement =
     (let replaced = cloneDocument replacement
      in case Lookup document identifierField of
           Some identifier \<Rightarrow> withIdentifier (without replaced identifierField) identifier
         | None \<Rightarrow> replaced)"

fun apply_operators :: "doc \<Rightarrow> doc \<Rightarrow> mongo_error + doc" where
  "apply_operators document [] = Inr document"
| "apply_operators document ((key, v) # rest) =
     (case applyOperator document key v of Inl err \<Rightarrow> Inl err | Inr applied \<Rightarrow> apply_operators applied rest)"

definition applyUpdate :: "doc \<Rightarrow> doc \<Rightarrow> mongo_error + doc" where
  "applyUpdate document update =
     (case checkUpdateShape update of
        Some err \<Rightarrow> Inl err
      | None \<Rightarrow>
          if update \<noteq> [] \<and> \<not> has_dollar (fst (hd update)) then Inr (replace_document document update)
          else apply_operators (cloneDocument document) update)"

section \<open>Upserts\<close>

fun equality_loop :: "doc \<Rightarrow> doc \<Rightarrow> mongo_error + doc" where
  "equality_loop seeded [] = Inr seeded"
| "equality_loop seeded ((key, v) # rest) =
     (if has_dollar key then equality_loop seeded rest
      else if operatorDocument v \<noteq> None then equality_loop seeded rest
      else (case setPath seeded (steps key) (clone v) of
              Inl err \<Rightarrow> Inl err
            | Inr updated \<Rightarrow> equality_loop updated rest))"

definition equalityFields :: "doc \<Rightarrow> mongo_error + doc" where
  "equalityFields query = equality_loop [] query"

definition upsert :: "host \<Rightarrow> doc \<Rightarrow> doc \<Rightarrow> nat \<Rightarrow> (mongo_error + doc) \<times> nat" where
  "upsert h query update drawn =
     (case equalityFields query of
        Inl err \<Rightarrow> (Inl err, drawn)
      | Inr seeded \<Rightarrow>
          (case applyUpdate seeded update of
             Inl err \<Rightarrow> (Inl err, drawn)
           | Inr created \<Rightarrow>
               (case identifierOf h created drawn of (identifier, drawn) \<Rightarrow> (Inr (withIdentifier created identifier), drawn))))"

end
