(* ===== verification/DocFind.thy ===== *)
theory DocFind
  imports DocUpdate
begin

text \<open>
  Ordering, windowing and narrowing the documents a query selected (\<open>internal/docstore/find.go\<close>), and the
  pipeline stages (\<open>pipeline.go\<close>). \<open>slices.SortStableFunc\<close> is insertion from the right, which is what the library
  runs on up to twenty elements; on more it runs another stable sort, with the same result whenever the
  comparison is an order, which the theory \<open>BsonOrder\<close> proves of the code's for the values it can order.
  \<open>window\<close> slices, so a negative \<open>skip\<close> is the outcome \<open>Panic\<close>.
\<close>

section \<open>Sorting\<close>

fun insert_sorted :: "('a \<Rightarrow> 'a \<Rightarrow> int) \<Rightarrow> 'a \<Rightarrow> 'a list \<Rightarrow> 'a list" where
  "insert_sorted cmp x [] = [x]"
| "insert_sorted cmp x (y # ys) = (if cmp x y < 0 then y # insert_sorted cmp x ys else x # y # ys)"

definition SortStable :: "('a \<Rightarrow> 'a \<Rightarrow> int) \<Rightarrow> 'a list \<Rightarrow> 'a list" where
  "SortStable cmp xs = rev (foldl (\<lambda>done x. insert_sorted cmp x done) [] xs)"

definition direction :: "host \<Rightarrow> bson \<Rightarrow> int" where
  "direction h v = (if \<not> isNumber v then 0 else sign (f_to_int (h_stray h) (numberOf v)))"

definition sortKey :: "doc \<Rightarrow> gostring \<Rightarrow> bson" where
  "sortKey document path = (case valuesAt document path of [] \<Rightarrow> BNull | v # _ \<Rightarrow> v)"

fun sort_order :: "host \<Rightarrow> doc \<Rightarrow> doc \<Rightarrow> doc \<Rightarrow> int" where
  "sort_order h [] left right = 0"
| "sort_order h ((key, v) # rest) left right =
     (let order = compare (sortKey left key) (sortKey right key)
      in if order \<noteq> 0 then order * direction h v else sort_order h rest left right)"

fun check_sort :: "host \<Rightarrow> doc \<Rightarrow> mongo_error option" where
  "check_sort h [] = None"
| "check_sort h ((key, v) # rest) =
     (if direction h v = 0 then Some (Invalid ''sort on %q is %v, want 1 or -1'' [AStr key, AVal v]) else check_sort h rest)"

definition sortDocuments :: "host \<Rightarrow> doc list \<Rightarrow> doc \<Rightarrow> mongo_error + doc list" where
  "sortDocuments h documents specification =
     (case check_sort h specification of
        Some err \<Rightarrow> Inl err
      | None \<Rightarrow> Inr (SortStable (sort_order h specification) documents))"

section \<open>Skip and limit\<close>

definition window :: "doc list \<Rightarrow> int \<Rightarrow> int \<Rightarrow> (mongo_error, doc list) outcome" where
  "window documents skip limit =
     (if int (length documents) \<le> skip then Ok []
      else if skip < 0 then Panic
      else let documents = drop (nat skip) documents
        in Ok (if 0 < limit \<and> limit < int (length documents) then take (nat limit) documents else documents))"

section \<open>Projections\<close>

definition truthy :: "bson \<Rightarrow> bool" where
  "truthy v = (case v of BBool flag \<Rightarrow> flag | _ \<Rightarrow> \<not> f_eq (numberOf v) f_zero)"

definition keepsIdentifier :: "doc \<Rightarrow> bool" where
  "keepsIdentifier projection =
     (case Lookup projection identifierField of None \<Rightarrow> True | Some v \<Rightarrow> truthy v)"

fun projection_loop :: "doc \<Rightarrow> gostring list \<Rightarrow> gostring list \<Rightarrow> mongo_error + gostring list \<times> gostring list" where
  "projection_loop [] including excluding = Inr (including, excluding)"
| "projection_loop ((key, v) # rest) including excluding =
     (if \<not> isNumber v \<and> rankOf v \<noteq> rankBool
      then Inl (Unsupported ''the projection %q, which is not a simple include or exclude'' [AStr key])
      else if truthy v then projection_loop rest (including @ [key]) excluding
      else if key \<noteq> identifierField then projection_loop rest including (excluding @ [key])
      else projection_loop rest including excluding)"

definition projectionMode :: "doc \<Rightarrow> mongo_error + bool" where
  "projectionMode projection =
     (case projection_loop projection [] [] of
        Inl err \<Rightarrow> Inl err
      | Inr (including, excluding) \<Rightarrow>
          if including \<noteq> [] \<and> excluding \<noteq> []
          then Inl (Invalid ''a projection includes or excludes, not both: %v beside %v'' [AStrs including, AStrs excluding])
          else Inr (including \<noteq> []))"

definition deeper :: "gostring list \<Rightarrow> gostring \<Rightarrow> bool" where
  "deeper paths path = list_ex (prefix (path @ ''.'')) paths"

text \<open>The map \<open>paths\<close> is only asked for its keys; it is the list of them.\<close>

fun filterFields :: "doc \<Rightarrow> gostring \<Rightarrow> gostring list \<Rightarrow> bool \<Rightarrow> doc"
  and filterEmbedded :: "bson \<Rightarrow> gostring \<Rightarrow> gostring list \<Rightarrow> bool \<Rightarrow> bson" where
  "filterFields [] pre paths including = []"
| "filterFields ((key, v) # rest) pre paths including =
     (let path = pre @ key; kept = filterFields rest pre paths including
      in if path \<in> set paths then (if including then (key, v) # kept else kept)
         else if deeper paths path then Field key (filterEmbedded v path paths including) # kept
         else if \<not> including then (key, v) # kept
         else kept)"
| "filterEmbedded (BDoc d) path paths including = BDoc (filterFields d (path @ ''.'') paths including)"
| "filterEmbedded (BArr a) path paths including = BArr (map (\<lambda>element. filterEmbedded element path paths including) a)"
| "filterEmbedded v path paths including = v"

definition project :: "doc \<Rightarrow> doc \<Rightarrow> mongo_error + doc" where
  "project document projection =
     (if projection = [] then Inr (cloneDocument document)
      else (case projectionMode projection of
              Inl err \<Rightarrow> Inl err
            | Inr including \<Rightarrow>
                (let paths = filter (\<lambda>k. k \<noteq> identifierField) (map fst projection);
                     kept = without (filterFields (cloneDocument document) [] paths including) identifierField
                 in case Lookup document identifierField of
                      Some identifier \<Rightarrow>
                        Inr (if keepsIdentifier projection then withIdentifier kept (clone identifier) else kept)
                    | None \<Rightarrow> Inr kept)))"

fun projectAll :: "doc list \<Rightarrow> doc \<Rightarrow> mongo_error + doc list" where
  "projectAll [] projection = Inr []"
| "projectAll (document # documents) projection =
     (case project document projection of
        Inl err \<Rightarrow> Inl err
      | Inr result \<Rightarrow>
          (case projectAll documents projection of Inl err \<Rightarrow> Inl err | Inr results \<Rightarrow> Inr (result # results)))"

section \<open>Selecting\<close>

text \<open>The loop of \<open>find\<close>, \<open>matchStage\<close> and \<open>selectFor\<close>: a filter the code cannot evaluate on some document is an
  error, even when documents before it matched.\<close>

fun find_documents :: "host \<Rightarrow> doc list \<Rightarrow> doc \<Rightarrow> mongo_error + doc list" where
  "find_documents h [] query = Inr []"
| "find_documents h (document # rest) query =
     (case doc_matches h document query of
        Inl err \<Rightarrow> Inl err
      | Inr held \<Rightarrow>
          (case find_documents h rest query of
             Inl err \<Rightarrow> Inl err
           | Inr selected \<Rightarrow> Inr (if held then document # selected else selected)))"

section \<open>The pipeline\<close>

definition matchStage :: "host \<Rightarrow> doc list \<Rightarrow> gostring \<Rightarrow> bson \<Rightarrow> (mongo_error, doc list) outcome" where
  "matchStage h documents key v =
     (case v of
        BDoc query \<Rightarrow> (case find_documents h documents query of Inl err \<Rightarrow> Fail err | Inr selected \<Rightarrow> Ok selected)
      | _ \<Rightarrow> Fail (mongo_fail CodeTypeMismatch ''$match is %T, want a filter document'' [AVal v]))"

definition stageCount :: "host \<Rightarrow> gostring \<Rightarrow> bson \<Rightarrow> mongo_error + int" where
  "stageCount h key v =
     (if \<not> isNumber v \<or> f_less (numberOf v) f_zero
      then Inl (Invalid ''%s is %v, want a count that is not negative'' [AStr key, AVal v])
      else Inr (f_to_int (h_stray h) (numberOf v)))"

definition skipStage :: "host \<Rightarrow> doc list \<Rightarrow> gostring \<Rightarrow> bson \<Rightarrow> (mongo_error, doc list) outcome" where
  "skipStage h documents key v =
     (case stageCount h key v of Inl err \<Rightarrow> Fail err | Inr count \<Rightarrow> window documents count 0)"

definition limitStage :: "host \<Rightarrow> doc list \<Rightarrow> gostring \<Rightarrow> bson \<Rightarrow> (mongo_error, doc list) outcome" where
  "limitStage h documents key v =
     (case stageCount h key v of Inl err \<Rightarrow> Fail err | Inr count \<Rightarrow> window documents 0 count)"

definition wrap32 :: "int \<Rightarrow> int" where "wrap32 i = (i + 2 ^ 31) mod 2 ^ 32 - 2 ^ 31"

definition countStage :: "host \<Rightarrow> doc list \<Rightarrow> gostring \<Rightarrow> bson \<Rightarrow> (mongo_error, doc list) outcome" where
  "countStage h documents key v =
     (case v of
        BString name \<Rightarrow>
          (if name = [] then Fail (Invalid ''$count is %v, want the name of the field to put the count in'' [AVal v])
           else Ok [[Field name (BInt32 (wrap32 (int (length documents))))]])
      | _ \<Rightarrow> Fail (Invalid ''$count is %v, want the name of the field to put the count in'' [AVal v]))"

definition countsOne :: "bson \<Rightarrow> bool" where
  "countsOne accumulator =
     (case accumulator of
        BDoc [(key, v)] \<Rightarrow> key = ''$sum'' \<and> isNumber v \<and> f_eq (numberOf v) f_one
      | _ \<Rightarrow> False)"

definition groupStage :: "host \<Rightarrow> doc list \<Rightarrow> gostring \<Rightarrow> bson \<Rightarrow> (mongo_error, doc list) outcome" where
  "groupStage h documents key v =
     (case v of
        BDoc grouping \<Rightarrow>
          (case Lookup grouping identifierField of
             Some identifier \<Rightarrow>
               (if length grouping \<noteq> 2
                then Fail (Unsupported ''a $group beyond counting: emu evaluates only {_id: <constant>, <field>: {$sum: 1}}'' [])
                else let counter = (if fst (hd grouping) = identifierField then grouping ! 1 else hd grouping)
                  in if \<not> countsOne (snd counter)
                     then Fail (Unsupported ''a $group beyond counting: %s is %v, want {$sum: 1}''
                       [AStr (fst counter), AVal (snd counter)])
                     else Ok [[Field identifierField identifier, Field (fst counter) (BInt32 (wrap32 (int (length documents))))]])
           | None \<Rightarrow> Fail (Unsupported ''a $group beyond counting: emu evaluates only {_id: <constant>, <field>: {$sum: 1}}'' []))
      | _ \<Rightarrow> Fail (mongo_fail CodeTypeMismatch ''$group is %T, want a document'' [AVal v]))"

definition pipeline_stages ::
  "(gostring \<times> (host \<Rightarrow> doc list \<Rightarrow> gostring \<Rightarrow> bson \<Rightarrow> (mongo_error, doc list) outcome)) list" where
  "pipeline_stages = [(''$match'', matchStage), (''$skip'', skipStage), (''$limit'', limitStage),
     (''$count'', countStage), (''$group'', groupStage)]"

fun run_stages :: "host \<Rightarrow> doc list \<Rightarrow> doc list \<Rightarrow> (mongo_error, doc list) outcome" where
  "run_stages h produced [] = Ok produced"
| "run_stages h produced (stage # rest) =
     (case stage of
        [(key, v)] \<Rightarrow>
          (case map_of pipeline_stages key of
             None \<Rightarrow> Fail (Unsupported ''the %s aggregation stage: emu counts, it does not aggregate'' [AStr key])
           | Some apply \<Rightarrow>
               (case apply h produced key v of
                  Ok produced \<Rightarrow> run_stages h produced rest
                | Fail err \<Rightarrow> Fail err
                | Panic \<Rightarrow> Panic))
      | _ \<Rightarrow> Fail (Invalid ''a pipeline stage names exactly one operator, got %d'' [AInt (int (length stage))]))"

definition runPipeline :: "host \<Rightarrow> doc list \<Rightarrow> doc list \<Rightarrow> (mongo_error, doc list) outcome" where
  "runPipeline h documents pipeline = run_stages h (map cloneDocument documents) pipeline"

end
