(* ===== verification/MongoWire.thy ===== *)
theory MongoWire
  imports Mongocmd DocFind
begin

text \<open>
  The framing of the MongoDB wire protocol, \<open>internal/mongowire/wire.go\<close>: message headers, the sections of an
  OP_MSG, the legacy OP_QUERY and its reply. Numbers are little-endian. The BSON encoding itself is the
  driver's: the record \<open>bson_library\<close> holds its \<open>Marshal\<close> and \<open>Unmarshal\<close>, each of which fails with an error text.
  A stream is the list of bytes still to be read.
\<close>

section \<open>Numbers\<close>

definition le32 :: "nat \<Rightarrow> gostring" where
  "le32 n = map char_of [n mod 256, n div 256 mod 256, n div 65536 mod 256, n div 16777216 mod 256]"

definition byte_at :: "gostring \<Rightarrow> nat \<Rightarrow> nat" where "byte_at b i = of_char (b ! i)"

text \<open>\<open>binary.LittleEndian.Uint32\<close> of the bytes from an offset, of which there are four.\<close>

definition Uint32 :: "gostring \<Rightarrow> nat" where
  "Uint32 b = byte_at b 0 + 256 * byte_at b 1 + 65536 * byte_at b 2 + 16777216 * byte_at b 3"

text \<open>The conversions \<open>int32(u)\<close> and \<open>uint32(i)\<close>.\<close>

definition to_int32 :: "nat \<Rightarrow> int" where "to_int32 n = wrap32 (int n)"
definition to_uint32 :: "int \<Rightarrow> nat" where "to_uint32 i = nat (i mod 2 ^ 32)"

section \<open>The driver's codec\<close>

record bson_library =
  l_Marshal :: "doc \<Rightarrow> gostring + gostring"
  l_Unmarshal :: "gostring \<Rightarrow> gostring + doc"

section \<open>Messages\<close>

definition opReply :: int where "opReply = 1"
definition opQuery :: int where "opQuery = 2004"
definition opMsg :: int where "opMsg = 2013"
definition headerSize :: nat where "headerSize = 16"
definition maxBSONObjectSize :: int where "maxBSONObjectSize = 16 * 1024 * 1024"
definition maxMessageSizeBytes :: int where "maxMessageSizeBytes = 48000000"
definition maxWriteBatchSize :: int where "maxWriteBatchSize = 100000"
definition checksumSize :: nat where "checksumSize = 4"
definition sectionBody :: char where "sectionBody = char_of (0 :: nat)"
definition sectionSequence :: char where "sectionSequence = char_of (1 :: nat)"

text \<open>The two flag bits: 1 and 2.\<close>

definition flagChecksumPresent :: "nat \<Rightarrow> bool" where "flagChecksumPresent flags \<longleftrightarrow> odd flags"
definition flagMoreToCome :: "nat \<Rightarrow> bool" where "flagMoreToCome flags \<longleftrightarrow> odd (flags div 2)"

record MsgHeader =
  hd_length :: int
  hd_requestID :: int
  hd_responseTo :: int
  hd_opCode :: int

text \<open>\<open>io.ReadFull\<close>.\<close>

definition ReadFull :: "nat \<Rightarrow> gostring \<Rightarrow> (go_error + gostring) \<times> gostring" where
  "ReadFull n input =
     (if n \<le> length input then (Inr (take n input), drop n input)
      else (Inl (PlainErr (if input = [] then ''EOF'' else ''unexpected EOF'')), []))"

definition readMessage :: "gostring \<Rightarrow> (go_error + MsgHeader \<times> gostring) \<times> gostring" where
  "readMessage input =
     (case ReadFull headerSize input of
        (Inl err, rest) \<Rightarrow> (Inl err, rest)
      | (Inr framing, rest) \<Rightarrow>
          (let message = \<lparr>hd_length = to_int32 (Uint32 framing), hd_requestID = to_int32 (Uint32 (drop 4 framing)),
                 hd_responseTo = to_int32 (Uint32 (drop 8 framing)), hd_opCode = to_int32 (Uint32 (drop 12 framing))\<rparr>
           in if hd_length message < int headerSize \<or> hd_length message > maxMessageSizeBytes
              then (Inl (PlainErr (''mongowire: a message claiming '' @ FormatInt (hd_length message) @ '' bytes is not one'')), rest)
              else (case ReadFull (nat (hd_length message - int headerSize)) rest of
                      (Inl err, rest) \<Rightarrow> (Inl err, rest)
                    | (Inr body, rest) \<Rightarrow> (Inr (message, body), rest))))"

definition message_frame :: "int \<Rightarrow> int \<Rightarrow> int \<Rightarrow> gostring \<Rightarrow> gostring" where
  "message_frame requestID responseTo opCode body =
     le32 (headerSize + length body) @ le32 (to_uint32 requestID) @ le32 (to_uint32 responseTo) @ le32 (to_uint32 opCode) @ body"

section \<open>Documents\<close>

definition takeDocument :: "bson_library \<Rightarrow> gostring \<Rightarrow> go_error + doc \<times> gostring" where
  "takeDocument lib body =
     (if length body < 4
      then Inl (PlainErr (''mongowire: '' @ FormatInt (int (length body)) @ '' bytes is not a BSON document''))
      else let n = to_int32 (Uint32 body)
        in if n < 5 \<or> n > int (length body)
           then Inl (PlainErr (''mongowire: a document claiming '' @ FormatInt n @ '' bytes of '' @ FormatInt (int (length body))))
           else (case l_Unmarshal lib (take (nat n) body) of
                   Inl reason \<Rightarrow> Inl (PlainErr (''mongowire: reading a document: '' @ reason))
                 | Inr document \<Rightarrow> Inr (document, drop (nat n) body)))"

definition takeCString :: "gostring \<Rightarrow> go_error + gostring \<times> gostring" where
  "takeCString body =
     (if char_of (0 :: nat) \<in> set body
      then Inr (takeWhile (\<lambda>c. c \<noteq> char_of (0 :: nat)) body, drop 1 (dropWhile (\<lambda>c. c \<noteq> char_of (0 :: nat)) body))
      else Inl (PlainErr ''mongowire: a name with no end to it''))"

lemma takeDocument_shorter: "takeDocument lib body = Inr (document, rest) \<Longrightarrow> length rest < length body"
  by (auto simp: takeDocument_def Let_def split: if_splits sum.splits)

text \<open>The loop that empties a sequence.\<close>

function take_documents :: "bson_library \<Rightarrow> gostring \<Rightarrow> go_error + doc list" where
  "take_documents lib section =
     (if section = [] then Inr []
      else case takeDocument lib section of
        Inl err \<Rightarrow> Inl err
      | Inr (document, rest) \<Rightarrow>
          (case take_documents lib rest of Inl err \<Rightarrow> Inl err | Inr documents \<Rightarrow> Inr (document # documents)))"
  by pat_completeness auto
termination by (relation "measure (\<lambda>(_, s). length s)") (auto dest: takeDocument_shorter)

declare take_documents.simps [simp del]

definition takeSequence :: "bson_library \<Rightarrow> gostring \<Rightarrow> go_error + (gostring \<times> bson) \<times> gostring" where
  "takeSequence lib body =
     (if length body < 4
      then Inl (PlainErr (''mongowire: '' @ FormatInt (int (length body)) @ '' bytes is not a document sequence''))
      else let n = to_int32 (Uint32 body)
        in if n < 5 \<or> n > int (length body)
           then Inl (PlainErr (''mongowire: a sequence claiming '' @ FormatInt n @ '' bytes of '' @ FormatInt (int (length body))))
           else (case takeCString (drop 4 (take (nat n) body)) of
                   Inl err \<Rightarrow> Inl err
                 | Inr (name, section) \<Rightarrow>
                     (case take_documents lib section of
                        Inl err \<Rightarrow> Inl err
                      | Inr documents \<Rightarrow> Inr (Field name (BArr (map BDoc documents)), drop (nat n) body))))"

lemma takeSequence_shorter: "takeSequence lib body = Inr (f, rest) \<Longrightarrow> length rest < length body"
  by (auto simp: takeSequence_def Let_def split: if_splits sum.splits)

text \<open>The loop over the sections. No body section leaves the command nil: \<open>None\<close>.\<close>

function readSections ::
  "bson_library \<Rightarrow> gostring \<Rightarrow> doc option \<Rightarrow> doc \<Rightarrow> go_error + doc option \<times> doc" where
  "readSections lib [] command sequences = Inr (command, sequences)"
| "readSections lib (kind # body) command sequences =
     (if kind = sectionBody
      then (case takeDocument lib body of
              Inl err \<Rightarrow> Inl err
            | Inr (document, rest) \<Rightarrow> readSections lib rest (Some document) sequences)
      else if kind = sectionSequence
      then (case takeSequence lib body of
              Inl err \<Rightarrow> Inl err
            | Inr (sequence', rest) \<Rightarrow> readSections lib rest command (sequences @ [sequence']))
      else Inl (PlainErr (''mongowire: section kind '' @ FormatInt (int (of_char kind)) @ '' is not one emu knows'')))"
  by pat_completeness auto
termination by (relation "measure (\<lambda>(_, s, _, _). length s)") (auto dest!: takeDocument_shorter takeSequence_shorter)

declare readSections.simps(2) [simp del]

definition decodeMsg :: "bson_library \<Rightarrow> gostring \<Rightarrow> go_error + doc \<times> bool" where
  "decodeMsg lib body =
     (if length body < 4
      then Inl (PlainErr (''mongowire: an OP_MSG of '' @ FormatInt (int (length body)) @ '' bytes carries no flags''))
      else let flags = Uint32 body; body = drop 4 body
        in if flagChecksumPresent flags \<and> length body < checksumSize
           then Inl (PlainErr ''mongowire: an OP_MSG promised a checksum and carries none'')
           else let body = (if flagChecksumPresent flags then take (length body - checksumSize) body else body)
             in (case readSections lib body None [] of
                   Inl err \<Rightarrow> Inl err
                 | Inr (None, _) \<Rightarrow> Inl (PlainErr ''mongowire: an OP_MSG with no command in it'')
                 | Inr (Some command, sequences) \<Rightarrow> Inr (command @ sequences, flagMoreToCome flags)))"

definition isCommandNamespace :: "gostring \<Rightarrow> bool" where
  "isCommandNamespace namespace \<longleftrightarrow>
     length namespace > 5 \<and> drop (length namespace - 5) namespace = ''.$cmd''"

text \<open>The namespace is quoted in two messages by \<open>%q\<close> and \<open>%s\<close>; what \<open>%q\<close> makes of it is an argument.\<close>

definition decodeQuery :: "(gostring \<Rightarrow> gostring) \<Rightarrow> bson_library \<Rightarrow> gostring \<Rightarrow> go_error + doc" where
  "decodeQuery quote lib body =
     (if length body < 4 then Inl (PlainErr (''mongowire: an OP_QUERY of '' @ FormatInt (int (length body)) @ '' bytes''))
      else case takeCString (drop 4 body) of
        Inl err \<Rightarrow> Inl err
      | Inr (namespace, rest) \<Rightarrow>
          if \<not> isCommandNamespace namespace
          then Inl (PlainErr (''mongowire: emu answers OP_QUERY only on <db>.$cmd, not '' @ quote namespace))
          else if length rest < 8
          then Inl (PlainErr (''mongowire: an OP_QUERY on '' @ namespace @ '' with no query in it''))
          else (case takeDocument lib (drop 8 rest) of Inl err \<Rightarrow> Inl err | Inr (command, _) \<Rightarrow> Inr command))"

section \<open>Replies\<close>

definition encodeMsg :: "gostring \<Rightarrow> gostring" where
  "encodeMsg document = replicate 4 (char_of (0 :: nat)) @ [sectionBody] @ document"

definition encodeReply :: "gostring \<Rightarrow> gostring" where
  "encodeReply document = replicate 16 (char_of (0 :: nat)) @ le32 1 @ document"

end
