(* ===== verification/Docstore.thy ===== *)
theory Docstore
  imports DocFind
begin

text \<open>
  The document database: \<open>internal/docstore/docstore.go\<close>, \<open>write.go\<close>, \<open>executor.go\<close> and the cursors of \<open>find.go\<close>.
  The backend is one record behind one mutex, so a command is a transition. Go's \<open>*collection\<close> is the
  entry of the map: an operation on it returns the new collection, which the command puts back, also
  when it fails half way (an update batch keeps what it did before the failure). A command returns a
  reply document, an error, or panics.
\<close>

record collection =
  co_name :: gostring
  co_documents :: "doc list"

record cursor =
  cu_namespace :: gostring
  cu_remaining :: "doc list"

record Backend =
  ds_collections :: "(gostring \<times> collection) list"
  ds_cursors :: "(int \<times> cursor) list"
  ds_lastCursor :: int
  ds_drawn :: nat

definition New_Backend :: "nat \<Rightarrow> Backend" where
  "New_Backend drawn = \<lparr>ds_collections = [], ds_cursors = [], ds_lastCursor = 0, ds_drawn = drawn\<rparr>"

definition Close_Backend :: "Backend \<Rightarrow> Backend" where
  "Close_Backend b = b\<lparr>ds_collections := [], ds_cursors := []\<rparr>"

definition Count :: "gostring \<Rightarrow> Backend \<Rightarrow> nat" where
  "Count name b = (case map_of (ds_collections b) name of None \<Rightarrow> 0 | Some held \<Rightarrow> length (co_documents held))"

section \<open>Collections\<close>

definition collect :: "gostring \<Rightarrow> Backend \<Rightarrow> collection \<times> Backend" where
  "collect name b =
     (case map_of (ds_collections b) name of
        Some held \<Rightarrow> (held, b)
      | None \<Rightarrow> (let held = \<lparr>co_name = name, co_documents = []\<rparr>
                in (held, b\<lparr>ds_collections := AList.update name held (ds_collections b)\<rparr>)))"

definition put_collection :: "gostring \<Rightarrow> collection \<Rightarrow> Backend \<Rightarrow> Backend" where
  "put_collection name held b = b\<lparr>ds_collections := AList.update name held (ds_collections b)\<rparr>"

definition identifier_of_stored :: "doc \<Rightarrow> bson" where
  "identifier_of_stored document = nil_or (Lookup document identifierField)"

fun locate :: "doc list \<Rightarrow> bson \<Rightarrow> nat option" where
  "locate [] identifier = None"
| "locate (document # rest) identifier =
     (if equal_values (identifier_of_stored document) identifier then Some 0 else map_option Suc (locate rest identifier))"

definition duplicate_key :: "collection \<Rightarrow> bson \<Rightarrow> mongo_error" where
  "duplicate_key c identifier =
     mongo_fail CodeDuplicateKey ''E11000 duplicate key error collection: %s.%s index: _id_ dup key: { _id: %v }''
       [AStr mongo_Database, AStr (co_name c), AVal identifier]"

definition insert_document :: "host \<Rightarrow> doc \<Rightarrow> collection \<Rightarrow> nat \<Rightarrow> mongo_error option \<times> collection \<times> nat" where
  "insert_document h document c drawn =
     (case identifierOf h document drawn of (identifier, drawn) \<Rightarrow>
        (let stored = withIdentifier (cloneDocument document) identifier;
             identifier = identifier_of_stored stored
         in if locate (co_documents c) identifier \<noteq> None then (Some (duplicate_key c identifier), c, drawn)
            else (None, c\<lparr>co_documents := co_documents c @ [stored]\<rparr>, drawn)))"

text \<open>\<open>selectFor\<close>, with the position of the first document of the list.\<close>

fun selectFor :: "host \<Rightarrow> nat \<Rightarrow> doc list \<Rightarrow> doc \<Rightarrow> bool \<Rightarrow> mongo_error + nat list" where
  "selectFor h index [] query all = Inr []"
| "selectFor h index (document # rest) query all =
     (case doc_matches h document query of
        Inl err \<Rightarrow> Inl err
      | Inr held \<Rightarrow>
          if \<not> held then selectFor h (Suc index) rest query all
          else if \<not> all then Inr [index]
          else (case selectFor h (Suc index) rest query all of
                  Inl err \<Rightarrow> Inl err
                | Inr selected \<Rightarrow> Inr (index # selected)))"

record updateOutcome =
  uo_matched :: int
  uo_modified :: int
  uo_upserted :: "bson option"

definition no_outcome :: updateOutcome where
  "no_outcome = \<lparr>uo_matched = 0, uo_modified = 0, uo_upserted = None\<rparr>"

definition checkIdentifier :: "doc \<Rightarrow> doc \<Rightarrow> mongo_error option" where
  "checkIdentifier was now =
     (if equal_values (nil_or (Lookup was identifierField)) (nil_or (Lookup now identifierField)) then None
      else Some (mongo_fail CodeImmutableField
        (''performing an update on the path '' @ [CHR 0x27] @ ''_id'' @ [CHR 0x27]
          @ '' would modify the immutable field '' @ [CHR 0x27] @ ''_id'' @ [CHR 0x27]) []))"

fun rewrite_loop :: "nat list \<Rightarrow> doc \<Rightarrow> collection \<Rightarrow> updateOutcome \<Rightarrow> (mongo_error + updateOutcome) \<times> collection" where
  "rewrite_loop [] change c outcome = (Inr outcome, c)"
| "rewrite_loop (index # selected) change c outcome =
     (let held = co_documents c ! index
      in case applyUpdate held change of
           Inl err \<Rightarrow> (Inl err, c)
         | Inr updated \<Rightarrow>
             (case checkIdentifier held updated of
                Some err \<Rightarrow> (Inl err, c)
              | None \<Rightarrow>
                  (let outcome = outcome\<lparr>uo_matched := uo_matched outcome + 1\<rparr>
                   in if compareDocuments held updated \<noteq> 0
                      then rewrite_loop selected change (c\<lparr>co_documents := (co_documents c)[index := updated]\<rparr>)
                        (outcome\<lparr>uo_modified := uo_modified outcome + 1\<rparr>)
                      else rewrite_loop selected change c outcome)))"

definition rewrite :: "nat list \<Rightarrow> doc \<Rightarrow> collection \<Rightarrow> (mongo_error + updateOutcome) \<times> collection" where
  "rewrite selected change c = rewrite_loop selected change c no_outcome"

definition create_upserted ::
  "host \<Rightarrow> doc \<Rightarrow> doc \<Rightarrow> collection \<Rightarrow> nat \<Rightarrow> (mongo_error + updateOutcome) \<times> collection \<times> nat" where
  "create_upserted h query change c drawn =
     (case upsert h query change drawn of
        (Inl err, drawn) \<Rightarrow> (Inl err, c, drawn)
      | (Inr created, drawn) \<Rightarrow>
          (case insert_document h created c drawn of
             (Some err, c, drawn) \<Rightarrow> (Inl err, c, drawn)
           | (None, c, drawn) \<Rightarrow>
               (Inr \<lparr>uo_matched = 1, uo_modified = 0, uo_upserted = Lookup created identifierField\<rparr>, c, drawn)))"

definition update_collection ::
  "host \<Rightarrow> doc \<Rightarrow> collection \<Rightarrow> nat \<Rightarrow> (mongo_error + updateOutcome) \<times> collection \<times> nat" where
  "update_collection h specification c drawn =
     (case requiredDocument ''an update'' specification ''q'' of Inl err \<Rightarrow> (Inl err, c, drawn) | Inr query \<Rightarrow>
     (case requiredDocument ''an update'' specification ''u'' of Inl err \<Rightarrow> (Inl err, c, drawn) | Inr change \<Rightarrow>
     (case boolAt ''an update'' specification ''multi'' False of Inl err \<Rightarrow> (Inl err, c, drawn) | Inr multi \<Rightarrow>
     (case boolAt ''an update'' specification ''upsert'' False of Inl err \<Rightarrow> (Inl err, c, drawn) | Inr creates \<Rightarrow>
     (case selectFor h 0 (co_documents c) query multi of
        Inl err \<Rightarrow> (Inl err, c, drawn)
      | Inr selected \<Rightarrow>
          if selected = [] \<and> creates then create_upserted h query change c drawn
          else (case rewrite selected change c of (r, c) \<Rightarrow> (r, c, drawn)))))))"

text \<open>\<open>slices.Delete\<close> of one element at a time, from the last position to the first.\<close>

definition delete_at :: "nat \<Rightarrow> 'a list \<Rightarrow> 'a list" where
  "delete_at position xs = take position xs @ drop (Suc position) xs"

definition remove_documents :: "host \<Rightarrow> doc \<Rightarrow> collection \<Rightarrow> (mongo_error + int) \<times> collection" where
  "remove_documents h specification c =
     (case requiredDocument ''a delete'' specification ''q'' of Inl err \<Rightarrow> (Inl err, c) | Inr query \<Rightarrow>
     (case intAt h ''a delete'' specification ''limit'' 0 of Inl err \<Rightarrow> (Inl err, c) | Inr limit \<Rightarrow>
      if limit \<noteq> 0 \<and> limit \<noteq> 1
      then (Inl (Invalid (''a delete'' @ [CHR 0x27] @ ''s limit is %d, want 0 for every match or 1 for the first'') [AInt limit]), c)
      else (case selectFor h 0 (co_documents c) query (limit = 0) of
              Inl err \<Rightarrow> (Inl err, c)
            | Inr selected \<Rightarrow>
                (Inr (int (length selected)), c\<lparr>co_documents := foldr delete_at selected (co_documents c)\<rparr>))))"

section \<open>Cursors\<close>

definition defaultBatchSize :: int where "defaultBatchSize = 101"

record findOptions =
  fo_filter :: doc
  fo_projection :: doc
  fo_sort :: doc
  fo_skip :: int
  fo_limit :: int
  fo_batchSize :: int
  fo_singleBatch :: bool

definition no_options :: findOptions where
  "no_options = \<lparr>fo_filter = [], fo_projection = [], fo_sort = [], fo_skip = 0, fo_limit = 0, fo_batchSize = 0,
     fo_singleBatch = False\<rparr>"

definition normalised :: "findOptions \<Rightarrow> findOptions" where
  "normalised o' = (if fo_limit o' < 0 then o'\<lparr>fo_limit := wrap64 (- fo_limit o'), fo_singleBatch := True\<rparr> else o')"

definition readFind :: "host \<Rightarrow> Command \<Rightarrow> mongo_error + findOptions" where
  "readFind h command =
     (case documentField command ''filter'' of Inl err \<Rightarrow> Inl err | Inr query \<Rightarrow>
     (case documentField command ''projection'' of Inl err \<Rightarrow> Inl err | Inr projection \<Rightarrow>
     (case documentField command ''sort'' of Inl err \<Rightarrow> Inl err | Inr specification \<Rightarrow>
     (case intField h command ''skip'' 0 of Inl err \<Rightarrow> Inl err | Inr skip \<Rightarrow>
     (case intField h command ''limit'' 0 of Inl err \<Rightarrow> Inl err | Inr limit \<Rightarrow>
     (case intField h command ''batchSize'' defaultBatchSize of Inl err \<Rightarrow> Inl err | Inr count \<Rightarrow>
     (case boolField command ''singleBatch'' False of Inl err \<Rightarrow> Inl err | Inr single \<Rightarrow>
        Inr (normalised \<lparr>fo_filter = query, fo_projection = projection, fo_sort = specification, fo_skip = skip,
          fo_limit = limit, fo_batchSize = count, fo_singleBatch = single\<rparr>))))))))"

definition arrayOf :: "doc list \<Rightarrow> bson" where "arrayOf documents = BArr (map BDoc documents)"

definition cursor_reply :: "gostring \<Rightarrow> doc list \<Rightarrow> int \<Rightarrow> gostring \<Rightarrow> doc" where
  "cursor_reply key page identifier namespace =
     [Field ''cursor'' (BDoc [Field key (arrayOf page), Field ''id'' (BInt64 identifier), Field ''ns'' (BString namespace)])]"

definition batch :: "gostring \<Rightarrow> doc list \<Rightarrow> findOptions \<Rightarrow> gostring \<Rightarrow> Backend \<Rightarrow> doc \<times> Backend" where
  "batch namespace documents options key b =
     (let size = (if \<not> fo_singleBatch options \<and> fo_batchSize options > 0 \<and> fo_batchSize options < int (length documents)
                  then nat (fo_batchSize options) else length documents)
      in if size < length documents
         then let identifier = wrap64 (ds_lastCursor b + 1)
           in (cursor_reply key (take size documents) identifier namespace,
               b\<lparr>ds_lastCursor := identifier,
                 ds_cursors := AList.update identifier \<lparr>cu_namespace = namespace, cu_remaining = drop size documents\<rparr> (ds_cursors b)\<rparr>)
         else (cursor_reply key (take size documents) 0 namespace, b))"

definition cursorID :: "Command \<Rightarrow> bson \<Rightarrow> mongo_error + int" where
  "cursorID command v =
     (case v of
        BInt64 identifier \<Rightarrow> Inr identifier
      | _ \<Rightarrow> Inl (mongo_fail CodeTypeMismatch ''%s takes a cursor id, got %T'' [AStr (cm_Name command), AVal v]))"

section \<open>Commands\<close>

type_synonym doc_result = "(mongo_error, doc) outcome \<times> Backend"
type_synonym doc_handler = "host \<Rightarrow> Command \<Rightarrow> Backend \<Rightarrow> doc_result"

definition namespace_of :: "Command \<Rightarrow> gostring" where
  "namespace_of command = cm_Database command @ ''.'' @ cm_Target command"

definition findCommand :: doc_handler where
  "findCommand h command b =
     (case readFind h command of
        Inl err \<Rightarrow> (Fail err, b)
      | Inr options \<Rightarrow>
          (case collect (cm_Target command) b of (held, b) \<Rightarrow>
             (case find_documents h (co_documents held) (fo_filter options) of
                Inl err \<Rightarrow> (Fail err, b)
              | Inr selected \<Rightarrow>
                  (case sortDocuments h selected (fo_sort options) of
                     Inl err \<Rightarrow> (Fail err, b)
                   | Inr arranged \<Rightarrow>
                       (case window arranged (fo_skip options) (fo_limit options) of
                          Panic \<Rightarrow> (Panic, b)
                        | Fail err \<Rightarrow> (Fail err, b)
                        | Ok windowed \<Rightarrow>
                            (case projectAll windowed (fo_projection options) of
                               Inl err \<Rightarrow> (Fail err, b)
                             | Inr projected \<Rightarrow>
                                 (case batch (namespace_of command) projected options ''firstBatch'' b of
                                    (answer, b) \<Rightarrow> (Ok answer, b))))))))"

definition getMoreCommand :: doc_handler where
  "getMoreCommand h command b =
     (case cursorID command (snd (hd (cm_Document command))) of
        Inl err \<Rightarrow> (Fail err, b)
      | Inr identifier \<Rightarrow>
          (case intField h command ''batchSize'' 0 of
             Inl err \<Rightarrow> (Fail err, b)
           | Inr count \<Rightarrow>
               (case map_of (ds_cursors b) identifier of
                  None \<Rightarrow> (Fail (mongo_fail CodeCursorNotFound ''cursor id %d not found'' [AInt identifier]), b)
                | Some held \<Rightarrow>
                    (let left = cu_remaining held;
                         size = (if count \<le> 0 \<or> count > int (length left) then length left else nat count);
                         page = take size left; remaining = drop size left
                     in if remaining = []
                        then (Ok (cursor_reply ''nextBatch'' page 0 (cu_namespace held)),
                              b\<lparr>ds_cursors := AList.delete identifier (ds_cursors b)\<rparr>)
                        else (Ok (cursor_reply ''nextBatch'' page identifier (cu_namespace held)),
                              b\<lparr>ds_cursors := AList.update identifier (held\<lparr>cu_remaining := remaining\<rparr>) (ds_cursors b)\<rparr>)))))"

fun kill_loop :: "Command \<Rightarrow> bson list \<Rightarrow> bson list \<Rightarrow> bson list \<Rightarrow> Backend \<Rightarrow> (mongo_error + bson list \<times> bson list) \<times> Backend" where
  "kill_loop command [] killed missing b = (Inr (killed, missing), b)"
| "kill_loop command (entry # rest) killed missing b =
     (case cursorID command entry of
        Inl err \<Rightarrow> (Inl err, b)
      | Inr identifier \<Rightarrow>
          if map_of (ds_cursors b) identifier = None
          then kill_loop command rest killed (missing @ [BInt64 identifier]) b
          else kill_loop command rest (killed @ [BInt64 identifier]) missing
                 (b\<lparr>ds_cursors := AList.delete identifier (ds_cursors b)\<rparr>))"

definition killCursorsCommand :: doc_handler where
  "killCursorsCommand h command b =
     (case Lookup (cm_Document command) ''cursors'' of
        Some (BArr identifiers) \<Rightarrow>
          (case kill_loop command identifiers [] [] b of
             (Inl err, b) \<Rightarrow> (Fail err, b)
           | (Inr (killed, missing), b) \<Rightarrow>
               (Ok [Field ''cursorsKilled'' (BArr killed), Field ''cursorsNotFound'' (BArr missing),
                    Field ''cursorsAlive'' (BArr []), Field ''cursorsUnknown'' (BArr [])], b))
      | _ \<Rightarrow> (Fail (Invalid ''killCursors needs an array of cursor ids'' []), b))"

definition batch_error :: "host \<Rightarrow> nat \<Rightarrow> mongo_error \<Rightarrow> bson" where
  "batch_error h index err =
     (case CodeOf (raised (h_sprintf h) err) of (code, name) \<Rightarrow>
        BDoc [Field ''index'' (BInt32 (wrap32 (int index))), Field ''code'' (BInt32 (wrap32 code)),
              Field ''codeName'' (BString name), Field ''errmsg'' (BString (error_text (raised (h_sprintf h) err)))])"

definition withWriteErrors :: "doc \<Rightarrow> bson list \<Rightarrow> doc" where
  "withWriteErrors answer failures = (if failures = [] then answer else answer @ [Field ''writeErrors'' (BArr failures)])"

fun insert_loop ::
  "host \<Rightarrow> bool \<Rightarrow> nat \<Rightarrow> doc list \<Rightarrow> collection \<Rightarrow> nat \<Rightarrow> nat \<Rightarrow> bson list \<Rightarrow> nat \<times> bson list \<times> collection \<times> nat" where
  "insert_loop h ordered index [] c drawn inserted failures = (inserted, failures, c, drawn)"
| "insert_loop h ordered index (document # rest) c drawn inserted failures =
     (case insert_document h document c drawn of
        (Some err, c, drawn) \<Rightarrow>
          (let failures = failures @ [batch_error h index err]
           in if ordered then (inserted, failures, c, drawn)
              else insert_loop h ordered (Suc index) rest c drawn inserted failures)
      | (None, c, drawn) \<Rightarrow> insert_loop h ordered (Suc index) rest c drawn (Suc inserted) failures)"

definition insertCommand :: doc_handler where
  "insertCommand h command b =
     (case documentList command ''documents'' of Inl err \<Rightarrow> (Fail err, b) | Inr documents \<Rightarrow>
     (case boolField command ''ordered'' True of Inl err \<Rightarrow> (Fail err, b) | Inr ordered \<Rightarrow>
     (case collect (cm_Target command) b of (held, b) \<Rightarrow>
     (case insert_loop h ordered 0 documents held (ds_drawn b) 0 [] of (inserted, failures, held, drawn) \<Rightarrow>
        (Ok (withWriteErrors [Field ''n'' (BInt32 (wrap32 (int inserted)))] failures),
         (put_collection (cm_Target command) held b)\<lparr>ds_drawn := drawn\<rparr>)))))"

text \<open>\<open>outcome.upserted != nil\<close> is false of no upsert and of an upserted null.\<close>

definition upserted_entry :: "nat \<Rightarrow> updateOutcome \<Rightarrow> bson list" where
  "upserted_entry index outcome =
     (if nil_or (uo_upserted outcome) \<noteq> BNull
      then [BDoc [Field ''index'' (BInt32 (wrap32 (int index))), Field identifierField (nil_or (uo_upserted outcome))]] else [])"

fun update_loop ::
  "host \<Rightarrow> nat \<Rightarrow> doc list \<Rightarrow> collection \<Rightarrow> nat \<Rightarrow> int \<Rightarrow> int \<Rightarrow> bson list
     \<Rightarrow> (mongo_error + int \<times> int \<times> bson list) \<times> collection \<times> nat" where
  "update_loop h index [] c drawn matched modified created = (Inr (matched, modified, created), c, drawn)"
| "update_loop h index (specification # rest) c drawn matched modified created =
     (case update_collection h specification c drawn of
        (Inl err, c, drawn) \<Rightarrow> (Inl err, c, drawn)
      | (Inr outcome, c, drawn) \<Rightarrow>
          update_loop h (Suc index) rest c drawn (matched + uo_matched outcome) (modified + uo_modified outcome)
            (created @ upserted_entry index outcome))"

definition updateCommand :: doc_handler where
  "updateCommand h command b =
     (case documentList command ''updates'' of Inl err \<Rightarrow> (Fail err, b) | Inr specifications \<Rightarrow>
     (case collect (cm_Target command) b of (held, b) \<Rightarrow>
     (case update_loop h 0 specifications held (ds_drawn b) 0 0 [] of (r, held, drawn) \<Rightarrow>
        (let b = (put_collection (cm_Target command) held b)\<lparr>ds_drawn := drawn\<rparr>
         in case r of
              Inl err \<Rightarrow> (Fail err, b)
            | Inr (matched, modified, created) \<Rightarrow>
                (let answer = [Field ''n'' (BInt32 (wrap32 matched)), Field ''nModified'' (BInt32 (wrap32 modified))]
                 in (Ok (if created \<noteq> [] then answer @ [Field ''upserted'' (BArr created)] else answer), b))))))"

fun delete_loop :: "host \<Rightarrow> doc list \<Rightarrow> collection \<Rightarrow> int \<Rightarrow> (mongo_error + int) \<times> collection" where
  "delete_loop h [] c deleted = (Inr deleted, c)"
| "delete_loop h (specification # rest) c deleted =
     (case remove_documents h specification c of
        (Inl err, c) \<Rightarrow> (Inl err, c)
      | (Inr removed, c) \<Rightarrow> delete_loop h rest c (deleted + removed))"

definition deleteCommand :: doc_handler where
  "deleteCommand h command b =
     (case documentList command ''deletes'' of Inl err \<Rightarrow> (Fail err, b) | Inr specifications \<Rightarrow>
     (case collect (cm_Target command) b of (held, b) \<Rightarrow>
     (case delete_loop h specifications held 0 of (r, held) \<Rightarrow>
        (case r of
           Inl err \<Rightarrow> (Fail err, put_collection (cm_Target command) held b)
         | Inr deleted \<Rightarrow> (Ok [Field ''n'' (BInt32 (wrap32 deleted))], put_collection (cm_Target command) held b)))))"

definition countCommand :: doc_handler where
  "countCommand h command b =
     (case documentField command ''query'' of Inl err \<Rightarrow> (Fail err, b) | Inr query \<Rightarrow>
     (case collect (cm_Target command) b of (held, b) \<Rightarrow>
     (case find_documents h (co_documents held) query of Inl err \<Rightarrow> (Fail err, b) | Inr selected \<Rightarrow>
     (case intField h command ''skip'' 0 of Inl err \<Rightarrow> (Fail err, b) | Inr skip \<Rightarrow>
     (case intField h command ''limit'' 0 of Inl err \<Rightarrow> (Fail err, b) | Inr limit \<Rightarrow>
     (case window selected skip limit of
        Panic \<Rightarrow> (Panic, b)
      | Fail err \<Rightarrow> (Fail err, b)
      | Ok counted \<Rightarrow> (Ok [Field ''n'' (BInt32 (wrap32 (int (length counted))))], b)))))))"

definition readCursorOptions :: "host \<Rightarrow> Command \<Rightarrow> mongo_error + findOptions" where
  "readCursorOptions h command =
     (case documentField command ''cursor'' of Inl err \<Rightarrow> Inl err | Inr c \<Rightarrow>
     (case intAt h ''aggregate.cursor'' c ''batchSize'' defaultBatchSize of
        Inl err \<Rightarrow> Inl err
      | Inr count \<Rightarrow> Inr (no_options\<lparr>fo_batchSize := count\<rparr>)))"

definition aggregateCommand :: doc_handler where
  "aggregateCommand h command b =
     (case documentList command ''pipeline'' of Inl err \<Rightarrow> (Fail err, b) | Inr pipeline \<Rightarrow>
     (case collect (cm_Target command) b of (held, b) \<Rightarrow>
     (case runPipeline h (co_documents held) pipeline of
        Panic \<Rightarrow> (Panic, b)
      | Fail err \<Rightarrow> (Fail err, b)
      | Ok produced \<Rightarrow>
          (case readCursorOptions h command of
             Inl err \<Rightarrow> (Fail err, b)
           | Inr options \<Rightarrow>
               (case batch (namespace_of command) produced options ''firstBatch'' b of (answer, b) \<Rightarrow> (Ok answer, b))))))"

definition createIndexesCommand :: doc_handler where
  "createIndexesCommand h command b =
     (case collect (cm_Target command) b of (_, b) \<Rightarrow>
        (Ok [Field ''createdCollectionAutomatically'' (BBool False), Field ''numIndexesBefore'' (BInt32 1),
             Field ''numIndexesAfter'' (BInt32 1),
             Field ''note'' (BString ''emu does not build indexes: every query is a collection scan'')], b))"

definition described_collection :: "gostring \<Rightarrow> doc" where
  "described_collection name =
     [Field ''name'' (BString name), Field ''type'' (BString ''collection''), Field ''options'' (BDoc []),
      Field ''info'' (BDoc [Field ''readOnly'' (BBool False)])]"

definition listCollectionsCommand :: doc_handler where
  "listCollectionsCommand h command b =
     (case batch (cm_Database command @ ''.$cmd.listCollections'')
             (map described_collection (sorted_keys (ds_collections b))) no_options ''firstBatch'' b of
        (answer, b) \<Rightarrow> (Ok answer, b))"

definition listDatabasesCommand :: doc_handler where
  "listDatabasesCommand h command b =
     (Ok [Field ''databases'' (BArr [BDoc [Field ''name'' (BString mongo_Database), Field ''sizeOnDisk'' (BInt64 0),
            Field ''empty'' (BBool (ds_collections b = []))]]),
          Field ''totalSize'' (BInt64 0)], b)"

definition dropCommand :: doc_handler where
  "dropCommand h command b =
     (if map_of (ds_collections b) (cm_Target command) = None
      then (Fail (mongo_fail CodeNamespaceNotFound ''ns not found: %s.%s'' [AStr (cm_Database command), AStr (cm_Target command)]), b)
      else (Ok [Field ''ns'' (BString (namespace_of command)), Field ''nIndexesWas'' (BInt32 1)],
            b\<lparr>ds_collections := AList.delete (cm_Target command) (ds_collections b)\<rparr>))"

definition dropDatabaseCommand :: doc_handler where
  "dropDatabaseCommand h command b =
     (Ok [Field ''dropped'' (BString (cm_Database command))], b\<lparr>ds_collections := [], ds_cursors := []\<rparr>)"

section \<open>The executor\<close>

definition doc_handlers :: "(gostring \<times> doc_handler) list" where
  "doc_handlers =
    [(Mongo_KindInsert, insertCommand), (Mongo_KindFind, findCommand), (Mongo_KindUpdate, updateCommand), (Mongo_KindDelete, deleteCommand),
     (Mongo_KindGetMore, getMoreCommand), (Mongo_KindKillCursors, killCursorsCommand), (Mongo_KindCount, countCommand),
     (Mongo_KindAggregate, aggregateCommand), (Mongo_KindCreateIndexes, createIndexesCommand),
     (Mongo_KindListCollections, listCollectionsCommand), (Mongo_KindListDatabases, listDatabasesCommand),
     (Mongo_KindDrop, dropCommand), (Mongo_KindDropDatabase, dropDatabaseCommand)]"

type_synonym mongo_op = "Command option op"

definition doc_Exec :: "host \<Rightarrow> mongo_op \<Rightarrow> Backend \<Rightarrow> (go_error, bson Result) outcome \<times> Backend" where
  "doc_Exec h o' b =
     (if op_Kind o' = KindConnect then (Ok empty_Result, b)
      else case op_Payload o' of
        None \<Rightarrow> (Fail (PlainErr (''the document backend was handed a '' @ op_Kind o' @ '' with no command'')), b)
      | Some command \<Rightarrow>
          (case map_of doc_handlers (op_Kind o') of
             None \<Rightarrow> (Fail (raised (h_sprintf h) (Unsupported ''the %s command'' [AStr (cm_Name command)])), b)
           | Some handle \<Rightarrow>
               (case handle h command b of
                  (Panic, b) \<Rightarrow> (Panic, b)
                | (Fail err, b) \<Rightarrow> (Fail (raised (h_sprintf h) err), b)
                | (Ok document, b) \<Rightarrow> (Ok (mongo_Reply (document @ [Field ''ok'' (BDouble f_one)])), b))))"

definition doc_Abort :: "mongo_op \<Rightarrow> Backend \<Rightarrow> Backend" where "doc_Abort o' b = b"

section \<open>Seeding\<close>

text \<open>The lesson's JSON arrives decoded, by the packages \<open>encoding/json\<close> and \<open>bson\<close>: the raw value is absent, is
  not an object, or maps each collection's name to something that is no list, or to a list whose
  entries are documents or decoding errors.\<close>

datatype decoded_list = NotAList gostring | Listed "(gostring + doc) list"
datatype decoded_seed = NoSeed | NotAnObject gostring | Collections "(gostring \<times> decoded_list) list"

definition seed_document_error :: "host \<Rightarrow> gostring \<Rightarrow> nat \<Rightarrow> gostring \<Rightarrow> gostring" where
  "seed_document_error h name index reason =
     h_sprintf h ''seed for mongo, %s document %d: %w'' [AStr name, AInt (int (index + 1)), AStr reason]"

fun seed_loop_documents ::
  "host \<Rightarrow> gostring \<Rightarrow> nat \<Rightarrow> (gostring + doc) list \<Rightarrow> collection \<Rightarrow> nat \<Rightarrow> gostring option \<times> collection \<times> nat" where
  "seed_loop_documents h name index [] c drawn = (None, c, drawn)"
| "seed_loop_documents h name index (entry # rest) c drawn =
     (case entry of
        Inl reason \<Rightarrow> (Some (seed_document_error h name index reason), c, drawn)
      | Inr document \<Rightarrow>
          (case insert_document h document c drawn of
             (Some err, c, drawn) \<Rightarrow>
               (Some (seed_document_error h name index (error_text (raised (h_sprintf h) err))), c, drawn)
           | (None, c, drawn) \<Rightarrow> seed_loop_documents h name (Suc index) rest c drawn))"

definition seedCollection :: "host \<Rightarrow> gostring \<Rightarrow> decoded_list \<Rightarrow> Backend \<Rightarrow> gostring option \<times> Backend" where
  "seedCollection h name decoded b =
     (case decoded of
        NotAList reason \<Rightarrow>
          (Some (h_sprintf h ''seed for mongo, collection %q: want a list of documents: %w'' [AStr name, AStr reason]), b)
      | Listed listed \<Rightarrow>
          (case collect name b of (held, b) \<Rightarrow>
             (case seed_loop_documents h name 0 listed held (ds_drawn b) of (err, held, drawn) \<Rightarrow>
                (err, (put_collection name held b)\<lparr>ds_drawn := drawn\<rparr>))))"

fun seed_collections ::
  "host \<Rightarrow> (gostring \<times> decoded_list) list \<Rightarrow> gostring list \<Rightarrow> Backend \<Rightarrow> gostring option \<times> Backend" where
  "seed_collections h raw [] b = (None, b)"
| "seed_collections h raw (name # names) b =
     (case map_of raw name of
        None \<Rightarrow> seed_collections h raw names b
      | Some decoded \<Rightarrow>
          (case seedCollection h name decoded b of
             (Some err, b) \<Rightarrow> (Some err, b)
           | (None, b) \<Rightarrow> seed_collections h raw names b))"

definition Seed_docstore :: "host \<Rightarrow> decoded_seed \<Rightarrow> Backend \<Rightarrow> gostring option \<times> Backend" where
  "Seed_docstore h raw b =
     (case raw of
        NoSeed \<Rightarrow> (None, b)
      | NotAnObject reason \<Rightarrow>
          (Some (h_sprintf h ''seed for mongo: want an object of collection name to documents: %w'' [AStr reason]), b)
      | Collections m \<Rightarrow> seed_collections h m (sorted_keys m) b)"

end
