(* ===== verification/BsonOrder.thy ===== *)
theory BsonOrder
  imports DocFind "HOL-Library.Multiset"
begin

text \<open>
  That \<open>compare\<close> of \<open>values.go\<close> orders: for values without NaN and without dates so far apart that their
  difference leaves 64 bits, it is a total preorder, and sorting by it is a stable permutation. The law is
  the locale \<open>three_way\<close>, interpreted on \<open>compare\<close> for values and on the order of a sort specification for
  documents. Then the two ways it is no order, which are reachable from a client.
\<close>

section \<open>Three-way comparisons\<close>

text \<open>Three results that some total preorder gives for a first against a second, the second against a
  third and the first against the third.\<close>

definition compatible :: "int \<Rightarrow> int \<Rightarrow> int \<Rightarrow> bool" where
  "compatible a b c \<longleftrightarrow>
     (a \<le> 0 \<and> b \<le> 0 \<longrightarrow> c \<le> 0 \<and> (a < 0 \<or> b < 0 \<longrightarrow> c < 0)) \<and>
     (a \<ge> 0 \<and> b \<ge> 0 \<longrightarrow> c \<ge> 0 \<and> (a > 0 \<or> b > 0 \<longrightarrow> c > 0))"

definition first_of :: "int \<Rightarrow> int \<Rightarrow> int" where "first_of a b = (if a \<noteq> 0 then a else b)"

lemma compatible_first_of:
  "compatible a b c \<Longrightarrow> compatible a' b' c' \<Longrightarrow> compatible (first_of a a') (first_of b b') (first_of c c')"
  unfolding compatible_def first_of_def by presburger

lemma compatible_zero: "compatible 0 0 0"
  by (simp add: compatible_def)

locale three_way =
  fixes ok :: "'a \<Rightarrow> bool" and cmp :: "'a \<Rightarrow> 'a \<Rightarrow> int"
  assumes swap: "ok x \<Longrightarrow> ok y \<Longrightarrow> cmp y x = - cmp x y"
    and compat: "ok x \<Longrightarrow> ok y \<Longrightarrow> ok z \<Longrightarrow> compatible (cmp x y) (cmp y z) (cmp x z)"
begin

lemma same: "ok x \<Longrightarrow> cmp x x = 0"
  using swap [of x x] by simp

lemma trans_le: "\<lbrakk>ok x; ok y; ok z; cmp x y \<le> 0; cmp y z \<le> 0\<rbrakk> \<Longrightarrow> cmp x z \<le> 0"
  using compat [of x y z] by (simp add: compatible_def)

lemma tied: "\<lbrakk>ok x; ok y; ok z; cmp x y = 0; cmp y z = 0\<rbrakk> \<Longrightarrow> cmp x z = 0"
  using compat [of x y z] by (auto simp: compatible_def)

lemma tied_less: "\<lbrakk>ok x; ok y; ok z; cmp z x = 0; cmp x y < 0\<rbrakk> \<Longrightarrow> cmp z y \<noteq> 0"
  using compat [of z x y] by (auto simp: compatible_def)

end

section \<open>Stable insertion\<close>

lemma mset_insert_sorted [simp]: "mset (insert_sorted cmp x ys) = add_mset x (mset ys)"
  by (induction ys) auto

lemma mset_insertion: "mset (foldl (\<lambda>done x. insert_sorted cmp x done) ys xs) = mset xs + mset ys"
  by (induction xs arbitrary: ys) auto

lemma mset_SortStable [simp]: "mset (SortStable cmp xs) = mset xs"
  by (simp add: SortStable_def mset_insertion)

lemma set_SortStable [simp]: "set (SortStable cmp xs) = set xs"
  by (metis mset_SortStable set_mset_mset)

lemma length_SortStable [simp]: "length (SortStable cmp xs) = length xs"
  by (metis mset_SortStable size_mset)

lemma set_insert_sorted [simp]: "set (insert_sorted cmp x ys) = insert x (set ys)"
  by (metis list.simps(15) mset.simps(2) mset_insert_sorted set_mset_mset)

context three_way
begin

abbreviation "descending \<equiv> sorted_wrt (\<lambda>x y. cmp y x \<le> 0)"

lemma descending_insert:
  "descending ys \<Longrightarrow> ok x \<Longrightarrow> list_all ok ys \<Longrightarrow> descending (insert_sorted cmp x ys)"
proof (induction ys)
  case (Cons y ys)
  show ?case
  proof (cases "cmp x y < 0")
    case True
    then show ?thesis using Cons by (auto simp: list_all_iff)
  next
    case False
    have yx: "cmp y x \<le> 0" using False swap [of x y] Cons.prems by simp
    have "cmp z x \<le> 0" if "z \<in> set ys" for z
      using trans_le [of z y x] that Cons.prems yx by (auto simp: list_all_iff)
    then show ?thesis using Cons.prems False yx by simp
  qed
qed simp

lemma filter_insert:
  "ok k \<Longrightarrow> ok x \<Longrightarrow> list_all ok ys \<Longrightarrow>
   filter (\<lambda>y. cmp k y = 0) (insert_sorted cmp x ys) = filter (\<lambda>y. cmp k y = 0) (x # ys)"
proof (induction ys)
  case (Cons y ys)
  show ?case
  proof (cases "cmp x y < 0 \<and> cmp k x = 0")
    case True
    then have "cmp k y \<noteq> 0" using tied_less [of x y k] Cons.prems by (simp add: list_all_iff)
    with True Cons show ?thesis by simp
  qed (use Cons in auto)
qed simp

lemma insertion_descending:
  "descending ys \<Longrightarrow> list_all ok xs \<Longrightarrow> list_all ok ys \<Longrightarrow>
   descending (foldl (\<lambda>done x. insert_sorted cmp x done) ys xs)"
  by (induction xs arbitrary: ys) (simp_all add: descending_insert list_all_iff)

lemma insertion_filter:
  "ok k \<Longrightarrow> list_all ok xs \<Longrightarrow> list_all ok ys \<Longrightarrow>
   filter (\<lambda>y. cmp k y = 0) (foldl (\<lambda>done x. insert_sorted cmp x done) ys xs)
     = filter (\<lambda>y. cmp k y = 0) (rev xs @ ys)"
  by (induction xs arbitrary: ys) (simp_all add: filter_insert list_all_iff)

lemma SortStable_sorted: "list_all ok xs \<Longrightarrow> sorted_wrt (\<lambda>x y. cmp x y \<le> 0) (SortStable cmp xs)"
  by (simp add: SortStable_def sorted_wrt_rev insertion_descending)

lemma SortStable_stable:
  "ok k \<Longrightarrow> list_all ok xs \<Longrightarrow> filter (\<lambda>y. cmp k y = 0) (SortStable cmp xs) = filter (\<lambda>y. cmp k y = 0) xs"
  by (simp add: SortStable_def rev_filter [symmetric] insertion_filter)

end

section \<open>Doubles\<close>

definition f_value :: "bool \<Rightarrow> nat \<Rightarrow> int \<Rightarrow> real" where
  "f_value s m e = of_int (f_signed s m) * 2 powi e"

lemma f_align_value: "of_int (f_align s m e d) = f_value s m e / 2 powi (min e d)"
  by (simp add: f_align_def f_value_def power_int_diff flip: power_int_of_nat)

lemma f_less_finite [simp]: "f_less (Fin s m e) (Fin t n d) \<longleftrightarrow> f_value s m e < f_value t n d"
proof -
  have shrink: "a / c < b / c \<longleftrightarrow> a < b" if "0 < c" for a b c :: real
    using that by (simp add: divide_less_cancel)
  have "f_align s m e d < f_align t n d e \<longleftrightarrow> real_of_int (f_align s m e d) < of_int (f_align t n d e)" by simp
  also have "\<dots> \<longleftrightarrow> f_value s m e < f_value t n d"
    unfolding f_align_value min.commute [of d e] by (rule shrink) simp
  finally show ?thesis by simp
qed

declare f_less.simps(7) [simp del]

lemma f_round_number [simp]: "f_round s m e \<noteq> NaN"
  by (simp add: f_round_def Let_def split_beta)

lemma f_of_int_number [simp]: "f_of_int i \<noteq> NaN"
  by (simp add: f_of_int_def)

text \<open>Among numbers: by infinity first, then by value.\<close>

fun f_class :: "float64 \<Rightarrow> int" where
  "f_class (Inf s) = (if s then -1 else 1)"
| "f_class _ = 0"

fun f_real :: "float64 \<Rightarrow> real" where
  "f_real (Fin s m e) = f_value s m e"
| "f_real _ = 0"

definition compareReal :: "real \<Rightarrow> real \<Rightarrow> int" where
  "compareReal a b = (if a < b then -1 else if b < a then 1 else 0)"

lemma compareReal_swap: "compareReal b a = - compareReal a b"
  by (auto simp: compareReal_def)

lemma compareReal_compat: "compatible (compareReal a b) (compareReal b c) (compareReal a c)"
  by (auto simp: compareReal_def compatible_def)

lemma compareFloat_numbers:
  "x \<noteq> NaN \<Longrightarrow> y \<noteq> NaN \<Longrightarrow> compareFloat x y = first_of (sign (f_class x - f_class y)) (compareReal (f_real x) (f_real y))"
  by (cases x; cases y) (simp_all add: compareFloat_def first_of_def sign_def compareReal_def)

lemma first_of_swap: "a' = - a \<Longrightarrow> b' = - b \<Longrightarrow> first_of a' b' = - first_of a b"
  by (simp add: first_of_def)

lemma sign_swap: "sign (y - x) = - sign (x - y)"
  by (simp add: sign_def)

lemma sign_compat: "compatible (sign (x - y)) (sign (y - z)) (sign (x - z))"
  by (simp add: sign_def compatible_def)

interpretation float_order: three_way "\<lambda>x. x \<noteq> NaN" compareFloat
proof
  fix x y z :: float64
  assume "x \<noteq> NaN" "y \<noteq> NaN"
  then show "compareFloat y x = - compareFloat x y"
    unfolding compareFloat_numbers [OF \<open>x \<noteq> NaN\<close> \<open>y \<noteq> NaN\<close>] compareFloat_numbers [OF \<open>y \<noteq> NaN\<close> \<open>x \<noteq> NaN\<close>]
    by (intro first_of_swap sign_swap compareReal_swap)
next
  fix x y z :: float64
  assume n: "x \<noteq> NaN" "y \<noteq> NaN" "z \<noteq> NaN"
  show "compatible (compareFloat x y) (compareFloat y z) (compareFloat x z)"
    unfolding compareFloat_numbers [OF n(1,2)] compareFloat_numbers [OF n(2,3)] compareFloat_numbers [OF n(1,3)]
    by (intro compatible_first_of sign_compat compareReal_compat)
qed

section \<open>Values\<close>

text \<open>The values \<open>compare\<close> can order.\<close>

fun orderly :: "bson \<Rightarrow> bool" where
  "orderly (BDouble x) = (x \<noteq> NaN)"
| "orderly (BDate i) = (- (2 ^ 62) \<le> i \<and> i < 2 ^ 62)"
| "orderly (BTimestamp t i) = (t < 2 ^ 32 \<and> i < 2 ^ 32)"
| "orderly (BDoc d) = list_all (\<lambda>(_, v). orderly v) d"
| "orderly (BArr a) = list_all orderly a"
| "orderly _ = True"

lemma compareString_swap: "compareString y x = - compareString x y"
  by (auto simp: compareString_def)

lemma compareString_compat: "compatible (compareString x y) (compareString y z) (compareString x z)"
  by (auto simp: compareString_def compatible_def)

definition near :: "int \<Rightarrow> bool" where "near i \<longleftrightarrow> - (2 ^ 62) \<le> i \<and> i < 2 ^ 62"

lemma compareInt_near: "near x \<Longrightarrow> near y \<Longrightarrow> compareInt x y = sign (x - y)"
  by (simp add: compareInt_def near_def int64_range_def)

lemma near_nat: "n < 2 ^ 32 \<Longrightarrow> near (int n)"
  by (simp add: near_def)

lemma compareTimestamps_first: "compareTimestamps t i t' i' = first_of (compareInt (int t) (int t')) (compareInt (int i) (int i'))"
  by (simp add: compareTimestamps_def first_of_def Let_def)

lemma compareRegexes_first: "compareRegexes p o' p' o'' = first_of (compareString p p') (compareString o' o'')"
  by (simp add: compareRegexes_def first_of_def Let_def)

lemma compareDocuments_Cons:
  "compareDocuments ((k, v) # ls) ((k', v') # rs) =
     first_of (compareString k k') (first_of (compare v v') (compareDocuments ls rs))"
  by (simp add: first_of_def Let_def)

lemma compareArrays_Cons: "compareArrays (v # ls) (v' # rs) = first_of (compare v v') (compareArrays ls rs)"
  by (simp add: first_of_def Let_def)

lemma compareDocuments_Nil: "compareDocuments ls [] = sign (int (length ls))"
  by (cases ls) (simp_all add: sign_def)

lemma compareArrays_Nil: "compareArrays ls [] = sign (int (length ls))"
  by (cases ls) (simp_all add: sign_def)

lemmas list_compares = compareDocuments_Cons compareArrays_Cons compareDocuments_Nil compareArrays_Nil

declare compareDocuments.simps(3) [simp del] compareArrays.simps(3) [simp del]

lemma compareArrays_swap:
  "(\<And>v w. v \<in> set ls \<Longrightarrow> w \<in> set rs \<Longrightarrow> compare w v = - compare v w) \<Longrightarrow> compareArrays rs ls = - compareArrays ls rs"
proof (induction ls arbitrary: rs)
  case Nil
  then show ?case by (simp add: list_compares sign_def)
next
  case (Cons l ls)
  then show ?case by (cases rs) (simp_all add: list_compares sign_def first_of_swap)
qed

lemma compareDocuments_swap:
  "(\<And>k v k' w. (k, v) \<in> set ls \<Longrightarrow> (k', w) \<in> set rs \<Longrightarrow> compare w v = - compare v w) \<Longrightarrow>
   compareDocuments rs ls = - compareDocuments ls rs"
proof (induction ls arbitrary: rs)
  case Nil
  then show ?case by (simp add: list_compares sign_def)
next
  case (Cons l ls)
  obtain k v where l: "l = (k, v)" by force
  show ?case
  proof (cases rs)
    case (Cons r rs')
    obtain k' w where r: "r = (k', w)" by force
    have "compareDocuments rs' ls = - compareDocuments ls rs'"
      using Cons.prems Cons by (intro Cons.IH) (metis list.set_intros(2))
    moreover have "compare w v = - compare v w" using Cons.prems [of k v k' w] l r Cons by simp
    ultimately show ?thesis
      by (simp add: l r Cons compareDocuments_Cons first_of_swap compareString_swap [of k' k])
  qed (simp add: list_compares sign_def)
qed

lemma compareArrays_compat:
  "(\<And>u v w. u \<in> set xs \<Longrightarrow> v \<in> set ys \<Longrightarrow> w \<in> set zs \<Longrightarrow> compatible (compare u v) (compare v w) (compare u w)) \<Longrightarrow>
   compatible (compareArrays xs ys) (compareArrays ys zs) (compareArrays xs zs)"
proof (induction xs arbitrary: ys zs)
  case Nil
  then show ?case by (cases ys; cases zs) (auto simp: list_compares sign_def compatible_def)
next
  case (Cons x xs)
  show ?case
  proof (cases "ys = [] \<or> zs = []")
    case True
    then show ?thesis by (cases ys; cases zs) (auto simp: list_compares sign_def compatible_def)
  next
    case False
    then obtain y ys' z zs' where *: "ys = y # ys'" "zs = z # zs'" by (metis neq_Nil_conv)
    have "compatible (compareArrays xs ys') (compareArrays ys' zs') (compareArrays xs zs')"
      using Cons.prems * by (intro Cons.IH) simp
    then show ?thesis using Cons.prems [of x y z] * by (simp add: compareArrays_Cons compatible_first_of)
  qed
qed

lemma compareDocuments_compat:
  "(\<And>k u k' v k'' w. (k, u) \<in> set xs \<Longrightarrow> (k', v) \<in> set ys \<Longrightarrow> (k'', w) \<in> set zs \<Longrightarrow>
      compatible (compare u v) (compare v w) (compare u w)) \<Longrightarrow>
   compatible (compareDocuments xs ys) (compareDocuments ys zs) (compareDocuments xs zs)"
proof (induction xs arbitrary: ys zs)
  case Nil
  then show ?case by (cases ys; cases zs) (auto simp: list_compares sign_def compatible_def)
next
  case (Cons x xs)
  show ?case
  proof (cases "ys = [] \<or> zs = []")
    case True
    then show ?thesis by (cases ys; cases zs) (auto simp: list_compares sign_def compatible_def)
  next
    case False
    then obtain k u k' v ys' k'' w zs' where *: "x = (k, u)" "ys = (k', v) # ys'" "zs = (k'', w) # zs'"
      by (metis neq_Nil_conv surj_pair)
    have "compatible (compareDocuments xs ys') (compareDocuments ys' zs') (compareDocuments xs zs')"
      using Cons.prems * by (intro Cons.IH) (metis list.set_intros(2))
    then show ?thesis
      using Cons.prems [of k u k' v k'' w] * by (simp add: compareDocuments_Cons compatible_first_of compareString_compat)
  qed
qed

text \<open>\<open>compare\<close> by the types it meets.\<close>

lemma compare_ranks: "rankOf x \<noteq> rankOf y \<Longrightarrow> compare x y = sign (rankOf x - rankOf y)"
  by (simp add: compare.simps)

lemma compare_numbers: "isNumber x \<Longrightarrow> isNumber y \<Longrightarrow> compare x y = compareFloat (numberOf x) (numberOf y)"
  by (simp add: compare.simps isNumber_def)

lemma compare_values [simp]:
  "compare (BString s) (BString s') = compareString s s'"
  "compare (BDoc d) (BDoc d') = compareDocuments d d'"
  "compare (BArr a) (BArr a') = compareArrays a a'"
  "compare (BBinary k s) (BBinary k' s') = compareString s s'"
  "compare (BOid s) (BOid s') = compareString s s'"
  "compare (BBool p) (BBool p') = sign (boolRank p - boolRank p')"
  "compare (BDate i) (BDate i') = compareInt i i'"
  "compare (BTimestamp t n) (BTimestamp t' n') = compareTimestamps t n t' n'"
  "compare (BRegex s o') (BRegex s' o'') = compareRegexes s o' s' o''"
  by (simp_all add: compare.simps isNumber_def rank_defs)

definition valueless :: "bson \<Rightarrow> bool" where
  "valueless x = (case x of BNull \<Rightarrow> True | BUndefined \<Rightarrow> True | BMinKey \<Rightarrow> True | BMaxKey \<Rightarrow> True | BOther _ _ \<Rightarrow> True | _ \<Rightarrow> False)"

lemma compare_valueless: "valueless x \<Longrightarrow> rankOf x = rankOf y \<Longrightarrow> compare x y = 0 \<and> valueless y"
  by (cases x; cases y) (simp_all add: valueless_def compare.simps isNumber_def rank_defs)

lemma number_orderly: "isNumber x \<Longrightarrow> orderly x \<Longrightarrow> numberOf x \<noteq> NaN"
  by (cases x) (simp_all add: isNumber_def rank_defs)

text \<open>What the other value of the same rank is.\<close>

lemma same_rank_other:
  assumes "rankOf x = rankOf y"
  shows "isNumber x \<Longrightarrow> isNumber y"
    "x = BString s \<Longrightarrow> \<exists>s'. y = BString s'"
    "x = BDoc d \<Longrightarrow> \<exists>d'. y = BDoc d'"
    "x = BArr a \<Longrightarrow> \<exists>a'. y = BArr a'"
    "x = BBinary k s \<Longrightarrow> \<exists>k' s'. y = BBinary k' s'"
    "x = BOid s \<Longrightarrow> \<exists>s'. y = BOid s'"
    "x = BBool p \<Longrightarrow> \<exists>p'. y = BBool p'"
    "x = BDate i \<Longrightarrow> \<exists>i'. y = BDate i'"
    "x = BTimestamp t n \<Longrightarrow> \<exists>t' n'. y = BTimestamp t' n'"
    "x = BRegex s o' \<Longrightarrow> \<exists>s' o''. y = BRegex s' o''"
  using assms by (simp_all add: isNumber_def) (cases y; simp add: rank_defs)+

lemma value_cases:
  obtains "isNumber x" | "valueless x" | s where "x = BString s" | d where "x = BDoc d" | a where "x = BArr a"
  | k s where "x = BBinary k s" | s where "x = BOid s" | p where "x = BBool p" | i where "x = BDate i"
  | t n where "x = BTimestamp t n" | s o' where "x = BRegex s o'"
  by (cases x) (simp_all add: isNumber_def valueless_def rank_defs)

lemma size_in_doc: "(k, v) \<in> set d \<Longrightarrow> size v < size (BDoc d)"
  using size_list_estimation' [of "(k, v)" d "size v" "size_prod (\<lambda>_. 0) size"] by simp

lemma size_in_arr: "v \<in> set a \<Longrightarrow> size v < size (BArr a)"
  using size_list_estimation' [of v a "size v" size] by simp

lemma orderly_in: "orderly (BDoc d) \<Longrightarrow> (k, v) \<in> set d \<Longrightarrow> orderly v" "orderly (BArr a) \<Longrightarrow> v \<in> set a \<Longrightarrow> orderly v"
  by (auto simp: list_all_iff)

lemma orderly_near: "orderly (BDate i) \<Longrightarrow> near i" "orderly (BTimestamp t n) \<Longrightarrow> near (int t) \<and> near (int n)"
  by (simp_all add: near_def)

lemma compare_swap:
  "orderly x \<Longrightarrow> orderly y \<Longrightarrow> compare y x = - compare x y"
proof (induction x arbitrary: y rule: measure_induct_rule [of size])
  case (less x)
  show ?case
  proof (cases "rankOf x = rankOf y")
    case False
    then show ?thesis using compare_ranks [of x y] compare_ranks [of y x] sign_swap [of "rankOf y" "rankOf x"] by simp
  next
    case True
    note other = same_rank_other [OF True]
    show ?thesis
    proof (cases x rule: value_cases)
      case 1
      then show ?thesis
        using other(1) number_orderly [of x] number_orderly [of y] float_order.swap [of "numberOf x" "numberOf y"] less.prems
        by (simp add: compare_numbers)
    next
      case 2
      then show ?thesis using compare_valueless [of x y] compare_valueless [of y x] True by simp
    next
      case (3 s)
      obtain s' where "y = BString s'" using other(2) [OF 3] by blast
      then show ?thesis using 3 compareString_swap [of s' s] by simp
    next
      case (4 d)
      obtain d' where y: "y = BDoc d'" using other(3) [OF 4] by blast
      have "compare w v = - compare v w" if "(k, v) \<in> set d" "(k', w) \<in> set d'" for k v k' w
        using less.IH [of v w] size_in_doc [OF that(1)] orderly_in(1) that less.prems 4 y by blast
      then show ?thesis using 4 y by (simp add: compareDocuments_swap [of d d'])
    next
      case (5 a)
      obtain a' where y: "y = BArr a'" using other(4) [OF 5] by blast
      have "compare w v = - compare v w" if "v \<in> set a" "w \<in> set a'" for v w
        using less.IH [of v w] size_in_arr [OF that(1)] orderly_in(2) that less.prems 5 y by blast
      then show ?thesis using 5 y by (simp add: compareArrays_swap [of a a'])
    next
      case (6 k s)
      obtain k' s' where "y = BBinary k' s'" using other(5) [OF 6] by blast
      then show ?thesis using 6 compareString_swap [of s' s] by simp
    next
      case (7 s)
      obtain s' where "y = BOid s'" using other(6) [OF 7] by blast
      then show ?thesis using 7 compareString_swap [of s' s] by simp
    next
      case (8 p)
      obtain p' where "y = BBool p'" using other(7) [OF 8] by blast
      then show ?thesis using 8 sign_swap [of "boolRank p'" "boolRank p"] by simp
    next
      case (9 i)
      obtain i' where "y = BDate i'" using other(8) [OF 9] by blast
      then show ?thesis using 9 less.prems orderly_near(1) sign_swap [of i' i] by (simp add: compareInt_near)
    next
      case (10 t n)
      obtain t' n' where y: "y = BTimestamp t' n'" using other(9) [OF 10] by blast
      show ?thesis
        using 10 y less.prems orderly_near(2) [of t n] orderly_near(2) [of t' n']
        by (auto simp: compareTimestamps_first compareInt_near intro!: first_of_swap sign_swap)
    next
      case (11 s o')
      obtain s' o'' where "y = BRegex s' o''" using other(10) [OF 11] by blast
      then show ?thesis using 11 by (auto simp: compareRegexes_first intro!: first_of_swap compareString_swap)
    qed
  qed
qed

lemma ranks_compatible:
  "\<lbrakk>\<not> (r = s \<and> s = t); r \<noteq> s \<Longrightarrow> a = sign (r - s); s \<noteq> t \<Longrightarrow> b = sign (s - t); r \<noteq> t \<Longrightarrow> c = sign (r - t)\<rbrakk>
   \<Longrightarrow> compatible a b c"
  by (cases "r = s"; cases "s = t"; cases "r = t") (auto simp: compatible_def sign_def)

lemma compare_compat:
  "orderly x \<Longrightarrow> orderly y \<Longrightarrow> orderly z \<Longrightarrow> compatible (compare x y) (compare y z) (compare x z)"
proof (induction x arbitrary: y z rule: measure_induct_rule [of size])
  case (less x)
  show ?case
  proof (cases "rankOf x = rankOf y \<and> rankOf y = rankOf z")
    case False
    then show ?thesis by (rule ranks_compatible) (simp_all add: compare_ranks)
  next
    case True
    note y = same_rank_other [OF conjunct1 [OF True]]
    have "rankOf x = rankOf z" using True by simp
    note z = same_rank_other [OF this]
    show ?thesis
    proof (cases x rule: value_cases)
      case 1
      then show ?thesis
        using y(1) z(1) number_orderly [of x] number_orderly [of y] number_orderly [of z] less.prems
          float_order.compat [of "numberOf x" "numberOf y" "numberOf z"] by (simp add: compare_numbers)
    next
      case 2
      then show ?thesis
        using compare_valueless [of x y] compare_valueless [of x z] compare_valueless [of y z] True
        by (simp add: compatible_zero)
    next
      case (3 s)
      obtain s' s'' where "y = BString s'" "z = BString s''" using y(2) [OF 3] z(2) [OF 3] by blast
      then show ?thesis using 3 by (simp add: compareString_compat)
    next
      case (4 d)
      obtain d' d'' where yz: "y = BDoc d'" "z = BDoc d''" using y(3) [OF 4] z(3) [OF 4] by blast
      have "compatible (compare u v) (compare v w) (compare u w)"
        if "(k, u) \<in> set d" "(k', v) \<in> set d'" "(k'', w) \<in> set d''" for k u k' v k'' w
        using less.IH [of u v w] size_in_doc [OF that(1)] orderly_in(1) that less.prems 4 yz by blast
      then show ?thesis using 4 yz by (simp add: compareDocuments_compat [of d d' d''])
    next
      case (5 a)
      obtain a' a'' where yz: "y = BArr a'" "z = BArr a''" using y(4) [OF 5] z(4) [OF 5] by blast
      have "compatible (compare u v) (compare v w) (compare u w)"
        if "u \<in> set a" "v \<in> set a'" "w \<in> set a''" for u v w
        using less.IH [of u v w] size_in_arr [OF that(1)] orderly_in(2) that less.prems 5 yz by blast
      then show ?thesis using 5 yz by (simp add: compareArrays_compat [of a a' a''])
    next
      case (6 k s)
      obtain k' s' k'' s'' where "y = BBinary k' s'" "z = BBinary k'' s''" using y(5) [OF 6] z(5) [OF 6] by blast
      then show ?thesis using 6 by (simp add: compareString_compat)
    next
      case (7 s)
      obtain s' s'' where "y = BOid s'" "z = BOid s''" using y(6) [OF 7] z(6) [OF 7] by blast
      then show ?thesis using 7 by (simp add: compareString_compat)
    next
      case (8 p)
      obtain p' p'' where "y = BBool p'" "z = BBool p''" using y(7) [OF 8] z(7) [OF 8] by blast
      then show ?thesis using 8 by (simp add: sign_compat)
    next
      case (9 i)
      obtain i' i'' where "y = BDate i'" "z = BDate i''" using y(8) [OF 9] z(8) [OF 9] by blast
      then show ?thesis using 9 less.prems orderly_near(1) by (simp add: compareInt_near sign_compat)
    next
      case (10 t n)
      obtain t' n' t'' n'' where yz: "y = BTimestamp t' n'" "z = BTimestamp t'' n''" using y(9) [OF 10] z(9) [OF 10] by blast
      show ?thesis
        using 10 yz less.prems orderly_near(2) [of t n] orderly_near(2) [of t' n'] orderly_near(2) [of t'' n'']
        by (simp add: compareTimestamps_first compareInt_near compatible_first_of sign_compat)
    next
      case (11 s o')
      obtain s' o'' s'' o3 where "y = BRegex s' o''" "z = BRegex s'' o3" using y(10) [OF 11] z(10) [OF 11] by blast
      then show ?thesis using 11 by (simp add: compareRegexes_first compatible_first_of compareString_compat)
    qed
  qed
qed

interpretation value_order: three_way orderly compare
  by unfold_locales (rule compare_swap compare_compat; assumption)+

section \<open>Sort specifications\<close>

text \<open>The documents a specification can order: every key has a direction, and what it selects is orderly.\<close>

definition sortable :: "doc \<Rightarrow> doc \<Rightarrow> bool" where
  "sortable order_by document \<longleftrightarrow> list_all (\<lambda>(key, _). orderly (sortKey document key)) order_by"

lemma sort_order_Cons:
  "sort_order h ((key, v) # rest) l r =
     first_of (compare (sortKey l key) (sortKey r key) * direction h v) (sort_order h rest l r)"
  if "direction h v \<noteq> 0"
  using that by (simp add: Let_def first_of_def)

lemma direction_cases: "direction h v = 0 \<or> direction h v = 1 \<or> direction h v = -1"
  by (simp add: direction_def sign_def)

lemma compatible_minus: "compatible (- a) (- b) (- c) \<longleftrightarrow> compatible a b c"
  by (auto simp: compatible_def)

lemma compatible_directed: "compatible a b c \<Longrightarrow> d = 0 \<or> d = 1 \<or> d = -1 \<Longrightarrow> compatible (a * d) (b * d) (c * d)"
  by (auto simp: compatible_minus compatible_zero)

lemma check_sort_directions: "check_sort h order_by = None \<Longrightarrow> (key, v) \<in> set order_by \<Longrightarrow> direction h v \<noteq> 0"
  by (induction order_by) (auto split: if_splits)

lemma sort_order_three_way:
  assumes "check_sort h order_by = None"
  shows "three_way (sortable order_by) (sort_order h order_by)"
proof
  fix x y z :: doc
  show "sortable order_by x \<Longrightarrow> sortable order_by y \<Longrightarrow>
      sort_order h order_by y x = - sort_order h order_by x y"
    using assms
  proof (induction order_by)
    case (Cons f order_by)
    obtain key v where f: "f = (key, v)" by force
    have d: "direction h v \<noteq> 0" using check_sort_directions [OF Cons.prems(3), of key v] f by simp
    then have rest: "check_sort h order_by = None" using Cons.prems(3) f by simp
    have "compare (sortKey y key) (sortKey x key) = - compare (sortKey x key) (sortKey y key)"
      using Cons.prems f by (intro compare_swap) (simp_all add: sortable_def)
    moreover have "sort_order h order_by y x = - sort_order h order_by x y"
      using Cons rest by (simp add: sortable_def)
    ultimately show ?case unfolding f sort_order_Cons [OF d] by (simp add: first_of_def)
  qed simp
  show "sortable order_by x \<Longrightarrow> sortable order_by y \<Longrightarrow> sortable order_by z \<Longrightarrow>
      compatible (sort_order h order_by x y) (sort_order h order_by y z) (sort_order h order_by x z)"
    using assms
  proof (induction order_by)
    case (Cons f order_by)
    obtain key v where f: "f = (key, v)" by force
    have d: "direction h v \<noteq> 0" using check_sort_directions [OF Cons.prems(4), of key v] f by simp
    then have rest: "check_sort h order_by = None" using Cons.prems(4) f by simp
    have "compatible (compare (sortKey x key) (sortKey y key)) (compare (sortKey y key) (sortKey z key))
        (compare (sortKey x key) (sortKey z key))"
      using Cons.prems f by (intro compare_compat) (simp_all add: sortable_def)
    moreover have "compatible (sort_order h order_by x y) (sort_order h order_by y z) (sort_order h order_by x z)"
      using Cons rest by (simp add: sortable_def)
    ultimately show ?case
      unfolding f sort_order_Cons [OF d] using direction_cases [of h v]
      by (intro compatible_first_of compatible_directed) auto
  qed (simp add: compatible_zero)
qed

lemma sortDocuments_sorts:
  assumes "sortDocuments h documents order_by = Inr arranged" "list_all (sortable order_by) documents"
  shows "mset arranged = mset documents"
    "sorted_wrt (\<lambda>x y. sort_order h order_by x y \<le> 0) arranged"
    "sortable order_by k \<Longrightarrow>
      filter (\<lambda>y. sort_order h order_by k y = 0) arranged = filter (\<lambda>y. sort_order h order_by k y = 0) documents"
proof -
  have *: "check_sort h order_by = None" "arranged = SortStable (sort_order h order_by) documents"
    using assms(1) by (auto simp: sortDocuments_def split: option.splits)
  note sorter = sort_order_three_way [OF *(1)]
  show "mset arranged = mset documents" by (simp add: *(2))
  show "sorted_wrt (\<lambda>x y. sort_order h order_by x y \<le> 0) arranged"
    unfolding *(2) by (rule three_way.SortStable_sorted [OF sorter assms(2)])
  show "sortable order_by k \<Longrightarrow>
      filter (\<lambda>y. sort_order h order_by k y = 0) arranged = filter (\<lambda>y. sort_order h order_by k y = 0) documents"
    unfolding *(2) by (rule three_way.SortStable_stable [OF sorter _ assms(2)])
qed

end
