(* ===== verification/DocLaws.thy ===== *)
theory DocLaws
  imports Docstore BsonOrder
begin

text \<open>
  Laws of single documents and collections: copies are equal, reading a field after writing it, what an
  update leaves alone, what a delete and an insert batch do to a collection, which whole numbers survive
  the detour through \<open>float64\<close>, and what becomes of the values \<open>compare\<close> cannot tell apart.
\<close>

section \<open>Copies and comparisons\<close>

lemma clone_same [simp]: "clone v = v"
proof (induction v rule: clone.induct)
  case (1 d)
  then show ?case by (auto intro!: map_idI)
next
  case (2 a)
  then show ?case by (auto intro!: map_idI)
qed simp_all

lemma cloneDocument_same [simp]: "cloneDocument d = d"
  using clone_same [of "BDoc d"] by (simp add: cloneDocument_def)

lemma compareString_same [simp]: "compareString s s = 0"
  by (simp add: compareString_def)

lemma compareInt_same [simp]: "compareInt i i = 0"
  by (simp add: compareInt_def sign_def int64_range_def)

lemma f_less_irrefl [simp]: "\<not> f_less x x"
  by (cases x) auto

lemma first_of_same [simp]: "first_of 0 b = b"
  by (simp add: first_of_def)

text \<open>A value equals itself, NaN included.\<close>

lemma compare_same [simp]: "compare v v = 0" and compareDocuments_same [simp]: "compareDocuments d d = 0"
  and compareArrays_same [simp]: "compareArrays a a = 0"
proof -
  have *: "compare v v = 0 \<and> compareDocuments d d = 0 \<and> compareArrays a a = 0"
    if "size v < n" "doc_size d < n" "size_list size a < n" for n v d a
    using that
  proof (induction n arbitrary: v d a)
    case (Suc n)
    have v: "compare v v = 0" if "size v < Suc n" for v
    proof (cases v rule: value_cases)
      case 1
      then show ?thesis by (simp add: compare_numbers compareFloat_def)
    next
      case 2
      then show ?thesis using compare_valueless [of v v] by simp
    next
      case (4 d)
      then show ?thesis using Suc.IH [of BNull d "[]"] that by simp
    next
      case (5 a)
      then show ?thesis using Suc.IH [of BNull "[]" a] that by simp
    qed (simp_all add: sign_def compareTimestamps_first compareRegexes_first)
    have d: "doc_size d < Suc n \<Longrightarrow> compareDocuments d d = 0" for d
    proof (induction d)
      case (Cons f d)
      obtain k w where f: "f = (k, w)" by force
      with Cons show ?case using v [of w] by (simp add: compareDocuments_Cons)
    qed (simp add: sign_def)
    have "size_list size a < Suc n \<Longrightarrow> compareArrays a a = 0" for a
      by (induction a) (simp_all add: compareArrays_Cons v sign_def)
    with v d Suc.prems show ?case by blast
  qed simp
  show "compare v v = 0" "compareDocuments d d = 0" "compareArrays a a = 0"
    using * [of v "Suc (size v + doc_size d + size_list size a)" d a] by simp_all
qed

lemma equal_values_same [simp]: "equal_values v v"
  by (simp add: equal_values_def)

lemma values_are_ordered_parts:
  shows "orderly x \<Longrightarrow> orderly y \<Longrightarrow> compare y x = - compare x y"
    and "orderly x \<Longrightarrow> orderly y \<Longrightarrow> orderly z \<Longrightarrow> compare x y \<le> 0 \<Longrightarrow> compare y z \<le> 0 \<Longrightarrow>
      compare x z \<le> 0 \<and> (compare x y < 0 \<or> compare y z < 0 \<longrightarrow> compare x z < 0)"
    and "rankOf x < rankOf y \<Longrightarrow> compare x y = -1 \<and> \<not> equal_values x y"
    and "compare x x = 0"
proof -
  show "orderly x \<Longrightarrow> orderly y \<Longrightarrow> compare y x = - compare x y" by (rule value_order.swap)
  show "orderly x \<Longrightarrow> orderly y \<Longrightarrow> orderly z \<Longrightarrow> compare x y \<le> 0 \<Longrightarrow> compare y z \<le> 0 \<Longrightarrow>
      compare x z \<le> 0 \<and> (compare x y < 0 \<or> compare y z < 0 \<longrightarrow> compare x z < 0)"
    using value_order.compat [of x y z] by (simp add: compatible_def)
  show "rankOf x < rankOf y \<Longrightarrow> compare x y = -1 \<and> \<not> equal_values x y"
    by (simp add: compare_ranks sign_def equal_values_def)
  show "compare x x = 0" by simp
qed

text \<open>C24. \<open>compare\<close> orders: on values without NaN and with dates and timestamps in reach of each other it is a
  total preorder over all types (swapping its arguments swaps the sign, and it is transitive, strictly so when
  one step is strict), values of different types come in MongoDB's order of types and are never equal, and every
  value equals itself.\<close>

theorem values_are_ordered:
  "compare x x = 0 \<and> (rankOf x < rankOf y \<longrightarrow> compare x y = -1 \<and> \<not> equal_values x y) \<and>
   (orderly x \<and> orderly y \<longrightarrow> compare y x = - compare x y) \<and>
   (orderly x \<and> orderly y \<and> orderly z \<and> compare x y \<le> 0 \<and> compare y z \<le> 0 \<longrightarrow>
      compare x z \<le> 0 \<and> (compare x y < 0 \<or> compare y z < 0 \<longrightarrow> compare x z < 0))"
  using values_are_ordered_parts(1) [of x y] values_are_ordered_parts(2) [of x y z] values_are_ordered_parts(3) [of x y]
  by simp

theorem values_are_ordered_witness:
  "compare (BDoc [(''a'', BString ''x'')]) (BDoc [(''a'', BInt32 7)]) =
    - compare (BDoc [(''a'', BInt32 7)]) (BDoc [(''a'', BString ''x'')])"
  using values_are_ordered [of "BDoc [(''a'', BInt32 7)]" "BDoc [(''a'', BString ''x'')]" BNull] by simp

section \<open>Fields\<close>

lemma Lookup_None: "Lookup d k = None \<longleftrightarrow> k \<notin> fst ` set d"
  by (induction d k rule: Lookup.induct) auto

lemma Lookup_withField [simp]: "Lookup (withField d k v) k' = (if k' = k then Some v else Lookup d k')"
  by (induction d k v rule: withField.induct) auto

lemma Lookup_without [simp]: "Lookup (without d k) k' = (if k' = k then None else Lookup d k')"
  by (induction d k rule: without.induct) auto

lemma Lookup_withIdentifier [simp]:
  "Lookup (withIdentifier d i) k = (if k = identifierField then Some i else Lookup d k)"
  by (simp add: withIdentifier_def)

lemma withField_keys: "map fst (withField d k v) = (if k \<in> fst ` set d then map fst d else map fst d @ [k])"
  by (induction d k v rule: withField.induct) auto

lemma withField_same: "Lookup d k = Some v \<Longrightarrow> withField d k v = d"
  by (induction d k v rule: withField.induct) (auto split: if_splits)

lemma without_without [simp]: "without (without d k) k = without d k"
  by (induction d k rule: without.induct) auto

lemma without_absent: "Lookup d k = None \<Longrightarrow> without d k = d"
  by (induction d k rule: without.induct) (auto split: if_splits)

lemma without_withIdentifier [simp]: "without (withIdentifier d i) identifierField = without d identifierField"
  by (simp add: withIdentifier_def)

section \<open>Paths\<close>

lemma Split_on_nonempty [simp]: "Split_on c s \<noteq> []"
  by (induction c s rule: Split_on.induct) (auto split: list.splits)

lemma steps_nonempty [simp]: "steps path \<noteq> []"
  by (simp add: steps_def)

lemma setPath_head: "setPath d (p # ps) v = Inr d' \<Longrightarrow> k \<noteq> p \<Longrightarrow> Lookup d' k = Lookup d k"
  by (auto split: if_splits option.splits bson.splits sum.splits)

lemma setPath_keys:
  "setPath d (p # ps) v = Inr d' \<Longrightarrow> map fst d' = (if p \<in> fst ` set d then map fst d else map fst d @ [p])"
  by (auto simp: withField_keys split: if_splits option.splits bson.splits sum.splits) force+

lemma valueAt_set: "path \<noteq> [] \<Longrightarrow> setPath d path v = Inr d' \<Longrightarrow> valueAt d' path = Some v"
  by (induction d path v arbitrary: d' rule: setPath.induct) (auto split: if_splits option.splits bson.splits sum.splits)

text \<open>Two paths of which neither runs through the other.\<close>

definition apart :: "gostring list \<Rightarrow> gostring list \<Rightarrow> bool" where
  "apart p q \<longleftrightarrow> \<not> prefix p q \<and> \<not> prefix q p"

lemma valueAt_nothing [simp]: "valueAt [] path = None"
  by (cases path) simp_all

lemma valueAt_set_apart:
  "setPath d path v = Inr d' \<Longrightarrow> apart path other \<Longrightarrow> valueAt d' other = valueAt d other"
proof (induction d path v arbitrary: d' other rule: setPath.induct)
  case (2 d p ps v)
  then obtain q qs where other: "other = q # qs" by (cases other) (auto simp: apart_def)
  show ?case
  proof (cases "p = q")
    case False
    then show ?thesis using setPath_head [OF "2.prems"(1), of q] by (simp add: other)
  next
    case True
    then have apart: "apart ps qs" "ps \<noteq> []" "qs \<noteq> []" using "2.prems"(2) by (auto simp: apart_def other)
    then show ?thesis
      using "2.prems"(1) "2.IH" True other by (auto split: if_splits option.splits bson.splits sum.splits)
  qed
qed (simp add: apart_def)

lemma setPath_idem: "path \<noteq> [] \<Longrightarrow> setPath d path v = Inr d' \<Longrightarrow> setPath d' path v = Inr d'"
  by (induction d path v arbitrary: d' rule: setPath.induct)
    (auto simp: withField_same split: if_splits option.splits bson.splits sum.splits)

lemma valueAt_unset: "valueAt (unsetPath d path) path = None"
  by (induction d path rule: unsetPath.induct) (auto split: option.splits bson.splits)

lemma unsetPath_head: "k \<noteq> p \<Longrightarrow> Lookup (unsetPath d (p # ps)) k = Lookup d k"
  by (auto split: option.splits bson.splits)

lemma valueAt_unset_apart: "apart path other \<Longrightarrow> valueAt (unsetPath d path) other = valueAt d other"
proof (induction d path arbitrary: other rule: unsetPath.induct)
  case (2 d p ps)
  then obtain q qs where other: "other = q # qs" by (cases other) (auto simp: apart_def)
  show ?case
  proof (cases "p = q")
    case False
    then show ?thesis using unsetPath_head [of q p d ps] by (simp add: other del: unsetPath.simps)
  next
    case True
    then have "apart ps qs" "ps \<noteq> []" "qs \<noteq> []" using "2.prems" by (auto simp: apart_def other)
    then show ?thesis using "2.IH" True other by (auto split: option.splits bson.splits)
  qed
qed (simp add: apart_def)

section \<open>Whole numbers through float64\<close>

lemma bit_length_le: "n < 2 ^ k \<Longrightarrow> bit_length n \<le> k"
proof (induction k arbitrary: n)
  case (Suc k)
  then have "bit_length (n div 2) \<le> k" by (intro Suc.IH) simp
  then show ?case by (subst bit_length.simps) simp
qed (simp add: bit_length.simps)

lemma f_of_int_small: "\<bar>i\<bar> < 2 ^ 53 \<Longrightarrow> f_of_int i = Fin (i < 0) (nat \<bar>i\<bar>) 0"
proof -
  assume "\<bar>i\<bar> < 2 ^ 53"
  then have "bit_length (nat \<bar>i\<bar>) \<le> 53" by (intro bit_length_le) (simp add: nat_less_iff)
  then show ?thesis by (simp add: f_of_int_def f_round_def shifted_out_def Let_def)
qed

lemma whole_exact: "\<bar>i\<bar> < 2 ^ 53 \<Longrightarrow> f_to_int stray (f_of_int i) = i"
  by (cases "i < 0") (auto simp: f_of_int_small f_to_int_def f_trunc_def f_signed_def int64_range_def)

lemma isNumber_whole [simp]: "isNumber (BInt32 i)" "isNumber (BInt64 i)" "isNumber (BDouble x)"
  by (simp_all add: isNumber_def)

lemma intAt_whole:
  "Lookup d key = Some (BInt32 i) \<or> Lookup d key = Some (BInt64 i) \<Longrightarrow> \<bar>i\<bar> < 2 ^ 53 \<Longrightarrow> intAt h where' d key fallback = Inr i"
  by (auto simp: intAt_def whole_exact)

section \<open>Selecting\<close>

definition holds :: "host \<Rightarrow> doc \<Rightarrow> doc \<Rightarrow> bool" where
  "holds h query document \<longleftrightarrow> doc_matches h document query = Inr True"

text \<open>A query the code can evaluate on all of some documents.\<close>

definition evaluable :: "host \<Rightarrow> doc \<Rightarrow> doc list \<Rightarrow> bool" where
  "evaluable h query documents \<longleftrightarrow> list_all (\<lambda>d. \<not> isl (doc_matches h d query)) documents"

lemma find_documents_evaluable:
  "evaluable h query documents \<Longrightarrow> find_documents h documents query = Inr (filter (holds h query) documents)"
  by (induction documents) (auto simp: evaluable_def holds_def split: sum.splits)

lemma find_documents_Inr:
  "find_documents h documents query = Inr selected \<Longrightarrow>
   evaluable h query documents \<and> selected = filter (holds h query) documents"
  by (induction documents arbitrary: selected) (auto simp: evaluable_def holds_def split: sum.splits if_splits)

lemma everything_holds: "evaluable h [] ds" "filter (holds h []) ds = ds" "holds h [] d"
  by (simp_all add: evaluable_def holds_def list_all_iff)

text \<open>A host with a simple machine, compiler and printer.\<close>

definition plain_host :: host where
  "plain_host = \<lparr>h_compile = (\<lambda>e. Inr (\<lambda>s. e = s)), h_stray = (\<lambda>_. MinInt64), h_sprintf = (\<lambda>f _. f),
     h_oid = (\<lambda>n. replicate 12 (char_of (n mod 256)))\<rparr>"

lemma selectFor_shift: "selectFor h (Suc i) ds query all = map_sum id (map Suc) (selectFor h i ds query all)"
  by (induction ds arbitrary: i) (auto split: sum.splits)

lemma delete_at_0 [simp]: "delete_at 0 (x # xs) = xs"
  by (simp add: delete_at_def)

lemma delete_at_Suc [simp]: "delete_at (Suc p) (x # xs) = x # delete_at p xs"
  by (simp add: delete_at_def)

lemma foldr_delete_Suc: "foldr delete_at (map Suc ps) (x # xs) = x # foldr delete_at ps xs"
  by (induction ps) simp_all

lemma delete_selected:
  "evaluable h query ds \<Longrightarrow> \<exists>selected. selectFor h 0 ds query True = Inr selected \<and>
     length selected = length (filter (holds h query) ds) \<and>
     foldr delete_at selected ds = filter (\<lambda>d. \<not> holds h query d) ds"
proof (induction ds)
  case (Cons d ds)
  then obtain selected where *: "selectFor h 0 ds query True = Inr selected"
      "length selected = length (filter (holds h query) ds)" "foldr delete_at selected ds = filter (\<lambda>d. \<not> holds h query d) ds"
    by (auto simp: evaluable_def)
  obtain held where held: "doc_matches h d query = Inr held"
    using Cons.prems by (cases "doc_matches h d query") (auto simp: evaluable_def)
  then have "holds h query d = held" by (simp add: holds_def)
  with held show ?case using * by (auto simp: selectFor_shift foldr_delete_Suc)
qed simp

lemma delete_first:
  "evaluable h query ds \<Longrightarrow> \<exists>selected. selectFor h 0 ds query False = Inr selected \<and>
     length selected = min 1 (length (filter (holds h query) ds)) \<and>
     foldr delete_at selected ds =
       takeWhile (\<lambda>d. \<not> holds h query d) ds @ drop 1 (dropWhile (\<lambda>d. \<not> holds h query d) ds)"
proof (induction ds)
  case (Cons d ds)
  then obtain selected where *: "selectFor h 0 ds query False = Inr selected"
      "length selected = min 1 (length (filter (holds h query) ds))"
      "foldr delete_at selected ds = takeWhile (\<lambda>d. \<not> holds h query d) ds @ drop 1 (dropWhile (\<lambda>d. \<not> holds h query d) ds)"
    by (auto simp: evaluable_def)
  obtain held where held: "doc_matches h d query = Inr held"
    using Cons.prems by (cases "doc_matches h d query") (auto simp: evaluable_def)
  then have "holds h query d = held" by (simp add: holds_def)
  with held show ?case using * by (auto simp: selectFor_shift foldr_delete_Suc)
qed simp

definition delete_spec :: "doc \<Rightarrow> int \<Rightarrow> doc" where
  "delete_spec query limit = [Field ''q'' (BDoc query), Field ''limit'' (BInt32 limit)]"

lemma delete_spec_reads:
  "requiredDocument where' (delete_spec query limit) ''q'' = Inr query"
  "\<bar>limit\<bar> < 2 ^ 53 \<Longrightarrow> intAt h where' (delete_spec query limit) ''limit'' fallback = Inr limit"
  by (simp_all add: delete_spec_def requiredDocument_def documentAt_def intAt_whole)

lemma delete_removes_matches_parts:
  assumes "evaluable h query (co_documents c)"
  shows "remove_documents h (delete_spec query 0) c =
      (Inr (int (length (filter (holds h query) (co_documents c)))),
       c\<lparr>co_documents := filter (\<lambda>d. \<not> holds h query d) (co_documents c)\<rparr>)"
    and "remove_documents h (delete_spec query 1) c =
      (Inr (int (min 1 (length (filter (holds h query) (co_documents c))))),
       c\<lparr>co_documents := takeWhile (\<lambda>d. \<not> holds h query d) (co_documents c) @
           drop 1 (dropWhile (\<lambda>d. \<not> holds h query d) (co_documents c))\<rparr>)"
  using delete_selected [OF assms] delete_first [OF assms]
  by (auto simp: remove_documents_def delete_spec_reads)

text \<open>A delete with limit 0 removes exactly the documents its query holds of and reports how many; with limit
  1 it removes the first of them, if there is one. The others stay, in their order. (The query is one the
  code can evaluate on the collection's documents; otherwise it is refused.)\<close>

theorem delete_removes_matches:
  assumes "evaluable h query (co_documents c)"
  shows "remove_documents h (delete_spec query 0) c =
      (Inr (int (length (filter (holds h query) (co_documents c)))),
       c\<lparr>co_documents := filter (\<lambda>d. \<not> holds h query d) (co_documents c)\<rparr>) \<and>
    remove_documents h (delete_spec query 1) c =
      (Inr (int (min 1 (length (filter (holds h query) (co_documents c))))),
       c\<lparr>co_documents := takeWhile (\<lambda>d. \<not> holds h query d) (co_documents c) @
           drop 1 (dropWhile (\<lambda>d. \<not> holds h query d) (co_documents c))\<rparr>)"
  using delete_removes_matches_parts [OF assms] by blast

theorem delete_removes_matches_witness:
  "remove_documents plain_host (delete_spec [] 1) \<lparr>co_name = ''c'', co_documents = [[(''a'', BNull)], [(''b'', BNull)]]\<rparr> =
    (Inr 1, \<lparr>co_name = ''c'', co_documents = [[(''b'', BNull)]]\<rparr>)"
  using delete_removes_matches [of plain_host "[]" "\<lparr>co_name = ''c'', co_documents = [[(''a'', BNull)], [(''b'', BNull)]]\<rparr>"]
  by (simp add: everything_holds)

section \<open>Inserting\<close>

lemma insert_document_cases:
  obtains (refused) ident drawn' where "insert_document h d c drawn = (Some (duplicate_key c ident), c, drawn')"
      "locate (co_documents c) ident \<noteq> None" "Lookup d identifierField \<in> {None, Some ident}"
  | (stored) ident drawn' where
      "insert_document h d c drawn = (None, c\<lparr>co_documents := co_documents c @ [withIdentifier d ident]\<rparr>, drawn')"
      "locate (co_documents c) ident = None" "Lookup d identifierField \<in> {None, Some ident}"
proof -
  obtain ident drawn' where i: "identifierOf h d drawn = (ident, drawn')" by force
  then have "Lookup d identifierField \<in> {None, Some ident}" by (auto simp: identifierOf_def split: option.splits)
  with i show ?thesis
    using refused stored
    by (cases "locate (co_documents c) ident")
      (simp_all add: insert_document_def Let_def identifier_of_stored_def nil_or_def)
qed

definition bare :: "doc \<Rightarrow> doc" where "bare d = without d identifierField"

lemma bare_withIdentifier [simp]: "bare (withIdentifier d i) = bare d"
  by (simp add: bare_def)

lemma duplicate_key_name [simp]: "duplicate_key (c\<lparr>co_documents := ds\<rparr>) i = duplicate_key c i"
  by (simp add: duplicate_key_def)

lemma insert_loop_ordered:
  "insert_loop h True index ds c drawn n failures = (inserted, failures', c', drawn') \<Longrightarrow>
   \<exists>k\<le>length ds. inserted = n + k \<and> (\<exists>new. co_documents c' = co_documents c @ new \<and> map bare new = map bare (take k ds)) \<and>
     (k = length ds \<longrightarrow> failures' = failures) \<and>
     (k < length ds \<longrightarrow> (\<exists>ident. failures' = failures @ [batch_error h (index + k) (duplicate_key c ident)]))"
proof (induction ds arbitrary: index c drawn n)
  case (Cons d ds)
  show ?case
  proof (cases rule: insert_document_cases [of h d c drawn])
    case (refused ident drawn'')
    then show ?thesis using Cons.prems by (intro exI [of _ 0]) (auto simp: Let_def)
  next
    case (stored ident drawn'')
    let ?c = "c\<lparr>co_documents := co_documents c @ [withIdentifier d ident]\<rparr>"
    have "insert_loop h True (Suc index) ds ?c drawn'' (Suc n) failures = (inserted, failures', c', drawn')"
      using Cons.prems stored by simp
    from Cons.IH [OF this] obtain k new where k: "k \<le> length ds" "inserted = Suc n + k"
      "co_documents c' = co_documents ?c @ new" "map bare new = map bare (take k ds)" "k = length ds \<longrightarrow> failures' = failures"
      "k < length ds \<longrightarrow> (\<exists>ident. failures' = failures @ [batch_error h (Suc index + k) (duplicate_key ?c ident)])"
      by blast
    show ?thesis
      using k by (intro exI [of _ "Suc k"] conjI exI [of _ "withIdentifier d ident # new"])
        simp_all
  qed
qed simp

section \<open>Updating\<close>

lemma operators_dollar [simp]: "has_dollar ''$set''" "has_dollar ''$inc''" "has_dollar ''$unset''"
  by (simp_all add: has_dollar_def)

lemma applyUpdate_one:
  "applyUpdate d [(''$set'', BDoc [(path, v)])] = setPath d (steps path) v"
  "applyUpdate d [(''$unset'', BDoc [(path, v)])] = Inr (unsetPath d (steps path))"
  "applyUpdate d [(''$inc'', BDoc [(path, v)])] = incrementField d path v"
  by (simp_all add: applyUpdate_def checkUpdateShape_def applyOperator_def update_operators_def setField_def
      unsetField_def split: sum.splits)

lemma without_keys: "map fst (without d k) = filter (\<lambda>k'. k' \<noteq> k) (map fst d)"
  by (induction d k rule: without.induct) auto

lemma unsetPath_keys:
  "path \<noteq> [] \<Longrightarrow> map fst (unsetPath d path) = (if length path = 1 then filter (\<lambda>k. k \<noteq> hd path) (map fst d) else map fst d)"
proof (cases path)
  case (Cons p ps)
  have "Lookup d p = Some v \<Longrightarrow> p \<in> fst ` set d" for v using Lookup_None [of d p] by auto
  then show ?thesis using Cons by (auto simp: without_keys withField_keys split: option.split bson.split)
qed simp

lemma update_touches_one_field_parts:
  assumes "apart (steps path) other"
  shows "applyUpdate d [(''$set'', BDoc [(path, v)])] = Inr d' \<Longrightarrow>
      valueAt d' (steps path) = Some v \<and> valueAt d' other = valueAt d other \<and>
      map fst d' = (if hd (steps path) \<in> fst ` set d then map fst d else map fst d @ [hd (steps path)]) \<and>
      applyUpdate d' [(''$set'', BDoc [(path, v)])] = Inr d'"
    and "applyUpdate d [(''$unset'', BDoc [(path, v)])] = Inr d' \<Longrightarrow>
      valueAt d' (steps path) = None \<and> valueAt d' other = valueAt d other \<and>
      map fst d' = (if length (steps path) = 1 then filter (\<lambda>k. k \<noteq> hd (steps path)) (map fst d) else map fst d)"
proof -
  assume *: "applyUpdate d [(''$set'', BDoc [(path, v)])] = Inr d'"
  then have set: "setPath d (steps path) v = Inr d'" by (simp add: applyUpdate_one)
  moreover obtain p ps where "steps path = p # ps" by (cases "steps path") simp_all
  ultimately show "valueAt d' (steps path) = Some v \<and> valueAt d' other = valueAt d other \<and>
      map fst d' = (if hd (steps path) \<in> fst ` set d then map fst d else map fst d @ [hd (steps path)]) \<and>
      applyUpdate d' [(''$set'', BDoc [(path, v)])] = Inr d'"
    using valueAt_set [OF _ set] valueAt_set_apart [OF set assms] setPath_idem [OF _ set] setPath_keys [of d p ps v d']
    by (simp add: applyUpdate_one del: setPath.simps)
next
  assume "applyUpdate d [(''$unset'', BDoc [(path, v)])] = Inr d'"
  then have d': "d' = unsetPath d (steps path)" by (simp add: applyUpdate_one)
  show "valueAt d' (steps path) = None \<and> valueAt d' other = valueAt d other \<and>
      map fst d' = (if length (steps path) = 1 then filter (\<lambda>k. k \<noteq> hd (steps path)) (map fst d) else map fst d)"
    unfolding d' using valueAt_unset [of d "steps path"] valueAt_unset_apart [OF assms]
      unsetPath_keys [of "steps path" d] steps_nonempty [of path] by blast
qed

text \<open>C26. One $set writes one field: where it succeeds, the field then reads as the value given, every path that
  neither runs through the field nor is run through by it reads as before, the document's fields keep their order
  with a new one at the end, and doing it again changes nothing more. One $unset takes the field away
  and leaves the same paths alone, and the document's fields keep their order, but for the one taken away
  when it is a field of the document itself.\<close>

theorem update_touches_one_field:
  assumes "apart (steps path) other"
  shows "(\<forall>d'. applyUpdate d [(''$set'', BDoc [(path, v)])] = Inr d' \<longrightarrow>
      valueAt d' (steps path) = Some v \<and> valueAt d' other = valueAt d other \<and>
      map fst d' = (if hd (steps path) \<in> fst ` set d then map fst d else map fst d @ [hd (steps path)]) \<and>
      applyUpdate d' [(''$set'', BDoc [(path, v)])] = Inr d') \<and>
    (\<forall>d'. applyUpdate d [(''$unset'', BDoc [(path, v)])] = Inr d' \<longrightarrow>
      valueAt d' (steps path) = None \<and> valueAt d' other = valueAt d other \<and>
      map fst d' = (if length (steps path) = 1 then filter (\<lambda>k. k \<noteq> hd (steps path)) (map fst d) else map fst d))"
  using update_touches_one_field_parts [OF assms] by blast

definition shirt :: doc where
  "shirt = [(''_id'', BInt32 1), (''size'', BDoc [(''h'', BInt32 28), (''uom'', BString ''cm'')])]"

lemma shirt_steps: "steps ''size.uom'' = [''size'', ''uom'']" "steps ''size.h'' = [''size'', ''h'']"
  by (simp_all add: steps_def)

theorem update_touches_one_field_witness:
  "valueAt [(''_id'', BInt32 1), (''size'', BDoc [(''h'', BInt32 28), (''uom'', BString ''in'')])] [''size'', ''h''] = Some (BInt32 28)"
  using update_touches_one_field [of "''size.uom''" "[''size'', ''h'']" shirt "BString ''in''"]
  by (simp add: shirt_steps apart_def applyUpdate_one shirt_def)

text \<open>An increment of a whole number is kept whole, as a 64-bit integer that wraps around at its bounds; on a
  field that is not there it is the increment itself, and on one that holds no number it is refused.\<close>

theorem increment_result:
  assumes "isWhole by"
  shows "valueAt d (steps path) = Some v \<Longrightarrow> isWhole v \<Longrightarrow>
      incrementField d path by = setPath d (steps path) (BInt64 (wrap64 (wholeOf v + wholeOf by)))"
    and "valueAt d (steps path) = None \<Longrightarrow> incrementField d path by = setPath d (steps path) by"
    and "valueAt d (steps path) = Some v \<Longrightarrow> \<not> isNumber v \<Longrightarrow> \<exists>err. incrementField d path by = Inl err \<and> me_Code err = CodeTypeMismatch"
proof -
  have number: "isWhole v \<Longrightarrow> isNumber v" for v by (cases v) simp_all
  show "valueAt d (steps path) = Some v \<Longrightarrow> isWhole v \<Longrightarrow>
      incrementField d path by = setPath d (steps path) (BInt64 (wrap64 (wholeOf v + wholeOf by)))"
    and "valueAt d (steps path) = None \<Longrightarrow> incrementField d path by = setPath d (steps path) by"
    and "valueAt d (steps path) = Some v \<Longrightarrow> \<not> isNumber v \<Longrightarrow> \<exists>err. incrementField d path by = Inl err \<and> me_Code err = CodeTypeMismatch"
    using assms number by (simp_all add: incrementField_def bson_sum_def mongo_fail_def)
qed

theorem increment_result_witness:
  "incrementField [(''n'', BInt64 MaxInt64)] ''n'' (BInt32 1) = Inr [(''n'', BInt64 MinInt64)]"
  using increment_result(1) [of "BInt32 1" "[(''n'', BInt64 MaxInt64)]" "''n''" "BInt64 MaxInt64"]
  by (simp add: steps_def wrap64_def)

section \<open>Values the comparison cannot tell apart\<close>

text \<open>An update whose result compares as the document did is not stored.\<close>

lemma rewrite_one_lost:
  assumes "applyUpdate d change = Inr d'" "compareDocuments d d' = 0"
    "equal_values (identifier_of_stored d) (identifier_of_stored d')" "co_documents c ! index = d"
  shows "rewrite [index] change c = (Inr \<lparr>uo_matched = 1, uo_modified = 0, uo_upserted = None\<rparr>, c)"
  using assms
  by (simp add: rewrite_def checkIdentifier_def no_outcome_def identifier_of_stored_def)

lemma increment_lost_parts:
  assumes "co_documents c ! index = [(''_id'', ident), (''n'', BInt64 9007199254740992)]"
  shows "applyUpdate (co_documents c ! index) [(''$inc'', BDoc [(''n'', BInt32 1)])] =
      Inr [(''_id'', ident), (''n'', BInt64 9007199254740993)]"
    and "rewrite [index] [(''$inc'', BDoc [(''n'', BInt32 1)])] c =
      (Inr \<lparr>uo_matched = 1, uo_modified = 0, uo_upserted = None\<rparr>, c)"
proof -
  have step: "applyUpdate (co_documents c ! index) [(''$inc'', BDoc [(''n'', BInt32 1)])] =
      Inr [(''_id'', ident), (''n'', BInt64 9007199254740993)]"
    by (simp add: assms applyUpdate_one increment_result steps_def incrementField_def bson_sum_def int64_range_def)
  then show "applyUpdate (co_documents c ! index) [(''$inc'', BDoc [(''n'', BInt32 1)])] =
      Inr [(''_id'', ident), (''n'', BInt64 9007199254740993)]" .
  have "f_of_int 9007199254740992 = Fin False 4503599627370496 1" "f_of_int 9007199254740993 = Fin False 4503599627370496 1"
    by (simp_all add: f_of_int_def f_round_def shifted_out_def bit_length.simps round_half_even_def Let_def)
  then have "compare (BInt64 9007199254740992) (BInt64 9007199254740993) = 0"
    by (simp add: compare_numbers compareFloat_def)
  then have "compareDocuments [(''_id'', ident), (''n'', BInt64 9007199254740992)]
      [(''_id'', ident), (''n'', BInt64 9007199254740993)] = 0"
    by (simp add: compareDocuments_Cons sign_def)
  then show "rewrite [index] [(''$inc'', BDoc [(''n'', BInt32 1)])] c =
      (Inr \<lparr>uo_matched = 1, uo_modified = 0, uo_upserted = None\<rparr>, c)"
    using rewrite_one_lost [OF step] assms by (simp add: identifier_of_stored_def nil_or_def identifierField_def)
qed

text \<open>C39. A counter that has reached 2^53 no longer counts: the document an increment of it makes compares equal to
  the old one, because numbers are compared as \<open>float64\<close>, so it is not stored. The client is told the
  document matched and was not modified.\<close>

theorem increment_lost:
  assumes "co_documents c ! index = [(''_id'', ident), (''n'', BInt64 9007199254740992)]"
  shows "applyUpdate (co_documents c ! index) [(''$inc'', BDoc [(''n'', BInt32 1)])] =
      Inr [(''_id'', ident), (''n'', BInt64 9007199254740993)] \<and>
    rewrite [index] [(''$inc'', BDoc [(''n'', BInt32 1)])] c =
      (Inr \<lparr>uo_matched = 1, uo_modified = 0, uo_upserted = None\<rparr>, c)"
  using increment_lost_parts [OF assms] by blast

theorem increment_lost_witness:
  "rewrite [0] [(''$inc'', BDoc [(''n'', BInt32 1)])]
      \<lparr>co_name = ''c'', co_documents = [[(''_id'', BInt32 1), (''n'', BInt64 9007199254740992)]]\<rparr> =
    (Inr \<lparr>uo_matched = 1, uo_modified = 0, uo_upserted = None\<rparr>,
     \<lparr>co_name = ''c'', co_documents = [[(''_id'', BInt32 1), (''n'', BInt64 9007199254740992)]]\<rparr>)"
  using increment_lost [where index = 0 and ident = "BInt32 1" and c = "\<lparr>co_name = ''c'',
    co_documents = [[(''_id'', BInt32 1), (''n'', BInt64 9007199254740992)]]\<rparr>"] by simp

lemma NaN_equals: "isNumber v \<Longrightarrow> equal_values v (BDouble NaN) \<and> equal_values (BDouble NaN) v"
proof -
  assume v: "isNumber v"
  have "\<not> f_less x NaN" for x by (cases x) simp_all
  then show ?thesis using v by (simp add: equal_values_def compare_numbers compareFloat_def isNumber_def)
qed

text \<open>CX. NaN equals every number: a document whose \<open>_id\<close> is NaN makes the collection refuse, as a duplicate, every
  document with a number for its \<open>_id\<close>; and a filter for any number finds a field that holds NaN.\<close>

theorem NaN_is_every_number:
  assumes "isNumber v"
  shows "d \<in> set (co_documents c) \<Longrightarrow> identifier_of_stored d = BDouble NaN \<Longrightarrow> Lookup new identifierField = Some v \<Longrightarrow>
      \<exists>err. insert_document h new c drawn = (Some err, c, drawn) \<and> me_Code err = CodeDuplicateKey"
    and "matchValue [BDouble NaN] v"
proof -
  have "locate ds v \<noteq> None" if "d \<in> set ds" "identifier_of_stored d = BDouble NaN" for ds
    using that NaN_equals [OF assms] by (induction ds) auto
  then show "d \<in> set (co_documents c) \<Longrightarrow> identifier_of_stored d = BDouble NaN \<Longrightarrow> Lookup new identifierField = Some v \<Longrightarrow>
      \<exists>err. insert_document h new c drawn = (Some err, c, drawn) \<and> me_Code err = CodeDuplicateKey"
    by (simp add: insert_document_def identifierOf_def identifier_of_stored_def nil_or_def duplicate_key_def mongo_fail_def)
  show "matchValue [BDouble NaN] v"
    using NaN_equals [OF assms] by (auto simp: matchValue_def)
qed

end
