(* ===== verification/DocSafety.thy ===== *)
theory DocSafety
  imports DocLaws
begin

text \<open>
  What every command keeps. The locale \<open>collection_invariant\<close> asks a property of collections of the four operations
  on a collection and gives it for every run of commands over the whole store; it is interpreted twice:
  no two documents of a collection have equal identifiers, and every value is one a BSON encoder can write.
  For the second also cursors and replies are followed. Then: the backend forgets a faulted operation,
  and has a handler for every command the decoder accepts.
\<close>

section \<open>Invariants of collections\<close>

definition all_collections :: "(collection \<Rightarrow> bool) \<Rightarrow> Backend \<Rightarrow> bool" where
  "all_collections good b \<longleftrightarrow> (\<forall>c\<in>snd ` set (ds_collections b). good c)"

lemma all_collections_update:
  "(\<And>c. c \<in> snd ` set m \<Longrightarrow> good c) \<Longrightarrow> good c' \<Longrightarrow> c \<in> snd ` set (AList.update k c' m) \<Longrightarrow> good c"
  by (induction m) (auto split: if_splits)

lemma all_collections_delete: "x \<in> set (AList.delete k m) \<Longrightarrow> x \<in> set m"
  by (simp add: AList.delete_eq)

lemma put_collection_all: "all_collections good b \<Longrightarrow> good c \<Longrightarrow> all_collections good (put_collection k c b)"
  using all_collections_update [of "ds_collections b" good c] by (auto simp: all_collections_def put_collection_def)

lemma all_collections_drawn [simp]: "all_collections good (b\<lparr>ds_drawn := n\<rparr>) = all_collections good b"
  by (simp add: all_collections_def)

lemma all_collections_cursors [simp]: "all_collections good (b\<lparr>ds_cursors := n\<rparr>) = all_collections good b"
  by (simp add: all_collections_def)

lemma batch_collections [simp]: "all_collections good (snd (batch ns ds o' key b)) = all_collections good b"
  by (simp add: batch_def Let_def all_collections_def)

lemma batch_collections' [simp]: "batch ns ds o' key b = (r, b') \<Longrightarrow> all_collections good b' = all_collections good b"
  using batch_collections [of good ns ds o' key b] by simp

lemma kill_loop_collections: "all_collections good (snd (kill_loop cm ids k m b)) = all_collections good b"
  by (induction ids arbitrary: k m b) (auto split: sum.splits)

definition documents_ok :: "(doc \<Rightarrow> bool) \<Rightarrow> Command \<Rightarrow> gostring \<Rightarrow> bool" where
  "documents_ok ok command key = (case documentList command key of Inl _ \<Rightarrow> True | Inr ds \<Rightarrow> list_all ok ds)"

locale collection_invariant =
  fixes h :: host
    and good :: "collection \<Rightarrow> bool"
    and doc_ok :: "doc \<Rightarrow> bool"
    and spec_ok :: "doc \<Rightarrow> bool"
  assumes good_empty: "good \<lparr>co_name = name, co_documents = []\<rparr>"
    and good_insert: "good c \<Longrightarrow> doc_ok d \<Longrightarrow> good (fst (snd (insert_document h d c n)))"
    and good_remove: "good c \<Longrightarrow> good (snd (remove_documents h d c))"
    and good_update: "good c \<Longrightarrow> spec_ok d \<Longrightarrow> good (fst (snd (update_collection h d c n)))"
begin

lemma collect_good:
  "all_collections good b \<Longrightarrow> good (fst (collect name b)) \<and> all_collections good (snd (collect name b))"
proof (cases "map_of (ds_collections b) name")
  case None
  then show "all_collections good b \<Longrightarrow> ?thesis"
    using put_collection_all [of good b _ name] good_empty by (auto simp: collect_def put_collection_def Let_def)
next
  case (Some c)
  then show "all_collections good b \<Longrightarrow> ?thesis"
    using map_of_SomeD [of "ds_collections b" name c] by (force simp: collect_def all_collections_def)
qed

lemma collect_good': "all_collections good b \<Longrightarrow> collect name b = (c, b') \<Longrightarrow> good c \<and> all_collections good b'"
  using collect_good [of b name] by simp

lemma insert_loop_good:
  "good c \<Longrightarrow> list_all doc_ok ds \<Longrightarrow> good (fst (snd (snd (insert_loop h ordered i ds c n m fs))))"
proof (induction ds arbitrary: c i n m fs)
  case (Cons d ds)
  then show ?case using good_insert [of c d n] by (auto simp: Let_def split: prod.splits option.splits)
qed simp

lemma update_loop_good:
  "good c \<Longrightarrow> list_all spec_ok ds \<Longrightarrow> good (fst (snd (update_loop h i ds c n a m cr)))"
proof (induction ds arbitrary: c i n a m cr)
  case (Cons d ds)
  then show ?case using good_update [of c d n] by (auto split: prod.splits sum.splits)
qed simp

lemma delete_loop_good: "good c \<Longrightarrow> good (snd (delete_loop h ds c n))"
proof (induction ds arbitrary: c n)
  case (Cons d ds)
  then show ?case using good_remove [of c d] by (auto split: prod.splits sum.splits)
qed simp

definition command_ok :: "Command \<Rightarrow> bool" where
  "command_ok command \<longleftrightarrow> documents_ok doc_ok command ''documents'' \<and> documents_ok spec_ok command ''updates''"

lemma insert_good: "all_collections good b \<Longrightarrow> command_ok cm \<Longrightarrow> all_collections good (snd (insertCommand h cm b))"
proof -
  assume b: "all_collections good b" "command_ok cm"
  obtain c b' where c: "collect (cm_Target cm) b = (c, b')" by force
  then have g: "good c" "all_collections good b'" using collect_good' b(1) by blast+
  have "insert_loop h ordered 0 ds c n 0 [] = (p, q, c', r) \<Longrightarrow> list_all doc_ok ds \<Longrightarrow> good c'" for ordered ds n p q c' r
    using insert_loop_good [OF g(1), of ds ordered 0 n 0 "[]"] by simp
  then show ?thesis
    using b c g by (auto simp: insertCommand_def command_ok_def documents_ok_def intro!: put_collection_all
        split: sum.splits prod.splits)
qed

lemma update_good: "all_collections good b \<Longrightarrow> command_ok cm \<Longrightarrow> all_collections good (snd (updateCommand h cm b))"
proof -
  assume b: "all_collections good b" "command_ok cm"
  obtain c b' where c: "collect (cm_Target cm) b = (c, b')" by force
  then have g: "good c" "all_collections good b'" using collect_good' b(1) by blast+
  have "update_loop h 0 ds c n 0 0 [] = (p, c', r) \<Longrightarrow> list_all spec_ok ds \<Longrightarrow> good c'" for ds n p c' r
    using update_loop_good [OF g(1), of ds 0 n 0 0 "[]"] by simp
  then show ?thesis
    using b c g by (auto simp: updateCommand_def command_ok_def documents_ok_def Let_def intro!: put_collection_all
        split: sum.splits prod.splits)
qed

lemma delete_good: "all_collections good b \<Longrightarrow> all_collections good (snd (deleteCommand h cm b))"
proof -
  assume b: "all_collections good b"
  obtain c b' where c: "collect (cm_Target cm) b = (c, b')" by force
  then have g: "good c" "all_collections good b'" using collect_good' b(1) by blast+
  have "delete_loop h ds c 0 = (p, c') \<Longrightarrow> good c'" for ds p c'
    using delete_loop_good [OF g(1), of ds 0] by simp
  then show ?thesis
    using b c g by (auto simp: deleteCommand_def intro!: put_collection_all split: sum.splits prod.splits)
qed

lemma reading_good:
  assumes "all_collections good b"
  shows "all_collections good (snd (findCommand h cm b))" "all_collections good (snd (countCommand h cm b))"
    "all_collections good (snd (aggregateCommand h cm b))" "all_collections good (snd (createIndexesCommand h cm b))"
    "all_collections good (snd (listCollectionsCommand h cm b))" "all_collections good (snd (listDatabasesCommand h cm b))"
    "all_collections good (snd (getMoreCommand h cm b))" "all_collections good (snd (killCursorsCommand h cm b))"
proof -
  obtain c b' where c: "collect (cm_Target cm) b = (c, b')" by force
  then have g: "all_collections good b'" using collect_good' assms by blast
  show "all_collections good (snd (findCommand h cm b))"
    using c g assms by (auto simp: findCommand_def split: sum.splits prod.splits outcome.splits)
  show "all_collections good (snd (countCommand h cm b))"
    using c g assms by (auto simp: countCommand_def split: sum.splits prod.splits outcome.splits)
  show "all_collections good (snd (aggregateCommand h cm b))"
    using c g assms by (auto simp: aggregateCommand_def split: sum.splits prod.splits outcome.splits)
  show "all_collections good (snd (createIndexesCommand h cm b))"
    using c g by (simp add: createIndexesCommand_def)
  show "all_collections good (snd (listCollectionsCommand h cm b))"
    using assms by (auto simp: listCollectionsCommand_def split: prod.splits)
  show "all_collections good (snd (listDatabasesCommand h cm b))"
    using assms by (simp add: listDatabasesCommand_def)
  show "all_collections good (snd (getMoreCommand h cm b))"
    using assms by (simp add: getMoreCommand_def Let_def split: sum.splits option.splits)
  show "all_collections good (snd (killCursorsCommand h cm b))"
    using assms kill_loop_collections [of good cm _ "[]" "[]" b]
    by (auto simp: killCursorsCommand_def split: option.splits bson.splits prod.splits sum.splits) (metis snd_conv)+
qed

lemma drop_good:
  assumes "all_collections good b"
  shows "all_collections good (snd (dropCommand h cm b))" "all_collections good (snd (dropDatabaseCommand h cm b))"
  using assms by (auto simp: dropCommand_def dropDatabaseCommand_def all_collections_def AList.delete_eq)

definition op_ok :: "mongo_op \<Rightarrow> bool" where
  "op_ok o' \<longleftrightarrow> (case op_Payload o' of None \<Rightarrow> True | Some cm \<Rightarrow> command_ok cm)"

lemma handler_good:
  "map_of doc_handlers kind = Some handle \<Longrightarrow> all_collections good b \<Longrightarrow> command_ok cm \<Longrightarrow>
   all_collections good (snd (handle h cm b))"
  using insert_good update_good delete_good reading_good drop_good
  by (auto simp: doc_handlers_def split: if_splits)

lemma Exec_good:
  "all_collections good b \<Longrightarrow> op_ok o' \<Longrightarrow> all_collections good (snd (doc_Exec h o' b))"
  using handler_good [of "op_Kind o'" _ b "the (op_Payload o')"]
  by (auto simp: doc_Exec_def op_ok_def split: option.splits prod.splits outcome.splits)

lemma run_good:
  "all_collections good b \<Longrightarrow> list_all op_ok os \<Longrightarrow> all_collections good (foldl (\<lambda>b o'. snd (doc_Exec h o' b)) b os)"
  by (induction os arbitrary: b) (simp_all add: Exec_good)

end

section \<open>Equality of values\<close>

text \<open>\<open>compare\<close> answers 0 symmetrically, NaN or not, and transitively through a value without NaN.\<close>

fun without_NaN :: "bson \<Rightarrow> bool" where
  "without_NaN (BDouble x) = (x \<noteq> NaN)"
| "without_NaN (BDoc d) = list_all (\<lambda>(_, v). without_NaN v) d"
| "without_NaN (BArr a) = list_all without_NaN a"
| "without_NaN _ = True"

lemma without_NaN_in:
  "without_NaN (BDoc d) \<Longrightarrow> f \<in> set d \<Longrightarrow> without_NaN (snd f)" "without_NaN (BArr a) \<Longrightarrow> v \<in> set a \<Longrightarrow> without_NaN v"
  by (auto simp: list_all_iff)

lemma size_in_doc_snd: "f \<in> set d \<Longrightarrow> size (snd f) < size (BDoc d)"
  using size_in_doc [of "fst f" "snd f" d] by (metis prod.collapse)

lemma sign_zero: "sign i = 0 \<longleftrightarrow> i = 0"
  by (simp add: sign_def)

lemma first_of_zero: "first_of a b = 0 \<longleftrightarrow> a = 0 \<and> b = 0"
  by (simp add: first_of_def)

lemma compareString_zero: "compareString s s' = 0 \<longleftrightarrow> s = s'"
  by (auto simp: compareString_def)

lemma compareInt_zero: "compareInt i j = 0 \<longleftrightarrow> (word_of_int i :: 64 word) = word_of_int j"
  by (simp add: compareInt_def sign_zero wrap64_word signed_eq_0_iff)

lemma compareFloat_zero: "compareFloat x y = 0 \<longleftrightarrow> \<not> f_less x y \<and> \<not> f_less y x"
  by (simp add: compareFloat_def)

lemma compareFloat_zero_trans:
  "y \<noteq> NaN \<Longrightarrow> compareFloat x y = 0 \<Longrightarrow> compareFloat y z = 0 \<Longrightarrow> compareFloat x z = 0"
proof (cases "x = NaN \<or> z = NaN")
  case True
  have "\<not> f_less v NaN" for v by (cases v) simp_all
  then show ?thesis using True by (auto simp: compareFloat_def)
next
  case False
  then show "y \<noteq> NaN \<Longrightarrow> compareFloat x y = 0 \<Longrightarrow> compareFloat y z = 0 \<Longrightarrow> ?thesis"
    using float_order.tied [of x y z] by simp
qed

lemma compareArrays_zero: "compareArrays xs ys = 0 \<longleftrightarrow> list_all2 (\<lambda>v w. compare v w = 0) xs ys"
  by (induction xs ys rule: list_induct2') (simp_all add: list_compares first_of_zero sign_zero del: compareArrays.simps(3))

lemma compareDocuments_zero:
  "compareDocuments xs ys = 0 \<longleftrightarrow> list_all2 (\<lambda>f g. fst f = fst g \<and> compare (snd f) (snd g) = 0) xs ys"
proof (induction xs ys rule: list_induct2')
  case (4 x xs y ys)
  then show ?case by (cases x; cases y) (simp add: compareDocuments_Cons first_of_zero compareString_zero del: compareDocuments.simps(3))
qed (simp_all add: list_compares sign_zero)

lemma compare_zero_rank: "compare x y = 0 \<Longrightarrow> rankOf x = rankOf y"
  using compare_ranks [of x y] by (auto simp: sign_zero)

lemma equal_values_zero: "equal_values x y \<longleftrightarrow> compare x y = 0"
  using compare_zero_rank by (auto simp: equal_values_def)

lemma compare_zero_sym: "compare x y = 0 \<Longrightarrow> compare y x = 0"
proof (induction x arbitrary: y rule: measure_induct_rule [of size])
  case (less x)
  note other = same_rank_other [OF compare_zero_rank [OF less.prems]]
  show ?case
  proof (cases x rule: value_cases)
    case 1
    then show ?thesis using less.prems other(1) by (simp add: compare_numbers compareFloat_zero)
  next
    case 2
    then show ?thesis
      using compare_valueless [of x y] compare_valueless [of y x] compare_zero_rank [OF less.prems] by simp
  next
    case (4 d)
    obtain d' where y: "y = BDoc d'" using other(3) [OF 4] by blast
    have "list_all2 (\<lambda>f g. fst f = fst g \<and> compare (snd f) (snd g) = 0) d d'"
      using less.prems 4 y by (simp add: compareDocuments_zero)
    then have "list_all2 (\<lambda>g f. fst f = fst g \<and> compare (snd f) (snd g) = 0) d' d" by (simp add: list_all2_conv_all_nth)
    then have "list_all2 (\<lambda>g f. fst g = fst f \<and> compare (snd g) (snd f) = 0) d' d"
    proof (rule list.rel_mono_strong)
      fix g f assume f: "f \<in> set d" "fst f = fst g \<and> compare (snd f) (snd g) = 0"
      then have "size (snd f) < size x" using size_in_doc_snd [of f d] 4 by simp
      then show "fst g = fst f \<and> compare (snd g) (snd f) = 0" using less.IH [of "snd f" "snd g"] f(2) by simp
    qed
    then show ?thesis using 4 y by (simp add: compareDocuments_zero)
  next
    case (5 a)
    obtain a' where y: "y = BArr a'" using other(4) [OF 5] by blast
    have "list_all2 (\<lambda>v w. compare v w = 0) a a'" using less.prems 5 y by (simp add: compareArrays_zero)
    then have "list_all2 (\<lambda>w v. compare v w = 0) a' a" by (simp add: list_all2_conv_all_nth)
    then have "list_all2 (\<lambda>w v. compare w v = 0) a' a"
    proof (rule list.rel_mono_strong)
      fix w v assume "v \<in> set a" "compare v w = 0"
      then show "compare w v = 0" using less.IH [of v w] size_in_arr [of v a] 5 by simp
    qed
    then show ?thesis using 5 y by (simp add: compareArrays_zero)
  qed (use other less.prems in \<open>auto simp: compareString_zero compareInt_zero sign_zero compareTimestamps_first compareRegexes_first first_of_zero\<close>)
qed

lemma compare_zero_trans:
  "without_NaN y \<Longrightarrow> compare x y = 0 \<Longrightarrow> compare y z = 0 \<Longrightarrow> compare x z = 0"
proof (induction y arbitrary: x z rule: measure_induct_rule [of size])
  case (less y)
  have ranks: "rankOf y = rankOf x" "rankOf y = rankOf z"
    using compare_zero_rank [OF less.prems(2)] compare_zero_rank [OF less.prems(3)] by simp_all
  note x = same_rank_other [OF ranks(1)]
  note z = same_rank_other [OF ranks(2)]
  show ?case
  proof (cases y rule: value_cases)
    case 1
    then have "numberOf y \<noteq> NaN" using less.prems(1) by (cases y) (simp_all add: isNumber_def rank_defs)
    then show ?thesis
      using 1 less.prems(2,3) x(1) z(1) compareFloat_zero_trans [of "numberOf y" "numberOf x" "numberOf z"] by (simp add: compare_numbers)
  next
    case 2
    then show ?thesis using compare_valueless [of y x] compare_valueless [of x z] ranks by simp
  next
    case (4 d)
    obtain d1 d2 where xz: "x = BDoc d1" "z = BDoc d2" using x(3) [OF 4] z(3) [OF 4] by blast
    have *: "list_all2 (\<lambda>f g. fst f = fst g \<and> compare (snd f) (snd g) = 0) d1 d"
        "list_all2 (\<lambda>f g. fst f = fst g \<and> compare (snd f) (snd g) = 0) d d2"
      using less.prems 4 xz by (simp_all add: compareDocuments_zero)
    have "compare (snd (d1 ! i)) (snd (d2 ! i)) = 0" if "i < length d" for i
      using less.IH [of "snd (d ! i)" "snd (d1 ! i)" "snd (d2 ! i)"] that * less.prems(1) 4 nth_mem [OF that]
        size_in_doc_snd [of "d ! i" d] without_NaN_in(1) [of d "d ! i"]
      by (simp add: list_all2_conv_all_nth)
    then show ?thesis using * xz by (simp add: compareDocuments_zero list_all2_conv_all_nth)
  next
    case (5 a)
    obtain a1 a2 where xz: "x = BArr a1" "z = BArr a2" using x(4) [OF 5] z(4) [OF 5] by blast
    have *: "list_all2 (\<lambda>v w. compare v w = 0) a1 a" "list_all2 (\<lambda>v w. compare v w = 0) a a2"
      using less.prems 5 xz by (simp_all add: compareArrays_zero)
    have "compare (a1 ! i) (a2 ! i) = 0" if "i < length a" for i
      using less.IH [of "a ! i" "a1 ! i" "a2 ! i"] that * less.prems(1) 5 nth_mem [OF that]
        size_in_arr [of "a ! i" a] without_NaN_in(2) [of a "a ! i"]
      by (simp add: list_all2_conv_all_nth)
    then show ?thesis using * xz by (simp add: compareArrays_zero list_all2_conv_all_nth)
  qed (use x z less.prems in \<open>auto simp: compareString_zero compareInt_zero sign_zero compareTimestamps_first compareRegexes_first first_of_zero\<close>)
qed

section \<open>Identifiers\<close>

text \<open>A stored document begins with its \<open>_id\<close>, and no two of a collection have an equal one.\<close>

definition stored_ok :: "doc \<Rightarrow> bool" where
  "stored_ok d \<longleftrightarrow> (case d of [] \<Rightarrow> False | f # _ \<Rightarrow> fst f = identifierField)"

definition ids_unique :: "collection \<Rightarrow> bool" where
  "ids_unique c \<longleftrightarrow> list_all stored_ok (co_documents c) \<and>
     sorted_wrt (\<lambda>x y. \<not> equal_values x y) (map identifier_of_stored (co_documents c))"

text \<open>An update that may write a new \<open>_id\<close>, so long as it is a value without NaN and written whole by \<open>$set\<close>: no other
  operator of it has a path beginning there. A replacement always keeps the \<open>_id\<close>.\<close>

definition sound_change :: "gostring \<Rightarrow> gostring \<times> bson \<Rightarrow> bool" where
  "sound_change key change \<longleftrightarrow>
     hd (steps (fst change)) \<noteq> identifierField \<or> key = ''$set'' \<and> fst change = identifierField \<and> without_NaN (snd change)"

definition sound_update :: "doc \<Rightarrow> bool" where
  "sound_update update = list_all (\<lambda>(key, v). has_dollar key \<longrightarrow>
     (case v of BDoc changes \<Rightarrow> list_all (sound_change key) changes | _ \<Rightarrow> True)) update"

definition sound_spec :: "doc \<Rightarrow> bool" where
  "sound_spec spec = (case Lookup spec ''u'' of Some (BDoc change) \<Rightarrow> sound_update change | _ \<Rightarrow> True)"

lemma sound_update_Nil [simp]: "sound_update []"
  by (simp add: sound_update_def)

lemma locate_None: "locate ds v = None \<longleftrightarrow> list_all (\<lambda>d. \<not> equal_values (identifier_of_stored d) v) ds"
  by (induction ds) auto

lemma identifier_withIdentifier [simp]: "identifier_of_stored (withIdentifier d v) = v"
  by (simp add: identifier_of_stored_def nil_or_def)

lemma stored_withIdentifier [simp]: "stored_ok (withIdentifier d v)"
  by (simp add: stored_ok_def withIdentifier_def)

lemma insert_ids: "ids_unique c \<Longrightarrow> ids_unique (fst (snd (insert_document h d c n)))"
  by (cases rule: insert_document_cases [of h d c n])
    (simp_all add: ids_unique_def sorted_wrt_append locate_None list_all_iff)

text \<open>What such an update does to one document: its \<open>_id\<close> stays, or is a value without NaN.\<close>

definition keeps_id :: "doc \<Rightarrow> doc \<Rightarrow> bool" where
  "keeps_id d d' \<longleftrightarrow> stored_ok d' \<and>
     (identifier_of_stored d' = identifier_of_stored d \<or> without_NaN (identifier_of_stored d'))"

lemma stored_withField: "stored_ok d \<Longrightarrow> p \<noteq> identifierField \<Longrightarrow> keeps_id d (withField d p v)"
  by (cases d) (auto simp: stored_ok_def keeps_id_def identifier_of_stored_def split: prod.splits)

lemma stored_new_id: "stored_ok d \<Longrightarrow> without_NaN v \<Longrightarrow> keeps_id d (withField d identifierField v)"
  by (cases d) (auto simp: stored_ok_def keeps_id_def identifier_of_stored_def nil_or_def split: prod.splits)

lemma stored_without: "stored_ok d \<Longrightarrow> p \<noteq> identifierField \<Longrightarrow> keeps_id d (without d p)"
  by (cases d) (auto simp: stored_ok_def keeps_id_def identifier_of_stored_def split: prod.splits)

lemma keeps_id_refl: "stored_ok d \<Longrightarrow> keeps_id d d"
  by (simp add: keeps_id_def)

lemma stored_setPath:
  "stored_ok d \<Longrightarrow> path \<noteq> [] \<Longrightarrow> hd path \<noteq> identifierField \<Longrightarrow> setPath d path v = Inr d' \<Longrightarrow> keeps_id d d'"
  by (cases path) (auto simp: stored_withField split: if_splits option.splits bson.splits sum.splits)

lemma stored_unsetPath:
  "stored_ok d \<Longrightarrow> path \<noteq> [] \<Longrightarrow> hd path \<noteq> identifierField \<Longrightarrow> keeps_id d (unsetPath d path)"
  by (cases path) (auto simp: stored_withField stored_without keeps_id_refl split: option.splits bson.splits)

lemma stored_operator:
  assumes "map_of update_operators key = Some apply" "stored_ok d" "sound_change key (path, v)" "apply d path v = Inr d'"
  shows "keeps_id d d'"
proof (cases "hd (steps path) = identifierField")
  case True
  then have "key = ''$set''" "path = identifierField" "without_NaN v" using assms(3) by (simp_all add: sound_change_def)
  moreover have "steps identifierField = [identifierField]" by (simp add: steps_def identifierField_def)
  ultimately show ?thesis using assms(1,2,4) stored_new_id by (auto simp: update_operators_def setField_def)
next
  case False
  then show ?thesis
    using assms stored_setPath [OF assms(2) steps_nonempty False] stored_unsetPath [OF assms(2) steps_nonempty False]
    by (auto simp: update_operators_def setField_def incrementField_def unsetField_def split: if_splits option.splits)
qed

lemma keeps_id_trans: "keeps_id d d' \<Longrightarrow> keeps_id d' d'' \<Longrightarrow> keeps_id d d''"
  by (auto simp: keeps_id_def)

lemma stored_changes:
  assumes "map_of update_operators key = Some apply"
  shows "stored_ok d \<Longrightarrow> list_all (sound_change key) changes \<Longrightarrow>
    apply_changes apply d changes = Inr d' \<Longrightarrow> keeps_id d d'"
proof (induction changes arbitrary: d)
  case (Cons f changes)
  obtain path v where f: "f = (path, v)" by force
  then obtain d1 where d1: "apply d path v = Inr d1" "apply_changes apply d1 changes = Inr d'"
    using Cons.prems(3) by (auto split: sum.splits)
  then have "keeps_id d d1" using stored_operator [OF assms Cons.prems(1), of path v d1] Cons.prems(2) f by simp
  then show ?case using Cons.IH [of d1] d1 Cons.prems(2) keeps_id_trans [of d d1 d'] by (simp add: keeps_id_def)
qed (simp add: keeps_id_refl)

lemma stored_operators:
  "stored_ok d \<Longrightarrow> list_all (has_dollar \<circ> fst) update \<Longrightarrow> sound_update update \<Longrightarrow> apply_operators d update = Inr d' \<Longrightarrow> keeps_id d d'"
proof (induction update arbitrary: d)
  case (Cons f update)
  obtain key v where f: "f = (key, v)" by force
  then obtain d1 where d1: "applyOperator d key v = Inr d1" "apply_operators d1 update = Inr d'"
    using Cons.prems(4) by (auto split: sum.splits)
  then obtain act changes where "map_of update_operators key = Some act" "v = BDoc changes"
    "apply_changes act d changes = Inr d1" by (auto simp: applyOperator_def split: option.splits bson.splits)
  then have "keeps_id d d1" using stored_changes Cons.prems f by (auto simp: sound_update_def)
  then show ?case using Cons.IH [of d1] d1 Cons.prems keeps_id_trans [of d d1 d'] by (simp add: keeps_id_def sound_update_def)
qed (simp add: keeps_id_refl)

lemma stored_has_id: "stored_ok d \<Longrightarrow> \<exists>v. Lookup d identifierField = Some v"
  by (cases d) (auto simp: stored_ok_def split: prod.splits)

lemma update_keeps_id:
  assumes "stored_ok d" "sound_update change" "applyUpdate d change = Inr d'"
  shows "keeps_id d d'"
proof (cases "change \<noteq> [] \<and> \<not> has_dollar (fst (hd change))")
  case True
  then have "d' = replace_document d change" using assms(3) by (simp add: applyUpdate_def split: option.splits)
  then show ?thesis using stored_has_id [OF assms(1)] by (auto simp: replace_document_def keeps_id_def identifier_of_stored_def)
next
  case False
  then have *: "checkUpdateShape change = None" "apply_operators d change = Inr d'"
    using assms(3) by (auto simp: applyUpdate_def split: option.splits)
  then have "list_all (has_dollar \<circ> fst) change"
    using False by (cases change) (auto simp: checkUpdateShape_def Let_def list_all_iff filter_empty_conv split: if_splits)
  then show ?thesis using stored_operators [OF assms(1) _ assms(2) *(2)] by simp
qed

text \<open>An identifier that stayed, or that is without NaN and equal to the old one, meets no other where the old one met
  none.\<close>

lemma replaced_identifier_apart:
  assumes "b = a \<or> without_NaN b" "equal_values a b"
  shows "\<not> equal_values a x \<Longrightarrow> \<not> equal_values b x" "\<not> equal_values x a \<Longrightarrow> \<not> equal_values x b"
proof -
  have ab: "compare a b = 0" "compare b a = 0" using assms(2) compare_zero_sym by (auto simp: equal_values_zero)
  have "compare b x = 0 \<Longrightarrow> compare a x = 0" using assms(1) compare_zero_trans [of b a x] ab(1) by blast
  then show "\<not> equal_values a x \<Longrightarrow> \<not> equal_values b x" by (auto simp: equal_values_zero)
  have "compare x b = 0 \<Longrightarrow> compare x a = 0" using assms(1) compare_zero_trans [of b x a] ab(2) by blast
  then show "\<not> equal_values x a \<Longrightarrow> \<not> equal_values x b" by (auto simp: equal_values_zero)
qed

lemma sorted_wrt_update:
  assumes "sorted_wrt P xs" "i < length xs" "\<And>x. P (xs ! i) x \<Longrightarrow> P y x" "\<And>x. P x (xs ! i) \<Longrightarrow> P x y"
  shows "sorted_wrt P (xs[i := y])"
  using assms by (simp add: sorted_wrt_iff_nth_less nth_list_update)

lemma ids_update_at:
  assumes "ids_unique c" "i < length (co_documents c)" "keeps_id (co_documents c ! i) d'"
    "checkIdentifier (co_documents c ! i) d' = None"
  shows "ids_unique (c\<lparr>co_documents := (co_documents c)[i := d']\<rparr>)"
proof -
  let ?ids = "map identifier_of_stored (co_documents c)"
  have "equal_values (?ids ! i) (identifier_of_stored d')"
    using assms(2,4) by (simp add: checkIdentifier_def identifier_of_stored_def split: if_splits)
  moreover have "identifier_of_stored d' = ?ids ! i \<or> without_NaN (identifier_of_stored d')"
    using assms(2,3) by (simp add: keeps_id_def)
  ultimately have "sorted_wrt (\<lambda>x y. \<not> equal_values x y) (?ids[i := identifier_of_stored d'])"
    using assms(1,2) replaced_identifier_apart by (intro sorted_wrt_update) (simp_all add: ids_unique_def)
  then show ?thesis
    using assms(1,3) set_update_subset_insert [of "co_documents c" i d']
    by (auto simp: ids_unique_def keeps_id_def list_all_iff map_update)
qed

lemma rewrite_ids:
  "ids_unique c \<Longrightarrow> sound_update change \<Longrightarrow> list_all (\<lambda>i. i < length (co_documents c)) selected \<Longrightarrow>
   ids_unique (snd (rewrite_loop selected change c outcome))"
proof (induction selected arbitrary: c outcome)
  case (Cons i selected)
  let ?d = "co_documents c ! i"
  have "stored_ok ?d" using Cons.prems by (simp add: ids_unique_def list_all_iff)
  then have "applyUpdate ?d change = Inr d' \<Longrightarrow> keeps_id ?d d'" for d' using update_keeps_id Cons.prems(2) by blast
  then show ?case
    using Cons ids_update_at [OF Cons.prems(1)] by (auto simp: Let_def split: sum.splits option.splits)
qed simp

lemma selectFor_bound: "selectFor h i ds query all = Inr selected \<Longrightarrow> list_all (\<lambda>j. j < i + length ds) selected"
  by (induction ds arbitrary: i selected) (force split: sum.splits if_splits)+

lemma update_ids: "ids_unique c \<Longrightarrow> sound_spec spec \<Longrightarrow> ids_unique (fst (snd (update_collection h spec c n)))"
proof -
  assume c: "ids_unique c" "sound_spec spec"
  have change: "requiredDocument ''an update'' spec ''u'' = Inr change \<Longrightarrow> sound_update change" for change
    using c(2) by (cases "Lookup spec ''u''")
      (auto simp: requiredDocument_def documentAt_def sound_spec_def split: bson.splits)
  have created: "ids_unique (fst (snd (create_upserted h query change c n)))" for query change
    using insert_ids [OF c(1)] by (auto simp: create_upserted_def c(1) split: prod.splits sum.splits option.splits) (metis fst_conv snd_conv)+
  have rewritten: "selectFor h 0 (co_documents c) query all = Inr selected \<Longrightarrow> sound_update change \<Longrightarrow>
      ids_unique (snd (rewrite selected change c))" for query all selected change
    unfolding rewrite_def using selectFor_bound c(1) by (intro rewrite_ids) fastforce+
  show ?thesis
    using created rewritten change c(1)
    by (auto simp: update_collection_def split: sum.splits prod.splits) (metis snd_conv)+
qed

lemma ids_delete_at: "ids_unique c \<Longrightarrow> ids_unique (c\<lparr>co_documents := delete_at p (co_documents c)\<rparr>)"
proof -
  assume c: "ids_unique c"
  have "set (delete_at p (co_documents c)) \<subseteq> set (co_documents c)"
    by (auto simp: delete_at_def dest: in_set_takeD in_set_dropD)
  moreover have "sorted_wrt P xs \<Longrightarrow> sorted_wrt P (delete_at p xs)" for P and xs :: "bson list"
  proof -
    assume "sorted_wrt P xs"
    then have "sorted_wrt P (take p xs @ drop p xs)" by simp
    moreover have "set (drop (Suc p) xs) \<subseteq> set (drop p xs)" by (rule set_drop_subset_set_drop) simp
    ultimately show ?thesis
      using sorted_wrt_drop [OF \<open>sorted_wrt P xs\<close>, of "Suc p"] unfolding delete_at_def sorted_wrt_append by blast
  qed
  moreover have "map f (delete_at p ds) = delete_at p (map f ds)" for f :: "doc \<Rightarrow> bson" and ds
    by (simp add: delete_at_def take_map drop_map)
  ultimately show ?thesis using c by (auto simp: ids_unique_def list_all_iff)
qed

lemma remove_ids: "ids_unique c \<Longrightarrow> ids_unique (snd (remove_documents h spec c))"
proof -
  assume c: "ids_unique c"
  have "ids_unique (c\<lparr>co_documents := foldr delete_at ps (co_documents c)\<rparr>)" for ps
  proof (induction ps)
    case (Cons p ps)
    from ids_delete_at [OF this, of p] show ?case by simp
  qed (use c in simp)
  then show ?thesis using c by (auto simp: remove_documents_def split: sum.splits)
qed

interpretation identifiers: collection_invariant h ids_unique "\<lambda>_. True" sound_spec for h
  by unfold_locales (simp_all add: ids_unique_def [of "\<lparr>co_name = _, co_documents = []\<rparr>"] insert_ids remove_ids update_ids)

text \<open>What a lesson's seed does to the collections.\<close>

lemma seed_loop_ids: "ids_unique c \<Longrightarrow> ids_unique (fst (snd (seed_loop_documents h name i entries c n)))"
proof (induction entries arbitrary: c i n)
  case (Cons entry entries)
  then show ?case
    using insert_ids [OF Cons.prems, of h _ n] by (auto split: sum.splits prod.splits option.splits) (metis fst_conv snd_conv)+
qed simp

lemma seedCollection_ids:
  "all_collections ids_unique b \<Longrightarrow> all_collections ids_unique (snd (seedCollection h name decoded b))"
proof (cases decoded)
  case (Listed entries)
  assume b: "all_collections ids_unique b"
  obtain c b' where c: "collect name b = (c, b')" by force
  then have g: "ids_unique c" "all_collections ids_unique b'" using identifiers.collect_good' b by blast+
  obtain err c' n where l: "seed_loop_documents h name 0 entries c (ds_drawn b') = (err, c', n)" by (metis prod_cases3)
  then have "ids_unique c'" using seed_loop_ids [OF g(1)] by (metis fst_conv snd_conv)
  then show ?thesis using c l g(2) put_collection_all by (simp add: seedCollection_def Listed)
qed (simp add: seedCollection_def)

lemma seed_ids: "all_collections ids_unique b \<Longrightarrow> all_collections ids_unique (snd (seed_collections h m names b))"
proof (induction names arbitrary: b)
  case (Cons name names)
  then show ?case
    using seedCollection_ids [OF Cons.prems, of h name] by (auto split: option.splits prod.splits) (metis snd_conv)+
qed simp

definition run_documents :: "host \<Rightarrow> Backend \<Rightarrow> mongo_op list \<Rightarrow> Backend" where
  "run_documents h b os = foldl (\<lambda>b o'. snd (doc_Exec h o' b)) b os"

text \<open>C7. Identifiers stay unique: whatever the lesson seeds and whatever sequence of commands clients then send,
  every document of every collection begins with its \<open>_id\<close> and no two of a collection have equal ones. An update
  may \<open>$set\<close> the \<open>_id\<close> to any value without NaN, that of another document included, which is what the check
  of \<open>rewrite\<close> refuses; left out are only updates that set it to a value holding NaN, that apply \<open>$inc\<close> or \<open>$unset\<close> to
  it, or that write inside it. Replacements, upserts, batches that fail half way, and inserts of any
  identifier, NaN among them, are all covered.\<close>

theorem identifiers_unique:
  assumes "list_all identifiers.op_ok os"
  shows "all_collections ids_unique (run_documents h (snd (Seed_docstore h seed (New_Backend drawn))) os)"
proof -
  have "all_collections ids_unique (New_Backend drawn)" by (simp add: all_collections_def New_Backend_def)
  then have "all_collections ids_unique (snd (Seed_docstore h seed (New_Backend drawn)))"
    using seed_ids by (auto simp: Seed_docstore_def split: decoded_seed.splits)
  then show ?thesis unfolding run_documents_def using assms by (rule identifiers.run_good)
qed

definition mongo_op_of :: "Command \<Rightarrow> mongo_op" where
  "mongo_op_of command = \<lparr>op_Emulator = ''mongo'', op_Kind = cm_Kind command, op_Target = cm_Target command,
     op_Gauges = [], op_Payload = Some command\<rparr>"

definition insert_command :: "gostring \<Rightarrow> doc list \<Rightarrow> Command" where
  "insert_command name ds = \<lparr>cm_Name = ''insert'', cm_Kind = Mongo_KindInsert, cm_Target = name, cm_Collection = True,
     cm_Database = mongo_Database, cm_Document = [Field ''insert'' (BString name), Field ''documents'' (BArr (map BDoc ds))],
     cm_Server = False\<rparr>"

definition update_command :: "gostring \<Rightarrow> doc \<Rightarrow> doc \<Rightarrow> Command" where
  "update_command name q u = \<lparr>cm_Name = ''update'', cm_Kind = Mongo_KindUpdate, cm_Target = name, cm_Collection = True,
     cm_Database = mongo_Database, cm_Document = [Field ''update'' (BString name),
       Field ''updates'' (BArr [BDoc [Field ''q'' (BDoc q), Field ''u'' (BDoc u)]])], cm_Server = False\<rparr>"

theorem identifiers_unique_witness:
  "all_collections ids_unique (run_documents plain_host (New_Backend 0)
     [mongo_op_of (insert_command ''a'' [[(''_id'', BInt32 1)], [(''_id'', BInt32 2)]]),
      mongo_op_of (update_command ''a'' [(''_id'', BInt32 1)] [(''$set'', BDoc [(''_id'', BInt32 2)])])])"
proof -
  have "list_all identifiers.op_ok
      [mongo_op_of (insert_command ''a'' [[(''_id'', BInt32 1)], [(''_id'', BInt32 2)]]),
       mongo_op_of (update_command ''a'' [(''_id'', BInt32 1)] [(''$set'', BDoc [(''_id'', BInt32 2)])])]"
    by (simp add: identifiers.op_ok_def identifiers.command_ok_def mongo_op_of_def insert_command_def update_command_def
        documents_ok_def documentList_def sound_spec_def sound_update_def sound_change_def identifierField_def
        split: sum.splits)
  from identifiers_unique [OF this, of plain_host NoSeed 0] show ?thesis by (simp add: Seed_docstore_def)
qed

text \<open>C39. An update operator on \<open>_id\<close> is refused unless the new value compares equal to the old one, and NaN compares
  equal to every number: two documents with the identifiers 1 and 2 become two whose identifiers are
  equal, and a query for one of them finds both.\<close>

definition poisoned :: "doc list" where
  "poisoned = [[(''_id'', BDouble NaN), (''x'', BInt32 1)], [(''_id'', BInt32 2)]]"

theorem NaN_identifier_accepted:
  "rewrite [0] [(''$set'', BDoc [(''_id'', BDouble NaN), (''x'', BInt32 1)])]
      \<lparr>co_name = name, co_documents = [[(''_id'', BInt32 1)], [(''_id'', BInt32 2)]]\<rparr> =
    (Inr \<lparr>uo_matched = 1, uo_modified = 1, uo_upserted = None\<rparr>, \<lparr>co_name = name, co_documents = poisoned\<rparr>) \<and>
   \<not> ids_unique \<lparr>co_name = name, co_documents = poisoned\<rparr>"
proof -
  let ?new = "[(''_id'', BDouble NaN), (''x'', BInt32 1)]"
  have set: "applyUpdate [(''_id'', BInt32 1)] [(''$set'', BDoc [(''_id'', BDouble NaN), (''x'', BInt32 1)])] = Inr ?new"
    by (simp add: applyUpdate_def checkUpdateShape_def applyOperator_def update_operators_def setField_def steps_def)
  have "compare (BInt32 1) (BDouble NaN) = 0" using NaN_equals [of "BInt32 1"] by (simp add: equal_values_def)
  then have "compareDocuments [(''_id'', BInt32 1)] ?new \<noteq> 0" by (simp add: compareDocuments_Cons sign_def)
  then show ?thesis
    using set NaN_equals [of "BInt32 1"] NaN_equals [of "BInt32 2"]
    by (simp add: rewrite_def no_outcome_def checkIdentifier_def identifierField_def nil_or_def poisoned_def ids_unique_def
        identifier_of_stored_def)
qed

section \<open>The backend behind the serve loop\<close>

interpretation document_backend: forgetful_backend "doc_Exec h" doc_Abort for h
  by unfold_locales (simp add: doc_Abort_def)

lemma doc_handlers_known: "kind \<in> set known_kinds \<Longrightarrow> map_of doc_handlers kind \<noteq> None"
  by (auto simp: known_kinds_def mongo_commands_def doc_handlers_def mongo_kind_defs)

text \<open>CX. No emulated database command falls between decoder and backend: what \<open>Read\<close> accepts as a command on the data
  is executed by the handler of its kind, so its answer is that handler's (with ok at its end), and a
  fault injected in its place leaves the store as it was.\<close>

theorem commands_are_handled:
  assumes "Read document = Inr command" "\<not> cm_Server command" "op_Payload o' = Some command" "op_Kind o' = cm_Kind command"
  shows "\<exists>handle. map_of doc_handlers (cm_Kind command) = Some handle \<and>
      (\<forall>b. snd (doc_Exec h o' b) = snd (handle h command b) \<and>
        (\<forall>reply. fst (handle h command b) = Ok reply \<longrightarrow>
          fst (doc_Exec h o' b) = Ok (mongo_Reply (reply @ [Field ''ok'' (BDouble f_one)]))))"
    and "exec e = doc_Exec h \<Longrightarrow> abort e = doc_Abort \<Longrightarrow> v_DropConn v \<or> v_Err v \<noteq> None \<Longrightarrow>
      st_executor (step e s b v o') = b"
proof -
  have kind: "cm_Kind command \<in> set known_kinds" by (rule Read_kind [OF assms(1,2)])
  then have connect: "op_Kind o' \<noteq> KindConnect"
    unfolding assms(4) by (auto simp: known_kinds_def mongo_commands_def mongo_kind_defs KindConnect_def)
  obtain handle where "map_of doc_handlers (cm_Kind command) = Some handle" using doc_handlers_known [OF kind] by auto
  then show "\<exists>handle. map_of doc_handlers (cm_Kind command) = Some handle \<and>
      (\<forall>b. snd (doc_Exec h o' b) = snd (handle h command b) \<and>
        (\<forall>reply. fst (handle h command b) = Ok reply \<longrightarrow>
          fst (doc_Exec h o' b) = Ok (mongo_Reply (reply @ [Field ''ok'' (BDouble f_one)]))))"
    using connect assms(3,4) by (auto simp: doc_Exec_def split: prod.splits outcome.splits)
  show "exec e = doc_Exec h \<Longrightarrow> abort e = doc_Abort \<Longrightarrow> v_DropConn v \<or> v_Err v \<noteq> None \<Longrightarrow>
      st_executor (step e s b v o') = b"
    using document_backend.faulted_untouched [of e v s b o'] by simp
qed

end
