(* ===== verification/DocPaging.thy ===== *)
theory DocPaging
  imports DocSafety
begin

text \<open>
  Whole reads: what \<open>find\<close> answers, and what a client gets that opens a cursor and asks for more until the
  cursor's identifier is zero. \<open>iterate\<close> is that client; its fuel is the number of getMore commands it may
  send. The \<open>skip\<close> that takes the process down is here too.
\<close>

section \<open>The client\<close>

definition getMore_command :: "gostring \<Rightarrow> gostring \<Rightarrow> int \<Rightarrow> int \<Rightarrow> Command" where
  "getMore_command database name ident size' = \<lparr>cm_Name = ''getMore'', cm_Kind = Mongo_KindGetMore, cm_Target = name,
     cm_Collection = True, cm_Database = database,
     cm_Document = [Field ''getMore'' (BInt64 ident), Field ''collection'' (BString name), Field ''batchSize'' (BInt32 size'),
       Field ''$db'' (BString database)], cm_Server = False\<rparr>"

text \<open>What a driver reads off a cursor reply: the page and the identifier to go on with.\<close>

definition read_cursor :: "gostring \<Rightarrow> doc \<Rightarrow> (doc list \<times> int) option" where
  "read_cursor key answer =
     (case Lookup answer ''cursor'' of
        Some (BDoc c) \<Rightarrow>
          (case (Lookup c key, Lookup c ''id'') of
             (Some (BArr page), Some (BInt64 ident)) \<Rightarrow>
               Some (map (\<lambda>v. case v of BDoc d \<Rightarrow> d | _ \<Rightarrow> []) page, ident)
           | _ \<Rightarrow> None)
      | _ \<Rightarrow> None)"

fun iterate :: "nat \<Rightarrow> host \<Rightarrow> gostring \<Rightarrow> gostring \<Rightarrow> int \<Rightarrow> int \<Rightarrow> Backend \<Rightarrow> (doc list \<times> Backend) option" where
  "iterate fuel h database name size' ident b =
     (if ident = 0 then Some ([], b)
      else case fuel of
        0 \<Rightarrow> None
      | Suc fuel \<Rightarrow>
          (case doc_Exec h (mongo_op_of (getMore_command database name ident size')) b of
             (Ok result, b) \<Rightarrow>
               (case Document result of
                  Inr answer \<Rightarrow>
                    (case read_cursor ''nextBatch'' answer of
                       Some (page, ident) \<Rightarrow>
                         (case iterate fuel h database name size' ident b of
                            Some (rest, b) \<Rightarrow> Some (page @ rest, b)
                          | None \<Rightarrow> None)
                     | None \<Rightarrow> None)
                | Inl _ \<Rightarrow> None)
           | _ \<Rightarrow> None))"

declare iterate.simps [simp del]

section \<open>One more page\<close>

lemma read_cursor_reply [simp]:
  "read_cursor key (cursor_reply key page ident ns @ rest) = Some (page, ident)" if "key \<noteq> ''id''" "key \<noteq> ''ns''"
  using that by (simp add: read_cursor_def cursor_reply_def arrayOf_def comp_def)

lemma Exec_getMore:
  "doc_Exec h (mongo_op_of (getMore_command db name ident n)) b =
     (case getMoreCommand h (getMore_command db name ident n) b of
        (Panic, b) \<Rightarrow> (Panic, b)
      | (Fail err, b) \<Rightarrow> (Fail (raised (h_sprintf h) err), b)
      | (Ok document, b) \<Rightarrow> (Ok (mongo_Reply (document @ [Field ''ok'' (BDouble f_one)])), b))"
  by (simp add: doc_Exec_def mongo_op_of_def getMore_command_def doc_handlers_def mongo_kind_defs KindConnect_def)

definition page_size :: "int \<Rightarrow> doc list \<Rightarrow> nat" where
  "page_size n left = (if n \<le> 0 \<or> n > int (length left) then length left else nat n)"

definition after_page :: "int \<Rightarrow> cursor \<Rightarrow> nat \<Rightarrow> Backend \<Rightarrow> Backend" where
  "after_page ident held k b =
     (if drop k (cu_remaining held) = [] then b\<lparr>ds_cursors := AList.delete ident (ds_cursors b)\<rparr>
      else b\<lparr>ds_cursors := AList.update ident (held\<lparr>cu_remaining := drop k (cu_remaining held)\<rparr>) (ds_cursors b)\<rparr>)"

lemma getMore_page:
  assumes "map_of (ds_cursors b) ident = Some held" "\<bar>n\<bar> < 2 ^ 31"
  shows "getMoreCommand h (getMore_command db name ident n) b =
     (Ok (cursor_reply ''nextBatch'' (take (page_size n (cu_remaining held)) (cu_remaining held))
        (if drop (page_size n (cu_remaining held)) (cu_remaining held) = [] then 0 else ident) (cu_namespace held)),
      after_page ident held (page_size n (cu_remaining held)) b)"
proof -
  have "intField h (getMore_command db name ident n) ''batchSize'' 0 = Inr n"
    unfolding intField_def by (rule intAt_whole) (use assms(2) in \<open>simp_all add: getMore_command_def\<close>)
  then show ?thesis
    using assms(1)
    by (simp add: getMoreCommand_def cursorID_def getMore_command_def page_size_def after_page_def Let_def)
qed

lemma page_size_pos: "left \<noteq> [] \<Longrightarrow> 0 < page_size n left"
  by (auto simp: page_size_def)

text \<open>What a client that iterates a cursor leaves behind: everything but the cursor.\<close>

definition without_cursor :: "int \<Rightarrow> Backend \<Rightarrow> Backend \<Rightarrow> bool" where
  "without_cursor ident b b' \<longleftrightarrow>
     map_of (ds_cursors b') = (map_of (ds_cursors b))(ident := None) \<and>
     ds_collections b' = ds_collections b \<and> ds_lastCursor b' = ds_lastCursor b \<and> ds_drawn b' = ds_drawn b"

lemma iterate_drains:
  assumes "map_of (ds_cursors b) ident = Some held" "cu_remaining held \<noteq> []" "ident \<noteq> 0" "\<bar>n\<bar> < 2 ^ 31"
    "length (cu_remaining held) \<le> fuel"
  shows "\<exists>b'. iterate fuel h db name n ident b = Some (cu_remaining held, b') \<and> without_cursor ident b b'"
  using assms
proof (induction fuel arbitrary: b held)
  case (Suc fuel)
  let ?left = "cu_remaining held"
  let ?k = "page_size n ?left"
  let ?b = "after_page ident held ?k b"
  note page = getMore_page [OF Suc.prems(1,4), of h db name]
  show ?case
  proof (cases "drop ?k ?left = []")
    case True
    then have "take ?k ?left = ?left" by simp
    then show ?thesis
      using True Suc.prems(3)
      by (subst iterate.simps, subst iterate.simps) (simp add: Exec_getMore page without_cursor_def after_page_def)
  next
    case False
    let ?held = "held\<lparr>cu_remaining := drop ?k ?left\<rparr>"
    have "map_of (ds_cursors ?b) ident = Some ?held" using False by (simp add: after_page_def)
    moreover have "length (cu_remaining ?held) \<le> fuel"
      using page_size_pos [OF Suc.prems(2), of n] Suc.prems(5) by simp
    ultimately obtain b' where b': "iterate fuel h db name n ident ?b = Some (cu_remaining ?held, b')" "without_cursor ident ?b b'"
      using Suc.IH [of ?b ?held] False Suc.prems(3,4) by auto
    have "iterate (Suc fuel) h db name n ident b = Some (take ?k ?left @ drop ?k ?left, b')"
      using False Suc.prems(3) b'(1) by (subst iterate.simps) (simp add: Exec_getMore page)
    moreover have "without_cursor ident b b'"
      using b'(2) False by (simp add: without_cursor_def after_page_def)
    ultimately show ?thesis by auto
  qed
qed simp

section \<open>Find, and page through\<close>

lemma take_page_length: "\<not> fo_singleBatch o' \<Longrightarrow> 0 < fo_batchSize o' \<Longrightarrow> fo_batchSize o' < int (length ds) \<Longrightarrow>
   batch ns ds o' key b =
     (cursor_reply key (take (nat (fo_batchSize o')) ds) (wrap64 (ds_lastCursor b + 1)) ns,
      b\<lparr>ds_lastCursor := wrap64 (ds_lastCursor b + 1),
        ds_cursors := AList.update (wrap64 (ds_lastCursor b + 1))
          \<lparr>cu_namespace = ns, cu_remaining = drop (nat (fo_batchSize o')) ds\<rparr> (ds_cursors b)\<rparr>)"
  by (auto simp: batch_def Let_def)

lemma whole_batch: "fo_singleBatch o' \<or> fo_batchSize o' \<le> 0 \<or> int (length ds) \<le> fo_batchSize o' \<Longrightarrow>
   batch ns ds o' key b = (cursor_reply key ds 0 ns, b)"
  by (auto simp: batch_def Let_def)

text \<open>The documents a find command answers, as one list: those its filter holds of, in the order it sorts
  them, windowed, projected.\<close>

definition find_answers :: "host \<Rightarrow> findOptions \<Rightarrow> doc list \<Rightarrow> doc list \<Rightarrow> bool" where
  "find_answers h o' ds result \<longleftrightarrow>
     evaluable h (fo_filter o') ds \<and>
     (\<exists>arranged windowed. sortDocuments h (filter (holds h (fo_filter o')) ds) (fo_sort o') = Inr arranged \<and>
        window arranged (fo_skip o') (fo_limit o') = Ok windowed \<and> projectAll windowed (fo_projection o') = Inr result)"

lemma findCommand_answers:
  assumes "readFind h command = Inr o'" "collect (cm_Target command) b = (c, b1)" "find_answers h o' (co_documents c) ds"
  shows "findCommand h command b = (case batch (namespace_of command) ds o' ''firstBatch'' b1 of (answer, b) \<Rightarrow> (Ok answer, b))"
  using assms find_documents_evaluable by (auto simp: findCommand_def find_answers_def)

lemma find_pages:
  assumes find: "readFind h command = Inr o'" "collect (cm_Target command) b = (c, b1)" "find_answers h o' (co_documents c) ds"
    and numbered: "0 \<le> ds_lastCursor b" "ds_lastCursor b < MaxInt64" "map_of (ds_cursors b) (ds_lastCursor b + 1) = None"
    and client: "\<bar>n\<bar> < 2 ^ 31" "length ds \<le> fuel"
  shows "\<exists>answer b2 page ident rest b3.
     findCommand h command b = (Ok answer, b2) \<and> read_cursor ''firstBatch'' answer = Some (page, ident) \<and>
     iterate fuel h db name n ident b2 = Some (rest, b3) \<and> page @ rest = ds \<and>
     map_of (ds_cursors b3) = map_of (ds_cursors b) \<and> ds_collections b3 = ds_collections b1"
proof -
  have b1: "ds_lastCursor b1 = ds_lastCursor b" "ds_cursors b1 = ds_cursors b"
    using find(2) by (auto simp: collect_def Let_def split: option.splits)
  show ?thesis
  proof (cases "fo_singleBatch o' \<or> fo_batchSize o' \<le> 0 \<or> int (length ds) \<le> fo_batchSize o'")
    case True
    then have "findCommand h command b = (Ok (cursor_reply ''firstBatch'' ds 0 (namespace_of command)), b1)"
      using findCommand_answers [OF find] by (simp add: whole_batch)
    moreover have "iterate fuel h db name n 0 b1 = Some ([], b1)" by (subst iterate.simps) simp
    ultimately show ?thesis
      using read_cursor_reply [of "''firstBatch''" ds 0 "namespace_of command" "[]"] b1 by simp
  next
    case False
    let ?id = "ds_lastCursor b + 1"
    let ?k = "nat (fo_batchSize o')"
    let ?held = "\<lparr>cu_namespace = namespace_of command, cu_remaining = drop ?k ds\<rparr>"
    let ?b2 = "b1\<lparr>ds_lastCursor := ?id, ds_cursors := AList.update ?id ?held (ds_cursors b1)\<rparr>"
    have id: "wrap64 ?id = ?id" "?id \<noteq> 0" using numbered by (simp_all add: int64_range_def)
    have f: "findCommand h command b = (Ok (cursor_reply ''firstBatch'' (take ?k ds) ?id (namespace_of command)), ?b2)"
      using findCommand_answers [OF find] False by (simp add: take_page_length b1 id(1))
    have held: "map_of (ds_cursors ?b2) ?id = Some ?held" by simp
    have left: "cu_remaining ?held \<noteq> []" "length (cu_remaining ?held) \<le> fuel" using False client(2) by (simp_all, linarith)
    obtain b3 where b3: "iterate fuel h db name n ?id ?b2 = Some (drop ?k ds, b3)" "without_cursor ?id ?b2 b3"
      using iterate_drains [OF held left(1) id(2) client(1) left(2), of h db name] by auto
    have "map_of (ds_cursors b3) = map_of (ds_cursors b)" "ds_collections b3 = ds_collections b1"
      using b3(2) numbered(3) b1 by (auto simp: without_cursor_def fun_upd_idem)
    then show ?thesis
      using f b3(1) read_cursor_reply [of "''firstBatch''" "take ?k ds" ?id "namespace_of command" "[]"] by simp
  qed
qed

text \<open>C13. Paging a cursor loses and repeats nothing: a find command that selects some documents answers a first
  page, and a client that then sends getMore, with whatever page size, until the identifier it gets back is
  zero has received exactly those documents, in order; as many getMore commands as documents were found are
  enough, and afterwards no trace of the cursor is left.\<close>

theorem cursor_pages_everything:
  assumes find: "readFind h command = Inr o'" "collect (cm_Target command) b = (c, b1)" "find_answers h o' (co_documents c) ds"
    and numbered: "0 \<le> ds_lastCursor b" "ds_lastCursor b < MaxInt64" "map_of (ds_cursors b) (ds_lastCursor b + 1) = None"
    and client: "\<bar>n\<bar> < 2 ^ 31" "length ds \<le> fuel"
  shows "\<exists>answer b2 page ident rest b3.
     findCommand h command b = (Ok answer, b2) \<and> read_cursor ''firstBatch'' answer = Some (page, ident) \<and>
     iterate fuel h db name n ident b2 = Some (rest, b3) \<and> page @ rest = ds \<and>
     map_of (ds_cursors b3) = map_of (ds_cursors b) \<and> ds_collections b3 = ds_collections b1"
  by (rule find_pages [OF find numbered client])

definition find_document :: "gostring \<Rightarrow> (gostring \<times> bson) list \<Rightarrow> Command" where
  "find_document name rest = \<lparr>cm_Name = ''find'', cm_Kind = Mongo_KindFind, cm_Target = name, cm_Collection = True,
     cm_Database = mongo_Database, cm_Document = Field ''find'' (BString name) # rest, cm_Server = False\<rparr>"

definition shelf :: "doc list" where
  "shelf = map (\<lambda>i. [(''_id'', BInt32 i)]) [1, 2, 3]"

definition shelf_store :: Backend where
  "shelf_store = (New_Backend 0)\<lparr>ds_collections := [(''a'', \<lparr>co_name = ''a'', co_documents = shelf\<rparr>)]\<rparr>"

lemma projectAll_Nil: "projectAll ds [] = Inr ds"
  by (induction ds) (simp_all add: project_def)

lemma sortDocuments_Nil: "sortDocuments h ds [] = Inr ds"
proof -
  have "foldl (\<lambda>done x. insert_sorted (sort_order h []) x done) ys ds = rev ds @ ys" for ys
  proof (induction ds arbitrary: ys)
    case (Cons d ds)
    then show ?case by (cases ys) simp_all
  qed simp
  then show ?thesis by (simp add: sortDocuments_def SortStable_def)
qed

theorem cursor_pages_everything_witness:
  "\<exists>answer b2 page ident rest b3.
     findCommand plain_host (find_document ''a'' [Field ''batchSize'' (BInt32 1)]) shelf_store = (Ok answer, b2) \<and>
     read_cursor ''firstBatch'' answer = Some (page, ident) \<and>
     iterate 3 plain_host mongo_Database ''a'' 1 ident b2 = Some (rest, b3) \<and> page @ rest = shelf"
proof -
  let ?o = "no_options\<lparr>fo_batchSize := 1\<rparr>"
  have o': "readFind plain_host (find_document ''a'' [Field ''batchSize'' (BInt32 1)]) = Inr ?o"
    by (simp add: readFind_def find_document_def documentField_def documentAt_def intField_def boolField_def boolAt_def
        intAt_def whole_exact normalised_def no_options_def)
  have c: "collect (cm_Target (find_document ''a'' [Field ''batchSize'' (BInt32 1)])) shelf_store =
      (\<lparr>co_name = ''a'', co_documents = shelf\<rparr>, shelf_store)"
    by (simp add: collect_def shelf_store_def find_document_def)
  have a: "find_answers plain_host ?o (co_documents \<lparr>co_name = ''a'', co_documents = shelf\<rparr>) shelf"
    by (simp add: find_answers_def no_options_def everything_holds sortDocuments_Nil window_def projectAll_Nil shelf_def)
  show ?thesis
    using cursor_pages_everything [OF o' c a, of 1 3 mongo_Database "''a''"]
    by (auto simp: shelf_store_def New_Backend_def shelf_def)
qed

lemma find_sorts_stably_parts:
  assumes "find_answers h o' ds result" "fo_skip o' = 0" "fo_limit o' = 0" "fo_projection o' = []"
    "list_all (sortable (fo_sort o')) ds"
  shows "mset result = mset (filter (holds h (fo_filter o')) ds)"
    and "sorted_wrt (\<lambda>x y. sort_order h (fo_sort o') x y \<le> 0) result"
    and "sortable (fo_sort o') k \<Longrightarrow> filter (\<lambda>d. sort_order h (fo_sort o') k d = 0) result =
      filter (\<lambda>d. sort_order h (fo_sort o') k d = 0) (filter (holds h (fo_filter o')) ds)"
proof -
  have r: "sortDocuments h (filter (holds h (fo_filter o')) ds) (fo_sort o') = Inr result"
    using assms(1-4) by (auto simp: find_answers_def window_def projectAll_Nil split: if_splits)
  have s: "list_all (sortable (fo_sort o')) (filter (holds h (fo_filter o')) ds)" using assms(5) by (simp add: list_all_iff)
  show "mset result = mset (filter (holds h (fo_filter o')) ds)"
    "sorted_wrt (\<lambda>x y. sort_order h (fo_sort o') x y \<le> 0) result"
    "sortable (fo_sort o') k \<Longrightarrow> filter (\<lambda>d. sort_order h (fo_sort o') k d = 0) result =
      filter (\<lambda>d. sort_order h (fo_sort o') k d = 0) (filter (holds h (fo_filter o')) ds)"
    using sortDocuments_sorts [OF r s] by blast+
qed

lemma findCommand_selects:
  assumes "findCommand h command b = (Ok answer, b2)" "readFind h command = Inr o'" "collect (cm_Target command) b = (c, b1)"
  obtains result where "find_answers h o' (co_documents c) result"
proof -
  obtain selected where "find_documents h (co_documents c) (fo_filter o') = Inr selected"
    using assms by (cases "find_documents h (co_documents c) (fo_filter o')") (simp_all add: findCommand_def)
  then have e: "evaluable h (fo_filter o') (co_documents c)" using find_documents_Inr by blast
  then obtain arranged where "sortDocuments h (filter (holds h (fo_filter o')) (co_documents c)) (fo_sort o') = Inr arranged"
    using assms by (cases "sortDocuments h (filter (holds h (fo_filter o')) (co_documents c)) (fo_sort o')")
      (simp_all add: findCommand_def find_documents_evaluable)
  moreover from this e obtain windowed where "window arranged (fo_skip o') (fo_limit o') = Ok windowed"
    using assms by (cases "window arranged (fo_skip o') (fo_limit o')") (simp_all add: findCommand_def find_documents_evaluable)
  moreover from this calculation e obtain result where "projectAll windowed (fo_projection o') = Inr result"
    using assms by (cases "projectAll windowed (fo_projection o')") (simp_all add: findCommand_def find_documents_evaluable)
  ultimately show ?thesis using e that by (auto simp: find_answers_def)
qed

text \<open>C25. A find command that succeeds, without skip, limit and projection, answers exactly the documents its filter
  holds of, sorted by the specification and stably: documents the specification does not separate come in
  the collection's order. The answer is what the client has once it has paged through the cursor, with
  any page size. The sort keys of the collection's documents are without NaN, and dates among them are within
  2^62 milliseconds of 1970: others \<open>compare\<close> does not order.\<close>

theorem find_sorts_stably:
  assumes "findCommand h command b = (Ok answer, b2)" "readFind h command = Inr o'" "collect (cm_Target command) b = (c, b1)"
    and plain: "fo_skip o' = 0" "fo_limit o' = 0" "fo_projection o' = []" "list_all (sortable (fo_sort o')) (co_documents c)"
    and numbered: "0 \<le> ds_lastCursor b" "ds_lastCursor b < MaxInt64" "map_of (ds_cursors b) (ds_lastCursor b + 1) = None"
    and client: "\<bar>n\<bar> < 2 ^ 31" "length (co_documents c) \<le> fuel"
  shows "\<exists>page ident rest b3. read_cursor ''firstBatch'' answer = Some (page, ident) \<and>
    iterate fuel h db name n ident b2 = Some (rest, b3) \<and>
    mset (page @ rest) = mset (filter (holds h (fo_filter o')) (co_documents c)) \<and>
    sorted_wrt (\<lambda>x y. sort_order h (fo_sort o') x y \<le> 0) (page @ rest) \<and>
    (\<forall>k. sortable (fo_sort o') k \<longrightarrow> filter (\<lambda>d. sort_order h (fo_sort o') k d = 0) (page @ rest) =
      filter (\<lambda>d. sort_order h (fo_sort o') k d = 0) (filter (holds h (fo_filter o')) (co_documents c)))"
proof -
  obtain result where result: "find_answers h o' (co_documents c) result" using findCommand_selects [OF assms(1-3)] .
  note parts = find_sorts_stably_parts [OF result plain]
  have "length result \<le> fuel"
    using client(2) mset_eq_length [OF parts(1)] length_filter_le [of "holds h (fo_filter o')" "co_documents c"] by linarith
  then show ?thesis
    using find_pages [OF assms(2,3) result numbered client(1), of fuel db name] assms(1) parts by fastforce
qed

theorem find_sorts_stably_witness:
  "\<exists>answer b2 page ident rest b3.
     findCommand plain_host (find_document ''a'' [Field ''sort'' (BDoc [(''_id'', BInt32 1)])]) shelf_store = (Ok answer, b2) \<and>
     read_cursor ''firstBatch'' answer = Some (page, ident) \<and>
     iterate 3 plain_host mongo_Database ''a'' 1 ident b2 = Some (rest, b3) \<and>
     sorted_wrt (\<lambda>x y. sort_order plain_host [(''_id'', BInt32 1)] x y \<le> 0) (page @ rest)"
proof -
  let ?command = "find_document ''a'' [Field ''sort'' (BDoc [(''_id'', BInt32 1)])]"
  let ?o = "no_options\<lparr>fo_sort := [(''_id'', BInt32 1)], fo_batchSize := defaultBatchSize\<rparr>"
  have o': "readFind plain_host ?command = Inr ?o"
    by (simp add: readFind_def find_document_def documentField_def documentAt_def intField_def boolField_def boolAt_def
        intAt_def whole_exact normalised_def no_options_def)
  have c: "collect (cm_Target ?command) shelf_store = (\<lparr>co_name = ''a'', co_documents = shelf\<rparr>, shelf_store)"
    by (simp add: collect_def shelf_store_def find_document_def)
  have d: "direction plain_host (BInt32 1) = 1" by (simp add: direction_def whole_exact sign_def)
  let ?sorted = "SortStable (sort_order plain_host [(''_id'', BInt32 1)]) shelf"
  have a: "find_answers plain_host ?o (co_documents \<lparr>co_name = ''a'', co_documents = shelf\<rparr>) ?sorted"
    by (simp add: find_answers_def no_options_def everything_holds sortDocuments_def d window_def projectAll_Nil)
  obtain answer b2 where "batch (namespace_of ?command) ?sorted ?o ''firstBatch'' shelf_store = (answer, b2)" by fastforce
  then have f: "findCommand plain_host ?command shelf_store = (Ok answer, b2)"
    unfolding findCommand_answers [OF o' c a] by (rule subst [OF sym]) (rule prod.case)
  have "list_all (sortable [(''_id'', BInt32 1)]) shelf"
    by (simp add: shelf_def sortable_def sortKey_def valuesAt_def resolve.simps)
  then show ?thesis
    using find_sorts_stably [OF f o' c, of 1 3 mongo_Database "''a''"] f
    by (auto simp: no_options_def shelf_store_def New_Backend_def shelf_def)
qed

section \<open>A negative skip\<close>

lemma negative_skip_panics_parts:
  assumes "- (2 ^ 31) \<le> n" "n < 0"
  shows "fst (doc_Exec h (mongo_op_of (find_document name [Field ''skip'' (BInt32 n)])) b) = Panic"
    and "exec e = doc_Exec h \<Longrightarrow> v = zero_verdict \<Longrightarrow>
      st_fate (step e s b v (mongo_op_of (find_document name [Field ''skip'' (BInt32 n)]))) = Crashes"
proof -
  let ?c = "find_document name [Field ''skip'' (BInt32 n)]"
  let ?o = "no_options\<lparr>fo_skip := n, fo_batchSize := defaultBatchSize\<rparr>"
  have "readFind h ?c = Inr ?o"
    using assms(1,2)
    by (simp add: readFind_def find_document_def documentField_def documentAt_def intField_def boolField_def boolAt_def
        intAt_def whole_exact normalised_def no_options_def)
  then have "fst (findCommand h ?c b) = Panic"
    using assms(2) by (simp add: findCommand_def no_options_def find_documents_evaluable everything_holds sortDocuments_Nil
        window_def split: prod.splits)
  then obtain b' where "findCommand h ?c b = (Panic, b')" by (metis prod.collapse)
  moreover have "cm_Kind ?c = Mongo_KindFind" by (simp add: find_document_def)
  ultimately show panic: "fst (doc_Exec h (mongo_op_of ?c) b) = Panic"
    by (simp add: doc_Exec_def mongo_op_of_def doc_handlers_def mongo_kind_defs KindConnect_def)
  show "exec e = doc_Exec h \<Longrightarrow> v = zero_verdict \<Longrightarrow> st_fate (step e s b v (mongo_op_of ?c)) = Crashes"
    using panic by (auto simp: step_def zero_verdict_def Let_def split: prod.splits)
qed

text \<open>C38. A find or a count with a negative \<open>skip\<close> slices out of range, in every state of the store: the executor panics,
  and the serve loop with it, which ends the process for every client.\<close>

theorem negative_skip_panics:
  assumes "- (2 ^ 31) \<le> n" "n < 0" "exec e = doc_Exec h"
  shows "fst (doc_Exec h (mongo_op_of (find_document name [Field ''skip'' (BInt32 n)])) b) = Panic \<and>
    st_fate (step e s b zero_verdict (mongo_op_of (find_document name [Field ''skip'' (BInt32 n)]))) = Crashes"
  by (intro conjI negative_skip_panics_parts(1) [OF assms(1,2)] negative_skip_panics_parts(2) [OF assms refl])

definition mute_seam :: "(unit, Backend, Command option, bson) seam" where
  "mute_seam = \<lparr>next_op = (\<lambda>s. (Inl (PlainErr []), s)), reply = (\<lambda>_ s. (True, s)), fail_frame = (\<lambda>_ s. (True, s)),
     exec = doc_Exec plain_host, abort = doc_Abort\<rparr>"

theorem negative_skip_panics_witness:
  "st_fate (step mute_seam () (New_Backend 0) zero_verdict
     (mongo_op_of (find_document ''a'' [Field ''skip'' (BInt32 (-1))]))) = Crashes"
  using negative_skip_panics [of "-1" mute_seam plain_host "''a''" "New_Backend 0" "()"] by (simp add: mute_seam_def)

end
