(* ===== verification/MongoSession.thy ===== *)
theory MongoSession
  imports MongoWire DocPaging
begin

text \<open>
  One MongoDB connection: \<open>internal/mongowire/session.go\<close>, \<open>server.go\<close> and \<open>mongowire.go\<close>. The session decodes until it
  has an operation for the control layer, answering the commands about the server itself on the way, and
  writes replies and failures to the request it read last. What it takes from outside is the record \<open>wire_env\<close>: the
  driver's BSON codec, the document counts it asks the backend for, the clock, and how \<open>fmt\<close> prints. The
  protocol's counters, shared by its sessions, are passed through.
\<close>

record wire_env =
  we_lib :: bson_library
  we_Count :: "gostring \<Rightarrow> nat"
  we_now :: int
  we_sprintf :: "gostring \<Rightarrow> arg list \<Rightarrow> gostring"
  we_quote :: "gostring \<Rightarrow> gostring"

record mongo_protocol =
  mp_connections :: int
  mp_handshakes :: int

record pending_reply =
  pd_requestID :: int
  pd_legacy :: bool
  pd_silent :: bool

record mongo_session =
  ms_input :: gostring
  ms_sent :: gostring
  ms_writable :: bool
  ms_alreadyOpen :: int
  ms_replies :: int
  ms_greeted :: bool
  ms_connecting :: bool
  ms_pending :: pending_reply
  ms_protocol :: mongo_protocol

definition mongo_Port :: nat where "mongo_Port = 27017"
definition mongo_name :: gostring where "mongo_name = ''mongo''"
definition New_mongo_protocol :: mongo_protocol where "New_mongo_protocol = \<lparr>mp_connections = 0, mp_handshakes = 0\<rparr>"

definition new_mongo_session :: "gostring \<Rightarrow> bool \<Rightarrow> mongo_protocol \<Rightarrow> int \<Rightarrow> mongo_session" where
  "new_mongo_session input writable p alreadyOpen =
     \<lparr>ms_input = input, ms_sent = [], ms_writable = writable, ms_alreadyOpen = alreadyOpen, ms_replies = 0, ms_greeted = False,
      ms_connecting = False, ms_pending = \<lparr>pd_requestID = 0, pd_legacy = False, pd_silent = False\<rparr>, ms_protocol = p\<rparr>"

definition mongo_Accept :: "gostring \<Rightarrow> bool \<Rightarrow> mongo_protocol \<Rightarrow> mongo_session" where
  "mongo_Accept input writable p =
     (let p = p\<lparr>mp_connections := mp_connections p + 1\<rparr> in new_mongo_session input writable p (mp_connections p - 1))"

definition mongo_Close :: "mongo_session \<Rightarrow> mongo_session" where
  "mongo_Close s = s\<lparr>ms_protocol := (ms_protocol s)\<lparr>mp_connections := mp_connections (ms_protocol s) - 1\<rparr>\<rparr>"

definition mongo_errRefused :: go_error where
  "mongo_errRefused = PlainErr ''mongowire: the connection was refused by a fault rule''"

section \<open>Failures as documents\<close>

definition faultCode :: "FaultError \<Rightarrow> int \<times> gostring" where
  "faultCode fault =
     (if f_Code fault = [] then (CodeWriteConflict, ''WriteConflict'')
      else case Atoi (f_Code fault) of
        Some code \<Rightarrow> (code, [])
      | None \<Rightarrow> (CodeWriteConflict, f_Code fault))"

definition wire_codeOf :: "go_error \<Rightarrow> int \<times> gostring" where
  "wire_codeOf err = (case err of FaultErr fault \<Rightarrow> faultCode fault | _ \<Rightarrow> CodeOf err)"

definition errorDocument :: "go_error \<Rightarrow> doc" where
  "errorDocument err =
     (case wire_codeOf err of (code, codeName) \<Rightarrow>
        (let document = [Field ''ok'' (BDouble f_zero), Field ''errmsg'' (BString (error_text err)),
               Field ''code'' (BInt32 (wrap32 code))]
         in if codeName \<noteq> [] then document @ [Field ''codeName'' (BString codeName)] else document))"

section \<open>Writing\<close>

text \<open>\<open>send\<close>: the error it returns, nil being \<open>None\<close>.\<close>

definition mongo_send :: "wire_env \<Rightarrow> doc \<Rightarrow> mongo_session \<Rightarrow> go_error option \<times> mongo_session" where
  "mongo_send w document s =
     (if pd_silent (ms_pending s) then (None, s)
      else case l_Marshal (we_lib w) document of
        Inl reason \<Rightarrow> (Some (PlainErr (''mongowire: encoding a reply: '' @ reason)), s)
      | Inr encoded \<Rightarrow>
          (let body = (if pd_legacy (ms_pending s) then encodeReply encoded else encodeMsg encoded);
               opCode = (if pd_legacy (ms_pending s) then opReply else opMsg);
               s = s\<lparr>ms_replies := wrap32 (ms_replies s + 1)\<rparr>
           in if ms_writable s
              then (None, s\<lparr>ms_sent := ms_sent s @ message_frame (ms_replies s) (pd_requestID (ms_pending s)) opCode body\<rparr>)
              else (Some (PlainErr ''write''), s)))"

section \<open>The server's own commands\<close>

definition maxWireVersion :: int where "maxWireVersion = 21"
definition mongo_serverVersion :: gostring where "mongo_serverVersion = ''8.0.0''"
definition sessionTimeoutMinutes :: int where "sessionTimeoutMinutes = 30"

definition mongo_greeting :: "wire_env \<Rightarrow> Command \<Rightarrow> mongo_session \<Rightarrow> doc \<times> mongo_session" where
  "mongo_greeting w command s =
     (let writable = (if ToLower (cm_Name command) = ''ismaster'' then ''ismaster'' else ''isWritablePrimary'');
          p = (ms_protocol s)\<lparr>mp_handshakes := wrap32 (mp_handshakes (ms_protocol s) + 1)\<rparr>
      in ([Field writable (BBool True), Field ''helloOk'' (BBool True),
           Field ''maxBsonObjectSize'' (BInt32 maxBSONObjectSize), Field ''maxMessageSizeBytes'' (BInt32 maxMessageSizeBytes),
           Field ''maxWriteBatchSize'' (BInt32 maxWriteBatchSize), Field ''localTime'' (BDate (we_now w)),
           Field ''logicalSessionTimeoutMinutes'' (BInt32 sessionTimeoutMinutes),
           Field ''connectionId'' (BInt32 (mp_handshakes p)), Field ''minWireVersion'' (BInt32 0),
           Field ''maxWireVersion'' (BInt32 maxWireVersion), Field ''readOnly'' (BBool False), Field ''ok'' (BDouble f_one)],
          s\<lparr>ms_protocol := p\<rparr>))"

definition buildInfo :: doc where
  "buildInfo = [Field ''version'' (BString mongo_serverVersion),
     Field ''versionArray'' (BArr [BInt32 8, BInt32 0, BInt32 0, BInt32 0]), Field ''gitVersion'' (BString ''emu''),
     Field ''bits'' (BInt32 64), Field ''ok'' (BDouble f_one)]"

definition mongo_answer :: "wire_env \<Rightarrow> Command \<Rightarrow> mongo_session \<Rightarrow> go_error option \<times> mongo_session" where
  "mongo_answer w command s =
     (if cm_Kind command = ''hello'' \<or> cm_Kind command = ''ismaster''
      then (case mongo_greeting w command s of (document, s) \<Rightarrow> mongo_send w document s)
      else if cm_Kind command = ''buildinfo'' then mongo_send w buildInfo s
      else mongo_send w [Field ''ok'' (BDouble f_one)] s)"

section \<open>Decoding operations\<close>

definition mongo_decode :: "wire_env \<Rightarrow> MsgHeader \<Rightarrow> gostring \<Rightarrow> go_error + doc \<times> bool" where
  "mongo_decode w message body =
     (if hd_opCode message = opMsg then decodeMsg (we_lib w) body
      else if hd_opCode message = opQuery
      then (case decodeQuery (we_quote w) (we_lib w) body of Inl err \<Rightarrow> Inl err | Inr document \<Rightarrow> Inr (document, False))
      else Inl (PlainErr (''mongowire: opcode '' @ FormatInt (hd_opCode message) @ '' is not one emu speaks'')))"

definition mongo_operation :: "wire_env \<Rightarrow> Command \<Rightarrow> mongo_op" where
  "mongo_operation w command =
     \<lparr>op_Emulator = [], op_Kind = cm_Kind command, op_Target = cm_Target command,
      op_Gauges = (if cm_Collection command then [(''documents'', int (we_Count w (cm_Target command)))] else []),
      op_Payload = Some command\<rparr>"

definition mongo_connect_op :: "mongo_session \<Rightarrow> mongo_op" where
  "mongo_connect_op s = \<lparr>op_Emulator = [], op_Kind = KindConnect, op_Target = [],
     op_Gauges = [(''connections'', ms_alreadyOpen s)], op_Payload = None\<rparr>"

text \<open>\<open>read\<close>: an error, an operation, or a message already answered.\<close>

datatype read_result = ReadFailed go_error | ReadyOp mongo_op | Answered

definition answered_with :: "go_error option \<times> mongo_session \<Rightarrow> read_result \<times> mongo_session" where
  "answered_with r = (case r of (Some err, s) \<Rightarrow> (ReadFailed err, s) | (None, s) \<Rightarrow> (Answered, s))"

definition mongo_read :: "wire_env \<Rightarrow> mongo_session \<Rightarrow> read_result \<times> mongo_session" where
  "mongo_read w s =
     (case readMessage (ms_input s) of
        (Inl err, rest) \<Rightarrow> (ReadFailed err, s\<lparr>ms_input := rest\<rparr>)
      | (Inr (message, body), rest) \<Rightarrow>
          (let s = s\<lparr>ms_input := rest\<rparr>
           in case mongo_decode w message body of
                Inl err \<Rightarrow> (ReadFailed err, s)
              | Inr (document, silent) \<Rightarrow>
                  (let s = s\<lparr>ms_pending := \<lparr>pd_requestID = hd_requestID message,
                         pd_legacy = (hd_opCode message = opQuery), pd_silent = silent\<rparr>\<rparr>
                   in case Read document of
                        Inl err \<Rightarrow> answered_with (mongo_send w (errorDocument (raised (we_sprintf w) err)) s)
                      | Inr command \<Rightarrow>
                          if cm_Server command then answered_with (mongo_answer w command s)
                          else (ReadyOp (mongo_operation w command), s))))"

lemma ReadFull_shorter: "ReadFull n input = (Inr b, rest) \<Longrightarrow> length b = n \<and> length rest + n = length input"
  by (auto simp: ReadFull_def split: if_splits)

lemma readMessage_shorter: "readMessage input = (Inr m, rest) \<Longrightarrow> length rest < length input"
  by (auto simp: readMessage_def Let_def headerSize_def split: prod.splits sum.splits if_splits dest!: ReadFull_shorter)

lemma mongo_send_input [simp]: "ms_input (snd (mongo_send w d s)) = ms_input s"
  by (simp add: mongo_send_def Let_def split: sum.splits)

lemma mongo_answer_input [simp]: "ms_input (snd (mongo_answer w c s)) = ms_input s"
  by (simp add: mongo_answer_def mongo_greeting_def Let_def)

lemma answered_with_input: "answered_with r = (q, s) \<Longrightarrow> ms_input s = ms_input (snd r)"
  by (auto simp: answered_with_def split: prod.splits option.splits)

lemma mongo_read_shorter: "mongo_read w s = (Answered, s') \<Longrightarrow> length (ms_input s') < length (ms_input s)"
proof -
  assume r: "mongo_read w s = (Answered, s')"
  then obtain message body rest where m: "readMessage (ms_input s) = (Inr (message, body), rest)"
    by (auto simp: mongo_read_def split: prod.splits sum.splits)
  then have "ms_input s' = rest"
    using r by (auto simp: mongo_read_def Let_def dest!: answered_with_input split: sum.splits prod.splits if_splits)
  then show ?thesis using readMessage_shorter m by simp
qed

function read_until_ready :: "wire_env \<Rightarrow> mongo_session \<Rightarrow> (go_error + mongo_op) \<times> mongo_session" where
  "read_until_ready w s =
     (case mongo_read w s of
        (ReadFailed err, s) \<Rightarrow> (Inl err, s)
      | (ReadyOp o', s) \<Rightarrow> (Inr o', s)
      | (Answered, s) \<Rightarrow> read_until_ready w s)"
  by pat_completeness auto
termination by (relation "measure (\<lambda>(_, s). length (ms_input s))") (auto dest: mongo_read_shorter [OF sym])

declare read_until_ready.simps [simp del]

definition mongo_Next :: "wire_env \<Rightarrow> mongo_session \<Rightarrow> (go_error + mongo_op) \<times> mongo_session" where
  "mongo_Next w s =
     (if \<not> ms_greeted s
      then (let s = s\<lparr>ms_greeted := True, ms_connecting := True\<rparr> in (Inr (mongo_connect_op s), s))
      else read_until_ready w (s\<lparr>ms_connecting := False\<rparr>))"

section \<open>Answering\<close>

definition sent_ok :: "go_error option \<times> mongo_session \<Rightarrow> bool \<times> mongo_session" where
  "sent_ok r = (fst r = None, snd r)"

definition mongo_session_Reply :: "wire_env \<Rightarrow> bson Result \<Rightarrow> mongo_session \<Rightarrow> bool \<times> mongo_session" where
  "mongo_session_Reply w result s =
     (if ms_connecting s then (True, s)
      else case Document result of
        Inl err \<Rightarrow> sent_ok (mongo_send w (errorDocument err) s)
      | Inr document \<Rightarrow> sent_ok (mongo_send w document s))"

definition mongo_session_Fail :: "wire_env \<Rightarrow> go_error \<Rightarrow> mongo_session \<Rightarrow> bool \<times> mongo_session" where
  "mongo_session_Fail w err s =
     (if ms_connecting s then (False, s) else sent_ok (mongo_send w (errorDocument err) s))"

definition mongo_seam :: "wire_env \<Rightarrow> host \<Rightarrow> (mongo_session, Backend, Command option, bson) seam" where
  "mongo_seam w h = \<lparr>next_op = mongo_Next w, reply = mongo_session_Reply w, fail_frame = mongo_session_Fail w,
     exec = doc_Exec h, abort = doc_Abort\<rparr>"

end
