(* ===== verification/MongoBehaviour.thy ===== *)
theory MongoBehaviour
  imports MongoSession
begin

text \<open>
  What the MongoDB protocol delivers: messages survive the wire, a command's document sequences become its
  fields again, a command is answered once, to the request it came in, and only commands on the data become
  operations. Of the driver's codec it is assumed, message by message, that it reads back what it wrote and
  that a document starts with its own length, which is the format's definition.
\<close>

section \<open>Numbers\<close>

lemma length_le32 [simp]: "length (le32 n) = 4"
  by (simp add: le32_def)

lemma Uint32_append [simp]: "length b = 4 \<Longrightarrow> Uint32 (b @ rest) = Uint32 b"
  by (simp add: Uint32_def byte_at_def nth_append)

lemma base_256:
  "n < 4294967296 \<Longrightarrow> n mod 256 + 256 * (n div 256 mod 256) + 65536 * (n div 65536 mod 256) + 16777216 * (n div 16777216 mod 256) = n"
  for n :: nat
proof -
  assume "n < 4294967296"
  then have "n div 16777216 mod 256 = n div 16777216" by simp
  moreover have "n div 65536 = 256 * (n div 16777216) + n div 65536 mod 256"
    using mult_div_mod_eq [of 256 "n div 65536"] by (simp add: div_mult2_eq [symmetric])
  moreover have "n div 256 = 256 * (n div 65536) + n div 256 mod 256"
    using mult_div_mod_eq [of 256 "n div 256"] by (simp add: div_mult2_eq [symmetric])
  moreover have "n = 256 * (n div 256) + n mod 256" by simp
  ultimately show ?thesis by linarith
qed

lemma Uint32_le32 [simp]: "n < 2 ^ 32 \<Longrightarrow> Uint32 (le32 n) = n"
  using base_256 [of n] by (simp add: Uint32_def byte_at_def le32_def of_char_of)

lemma to_uint32_bound [simp]: "to_uint32 i < 4294967296"
  by (simp add: to_uint32_def nat_less_iff)

definition int32_range :: "int \<Rightarrow> bool" where "int32_range i \<longleftrightarrow> - (2 ^ 31) \<le> i \<and> i < 2 ^ 31"

lemma to_int32_to_uint32 [simp]: "int32_range i \<Longrightarrow> to_int32 (to_uint32 i) = i"
proof -
  assume i: "int32_range i"
  have "(i mod 2 ^ 32 + 2 ^ 31) mod 2 ^ 32 = (i + 2 ^ 31) mod (2 ^ 32 :: int)" by (rule mod_add_left_eq)
  also have "\<dots> = i + 2 ^ 31" using i by (intro mod_pos_pos_trivial) (simp_all add: int32_range_def)
  finally show ?thesis by (simp add: to_int32_def to_uint32_def wrap32_def)
qed

lemma to_int32_small: "n < 2 ^ 31 \<Longrightarrow> to_int32 n = int n"
  by (simp add: to_int32_def wrap32_def)

section \<open>Messages\<close>

type_synonym message = "int \<times> int \<times> int \<times> gostring"

definition put_message :: "message \<Rightarrow> gostring" where
  "put_message m = (case m of (requestID, responseTo, opCode, body) \<Rightarrow> message_frame requestID responseTo opCode body)"

definition take_message :: "gostring \<Rightarrow> (message \<times> gostring) option" where
  "take_message input =
     (case readMessage input of
        (Inr (m, body), rest) \<Rightarrow> Some ((hd_requestID m, hd_responseTo m, hd_opCode m, body), rest)
      | _ \<Rightarrow> None)"

definition message_fits :: "message \<Rightarrow> bool" where
  "message_fits m = (case m of (requestID, responseTo, opCode, body) \<Rightarrow>
     int32_range requestID \<and> int32_range responseTo \<and> int32_range opCode \<and> length body \<le> 48000000 - 16)"

lemma readMessage_frame:
  assumes "int32_range r" "int32_range p" "int32_range c" "length body \<le> 48000000 - 16"
  shows "readMessage (message_frame r p c body @ rest) =
    (Inr (\<lparr>hd_length = int (16 + length body), hd_requestID = r, hd_responseTo = p, hd_opCode = c\<rparr>, body), rest)"
proof -
  let ?n = "16 + length body"
  have n: "?n < 2 ^ 31" "?n < 2 ^ 32" using assms(4) by simp_all
  have f: "ReadFull headerSize (message_frame r p c body @ rest) =
      (Inr (le32 ?n @ le32 (to_uint32 r) @ le32 (to_uint32 p) @ le32 (to_uint32 c)), body @ rest)"
    by (simp add: ReadFull_def message_frame_def headerSize_def)
  have b: "ReadFull (length body) (body @ rest) = (Inr body, rest)" by (simp add: ReadFull_def)
  show ?thesis
    using assms f b n by (simp add: readMessage_def Let_def headerSize_def to_int32_small maxMessageSizeBytes_def
        Uint32_append [of "le32 _", simplified])
qed

interpretation mongo_wire: codec put_message take_message message_fits
  by unfold_locales (auto simp: put_message_def take_message_def message_fits_def readMessage_frame)

lemma messages_survive_the_wire_parts:
  assumes "list_all message_fits ms"
  shows "m \<in> set ms \<Longrightarrow> take_message (put_message m @ rest) = Some (m, rest)"
    and "list_all message_fits ns \<Longrightarrow> length ns = length ms \<Longrightarrow>
      concat (map put_message ms) @ r = concat (map put_message ns) @ s \<Longrightarrow> ms = ns \<and> r = s"
proof -
  show "m \<in> set ms \<Longrightarrow> take_message (put_message m @ rest) = Some (m, rest)"
    using assms by (intro mongo_wire.dec_enc) (simp add: list_all_iff)
  show "list_all message_fits ns \<Longrightarrow> length ns = length ms \<Longrightarrow>
      concat (map put_message ms) @ r = concat (map put_message ns) @ s \<Longrightarrow> ms = ns \<and> r = s"
    using mongo_wire.enc_stream_inj [OF assms] by simp
qed

text \<open>C36. Messages survive the wire: a stream of messages, each within the size the handshake promises, is read back as
  exactly those messages, in order, and two such streams are the same bytes only if they are the same
  messages.\<close>

theorem messages_survive_the_wire:
  assumes "list_all message_fits ms" "list_all message_fits ns" "length ns = length ms"
  shows "(\<forall>m\<in>set ms. \<forall>rest. take_message (put_message m @ rest) = Some (m, rest)) \<and>
    (\<forall>r s. concat (map put_message ms) @ r = concat (map put_message ns) @ s \<longrightarrow> ms = ns \<and> r = s)"
  using messages_survive_the_wire_parts [OF assms(1)] assms(2,3) by blast

theorem messages_survive_the_wire_witness:
  "take_message (put_message (7, 0, 2013, ''abc'') @ ''de'') = Some ((7, 0, 2013, ''abc''), ''de'')"
  using messages_survive_the_wire [of "[(7, 0, 2013, ''abc'')]" "[(7, 0, 2013, ''abc'')]"]
  by (simp add: message_fits_def int32_range_def)

section \<open>Sections\<close>

text \<open>The driver's codec on one document: what it wrote it reads back, and the bytes begin with their number.\<close>

definition encodes :: "bson_library \<Rightarrow> doc \<Rightarrow> gostring \<Rightarrow> bool" where
  "encodes lib d e \<longleftrightarrow> l_Unmarshal lib e = Inr d \<and> 5 \<le> length e \<and> length e < 2 ^ 31 \<and> take 4 e = le32 (length e)"

lemma takeDocument_encoded: "encodes lib d e \<Longrightarrow> takeDocument lib (e @ rest) = Inr (d, rest)"
proof -
  assume e: "encodes lib d e"
  have "e @ rest = take 4 e @ (drop 4 e @ rest)" by (simp flip: append_assoc)
  then have "Uint32 (e @ rest) = Uint32 (take 4 e)"
    using e by (metis Uint32_append encodes_def length_le32)
  then have "to_int32 (Uint32 (e @ rest)) = int (length e)" using e by (simp add: encodes_def to_int32_small)
  then show ?thesis using e by (simp add: takeDocument_def encodes_def)
qed

lemma take_documents_encoded:
  "list_all2 (encodes lib) ds es \<Longrightarrow> take_documents lib (concat es) = Inr ds"
proof (induction ds es rule: list_all2_induct)
  case (Cons d ds e es)
  then have "e @ concat es \<noteq> []" by (auto simp: encodes_def)
  then show ?case
    using Cons by (subst take_documents.simps) (simp add: takeDocument_encoded)
qed (simp add: take_documents.simps)

text \<open>A document sequence as a driver frames it.\<close>

definition sequence_bytes :: "gostring \<Rightarrow> gostring list \<Rightarrow> gostring" where
  "sequence_bytes name es = le32 (5 + length name + length (concat es)) @ name @ [char_of (0 :: nat)] @ concat es"

lemma takeCString_name: "char_of (0 :: nat) \<notin> set name \<Longrightarrow> takeCString (name @ char_of (0 :: nat) # rest) = Inr (name, rest)"
  by (simp add: takeCString_def takeWhile_append dropWhile_append)

lemma takeSequence_encoded:
  assumes "list_all2 (encodes lib) ds es" "char_of (0 :: nat) \<notin> set name" "5 + length name + length (concat es) < 2 ^ 31"
  shows "takeSequence lib (sequence_bytes name es @ rest) = Inr ((name, BArr (map BDoc ds)), rest)"
proof -
  let ?n = "5 + length name + length (concat es)"
  let ?b = "sequence_bytes name es @ rest"
  have b: "?b = le32 ?n @ (name @ [char_of (0 :: nat)] @ concat es @ rest)" by (simp add: sequence_bytes_def)
  have n: "to_int32 (Uint32 ?b) = int ?n" using assms(3) unfolding b by (simp add: to_int32_small del: of_nat_add)
  have t: "drop 4 (take ?n ?b) = name @ char_of (0 :: nat) # concat es" "drop ?n ?b = rest"
    unfolding b by simp_all
  have "\<not> length ?b < 4" "\<not> int ?n < 5" "\<not> int ?n > int (length ?b)" unfolding b by simp_all
  then show ?thesis
    using n t takeCString_name [OF assms(2), of "concat es"] take_documents_encoded [OF assms(1)]
    by (simp only: takeSequence_def Let_def nat_int if_False) simp
qed

text \<open>A sequence that fits: its name, its documents and their encodings.\<close>

definition sequence_ok :: "bson_library \<Rightarrow> gostring \<times> doc list \<times> gostring list \<Rightarrow> bool" where
  "sequence_ok lib q = (case q of (name, ds, es) \<Rightarrow>
     list_all2 (encodes lib) ds es \<and> char_of (0 :: nat) \<notin> set name \<and> 5 + length name + length (concat es) < 2 ^ 31)"

definition section_bytes :: "gostring \<times> doc list \<times> gostring list \<Rightarrow> gostring" where
  "section_bytes q = (case q of (name, ds, es) \<Rightarrow> sectionSequence # sequence_bytes name es)"

definition sequence_field :: "gostring \<times> doc list \<times> gostring list \<Rightarrow> gostring \<times> bson" where
  "sequence_field q = (case q of (name, ds, es) \<Rightarrow> Field name (BArr (map BDoc ds)))"

lemma section_tuples [simp]:
  "section_bytes (name, ds, es) = sectionSequence # sequence_bytes name es"
  "sequence_field (name, ds, es) = (name, BArr (map BDoc ds))"
  by (simp_all add: section_bytes_def sequence_field_def)

lemma section_kinds [simp]: "sectionSequence \<noteq> sectionBody"
  by (simp add: sectionSequence_def sectionBody_def)

lemma readSections_sequences:
  "list_all (sequence_ok lib) qs \<Longrightarrow>
   readSections lib (concat (map section_bytes qs) @ rest) command sequences =
     readSections lib rest command (sequences @ map sequence_field qs)"
proof (induction qs arbitrary: sequences)
  case (Cons q qs)
  obtain name ds es where q: "q = (name, ds, es)" by (metis prod_cases3)
  then have "takeSequence lib (sequence_bytes name es @ (concat (map section_bytes qs) @ rest)) =
      Inr ((name, BArr (map BDoc ds)), concat (map section_bytes qs) @ rest)"
    using Cons.prems by (intro takeSequence_encoded) (simp_all add: sequence_ok_def)
  then show ?case
    using Cons by (simp add: q readSections.simps(2))
qed simp

definition msg_body :: "nat \<Rightarrow> (gostring \<times> doc list \<times> gostring list) list \<Rightarrow> gostring \<Rightarrow>
    (gostring \<times> doc list \<times> gostring list) list \<Rightarrow> gostring \<Rightarrow> gostring" where
  "msg_body flags qs e qs' checksum =
     le32 flags @ concat (map section_bytes qs) @ sectionBody # e @ concat (map section_bytes qs') @ checksum"

lemma decodeMsg_body:
  assumes "encodes lib d e" "list_all (sequence_ok lib) qs" "list_all (sequence_ok lib) qs'" "flags < 2 ^ 32"
    "length checksum = (if flagChecksumPresent flags then 4 else 0)"
  shows "decodeMsg lib (msg_body flags qs e qs' checksum) =
    Inr (d @ map sequence_field (qs @ qs'), flagMoreToCome flags)"
proof -
  let ?sections = "concat (map section_bytes qs) @ sectionBody # e @ concat (map section_bytes qs')"
  have "readSections lib ?sections None [] = Inr (Some d, map sequence_field (qs @ qs'))"
    using readSections_sequences [OF assms(2)] takeDocument_encoded [OF assms(1)]
      readSections_sequences [OF assms(3), of "[]", simplified] by (simp add: readSections.simps(2))
  moreover have "msg_body flags qs e qs' checksum = le32 flags @ (?sections @ checksum)" by (simp add: msg_body_def)
  ultimately show ?thesis
    using assms(4,5) by (simp add: decodeMsg_def checksumSize_def Let_def split: if_splits)
qed

text \<open>A command is put together again: an OP_MSG that carries its command and, before it or after it, document
  sequences, with or without a checksum at its end, decodes to the command document followed by one array field for each
  sequence, about_to_read that sequence's documents in order, together with whether the client waits for an
  answer.\<close>

theorem sequences_become_fields:
  assumes "encodes lib d e" "list_all (sequence_ok lib) qs" "list_all (sequence_ok lib) qs'" "flags < 2 ^ 32"
    "length checksum = (if flagChecksumPresent flags then 4 else 0)"
  shows "decodeMsg lib (msg_body flags qs e qs' checksum) =
    Inr (d @ map (\<lambda>(name, ds, es). (name, BArr (map BDoc ds))) (qs @ qs'), flagMoreToCome flags)"
  using decodeMsg_body [OF assms] by (simp add: sequence_field_def [abs_def])

definition ping_bytes :: gostring where
  "ping_bytes = map char_of [15, 0, 0, 0, 16 :: nat] @ ''ping'' @ map char_of [0, 1, 0, 0, 0, 0 :: nat]"

definition ping_library :: bson_library where
  "ping_library = \<lparr>l_Marshal = (\<lambda>d. if d = [(''ping'', BInt32 1)] then Inr ping_bytes else Inl ''unknown''),
     l_Unmarshal = (\<lambda>e. if e = ping_bytes then Inr [(''ping'', BInt32 1)] else Inl ''unknown'')\<rparr>"

lemma ping_encodes: "encodes ping_library [(''ping'', BInt32 1)] ping_bytes"
  by (simp add: encodes_def ping_library_def ping_bytes_def le32_def)

theorem sequences_become_fields_witness:
  "decodeMsg ping_library (msg_body 2 [(''s'', [[(''ping'', BInt32 1)]], [ping_bytes])] ping_bytes [] []) =
    Inr ([(''ping'', BInt32 1), (''s'', BArr [BDoc [(''ping'', BInt32 1)]])], True)"
proof -
  have "list_all (sequence_ok ping_library) [(''s'', [[(''ping'', BInt32 1)]], [ping_bytes])]"
    using ping_encodes by (simp add: sequence_ok_def) (simp add: ping_bytes_def char_of_def)
  then show ?thesis
    using sequences_become_fields [OF ping_encodes, of "[(''s'', [[(''ping'', BInt32 1)]], [ping_bytes])]" "[]" 2 "[]"]
    by (simp add: flagChecksumPresent_def flagMoreToCome_def)
qed

section \<open>Answers\<close>

lemma to_uint_frame: "message_frame r p c body = put_message (r, p, c, body)"
  by (simp add: put_message_def)

text \<open>A session that has the whole of one OP_MSG command to read.\<close>

definition about_to_read :: "wire_env \<Rightarrow> mongo_session \<Rightarrow> int \<Rightarrow> Command \<Rightarrow> bool \<Rightarrow> gostring \<Rightarrow> bool" where
  "about_to_read w s r command silent rest \<longleftrightarrow>
     ms_greeted s \<and> int32_range r \<and>
     (\<exists>p body document. ms_input s = message_frame r p opMsg body @ rest \<and> int32_range p \<and>
        length body \<le> 48000000 - 16 \<and> decodeMsg (we_lib w) body = Inr (document, silent) \<and>
        Read document = Inr command)"

lemma Next_command:
  assumes "about_to_read w s r command silent rest" "\<not> cm_Server command"
  shows "mongo_Next w s = (Inr (mongo_operation w command),
    s\<lparr>ms_input := rest, ms_connecting := False, ms_pending := \<lparr>pd_requestID = r, pd_legacy = False, pd_silent = silent\<rparr>\<rparr>)"
proof -
  obtain p body document where *: "ms_greeted s" "int32_range r" "ms_input s = message_frame r p opMsg body @ rest"
    "int32_range p" "length body \<le> 48000000 - 16" "decodeMsg (we_lib w) body = Inr (document, silent)"
    "Read document = Inr command"
    using assms(1) by (auto simp: about_to_read_def)
  have o': "int32_range opMsg" "opMsg \<noteq> opQuery" by (simp_all add: int32_range_def opMsg_def opQuery_def)
  have m: "readMessage (ms_input s) = (Inr (\<lparr>hd_length = int (16 + length body), hd_requestID = r, hd_responseTo = p,
      hd_opCode = opMsg\<rparr>, body), rest)"
    unfolding *(3) by (rule readMessage_frame [OF *(2,4) o'(1) *(5)])
  show ?thesis
    using *(1,6,7) m o' assms(2)
    by (simp add: mongo_Next_def read_until_ready.simps [of w "s\<lparr>ms_connecting := False\<rparr>"] mongo_read_def mongo_decode_def Let_def)
qed

text \<open>The one message a reply document becomes.\<close>

definition reply_frame :: "mongo_session \<Rightarrow> int \<Rightarrow> gostring \<Rightarrow> gostring" where
  "reply_frame s r encoded = message_frame (wrap32 (ms_replies s + 1)) r opMsg (encodeMsg encoded)"

lemma send_once:
  assumes "ms_writable s" "pd_legacy (ms_pending s) = False" "pd_silent (ms_pending s) = False"
    "l_Marshal (we_lib w) d = Inr encoded"
  shows "mongo_send w d s =
    (None, s\<lparr>ms_replies := wrap32 (ms_replies s + 1), ms_sent := ms_sent s @ reply_frame s (pd_requestID (ms_pending s)) encoded\<rparr>)"
  using assms by (simp add: mongo_send_def reply_frame_def Let_def)

text \<open>C10. From a client's command to its reply: a session that has read one command hands exactly its operation to the
  control layer; executed, it changes the store as the command's handler does; and the client is sent one
  message, the handler's reply document with ok at its end, or the error document of the handler's
  failure, in answer to the request it came in. A write the client does not wait for is executed and not
  answered.\<close>

theorem command_answered_once:
  assumes "about_to_read w s r command silent rest" "\<not> cm_Server command" "ms_writable s"
    "map_of doc_handlers (cm_Kind command) = Some handle" "handle h command b = (result, b')" "result \<noteq> Panic"
    and document: "document = (case result of Ok answer \<Rightarrow> answer @ [Field ''ok'' (BDouble f_one)]
      | Fail err \<Rightarrow> errorDocument (raised (h_sprintf h) err) | Panic \<Rightarrow> [])" "l_Marshal (we_lib w) document = Inr encoded"
  shows "\<exists>o' s1 r'. mongo_Next w s = (Inr o', s1) \<and> op_Payload o' = Some command \<and> ms_input s1 = rest \<and>
      r' = step (mongo_seam w h) s1 b zero_verdict o' \<and> st_fate r' = Lives \<and> st_executor r' = b' \<and>
      ms_input (st_session r') = rest \<and>
      ms_sent (st_session r') = ms_sent s @ (if silent then [] else reply_frame s r encoded)"
proof -
  let ?o = "mongo_operation w command"
  let ?s1 = "s\<lparr>ms_input := rest, ms_connecting := False, ms_pending := \<lparr>pd_requestID = r, pd_legacy = False, pd_silent = silent\<rparr>\<rparr>"
  have "cm_Kind command \<noteq> KindConnect"
    using assms(4) by (auto simp: doc_handlers_def mongo_kind_defs KindConnect_def split: if_splits)
  then have e: "doc_Exec h ?o b = (case result of Panic \<Rightarrow> (Panic, b') | Fail err \<Rightarrow> (Fail (raised (h_sprintf h) err), b')
      | Ok answer \<Rightarrow> (Ok (mongo_Reply (answer @ [Field ''ok'' (BDouble f_one)])), b'))"
    using assms(4,5) by (simp add: doc_Exec_def mongo_operation_def split: outcome.splits)
  have sent: "mongo_send w document ?s1 = (None, if silent then ?s1 else
      ?s1\<lparr>ms_replies := wrap32 (ms_replies s + 1), ms_sent := ms_sent s @ reply_frame s r encoded\<rparr>)"
    using send_once [of ?s1 w document encoded] assms(3) document(2)
    by (auto simp: reply_frame_def mongo_send_def)
  have "step (mongo_seam w h) ?s1 b zero_verdict ?o =
      \<lparr>st_slept = 0, st_fate = Lives, st_session = snd (mongo_send w document ?s1), st_executor = b'\<rparr>"
    using e sent assms(6) document(1)
    by (cases result) (simp_all add: step_def mongo_seam_def zero_verdict_def mongo_session_Reply_def mongo_session_Fail_def
        sent_ok_def fate_of_def)
  then show ?thesis
    using Next_command [OF assms(1,2)] sent by (intro exI conjI) (auto simp: mongo_operation_def)
qed

definition wipe_command :: doc where "wipe_command = [(''dropDatabase'', BInt32 1)]"

definition wipe_env :: wire_env where
  "wipe_env = \<lparr>we_lib = \<lparr>l_Marshal = (\<lambda>d. Inr ''reply''), l_Unmarshal = (\<lambda>e. Inr wipe_command)\<rparr>, we_Count = (\<lambda>_. 0),
     we_now = 0, we_sprintf = (\<lambda>f _. f), we_quote = (\<lambda>s. s)\<rparr>"

definition wipe_bytes :: gostring where "wipe_bytes = le32 5 @ [char_of (0 :: nat)]"

definition wipe_session :: mongo_session where
  "wipe_session = (new_mongo_session (message_frame 9 0 opMsg (msg_body 0 [] wipe_bytes [] [])) True New_mongo_protocol 0)
     \<lparr>ms_greeted := True\<rparr>"

lemma wipe_read:
  "\<exists>command. Read wipe_command = Inr command \<and> \<not> cm_Server command \<and> cm_Kind command = Mongo_KindDropDatabase"
proof -
  have "case Read wipe_command of Inr c \<Rightarrow> \<not> cm_Server c \<and> cm_Kind c = Mongo_KindDropDatabase | Inl _ \<Rightarrow> False" by code_simp
  then show ?thesis by (simp split: sum.splits)
qed

theorem command_answered_once_witness:
  "\<exists>o' s1. mongo_Next wipe_env wipe_session = (Inr o', s1) \<and>
     ms_sent (st_session (step (mongo_seam wipe_env plain_host) s1 shelf_store zero_verdict o')) =
       reply_frame wipe_session 9 ''reply''"
proof -
  obtain command where c: "Read wipe_command = Inr command" "\<not> cm_Server command" "cm_Kind command = Mongo_KindDropDatabase"
    using wipe_read by blast
  have "encodes (we_lib wipe_env) wipe_command wipe_bytes" by (simp add: encodes_def wipe_env_def wipe_bytes_def)
  then have d: "decodeMsg (we_lib wipe_env) (msg_body 0 [] wipe_bytes [] []) = Inr (wipe_command, False)"
    using decodeMsg_body [of "we_lib wipe_env" wipe_command wipe_bytes "[]" "[]" 0 "[]"]
    by (simp add: flagChecksumPresent_def flagMoreToCome_def)
  have "length (msg_body 0 [] wipe_bytes [] []) \<le> 48000000 - 16" by (simp add: msg_body_def wipe_bytes_def)
  then have h: "about_to_read wipe_env wipe_session 9 command False []"
    unfolding about_to_read_def using d c(1)
    by (auto simp: wipe_session_def new_mongo_session_def int32_range_def intro!: exI [of _ 0])
  show ?thesis
    using command_answered_once [OF h c(2), where h = plain_host and b = shelf_store and handle = dropDatabaseCommand
        and encoded = "''reply''", OF _ _ _ _ refl] c(3)
    by (auto simp: wipe_session_def new_mongo_session_def doc_handlers_def mongo_kind_defs dropDatabaseCommand_def wipe_env_def)
qed

lemma read_ready: "mongo_read w s = (ReadyOp o', s') \<Longrightarrow>
  \<exists>document command. Read document = Inr command \<and> \<not> cm_Server command \<and> o' = mongo_operation w command"
  by (auto simp: mongo_read_def Let_def answered_with_def split: prod.splits sum.splits if_splits option.splits)

lemma until_ready: "read_until_ready w s = (Inr o', s') \<Longrightarrow>
  \<exists>document command. Read document = Inr command \<and> \<not> cm_Server command \<and> o' = mongo_operation w command"
proof (induction w s rule: read_until_ready.induct)
  case (1 w s)
  obtain r s1 where r: "mongo_read w s = (r, s1)" by force
  then show ?case
    using 1 by (cases r) (simp_all add: read_until_ready.simps [of w s] read_ready)
qed

text \<open>What a driver does to keep its connection is no operation: whatever bytes a client sends, the control layer sees the
  connection's own announcement, once and first, and after it only commands on the data, each of a kind
  a rule can name. Handshakes, pings and commands that cannot be read are answered before the next
  operation.\<close>

theorem only_data_commands_reported:
  assumes "mongo_Next w s = (Inr o', s')"
  shows "if ms_greeted s then op_Kind o' \<in> set known_kinds \<and> op_Kind o' \<noteq> KindConnect
    else o' = mongo_connect_op s' \<and> ms_greeted s' \<and> ms_input s' = ms_input s \<and> ms_sent s' = ms_sent s"
proof (cases "ms_greeted s")
  case True
  then obtain document command where "Read document = Inr command" "\<not> cm_Server command" "o' = mongo_operation w command"
    using assms until_ready [of w "s\<lparr>ms_connecting := False\<rparr>" o' s'] by (auto simp: mongo_Next_def)
  moreover from this have "cm_Kind command \<in> set known_kinds" using Read_kind by blast
  ultimately show ?thesis
    using True by (auto simp: mongo_operation_def known_kinds_def mongo_commands_def mongo_kind_defs KindConnect_def)
next
  case False
  then show ?thesis using assms by (auto simp: mongo_Next_def mongo_connect_op_def Let_def)
qed

theorem only_data_commands_reported_witness:
  "\<exists>o' s'. mongo_Next wipe_env (new_mongo_session ''xyz'' True New_mongo_protocol 3) = (Inr o', s') \<and> ms_input s' = ''xyz''"
proof -
  obtain o' s' where n: "mongo_Next wipe_env (new_mongo_session ''xyz'' True New_mongo_protocol 3) = (Inr o', s')"
    by (simp add: mongo_Next_def new_mongo_session_def Let_def)
  from only_data_commands_reported [OF n] n show ?thesis by (simp add: new_mongo_session_def)
qed

section \<open>Injected failures\<close>

lemma wrap32_zero: "wrap32 c = 0 \<longleftrightarrow> c mod 2 ^ 32 = 0"
proof -
  have "(c + 2 ^ 31) mod 2 ^ 32 = 2 ^ 31 \<longleftrightarrow> (c + 2 ^ 31) mod 2 ^ 32 = (0 + 2 ^ 31) mod (2 ^ 32 :: int)" by simp
  also have "\<dots> \<longleftrightarrow> c mod 2 ^ 32 = 0" unfolding mod_eq_dvd_iff by (simp add: mod_eq_0_iff_dvd)
  finally show ?thesis by (simp add: wrap32_def)
qed

lemma errorDocument_code: "Lookup (errorDocument err) ''code'' = Some (BInt32 (wrap32 (fst (wire_codeOf err))))"
  by (simp add: errorDocument_def Let_def split: prod.splits)

lemma fault_code_zero_parts:
  "Lookup (errorDocument (FaultErr fault)) ''ok'' = Some (BDouble f_zero)"
  "Lookup (errorDocument (FaultErr fault)) ''errmsg'' = Some (BString (f_Message fault))"
  "Lookup (errorDocument (FaultErr fault)) ''code'' = Some (BInt32 0) \<longleftrightarrow>
     (case Atoi (f_Code fault) of Some c \<Rightarrow> c mod 2 ^ 32 = 0 | None \<Rightarrow> False)"
  "Lookup (errorDocument (FaultErr \<lparr>f_Code = ''0'', f_Message = m\<rparr>)) ''code'' = Some (BInt32 0)"
proof -
  show "Lookup (errorDocument (FaultErr fault)) ''ok'' = Some (BDouble f_zero)"
    "Lookup (errorDocument (FaultErr fault)) ''errmsg'' = Some (BString (f_Message fault))"
    by (simp_all add: errorDocument_def error_text_def Let_def split: prod.splits)
  have w: "wrap32 112 \<noteq> 0" by (simp add: wrap32_zero)
  have empty: "Atoi [] = None" by (simp add: ParseInt_def parse_digits_def)
  show code: "Lookup (errorDocument (FaultErr fault)) ''code'' = Some (BInt32 0) \<longleftrightarrow>
     (case Atoi (f_Code fault) of Some c \<Rightarrow> c mod 2 ^ 32 = 0 | None \<Rightarrow> False)" for fault
    using w empty
    by (auto simp: errorDocument_code wire_codeOf_def faultCode_def code_defs wrap32_zero split: option.splits)
  have "Atoi ''0'' = Some 0"
    by (simp add: ParseInt_def parse_digits_def is_digit_def value_of_digits_def digit_val_def less_eq_char_def int64_range_def)
  then show "Lookup (errorDocument (FaultErr \<lparr>f_Code = ''0'', f_Message = m\<rparr>)) ''code'' = Some (BInt32 0)"
    by (simp add: code)
qed

text \<open>C33. The error document of an injected fault says failure in its \<open>ok\<close> and carries the fault's message; but its
  code, which a client reads zero of as success, is zero exactly when the rule's code is a decimal
  multiple of 2^32. The code \<open>''0''\<close> is one.\<close>

theorem fault_code_zero:
  "Lookup (errorDocument (FaultErr fault)) ''ok'' = Some (BDouble f_zero) \<and>
   Lookup (errorDocument (FaultErr fault)) ''errmsg'' = Some (BString (f_Message fault)) \<and>
   (Lookup (errorDocument (FaultErr fault)) ''code'' = Some (BInt32 0)) =
     (case Atoi (f_Code fault) of Some c \<Rightarrow> c mod 2 ^ 32 = 0 | None \<Rightarrow> False) \<and>
   Lookup (errorDocument (FaultErr \<lparr>f_Code = ''0'', f_Message = m\<rparr>)) ''code'' = Some (BInt32 0)"
  using fault_code_zero_parts by blast

end
