(* ===== verification/PgTypes.thy ===== *)
theory PgTypes
  imports Bson Emulator
begin

unbundle bit_operations_syntax

text \<open>
  The values of the Postgres protocol: \<open>internal/pgwire/types.go\<close> (results, in the text format) and \<open>params.go\<close>
  (parameters, in text and in binary). A value of Go's \<open>any\<close> is one of the types the SQLite driver
  hands over or a Bind is decoded to. A \<open>uint64\<close> is a \<open>64 word\<close>, shifts included. Times are a count of seconds
  of the wall clock from the first of January 2000 and the nanoseconds of the second, with the calendar
  of package \<open>time\<close>. How \<open>strconv\<close> prints and parses doubles, \<open>math.Pow\<close>, and how \<open>fmt\<close> prints a time are the record \<open>pg_lib\<close>.
\<close>

datatype sqlval =
    SNull
  | SInt int
  | SFloat float64
  | SText gostring
  | SBytes gostring
  | SBool bool
  | STime int nat

record pg_lib =
  pl_FormatFloat :: "float64 \<Rightarrow> gostring"
  pl_ParseFloat :: "gostring \<Rightarrow> float64 option"
  pl_Pow10000 :: "int \<Rightarrow> float64"
  pl_Sprint_time :: "int \<Rightarrow> nat \<Rightarrow> gostring"

section \<open>Type numbers\<close>

definition oidBool :: nat where "oidBool = 16"
definition oidBytea :: nat where "oidBytea = 17"
definition oidName :: nat where "oidName = 19"
definition oidInt8 :: nat where "oidInt8 = 20"
definition oidInt2 :: nat where "oidInt2 = 21"
definition oidInt4 :: nat where "oidInt4 = 23"
definition oidText :: nat where "oidText = 25"
definition oidOID :: nat where "oidOID = 26"
definition oidJSON :: nat where "oidJSON = 114"
definition oidFloat4 :: nat where "oidFloat4 = 700"
definition oidFloat8 :: nat where "oidFloat8 = 701"
definition oidUnknown :: nat where "oidUnknown = 705"
definition oidBPChar :: nat where "oidBPChar = 1042"
definition oidVarchar :: nat where "oidVarchar = 1043"
definition oidDate :: nat where "oidDate = 1082"
definition oidTimestamp :: nat where "oidTimestamp = 1114"
definition oidTimestampTZ :: nat where "oidTimestampTZ = 1184"
definition oidNumeric :: nat where "oidNumeric = 1700"
definition oidUUID :: nat where "oidUUID = 2950"
definition oidJSONB :: nat where "oidJSONB = 3802"

lemmas oid_defs = oidBool_def oidBytea_def oidName_def oidInt8_def oidInt2_def oidInt4_def oidText_def oidOID_def
  oidJSON_def oidFloat4_def oidFloat8_def oidUnknown_def oidBPChar_def oidVarchar_def oidDate_def oidTimestamp_def
  oidTimestampTZ_def oidNumeric_def oidUUID_def oidJSONB_def

definition type_oids :: "(Type \<times> nat) list" where
  "type_oids = [(TypeText, oidText), (TypeInteger, oidInt8), (TypeFloat, oidFloat8), (TypeBool, oidBool),
     (TypeTimestamp, oidTimestamp), (TypeBytes, oidBytea)]"

definition type_widths :: "(nat \<times> int) list" where
  "type_widths = [(oidBool, 1), (oidInt8, 8), (oidFloat8, 8), (oidTimestamp, 8)]"

definition oidFor :: "Type \<Rightarrow> nat" where
  "oidFor kind = (case map_of type_oids kind of Some oid \<Rightarrow> oid | None \<Rightarrow> oidText)"

definition widthOf :: "nat \<Rightarrow> int" where
  "widthOf oid = (case map_of type_widths oid of Some width \<Rightarrow> width | None \<Rightarrow> - 1)"

section \<open>The calendar\<close>

definition leap_year :: "int \<Rightarrow> bool" where
  "leap_year y \<longleftrightarrow> y mod 4 = 0 \<and> (y mod 100 \<noteq> 0 \<or> y mod 400 = 0)"

definition year_days :: "int \<Rightarrow> int" where "year_days y = (if leap_year y then 366 else 365)"

definition month_days :: "int \<Rightarrow> nat \<Rightarrow> int" where
  "month_days y m = (if m = 2 then (if leap_year y then 29 else 28) else if m \<in> {4, 6, 9, 11} then 30 else 31)"

lemma year_days_positive: "0 < year_days y" "year_days y \<le> 366"
  by (simp_all add: year_days_def)

lemma month_days_positive: "0 < month_days y m" "month_days y m \<le> 31"
  by (simp_all add: month_days_def)

text \<open>The year a day falls in, and its place there, counting years up from one that starts a cycle; the
  month likewise.\<close>

function year_from :: "int \<Rightarrow> int \<Rightarrow> int \<times> int" where
  "year_from y d = (if d < year_days y then (y, d) else year_from (y + 1) (d - year_days y))"
  by pat_completeness auto
termination
proof (relation "measure (\<lambda>(y, d). nat (d + 1))")
  fix y d :: int
  assume "\<not> d < year_days y"
  with year_days_positive [of y] show "((y + 1, d - year_days y), y, d) \<in> measure (\<lambda>(y, d). nat (d + 1))" by simp
qed simp

declare year_from.simps [simp del]

fun month_from :: "int \<Rightarrow> nat \<Rightarrow> nat \<Rightarrow> int \<Rightarrow> nat \<times> int" where
  "month_from y 0 m d = (m, d)"
| "month_from y (Suc left) m d = (if d < month_days y m then (m, d) else month_from y left (Suc m) (d - month_days y m))"

definition cycle_days :: int where "cycle_days = 146097"

text \<open>The year, month and day of the month, from the number of days since the first of January 2000.\<close>

definition civil :: "int \<Rightarrow> int \<times> nat \<times> int" where
  "civil n = (case year_from (2000 + 400 * (n div cycle_days)) (n mod cycle_days) of (y, d) \<Rightarrow>
     case month_from y 11 1 d of (m, k) \<Rightarrow> (y, m, k + 1))"

text \<open>\<open>appendInt\<close> of package \<open>time\<close>: decimal, padded with zeros.\<close>

definition pad_nat :: "nat \<Rightarrow> nat \<Rightarrow> gostring" where
  "pad_nat width n = replicate (width - length (format_nat n)) (CHR ''0'') @ format_nat n"

definition pad_int :: "nat \<Rightarrow> int \<Rightarrow> gostring" where
  "pad_int width i = (if i < 0 then ''-'' else []) @ pad_nat width (nat \<bar>i\<bar>)"

text \<open>\<open>dateLayout\<close> and \<open>timestampLayout\<close>: the fraction loses its trailing zeros, and its point with the last.\<close>

definition dateLayout :: "int \<Rightarrow> gostring" where
  "dateLayout days = (case civil days of (y, m, d) \<Rightarrow> pad_int 4 y @ ''-'' @ pad_nat 2 m @ ''-'' @ pad_int 2 d)"

definition fraction :: "nat \<Rightarrow> gostring" where
  "fraction nanos =
     (let digits = rev (dropWhile (\<lambda>c. c = CHR ''0'') (rev (take 6 (pad_nat 9 nanos))))
      in if digits = [] then [] else CHR ''.'' # digits)"

definition timestampLayout :: "int \<Rightarrow> nat \<Rightarrow> gostring" where
  "timestampLayout secs nanos =
     (let s = secs mod 86400
      in dateLayout (secs div 86400) @ '' '' @ pad_int 2 (s div 3600) @ '':'' @ pad_int 2 (s mod 3600 div 60) @ '':'' @
         pad_int 2 (s mod 60) @ fraction nanos)"

section \<open>Results as text\<close>

definition hex_digit :: "nat \<Rightarrow> char" where "hex_digit n = (if n < 10 then char_of (48 + n) else char_of (87 + n))"

definition hex_encode :: "gostring \<Rightarrow> gostring" where
  "hex_encode s = concat (map (\<lambda>c. [hex_digit (of_char c div 16), hex_digit (of_char c mod 16)]) s)"

fun plainText :: "pg_lib \<Rightarrow> sqlval \<Rightarrow> gostring" where
  "plainText l (SText s) = s"
| "plainText l (SBytes s) = s"
| "plainText l (SInt i) = FormatInt i"
| "plainText l (SFloat x) = pl_FormatFloat l x"
| "plainText l (SBool b) = (if b then ''true'' else ''false'')"
| "plainText l (STime secs nanos) = pl_Sprint_time l secs nanos"
| "plainText l SNull = ''<nil>''"

fun pg_truthy :: "sqlval \<Rightarrow> bool" where
  "pg_truthy (SBool b) = b"
| "pg_truthy (SInt i) = (i \<noteq> 0)"
| "pg_truthy (SFloat x) = (\<not> f_eq x f_zero)"
| "pg_truthy (SText s) = (s \<in> {''t'', ''true'', ''1''})"
| "pg_truthy _ = False"

definition boolText :: "sqlval \<Rightarrow> gostring" where "boolText v = (if pg_truthy v then ''t'' else ''f'')"

definition hex_mark :: gostring where "hex_mark = [CHR 0x5C, CHR ''x'']"

definition byteaText :: "pg_lib \<Rightarrow> sqlval \<Rightarrow> gostring" where
  "byteaText l v = (case v of SBytes s \<Rightarrow> hex_mark @ hex_encode s | SText s \<Rightarrow> hex_mark @ hex_encode s | _ \<Rightarrow> plainText l v)"

definition timestampText :: "pg_lib \<Rightarrow> sqlval \<Rightarrow> gostring" where
  "timestampText l v = (case v of STime secs nanos \<Rightarrow> timestampLayout secs nanos | _ \<Rightarrow> plainText l v)"

definition encode_value :: "pg_lib \<Rightarrow> Type \<Rightarrow> sqlval \<Rightarrow> gostring" where
  "encode_value l kind v = (case kind of
       TypeBool \<Rightarrow> boolText v | TypeBytes \<Rightarrow> byteaText l v | TypeTimestamp \<Rightarrow> timestampText l v | _ \<Rightarrow> plainText l v)"

text \<open>A row with a value beyond the last column indexes past the end: \<open>None\<close> is the panic.\<close>

fun encodeRow :: "pg_lib \<Rightarrow> Column list \<Rightarrow> sqlval list \<Rightarrow> gostring option list option" where
  "encodeRow l columns [] = Some []"
| "encodeRow l [] (v # vs) = (if v = SNull then map_option (Cons None) (encodeRow l [] vs) else None)"
| "encodeRow l (c # cs) (v # vs) =
     map_option (Cons (if v = SNull then None else Some (encode_value l (c_Type c) v))) (encodeRow l cs vs)"

section \<open>Parameters as text\<close>

definition BinaryFormat :: int where "BinaryFormat = 1"
definition TextFormat :: int where "TextFormat = 0"

definition integerOIDs :: "nat list" where "integerOIDs = [oidInt2, oidInt4, oidInt8, oidOID]"
definition realOIDs :: "nat list" where "realOIDs = [oidFloat4, oidFloat8, oidNumeric]"

definition textualOIDs :: "nat list" where
  "textualOIDs = [0, oidText, oidVarchar, oidName, oidBPChar, oidUnknown, oidJSON]"

definition binaryWidths :: "(nat \<times> nat) list" where
  "binaryWidths = [(oidBool, 1), (oidInt2, 2), (oidInt4, 4), (oidInt8, 8), (oidOID, 4)]"

definition momentWidths :: "(nat \<times> nat) list" where
  "momentWidths = [(oidDate, 4), (oidTimestamp, 8), (oidTimestampTZ, 8)]"

definition boolValue :: "gostring \<Rightarrow> int" where
  "boolValue text = (if ToLower text \<in> {''t'', ''true'', ''1'', ''y'', ''yes'', ''on''} then 1 else 0)"

definition hex_value :: "char \<Rightarrow> nat option" where
  "hex_value c =
     (let n = of_char c :: nat
      in if 48 \<le> n \<and> n \<le> 57 then Some (n - 48) else if 97 \<le> n \<and> n \<le> 102 then Some (n - 87)
         else if 65 \<le> n \<and> n \<le> 70 then Some (n - 55) else None)"

fun hex_decode :: "gostring \<Rightarrow> gostring option" where
  "hex_decode [] = Some []"
| "hex_decode [c] = None"
| "hex_decode (a # b # s) =
     (case (hex_value a, hex_value b) of
        (Some h, Some l) \<Rightarrow> map_option (Cons (char_of (16 * h + l))) (hex_decode s)
      | _ \<Rightarrow> None)"

definition decodeText :: "pg_lib \<Rightarrow> nat \<Rightarrow> gostring \<Rightarrow> sqlval" where
  "decodeText l oid text =
     (if oid \<in> set integerOIDs then (case ParseInt text of Some number \<Rightarrow> SInt number | None \<Rightarrow> SText text)
      else if oid \<in> set realOIDs then (case pl_ParseFloat l text of Some number \<Rightarrow> SFloat number | None \<Rightarrow> SText text)
      else if oid = oidBool then SInt (boolValue text)
      else if oid = oidBytea
      then (case hex_decode (TrimPrefix text hex_mark) of Some decoded \<Rightarrow> SBytes decoded | None \<Rightarrow> SText text)
      else SText text)"

section \<open>Parameters in binary\<close>

definition wrong_width :: "nat \<Rightarrow> nat \<Rightarrow> nat \<Rightarrow> gostring" where
  "wrong_width oid width got = ''type '' @ format_nat oid @ '' is '' @ format_nat width @ '' bytes in binary, got '' @ format_nat got"

definition shifted_in :: "gostring \<Rightarrow> 64 word" where
  "shifted_in raw = foldl (\<lambda>bits part. push_bit 8 bits OR word_of_nat (of_char part)) 0 raw"

definition binaryBits :: "gostring \<Rightarrow> nat \<Rightarrow> nat \<Rightarrow> gostring + 64 word" where
  "binaryBits raw width oid =
     (if length raw \<noteq> width then Inl (wrong_width oid width (length raw)) else Inr (shifted_in raw))"

definition binarySigned :: "gostring \<Rightarrow> nat \<Rightarrow> nat \<Rightarrow> gostring + int" where
  "binarySigned raw width oid =
     (case binaryBits raw width oid of
        Inl err \<Rightarrow> Inl err
      | Inr bits \<Rightarrow> (let shift = 64 - width * 8 in Inr (sint (signed_drop_bit shift (push_bit shift bits)))))"

definition binaryInteger :: "gostring \<Rightarrow> nat \<Rightarrow> nat \<Rightarrow> gostring + sqlval" where
  "binaryInteger raw width oid =
     (case binarySigned raw width oid of
        Inl err \<Rightarrow> Inl err
      | Inr v \<Rightarrow> Inr (SInt (if oid = oidBool then boolValue (FormatInt v) else v)))"

text \<open>\<open>time.Unix\<close> brings the nanoseconds of an instant into their second. The seconds here count from the
  Postgres epoch, which both sides of the code's sum hold.\<close>

definition time_Unix :: "int \<Rightarrow> int \<Rightarrow> int \<times> nat" where
  "time_Unix secs nanos =
     (if nanos < 0 \<or> 1000000000 \<le> nanos
      then (let n = quot nanos 1000000000; secs = secs + n; nanos = nanos - n * 1000000000
            in if nanos < 0 then (secs - 1, nat (nanos + 1000000000)) else (secs, nat nanos))
      else (secs, nat nanos))"

definition perSecond :: int where "perSecond = 1000000"

definition binaryMoment :: "gostring \<Rightarrow> nat \<Rightarrow> nat \<Rightarrow> gostring + sqlval" where
  "binaryMoment raw width oid =
     (case binarySigned raw width oid of
        Inl err \<Rightarrow> Inl err
      | Inr offset \<Rightarrow>
          if oid = oidDate then Inr (SText (dateLayout offset))
          else (case time_Unix (quot offset perSecond) ((offset - quot offset perSecond * perSecond) * 1000) of
                  (secs, nanos) \<Rightarrow> Inr (SText (timestampLayout secs nanos))))"

text \<open>\<open>math.Float64frombits\<close>, \<open>math.Float32frombits\<close> (widened), negation and product of doubles.\<close>

definition f_of_fields :: "nat \<Rightarrow> nat \<Rightarrow> nat \<Rightarrow> float64" where
  "f_of_fields exponent_width fraction_width bits =
     (let s = odd (bits div 2 ^ (exponent_width + fraction_width));
          e = bits div 2 ^ fraction_width mod 2 ^ exponent_width;
          m = bits mod 2 ^ fraction_width;
          bias = 2 ^ (exponent_width - 1) - 1 :: int
      in if e = 2 ^ exponent_width - 1 then (if m = 0 then Inf s else NaN)
         else if e = 0 then Fin s m (1 - bias - int fraction_width)
         else Fin s (2 ^ fraction_width + m) (int e - bias - int fraction_width))"

definition Float64frombits :: "64 word \<Rightarrow> float64" where "Float64frombits w = f_of_fields 11 52 (unat w)"
definition Float32frombits :: "64 word \<Rightarrow> float64" where "Float32frombits w = f_of_fields 8 23 (unat w mod 2 ^ 32)"

fun f_neg :: "float64 \<Rightarrow> float64" where
  "f_neg NaN = NaN"
| "f_neg (Inf s) = Inf (\<not> s)"
| "f_neg (Fin s m e) = Fin (\<not> s) m e"

fun f_mul :: "float64 \<Rightarrow> float64 \<Rightarrow> float64" where
  "f_mul NaN _ = NaN"
| "f_mul _ NaN = NaN"
| "f_mul (Inf s) (Inf t) = Inf (s \<noteq> t)"
| "f_mul (Inf s) (Fin t n d) = (if n = 0 then NaN else Inf (s \<noteq> t))"
| "f_mul (Fin s m e) (Inf t) = (if m = 0 then NaN else Inf (s \<noteq> t))"
| "f_mul (Fin s m e) (Fin t n d) = f_round (s \<noteq> t) (m * n) (e + d)"

definition uint16_at :: "gostring \<Rightarrow> nat \<Rightarrow> nat" where
  "uint16_at raw i = 256 * of_char (raw ! i) + of_char (raw ! (i + 1))"

fun numeric_sum :: "pg_lib \<Rightarrow> gostring \<Rightarrow> int \<Rightarrow> nat \<Rightarrow> nat \<Rightarrow> float64 \<Rightarrow> float64" where
  "numeric_sum l raw weight index 0 v = v"
| "numeric_sum l raw weight index (Suc left) v =
     numeric_sum l raw weight (Suc index) left
       (f_add v (f_mul (f_of_int (int (uint16_at raw (8 + index * 2)))) (pl_Pow10000 l (weight - int index))))"

definition binaryNumeric :: "pg_lib \<Rightarrow> gostring \<Rightarrow> gostring + sqlval" where
  "binaryNumeric l raw =
     (if length raw < 8 then Inl (''a binary numeric is at least 8 bytes, got '' @ format_nat (length raw))
      else
        (let digits = uint16_at raw 0; weight = sint (word_of_nat (uint16_at raw 2) :: 16 word); sgn' = uint16_at raw 4
         in if length raw \<noteq> 8 + digits * 2
            then Inl (''a binary numeric of '' @ format_nat digits @ '' digits is '' @ format_nat (8 + digits * 2) @
              '' bytes, got '' @ format_nat (length raw))
            else if sgn' = 0xC000 then Inl ''a numeric NaN has no SQLite equivalent''
            else (let v = numeric_sum l raw weight 0 digits f_zero in Inr (SFloat (if sgn' \<noteq> 0 then f_neg v else v)))))"

definition bytes_between :: "gostring \<Rightarrow> nat \<Rightarrow> nat \<Rightarrow> gostring" where "bytes_between s a b = take (b - a) (drop a s)"

definition binaryUUID :: "gostring \<Rightarrow> gostring + sqlval" where
  "binaryUUID raw =
     (if length raw \<noteq> 16 then Inl (''a binary uuid is 16 bytes, got '' @ format_nat (length raw))
      else Inr (SText (Join (map (\<lambda>(a, b). hex_encode (bytes_between raw a b)) [(0, 4), (4, 6), (6, 8), (8, 10), (10, 16)]) ''-'')))"

definition binaryJSONB :: "gostring \<Rightarrow> gostring + sqlval" where
  "binaryJSONB raw =
     (if raw = [] \<or> hd raw \<noteq> CHR 0x01 then Inl ''a binary jsonb starts with version 1'' else Inr (SText (drop 1 raw)))"

definition decodeBinary :: "pg_lib \<Rightarrow> nat \<Rightarrow> gostring \<Rightarrow> gostring + sqlval" where
  "decodeBinary l oid raw =
     (case map_of binaryWidths oid of
        Some width \<Rightarrow> binaryInteger raw width oid
      | None \<Rightarrow>
     (case map_of momentWidths oid of
        Some width \<Rightarrow> binaryMoment raw width oid
      | None \<Rightarrow>
          if oid \<in> set textualOIDs then Inr (SText raw)
          else if oid = oidBytea then Inr (SBytes raw)
          else if oid = oidFloat4 then map_sum id (\<lambda>bits. SFloat (Float32frombits bits)) (binaryBits raw 4 oid)
          else if oid = oidFloat8 then map_sum id (\<lambda>bits. SFloat (Float64frombits bits)) (binaryBits raw 8 oid)
          else if oid = oidNumeric then binaryNumeric l raw
          else if oid = oidUUID then binaryUUID raw
          else if oid = oidJSONB then binaryJSONB raw
          else Inl (''arrived in binary as type '' @ format_nat oid @ '', which emu cannot decode '' @
            map char_of [226, 128, 148 :: nat] @ '' send it as text'')))"

section \<open>The parameters of a Bind\<close>

definition oidAt :: "nat list \<Rightarrow> nat \<Rightarrow> nat" where
  "oidAt oids index = (if index < length oids then oids ! index else 0)"

definition formatAt :: "int list \<Rightarrow> nat \<Rightarrow> int" where
  "formatAt formats index =
     (if length formats = 0 then TextFormat
      else if length formats = 1 then formats ! 0
      else if index < length formats then formats ! index else TextFormat)"

definition decodeParam :: "pg_lib \<Rightarrow> nat \<Rightarrow> int \<Rightarrow> gostring \<Rightarrow> gostring + sqlval" where
  "decodeParam l oid format raw = (if format = BinaryFormat then decodeBinary l oid raw else Inr (decodeText l oid raw))"

fun params_from :: "pg_lib \<Rightarrow> nat list \<Rightarrow> int list \<Rightarrow> nat \<Rightarrow> gostring option list \<Rightarrow> gostring + sqlval list" where
  "params_from l oids formats index [] = Inr []"
| "params_from l oids formats index (None # vs) = map_sum id (Cons SNull) (params_from l oids formats (Suc index) vs)"
| "params_from l oids formats index (Some raw # vs) =
     (case decodeParam l (oidAt oids index) (formatAt formats index) raw of
        Inl err \<Rightarrow> Inl (''parameter '' @ format_nat (index + 1) @ '': '' @ err)
      | Inr v \<Rightarrow> map_sum id (Cons v) (params_from l oids formats (Suc index) vs))"

definition decodeParams :: "pg_lib \<Rightarrow> nat list \<Rightarrow> int list \<Rightarrow> gostring option list \<Rightarrow> gostring + sqlval list" where
  "decodeParams l oids formats values = params_from l oids formats 0 values"

end
