(* ===== verification/Sqlitedb.thy ===== *)
theory Sqlitedb
  imports PgTypes Sqltext
begin

text \<open>
  The SQL backend, \<open>internal/sqlitedb\<close>: one connection's transaction (\<open>executor.go\<close>), the results it reads whole
  (\<open>rows.go\<close>), the failures it translates into SQLSTATEs (\<open>errors.go\<close>), the tags and the seed (\<open>sqlitedb.go\<close>). The SQLite
  engine behind \<open>database/sql\<close> is a parameter, the record \<open>engine\<close>: what beginning, committing, rolling back,
  executing and querying answer, and what they leave of the engine's state \<open>'h\<close>. Go's \<open>*sql.Tx\<close> is there or not:
  the flag \<open>sc_tx\<close>, which the engine is told with each statement.
\<close>

section \<open>Failures\<close>

text \<open>A failure is SQLite's own, with its result code, or any other; either has a message.\<close>

datatype engine_error = SqliteError int gostring | OtherError gostring

fun engine_text :: "engine_error \<Rightarrow> gostring" where
  "engine_text (SqliteError code message) = message"
| "engine_text (OtherError message) = message"

definition Contains :: "gostring \<Rightarrow> gostring \<Rightarrow> bool" where "Contains s sub \<longleftrightarrow> Index s sub \<noteq> None"

definition statesByResultCode :: "(int \<times> gostring) list" where
  "statesByResultCode =
     [(1555, ''23505''), (2067, ''23505''), (787, ''23503''), (1299, ''23502''), (275, ''23514''), (5, ''55P03''),
      (6, ''55P03''), (8, ''25006''), (13, ''53100''), (20, ''42804''), (25, ''22003'')]"

definition constraintFamily :: int where "constraintFamily = 19"

definition statesByPhrase :: "(gostring \<times> gostring) list" where
  "statesByPhrase =
     [(''no such table'', ''42P01''), (''no such column'', ''42703''), (''no such function'', ''42883''),
      (''already exists'', ''42P07''), (''syntax error'', ''42601''), (''unrecognized token'', ''42601''),
      (''missing named argument'', ''42P02'')]"

fun phrase_loop :: "gostring \<Rightarrow> (gostring \<times> gostring) list \<Rightarrow> gostring" where
  "phrase_loop message [] = ''42000''"
| "phrase_loop message ((phrase, state) # rest) = (if Contains message phrase then state else phrase_loop message rest)"

definition stateFor :: "int \<Rightarrow> gostring \<Rightarrow> gostring" where
  "stateFor code message =
     (case map_of statesByResultCode code of
        Some state \<Rightarrow> state
      | None \<Rightarrow> if code mod 256 = constraintFamily then ''23000'' else phrase_loop (ToLower message) statesByPhrase)"

text \<open>The expression \<open> \(\d+\)$\<close> can match only at the end: a space, digits in parentheses.\<close>

definition strip_result_code :: "gostring \<Rightarrow> gostring" where
  "strip_result_code message =
     (case rev message of
        c # r \<Rightarrow>
          (let digits = takeWhile is_digit r
           in case dropWhile is_digit r of
                a # b # rest \<Rightarrow>
                  if c = CHR '')'' \<and> digits \<noteq> [] \<and> a = CHR ''('' \<and> b = CHR '' '' then rev rest else message
              | _ \<Rightarrow> message)
      | [] \<Rightarrow> message)"

definition noiseWords :: "gostring list" where "noiseWords = [''SQL logic error: '', ''constraint failed: '']"

definition clean_message :: "gostring \<Rightarrow> gostring" where
  "clean_message message = foldl TrimPrefix (strip_result_code message) noiseWords"

definition translate :: "engine_error \<Rightarrow> go_error" where
  "translate err =
     (case err of
        SqliteError code message \<Rightarrow> SqlErr (stateFor code message) (clean_message message)
      | OtherError message \<Rightarrow> SqlErr ''XX000'' message)"

section \<open>Results\<close>

text \<open>The part of \<open>*sql.Rows\<close> that reading a result needs: names and declared types of the columns, the rows in
  order, each of which may fail to be fetched, and how the iteration ended.\<close>

record result_set =
  rs_ColumnTypes :: "engine_error + (gostring \<times> gostring) list"
  rs_rows :: "(engine_error + sqlval list) list"
  rs_Err :: "engine_error option"

definition declaredTypes :: "(gostring \<times> Type) list" where
  "declaredTypes =
     [(''BOOL'', TypeBool), (''INT'', TypeInteger), (''CHAR'', TypeText), (''CLOB'', TypeText), (''TEXT'', TypeText),
      (''BLOB'', TypeBytes), (''REAL'', TypeFloat), (''FLOA'', TypeFloat), (''DOUB'', TypeFloat), (''DATE'', TypeTimestamp),
      (''TIME'', TypeTimestamp)]"

fun inferred :: "sqlval \<Rightarrow> Type" where
  "inferred (SInt _) = TypeInteger"
| "inferred (SFloat _) = TypeFloat"
| "inferred (SBool _) = TypeBool"
| "inferred (SBytes _) = TypeBytes"
| "inferred (STime _ _) = TypeTimestamp"
| "inferred _ = TypeText"

fun declared_loop :: "gostring \<Rightarrow> (gostring \<times> Type) list \<Rightarrow> Type option" where
  "declared_loop upper [] = None"
| "declared_loop upper ((spelling, kind) # rest) = (if Contains upper spelling then Some kind else declared_loop upper rest)"

definition column_type :: "gostring \<Rightarrow> sqlval \<Rightarrow> Type" where
  "column_type declared v =
     (case declared_loop (ToUpper declared) declaredTypes of Some kind \<Rightarrow> kind | None \<Rightarrow> inferred v)"

fun sample_value :: "sqlval list list \<Rightarrow> nat \<Rightarrow> sqlval" where
  "sample_value [] index = SNull"
| "sample_value (row # rows) index = (if row ! index \<noteq> SNull then row ! index else sample_value rows index)"

definition describe_columns :: "(gostring \<times> gostring) list \<Rightarrow> sqlval list list \<Rightarrow> Column list" where
  "describe_columns columns rows =
     map (\<lambda>(index, name, declared). \<lparr>c_Name = name, c_Type = column_type declared (sample_value rows index)\<rparr>)
       (zip [0..<length columns] columns)"

text \<open>\<open>Scan\<close> fills as many cells as there are columns, and fails when the row has another number of them.\<close>

definition scan_row :: "nat \<Rightarrow> engine_error + sqlval list \<Rightarrow> engine_error + sqlval list" where
  "scan_row n row =
     (case row of
        Inl err \<Rightarrow> Inl err
      | Inr cells \<Rightarrow>
          if length cells = n then Inr cells
          else Inl (OtherError (''sql: expected '' @ format_nat (length cells) @ '' destination arguments in Scan, not '' @ format_nat n)))"

fun scan_loop :: "nat \<Rightarrow> (engine_error + sqlval list) list \<Rightarrow> sqlval list list \<Rightarrow> engine_error + sqlval list list" where
  "scan_loop n [] values = Inr values"
| "scan_loop n (row # rows) values =
     (case scan_row n row of Inl err \<Rightarrow> Inl err | Inr cells \<Rightarrow> scan_loop n rows (values @ [cells]))"

definition collect_rows :: "result_set \<Rightarrow> engine_error + sqlval Result" where
  "collect_rows rows =
     (case rs_ColumnTypes rows of
        Inl err \<Rightarrow> Inl err
      | Inr columns \<Rightarrow>
          (case scan_loop (length columns) (rs_rows rows) [] of
             Inl err \<Rightarrow> Inl err
           | Inr values \<Rightarrow>
               (case rs_Err rows of
                  Some err \<Rightarrow> Inl err
                | None \<Rightarrow> Inr (empty_Result\<lparr>res_Columns := describe_columns columns values, res_Rows := values\<rparr>))))"

section \<open>Tags\<close>

definition tag :: "sqlval Statement \<Rightarrow> int \<Rightarrow> gostring" where
  "tag statement rows =
     (let count = FormatInt rows
      in if s_Kind statement = KindInsert then ''INSERT 0 '' @ count
         else if s_Kind statement = KindSelect then ''SELECT '' @ count
         else if s_Kind statement = KindUpdate \<or> s_Kind statement = KindDeleteRows then s_Kind statement @ '' '' @ count
         else if s_ReturnsRows statement then ''SELECT '' @ count
         else s_Command statement)"

section \<open>One connection\<close>

record 'h engine =
  en_begin :: "'h \<Rightarrow> engine_error option \<times> 'h"
  en_commit :: "'h \<Rightarrow> engine_error option \<times> 'h"
  en_rollback :: "'h \<Rightarrow> engine_error option \<times> 'h"
  en_exec :: "bool \<Rightarrow> gostring \<Rightarrow> sqlval list \<Rightarrow> 'h \<Rightarrow> (engine_error + int) \<times> 'h"
  en_query :: "bool \<Rightarrow> gostring \<Rightarrow> sqlval list \<Rightarrow> 'h \<Rightarrow> (engine_error + result_set) \<times> 'h"

record 'h sql_connection =
  sc_conn :: 'h
  sc_tx :: bool
  sc_failed :: bool

type_synonym sql_op = "sqlval Statement option op"
type_synonym sqlres = "(go_error, sqlval Result) outcome"

definition abortedTransaction :: go_error where
  "abortedTransaction =
     SqlErr ''25P02'' ''current transaction is aborted, commands ignored until end of transaction block''"

definition tagged :: "gostring \<Rightarrow> sqlval Result" where "tagged t = empty_Result\<lparr>res_Tag := t\<rparr>"

definition discard :: "'h engine \<Rightarrow> 'h sql_connection \<Rightarrow> 'h sql_connection" where
  "discard e c =
     (let c = c\<lparr>sc_failed := False\<rparr>
      in if \<not> sc_tx c then c else c\<lparr>sc_conn := snd (en_rollback e (sc_conn c)), sc_tx := False\<rparr>)"

definition sql_begin :: "'h engine \<Rightarrow> 'h sql_connection \<Rightarrow> sqlres \<times> 'h sql_connection" where
  "sql_begin e c =
     (if sc_tx c then (Ok (tagged KindBegin), c)
      else (case en_begin e (sc_conn c) of
              (Some err, h) \<Rightarrow> (Fail (translate err), c\<lparr>sc_conn := h\<rparr>)
            | (None, h) \<Rightarrow> (Ok (tagged KindBegin), c\<lparr>sc_conn := h, sc_tx := True, sc_failed := False\<rparr>)))"

definition sql_commit :: "'h engine \<Rightarrow> 'h sql_connection \<Rightarrow> sqlres \<times> 'h sql_connection" where
  "sql_commit e c =
     (if \<not> sc_tx c then (Ok (tagged KindCommit), c)
      else if sc_failed c then (Ok (tagged KindRollback), discard e c)
      else (case en_commit e (sc_conn c) of
              (err, h) \<Rightarrow>
                (let c = c\<lparr>sc_conn := h, sc_tx := False, sc_failed := False\<rparr>
                 in case err of Some err \<Rightarrow> (Fail (translate err), c) | None \<Rightarrow> (Ok (tagged KindCommit), c))))"

definition sql_rollback :: "'h engine \<Rightarrow> 'h sql_connection \<Rightarrow> sqlres \<times> 'h sql_connection" where
  "sql_rollback e c = (Ok (tagged KindRollback), discard e c)"

definition sql_reject :: "engine_error \<Rightarrow> 'h sql_connection \<Rightarrow> go_error \<times> 'h sql_connection" where
  "sql_reject err c = (translate err, c\<lparr>sc_failed := sc_tx c\<rparr>)"

definition sql_query :: "'h engine \<Rightarrow> sqlval Statement \<Rightarrow> 'h sql_connection \<Rightarrow> sqlres \<times> 'h sql_connection" where
  "sql_query e statement c =
     (case en_query e (sc_tx c) (s_SQL statement) (s_Params statement) (sc_conn c) of
        (Inl err, h) \<Rightarrow> apfst Fail (sql_reject err (c\<lparr>sc_conn := h\<rparr>))
      | (Inr rows, h) \<Rightarrow>
          (case collect_rows rows of
             Inl err \<Rightarrow> apfst Fail (sql_reject err (c\<lparr>sc_conn := h\<rparr>))
           | Inr result \<Rightarrow>
               (Ok (result\<lparr>res_Tag := tag statement (int (length (res_Rows result)))\<rparr>), c\<lparr>sc_conn := h\<rparr>)))"

definition sql_run :: "'h engine \<Rightarrow> sqlval Statement \<Rightarrow> 'h sql_connection \<Rightarrow> sqlres \<times> 'h sql_connection" where
  "sql_run e statement c =
     (if sc_failed c then (Fail abortedTransaction, c)
      else if s_ReturnsRows statement then sql_query e statement c
      else (case en_exec e (sc_tx c) (s_SQL statement) (s_Params statement) (sc_conn c) of
              (Inl err, h) \<Rightarrow> apfst Fail (sql_reject err (c\<lparr>sc_conn := h\<rparr>))
            | (Inr affected, h) \<Rightarrow> (Ok (tagged (tag statement affected)), c\<lparr>sc_conn := h\<rparr>)))"

definition sql_Exec :: "'h engine \<Rightarrow> sql_op \<Rightarrow> 'h sql_connection \<Rightarrow> sqlres \<times> 'h sql_connection" where
  "sql_Exec e o' c =
     (if op_Kind o' = KindConnect then (Ok empty_Result, c)
      else if op_Kind o' = KindBegin then sql_begin e c
      else if op_Kind o' = KindCommit then sql_commit e c
      else if op_Kind o' = KindRollback then sql_rollback e c
      else (case op_Payload o' of
              None \<Rightarrow> (Fail (PlainErr (''the SQL backend was handed a '' @ op_Kind o' @ '' with no statement'')), c)
            | Some statement \<Rightarrow> sql_run e statement c))"

definition sql_Abort :: "'h engine \<Rightarrow> sql_op \<Rightarrow> 'h sql_connection \<Rightarrow> 'h sql_connection" where
  "sql_Abort e o' c =
     (if op_Kind o' = KindCommit \<or> op_Kind o' = KindRollback then discard e c else c\<lparr>sc_failed := sc_tx c\<rparr>)"

text \<open>Closing gives the connection back to the pool: \<open>closing\<close> is what that answers.\<close>

definition sql_Close_connection ::
  "'h engine \<Rightarrow> ('h \<Rightarrow> engine_error option) \<Rightarrow> 'h sql_connection \<Rightarrow> engine_error option \<times> 'h sql_connection" where
  "sql_Close_connection e closing c = (let c = discard e c in (closing (sc_conn c), c))"

section \<open>The database\<close>

definition sql_Open :: "gostring + 'h \<Rightarrow> gostring + 'h sql_connection" where
  "sql_Open conn = (case conn of Inl err \<Rightarrow> Inl err | Inr h \<Rightarrow> Inr \<lparr>sc_conn = h, sc_tx = False, sc_failed = False\<rparr>)"

fun seed_statements :: "'h engine \<Rightarrow> nat \<Rightarrow> gostring list \<Rightarrow> 'h \<Rightarrow> gostring option \<times> 'h" where
  "seed_statements e index [] h = (None, h)"
| "seed_statements e index (statement # rest) h =
     (case en_exec e False statement [] h of
        (Inl err, h) \<Rightarrow>
          (Some (''seed for postgres, statement '' @ format_nat (index + 1) @ '' ('' @ statement @ ''): '' @ engine_text err), h)
      | (Inr _, h) \<Rightarrow> seed_statements e (index + 1) rest h)"

text \<open>The seed is absent, or what decoding it as a list of strings gave.\<close>

definition Seed_sqlitedb :: "'h engine \<Rightarrow> (gostring + gostring list) option \<Rightarrow> 'h \<Rightarrow> gostring option \<times> 'h" where
  "Seed_sqlitedb e raw h =
     (case raw of
        None \<Rightarrow> (None, h)
      | Some (Inl err) \<Rightarrow> (Some (''seed for postgres: want a list of SQL statements: '' @ err), h)
      | Some (Inr statements) \<Rightarrow> seed_statements e 0 statements h)"

end
