(* ===== verification/SqlTransactions.thy ===== *)
theory SqlTransactions
  imports Sqlitedb
begin

text \<open>
  What a transaction of \<open>Sqlitedb\<close> promises. The specification is a database with a block that is not there, open on a
  working copy, or failed; a connection refines it, operations the control layer refused included. What is
  asked of the engine speaks of the transaction the engine itself has open, so that a connection which
  forgets to tell it to roll back is out of step with it. A failed block answers nothing but its own end, a
  refused COMMIT leaves no trace, and a COMMIT the engine denies may leave the engine in the transaction.
\<close>

section \<open>The specification\<close>

datatype 'd block = Outside | Inside 'd | FailedBlock

record 'd sql_spec =
  sp_exec :: "gostring \<Rightarrow> sqlval list \<Rightarrow> 'd \<Rightarrow> (engine_error + int) \<times> 'd"
  sp_query :: "gostring \<Rightarrow> sqlval list \<Rightarrow> 'd \<Rightarrow> (engine_error + result_set) \<times> 'd"
  sp_deny :: "'d \<Rightarrow> engine_error option"

text \<open>An operation is run, or refused by the control layer.\<close>

datatype sql_event = Ran sql_op | Refused sql_op

fun event_op :: "sql_event \<Rightarrow> sql_op" where
  "event_op (Ran o') = o'"
| "event_op (Refused o') = o'"

definition statement_result :: "sqlval Statement \<Rightarrow> 'd sql_spec \<Rightarrow> 'd \<Rightarrow> (engine_error + sqlval Result) \<times> 'd" where
  "statement_result st sp d =
     (if s_ReturnsRows st
      then (case sp_query sp (s_SQL st) (s_Params st) d of
              (Inl err, d) \<Rightarrow> (Inl err, d)
            | (Inr rows, d) \<Rightarrow>
                (map_sum id (\<lambda>result. result\<lparr>res_Tag := tag st (int (length (res_Rows result)))\<rparr>) (collect_rows rows), d))
      else (case sp_exec sp (s_SQL st) (s_Params st) d of
              (Inl err, d) \<Rightarrow> (Inl err, d)
            | (Inr affected, d) \<Rightarrow> (Inr (tagged (tag st affected)), d)))"

fun spec_statement :: "'d sql_spec \<Rightarrow> sqlval Statement \<Rightarrow> 'd \<times> 'd block \<Rightarrow> sqlres \<times> 'd \<times> 'd block" where
  "spec_statement sp st (d, FailedBlock) = (Fail abortedTransaction, d, FailedBlock)"
| "spec_statement sp st (d, Outside) =
     (case statement_result st sp d of
        (Inl err, d) \<Rightarrow> (Fail (translate err), d, Outside) | (Inr result, d) \<Rightarrow> (Ok result, d, Outside))"
| "spec_statement sp st (d, Inside w) =
     (case statement_result st sp w of
        (Inl err, w) \<Rightarrow> (Fail (translate err), d, FailedBlock) | (Inr result, w) \<Rightarrow> (Ok result, d, Inside w))"

fun spec_commit :: "'d sql_spec \<Rightarrow> 'd \<times> 'd block \<Rightarrow> sqlres \<times> 'd \<times> 'd block" where
  "spec_commit sp (d, Outside) = (Ok (tagged KindCommit), d, Outside)"
| "spec_commit sp (d, FailedBlock) = (Ok (tagged KindRollback), d, Outside)"
| "spec_commit sp (d, Inside w) =
     (case sp_deny sp w of Some err \<Rightarrow> (Fail (translate err), d, Outside) | None \<Rightarrow> (Ok (tagged KindCommit), w, Outside))"

definition spec_begin :: "'d \<times> 'd block \<Rightarrow> sqlres \<times> 'd \<times> 'd block" where
  "spec_begin s = (Ok (tagged KindBegin), fst s, (case snd s of Outside \<Rightarrow> Inside (fst s) | b \<Rightarrow> b))"

fun spec_step :: "'d sql_spec \<Rightarrow> sql_event \<Rightarrow> 'd \<times> 'd block \<Rightarrow> sqlres option \<times> 'd \<times> 'd block" where
  "spec_step sp (Ran o') s =
     apfst Some
      (if op_Kind o' = KindConnect then (Ok empty_Result, s)
       else if op_Kind o' = KindBegin then spec_begin s
       else if op_Kind o' = KindCommit then spec_commit sp s
       else if op_Kind o' = KindRollback then (Ok (tagged KindRollback), fst s, Outside)
       else (case op_Payload o' of
               None \<Rightarrow> (Fail (PlainErr (''the SQL backend was handed a '' @ op_Kind o' @ '' with no statement'')), s)
             | Some st \<Rightarrow> spec_statement sp st s))"
| "spec_step sp (Refused o') s =
     (None, fst s,
      if op_Kind o' = KindCommit \<or> op_Kind o' = KindRollback then Outside
      else (case snd s of Outside \<Rightarrow> Outside | _ \<Rightarrow> FailedBlock))"

fun spec_run :: "'d sql_spec \<Rightarrow> sql_event list \<Rightarrow> 'd \<times> 'd block \<Rightarrow> sqlres option list \<times> 'd \<times> 'd block" where
  "spec_run sp [] s = ([], s)"
| "spec_run sp (ev # evs) s = (case spec_step sp ev s of (r, s) \<Rightarrow> apfst (Cons r) (spec_run sp evs s))"

section \<open>The connection\<close>

fun is_Fail :: "('e, 'a) outcome \<Rightarrow> bool" where
  "is_Fail (Fail err) = True"
| "is_Fail _ = False"

fun connection_step :: "'h engine \<Rightarrow> sql_event \<Rightarrow> 'h sql_connection \<Rightarrow> sqlres option \<times> 'h sql_connection" where
  "connection_step e (Ran o') c = apfst Some (sql_Exec e o' c)"
| "connection_step e (Refused o') c = (None, sql_Abort e o' c)"

fun connection_run :: "'h engine \<Rightarrow> sql_event list \<Rightarrow> 'h sql_connection \<Rightarrow> sqlres option list \<times> 'h sql_connection" where
  "connection_run e [] c = ([], c)"
| "connection_run e (ev # evs) c = (case connection_step e ev c of (r, c) \<Rightarrow> apfst (Cons r) (connection_run e evs c))"

text \<open>What is asked of an engine, as SQLite documents it: \<open>busy\<close> is whether it has a transaction open, \<open>db\<close> what it has
  committed, \<open>work\<close> what the open transaction sees; \<open>plain\<close> are the statements that do not begin or end a
  transaction themselves. Out of a transaction, BEGIN opens one on what is committed and a statement works on
  the database. In one, a statement that succeeds works on the working copy, whatever fails leaves the
  database alone, and a COMMIT that is not denied makes the working copy the database and ends it. A
  rollback leaves the engine out of any transaction with the database as it was. Nothing is asked of a
  BEGIN in a transaction, of a statement run under the wrong idea of where the engine is, of the working
  copy after a failure, or of what a denied COMMIT leaves open.\<close>

definition begin_law :: "'h engine \<Rightarrow> ('h \<Rightarrow> bool) \<Rightarrow> ('h \<Rightarrow> 'd) \<Rightarrow> ('h \<Rightarrow> 'd) \<Rightarrow> bool" where
  "begin_law e busy db work \<longleftrightarrow>
     (\<forall>h. \<not> busy h \<longrightarrow> fst (en_begin e h) = None \<and> busy (snd (en_begin e h)) \<and>
        db (snd (en_begin e h)) = db h \<and> work (snd (en_begin e h)) = db h)"

definition commit_law :: "'h engine \<Rightarrow> ('h \<Rightarrow> bool) \<Rightarrow> ('h \<Rightarrow> 'd) \<Rightarrow> ('h \<Rightarrow> 'd) \<Rightarrow> 'd sql_spec \<Rightarrow> bool" where
  "commit_law e busy db work sp \<longleftrightarrow>
     (\<forall>h. busy h \<longrightarrow> fst (en_commit e h) = sp_deny sp (work h) \<and>
        (if sp_deny sp (work h) = None then \<not> busy (snd (en_commit e h)) \<and> db (snd (en_commit e h)) = work h
         else db (snd (en_commit e h)) = db h))"

definition rollback_law :: "'h engine \<Rightarrow> ('h \<Rightarrow> bool) \<Rightarrow> ('h \<Rightarrow> 'd) \<Rightarrow> bool" where
  "rollback_law e busy db \<longleftrightarrow> (\<forall>h. \<not> busy (snd (en_rollback e h)) \<and> db (snd (en_rollback e h)) = db h)"

definition ran_inside :: "('h \<Rightarrow> bool) \<Rightarrow> ('h \<Rightarrow> 'd) \<Rightarrow> ('h \<Rightarrow> 'd) \<Rightarrow> 'h \<Rightarrow> (engine_error + 'r) \<times> 'h \<Rightarrow> (engine_error + 'r) \<times> 'd \<Rightarrow> bool" where
  "ran_inside busy db work h actual ideal \<longleftrightarrow>
     fst actual = fst ideal \<and> db (snd actual) = db h \<and> (\<not> isl (fst actual) \<longrightarrow> busy (snd actual) \<and> work (snd actual) = snd ideal)"

definition ran_outside :: "('h \<Rightarrow> bool) \<Rightarrow> ('h \<Rightarrow> 'd) \<Rightarrow> (engine_error + 'r) \<times> 'h \<Rightarrow> (engine_error + 'r) \<times> 'd \<Rightarrow> bool" where
  "ran_outside busy db actual ideal \<longleftrightarrow> fst actual = fst ideal \<and> \<not> busy (snd actual) \<and> db (snd actual) = snd ideal"

definition inside_law :: "'h engine \<Rightarrow> ('h \<Rightarrow> bool) \<Rightarrow> ('h \<Rightarrow> 'd) \<Rightarrow> ('h \<Rightarrow> 'd) \<Rightarrow> (gostring \<Rightarrow> bool) \<Rightarrow> 'd sql_spec \<Rightarrow> bool" where
  "inside_law e busy db work plain sp \<longleftrightarrow>
     (\<forall>sql ps h. plain sql \<longrightarrow> busy h \<longrightarrow>
        ran_inside busy db work h (en_exec e True sql ps h) (sp_exec sp sql ps (work h)) \<and>
        ran_inside busy db work h (en_query e True sql ps h) (sp_query sp sql ps (work h)))"

definition outside_law :: "'h engine \<Rightarrow> ('h \<Rightarrow> bool) \<Rightarrow> ('h \<Rightarrow> 'd) \<Rightarrow> (gostring \<Rightarrow> bool) \<Rightarrow> 'd sql_spec \<Rightarrow> bool" where
  "outside_law e busy db plain sp \<longleftrightarrow>
     (\<forall>sql ps h. plain sql \<longrightarrow> \<not> busy h \<longrightarrow>
        ran_outside busy db (en_exec e False sql ps h) (sp_exec sp sql ps (db h)) \<and>
        ran_outside busy db (en_query e False sql ps h) (sp_query sp sql ps (db h)))"

definition engine_laws :: "'h engine \<Rightarrow> ('h \<Rightarrow> bool) \<Rightarrow> ('h \<Rightarrow> 'd) \<Rightarrow> ('h \<Rightarrow> 'd) \<Rightarrow> (gostring \<Rightarrow> bool) \<Rightarrow> 'd sql_spec \<Rightarrow> bool" where
  "engine_laws e busy db work plain sp \<longleftrightarrow>
     begin_law e busy db work \<and> commit_law e busy db work sp \<and> rollback_law e busy db \<and>
     inside_law e busy db work plain sp \<and> outside_law e busy db plain sp"

definition plain_event :: "(gostring \<Rightarrow> bool) \<Rightarrow> sql_event \<Rightarrow> bool" where
  "plain_event plain ev \<longleftrightarrow> (case op_Payload (event_op ev) of None \<Rightarrow> True | Some st \<Rightarrow> plain (s_SQL st))"

text \<open>The block as the engine has it: failed when the connection says so, and otherwise open exactly when the engine is
  in a transaction, whatever the connection believes.\<close>

definition connection_block :: "('h \<Rightarrow> bool) \<Rightarrow> ('h \<Rightarrow> 'd) \<Rightarrow> ('h \<Rightarrow> 'd) \<Rightarrow> 'h sql_connection \<Rightarrow> 'd \<times> 'd block" where
  "connection_block busy db work c =
     (db (sc_conn c), if sc_failed c then FailedBlock else if busy (sc_conn c) then Inside (work (sc_conn c)) else Outside)"

definition connection_ok :: "'h sql_connection \<Rightarrow> bool" where
  "connection_ok c \<longleftrightarrow> (sc_failed c \<longrightarrow> sc_tx c)"

definition in_step :: "('h \<Rightarrow> bool) \<Rightarrow> 'h sql_connection \<Rightarrow> bool" where
  "in_step busy c \<longleftrightarrow> (sc_failed c \<longrightarrow> sc_tx c) \<and> (\<not> sc_failed c \<longrightarrow> (sc_tx c \<longleftrightarrow> busy (sc_conn c)))"

lemma discard_flags [simp]: "sc_tx (discard e c) = False" "sc_failed (discard e c) = False"
  by (simp_all add: discard_def Let_def)

lemma sql_run_flags:
  "sc_tx (snd (sql_run e st c)) = sc_tx c"
  "sc_failed (snd (sql_run e st c)) \<longleftrightarrow> sc_failed c \<or> is_Fail (fst (sql_run e st c)) \<and> sc_tx c"
  by (auto simp: sql_run_def sql_query_def sql_reject_def split: prod.split sum.split)

lemma sql_begin_flags:
  "sc_tx (snd (sql_begin e c)) \<longleftrightarrow> sc_tx c \<or> \<not> is_Fail (fst (sql_begin e c))"
  "sc_failed (snd (sql_begin e c)) \<longleftrightarrow> sc_failed c \<and> (sc_tx c \<or> is_Fail (fst (sql_begin e c)))"
  by (auto simp: sql_begin_def split: prod.split option.split)

lemma sql_commit_flags:
  "sc_tx (snd (sql_commit e c)) = False"
  "connection_ok c \<Longrightarrow> sc_failed (snd (sql_commit e c)) = False"
  by (auto simp: sql_commit_def connection_ok_def Let_def split: prod.split option.split)

lemma connection_step_ok: "connection_ok c \<Longrightarrow> connection_ok (snd (connection_step e ev c))"
proof (cases ev)
  case (Ran o')
  moreover assume "connection_ok c"
  ultimately show ?thesis
    by (auto simp: connection_ok_def sql_Exec_def sql_run_flags sql_begin_flags sql_commit_flags sql_rollback_def split: option.split)
qed (auto simp: connection_ok_def sql_Abort_def)

lemma in_step_ok: "in_step busy c \<Longrightarrow> connection_ok c"
  by (simp add: in_step_def connection_ok_def)

lemma engine_begins:
  assumes "engine_laws e busy db work plain sp" "\<not> busy h"
  shows "\<exists>h'. en_begin e h = (None, h') \<and> busy h' \<and> db h' = db h \<and> work h' = db h"
proof -
  have "begin_law e busy db work" using assms(1) by (simp add: engine_laws_def)
  then show ?thesis using assms(2) by (cases "en_begin e h") (force simp: begin_law_def)
qed

lemma engine_commits:
  assumes "engine_laws e busy db work plain sp" "busy h"
  shows "\<exists>h'. en_commit e h = (sp_deny sp (work h), h') \<and> (sp_deny sp (work h) = None \<longrightarrow> \<not> busy h' \<and> db h' = work h)"
proof -
  have "commit_law e busy db work sp" using assms(1) by (simp add: engine_laws_def)
  then have l: "fst (en_commit e h) = sp_deny sp (work h)"
      "sp_deny sp (work h) = None \<longrightarrow> \<not> busy (snd (en_commit e h)) \<and> db (snd (en_commit e h)) = work h"
    using assms(2) by (simp_all add: commit_law_def)
  show ?thesis by (rule exI [of _ "snd (en_commit e h)"]) (use l in \<open>simp add: prod_eq_iff\<close>)
qed

lemma engine_rolls_back:
  assumes "engine_laws e busy db work plain sp"
  shows "\<not> busy (snd (en_rollback e h)) \<and> db (snd (en_rollback e h)) = db h"
  using assms by (simp add: engine_laws_def rollback_law_def)

lemma engine_runs_inside:
  assumes "engine_laws e busy db work plain sp" "plain sql" "busy h"
  shows "ran_inside busy db work h (en_exec e True sql ps h) (sp_exec sp sql ps (work h))"
    and "ran_inside busy db work h (en_query e True sql ps h) (sp_query sp sql ps (work h))"
  using assms by (simp_all add: engine_laws_def inside_law_def)

lemma engine_runs_outside:
  assumes "engine_laws e busy db work plain sp" "plain sql" "\<not> busy h"
  shows "ran_outside busy db (en_exec e False sql ps h) (sp_exec sp sql ps (db h))"
    and "ran_outside busy db (en_query e False sql ps h) (sp_query sp sql ps (db h))"
  using assms by (simp_all add: engine_laws_def outside_law_def)

text \<open>Discarding ends the engine's transaction too.\<close>

lemma discard_refines:
  assumes "engine_laws e busy db work plain sp" "in_step busy c"
  shows "in_step busy (discard e c) \<and> connection_block busy db work (discard e c) = (db (sc_conn c), Outside)"
  using engine_rolls_back [OF assms(1), of "sc_conn c"] assms(2) by (auto simp: connection_block_def in_step_def discard_def Let_def)

lemma run_inside_refines:
  assumes "engine_laws e busy db work plain sp" "plain (s_SQL st)" "\<not> sc_failed c" "sc_tx c" "busy (sc_conn c)"
  shows "fst (sql_run e st c) = fst (spec_statement sp st (connection_block busy db work c)) \<and>
    connection_block busy db work (snd (sql_run e st c)) = snd (spec_statement sp st (connection_block busy db work c)) \<and>
    in_step busy (snd (sql_run e st c))"
proof (cases "s_ReturnsRows st")
  case True
  obtain r h' d where q: "en_query e True (s_SQL st) (s_Params st) (sc_conn c) = (r, h')"
      "sp_query sp (s_SQL st) (s_Params st) (work (sc_conn c)) = (r, d)"
      "db h' = db (sc_conn c)" "\<not> isl r \<longrightarrow> busy h' \<and> work h' = d"
    using engine_runs_inside(2) [OF assms(1,2,5), of "s_Params st"]
    by (auto simp: ran_inside_def prod_eq_iff intro: that)
  show ?thesis
  proof (cases r)
    case (Inl err)
    with assms True q show ?thesis
      by (simp add: sql_run_def sql_query_def sql_reject_def connection_block_def statement_result_def in_step_def)
  next
    case (Inr rows)
    with assms True q show ?thesis
      by (cases "collect_rows rows")
        (simp_all add: sql_run_def sql_query_def sql_reject_def connection_block_def statement_result_def in_step_def)
  qed
next
  case False
  obtain r h' d where x: "en_exec e True (s_SQL st) (s_Params st) (sc_conn c) = (r, h')"
      "sp_exec sp (s_SQL st) (s_Params st) (work (sc_conn c)) = (r, d)"
      "db h' = db (sc_conn c)" "\<not> isl r \<longrightarrow> busy h' \<and> work h' = d"
    using engine_runs_inside(1) [OF assms(1,2,5), of "s_Params st"]
    by (auto simp: ran_inside_def prod_eq_iff intro: that)
  with assms False show ?thesis
    by (cases r) (simp_all add: sql_run_def sql_reject_def connection_block_def statement_result_def in_step_def)
qed

lemma run_outside_refines:
  assumes "engine_laws e busy db work plain sp" "plain (s_SQL st)" "\<not> sc_failed c" "\<not> sc_tx c" "\<not> busy (sc_conn c)"
  shows "fst (sql_run e st c) = fst (spec_statement sp st (connection_block busy db work c)) \<and>
    connection_block busy db work (snd (sql_run e st c)) = snd (spec_statement sp st (connection_block busy db work c)) \<and>
    in_step busy (snd (sql_run e st c))"
proof (cases "s_ReturnsRows st")
  case True
  obtain r h' where q: "en_query e False (s_SQL st) (s_Params st) (sc_conn c) = (r, h')"
      "sp_query sp (s_SQL st) (s_Params st) (db (sc_conn c)) = (r, db h')" "\<not> busy h'"
    using engine_runs_outside(2) [OF assms(1,2,5), of "s_Params st"]
    by (auto simp: ran_outside_def prod_eq_iff intro: that)
  show ?thesis
  proof (cases r)
    case (Inl err)
    with assms True q show ?thesis
      by (simp add: sql_run_def sql_query_def sql_reject_def connection_block_def statement_result_def in_step_def)
  next
    case (Inr rows)
    with assms True q show ?thesis
      by (cases "collect_rows rows")
        (simp_all add: sql_run_def sql_query_def sql_reject_def connection_block_def statement_result_def in_step_def)
  qed
next
  case False
  obtain r h' where x: "en_exec e False (s_SQL st) (s_Params st) (sc_conn c) = (r, h')"
      "sp_exec sp (s_SQL st) (s_Params st) (db (sc_conn c)) = (r, db h')" "\<not> busy h'"
    using engine_runs_outside(1) [OF assms(1,2,5), of "s_Params st"]
    by (auto simp: ran_outside_def prod_eq_iff intro: that)
  with assms False show ?thesis
    by (cases r) (simp_all add: sql_run_def sql_reject_def connection_block_def statement_result_def in_step_def)
qed

lemma statement_refines:
  assumes laws: "engine_laws e busy db work plain sp" and c: "in_step busy c" and st: "plain (s_SQL st)"
  shows "fst (sql_run e st c) = fst (spec_statement sp st (connection_block busy db work c)) \<and>
    connection_block busy db work (snd (sql_run e st c)) = snd (spec_statement sp st (connection_block busy db work c)) \<and>
    in_step busy (snd (sql_run e st c))"
proof -
  consider "sc_failed c" "sc_tx c" | "\<not> sc_failed c" "sc_tx c" "busy (sc_conn c)" | "\<not> sc_failed c" "\<not> sc_tx c" "\<not> busy (sc_conn c)"
    using c unfolding in_step_def by blast
  then show ?thesis
  proof cases
    case 1
    then show ?thesis using c by (simp add: sql_run_def connection_block_def)
  next
    case 2
    then show ?thesis using run_inside_refines [OF laws st] by blast
  next
    case 3
    then show ?thesis using run_outside_refines [OF laws st] by blast
  qed
qed

lemma begin_refined:
  assumes "engine_laws e busy db work plain sp" "in_step busy c"
  shows "fst (sql_begin e c) = fst (spec_begin (connection_block busy db work c))
    \<and> connection_block busy db work (snd (sql_begin e c)) = snd (spec_begin (connection_block busy db work c)) \<and> in_step busy (snd (sql_begin e c))"
proof (cases "sc_tx c")
  case True
  then show ?thesis using assms(2) by (auto simp: sql_begin_def spec_begin_def connection_block_def in_step_def)
next
  case False
  then have "\<not> busy (sc_conn c)" "\<not> sc_failed c" using assms(2) by (auto simp: in_step_def)
  then show ?thesis using engine_begins [OF assms(1), of "sc_conn c"] False
    by (auto simp: sql_begin_def spec_begin_def connection_block_def in_step_def)
qed

text \<open>Up to a COMMIT the engine denies, whose answer still is the specification's.\<close>

lemma commit_refined:
  assumes "engine_laws e busy db work plain sp" "in_step busy c"
  shows "fst (sql_commit e c) = fst (spec_commit sp (connection_block busy db work c))
    \<and> (\<not> is_Fail (fst (sql_commit e c)) \<longrightarrow>
        connection_block busy db work (snd (sql_commit e c)) = snd (spec_commit sp (connection_block busy db work c)) \<and> in_step busy (snd (sql_commit e c)))"
proof -
  consider "sc_failed c" "sc_tx c" | "\<not> sc_failed c" "sc_tx c" "busy (sc_conn c)" | "\<not> sc_failed c" "\<not> sc_tx c" "\<not> busy (sc_conn c)"
    using assms(2) unfolding in_step_def by blast
  then show ?thesis
  proof cases
    case 1
    then show ?thesis using discard_refines [OF assms] by (simp add: sql_commit_def connection_block_def)
  next
    case 2
    obtain h' where h': "en_commit e (sc_conn c) = (sp_deny sp (work (sc_conn c)), h')"
        "sp_deny sp (work (sc_conn c)) = None \<longrightarrow> \<not> busy h' \<and> db h' = work (sc_conn c)"
      using engine_commits [OF assms(1) 2(3)] by (elim exE conjE) (rule that)
    with 2 show ?thesis
      by (cases "sp_deny sp (work (sc_conn c))") (simp_all add: sql_commit_def connection_block_def in_step_def Let_def)
  next
    case 3
    then show ?thesis using assms(2) by (simp add: sql_commit_def connection_block_def)
  qed
qed

definition denied :: "sql_event \<Rightarrow> sqlres option \<Rightarrow> bool" where
  "denied ev r \<longleftrightarrow> op_Kind (event_op ev) = KindCommit \<and> (case r of Some result \<Rightarrow> is_Fail result | None \<Rightarrow> False)"

lemma connection_step_refines:
  assumes laws: "engine_laws e busy db work plain sp" and c: "in_step busy c" and plain: "plain_event plain ev"
  shows "fst (connection_step e ev c) = fst (spec_step sp ev (connection_block busy db work c))
    \<and> (\<not> denied ev (fst (connection_step e ev c)) \<longrightarrow>
        connection_block busy db work (snd (connection_step e ev c)) = snd (spec_step sp ev (connection_block busy db work c)) \<and>
        in_step busy (snd (connection_step e ev c)))"
proof (cases ev)
  case (Ran o')
  have roll: "in_step busy (discard e c) \<and> connection_block busy db work (discard e c) = (fst (connection_block busy db work c), Outside)"
    using discard_refines [OF laws c] by (simp add: connection_block_def)
  consider "op_Kind o' = KindConnect" | "op_Kind o' = KindBegin" "op_Kind o' \<noteq> KindConnect"
    | "op_Kind o' = KindCommit" "op_Kind o' \<notin> {KindConnect, KindBegin}" | "op_Kind o' = KindRollback" "op_Kind o' \<notin> {KindConnect, KindBegin, KindCommit}"
    | "op_Kind o' \<notin> {KindConnect, KindBegin, KindCommit, KindRollback}" by blast
  then show ?thesis
  proof cases
    case 1
    then show ?thesis using Ran c by (simp add: sql_Exec_def)
  next
    case 2
    then show ?thesis using Ran begin_refined [OF laws c] by (simp add: sql_Exec_def)
  next
    case 3
    then show ?thesis using Ran commit_refined [OF laws c] by (simp add: sql_Exec_def denied_def)
  next
    case 4
    then show ?thesis using Ran roll by (simp add: sql_Exec_def sql_rollback_def)
  next
    case 5
    then show ?thesis using Ran c plain statement_refines [OF laws c]
      by (cases "op_Payload o'") (simp_all add: sql_Exec_def plain_event_def)
  qed
next
  case (Refused o')
  have roll: "in_step busy (discard e c) \<and> connection_block busy db work (discard e c) = (fst (connection_block busy db work c), Outside)"
    using discard_refines [OF laws c] by (simp add: connection_block_def)
  show ?thesis
  proof (cases "op_Kind o' = KindCommit \<or> op_Kind o' = KindRollback")
    case True
    then show ?thesis using Refused roll by (simp add: sql_Abort_def)
  next
    case False
    then show ?thesis using Refused c by (auto simp: sql_Abort_def connection_block_def in_step_def)
  qed
qed

text \<open>No COMMIT of a run is denied by the engine.\<close>

fun none_denied :: "'d sql_spec \<Rightarrow> sql_event list \<Rightarrow> 'd \<times> 'd block \<Rightarrow> bool" where
  "none_denied sp [] s = True"
| "none_denied sp (ev # evs) s = (case spec_step sp ev s of (r, s) \<Rightarrow> \<not> denied ev r \<and> none_denied sp evs s)"

lemma connection_run_refines:
  assumes "engine_laws e busy db work plain sp" "in_step busy c" "list_all (plain_event plain) evs"
    "none_denied sp evs (connection_block busy db work c)"
  shows "fst (connection_run e evs c) = fst (spec_run sp evs (connection_block busy db work c))
    \<and> connection_block busy db work (snd (connection_run e evs c)) = snd (spec_run sp evs (connection_block busy db work c))
    \<and> in_step busy (snd (connection_run e evs c))"
  using assms(2,3,4)
proof (induction evs arbitrary: c)
  case (Cons ev evs)
  let ?s = "connection_block busy db work c"
  obtain r c1 where c1: "connection_step e ev c = (r, c1)" by (cases "connection_step e ev c")
  obtain r' s1 where s1: "spec_step sp ev ?s = (r', s1)" by (cases "spec_step sp ev ?s")
  have nd: "\<not> denied ev r'" "none_denied sp evs s1" using Cons.prems(3) s1 by simp_all
  have "r = r' \<and> connection_block busy db work c1 = s1 \<and> in_step busy c1"
    using connection_step_refines [OF assms(1) Cons.prems(1), of ev] Cons.prems(2) c1 s1 nd(1) by auto
  then show ?case using Cons.IH [of c1] Cons.prems(2) c1 s1 nd(2) by (simp add: split_beta)
qed simp

section \<open>Properties\<close>

text \<open>C3. A connection is a database with a block: over any sequence of operations, those the control layer refused
  among them and none a COMMIT the engine denies, each is answered exactly as the specification answers it,
  and what is committed, what the open transaction sees, whether the block has failed, and whether the
  engine itself is in a transaction stay in step. The hypothesis on the engine is what SQLite documents of a
  connection on which nobody else writes in between.\<close>

theorem transactions_refine_blocks:
  assumes "engine_laws e busy db work plain sp" "list_all (plain_event plain) evs" "sql_Open (Inr h) = Inr c" "\<not> busy h"
    "none_denied sp evs (db h, Outside)"
  shows "fst (connection_run e evs c) = fst (spec_run sp evs (db h, Outside))
    \<and> connection_block busy db work (snd (connection_run e evs c)) = snd (spec_run sp evs (db h, Outside))
    \<and> (\<not> sc_tx (snd (connection_run e evs c)) \<longrightarrow> \<not> busy (sc_conn (snd (connection_run e evs c))))"
proof -
  have c: "connection_block busy db work c = (db h, Outside)" "in_step busy c"
    using assms(3,4) by (auto simp: sql_Open_def connection_block_def in_step_def)
  show ?thesis using connection_run_refines [OF assms(1) c(2) assms(2)] assms(5) by (auto simp: c(1) in_step_def)
qed

text \<open>An engine to see it on: a table of texts, to which every execution adds its text, and which a query
  counts; a commit of a table of more than three rows is denied.\<close>

definition toy_spec :: "gostring list sql_spec" where
  "toy_spec = \<lparr>sp_exec = (\<lambda>sql ps d. if sql = ''bad'' then (Inl (OtherError ''no''), d) else (Inr 1, d @ [sql])),
     sp_query = (\<lambda>sql ps d. (Inr \<lparr>rs_ColumnTypes = Inr [(''n'', [])], rs_rows = [Inr [SInt (int (length d))]], rs_Err = None\<rparr>, d)),
     sp_deny = (\<lambda>d. if length d > 3 then Some (SqliteError 13 ''full'') else None)\<rparr>"

definition toy_engine :: "(gostring list \<times> gostring list option) engine" where
  "toy_engine = \<lparr>en_begin = (\<lambda>(d, t). case t of None \<Rightarrow> (None, (d, Some d)) | Some w \<Rightarrow> (Some (SqliteError 1 ''nested''), (d, t))),
     en_commit = (\<lambda>(d, t). case t of None \<Rightarrow> (Some (SqliteError 1 ''none''), (d, t))
       | Some w \<Rightarrow> (case sp_deny toy_spec w of None \<Rightarrow> (None, (w, None)) | Some err \<Rightarrow> (Some err, (d, t)))),
     en_rollback = (\<lambda>(d, t). (None, (d, None))),
     en_exec = (\<lambda>tx sql ps (d, t). case t of None \<Rightarrow> apsnd (\<lambda>d. (d, None)) (sp_exec toy_spec sql ps d)
       | Some w \<Rightarrow> apsnd (\<lambda>w. (d, Some w)) (sp_exec toy_spec sql ps w)),
     en_query = (\<lambda>tx sql ps (d, t). case t of None \<Rightarrow> apsnd (\<lambda>d. (d, None)) (sp_query toy_spec sql ps d)
       | Some w \<Rightarrow> apsnd (\<lambda>w. (d, Some w)) (sp_query toy_spec sql ps w))\<rparr>"

definition toy_busy :: "gostring list \<times> gostring list option \<Rightarrow> bool" where "toy_busy h \<longleftrightarrow> snd h \<noteq> None"

definition toy_work :: "gostring list \<times> gostring list option \<Rightarrow> gostring list" where
  "toy_work h = (case snd h of Some w \<Rightarrow> w | None \<Rightarrow> fst h)"

lemma toy_laws: "engine_laws toy_engine toy_busy fst toy_work (\<lambda>_. True) toy_spec"
proof -
  have "begin_law toy_engine toy_busy fst toy_work" "rollback_law toy_engine toy_busy fst"
    by (auto simp: begin_law_def rollback_law_def toy_engine_def toy_busy_def toy_work_def)
  moreover have "commit_law toy_engine toy_busy fst toy_work toy_spec"
    by (auto simp: commit_law_def toy_engine_def toy_busy_def toy_work_def split: option.split)
  moreover have "inside_law toy_engine toy_busy fst toy_work (\<lambda>_. True) toy_spec"
    by (auto simp: inside_law_def ran_inside_def toy_engine_def toy_busy_def toy_work_def split_beta)
  moreover have "outside_law toy_engine toy_busy fst (\<lambda>_. True) toy_spec"
    by (auto simp: outside_law_def ran_outside_def toy_engine_def toy_busy_def toy_work_def split_beta)
  ultimately show ?thesis by (simp add: engine_laws_def)
qed

definition sql_of :: "gostring \<Rightarrow> sql_op" where
  "sql_of text = (let st = Parse text [] in
     \<lparr>op_Emulator = ''postgres'', op_Kind = s_Kind st, op_Target = s_Table st, op_Gauges = [], op_Payload = Some st\<rparr>)"

definition idle :: "'h \<Rightarrow> 'h sql_connection" where "idle h = \<lparr>sc_conn = h, sc_tx = False, sc_failed = False\<rparr>"

theorem transactions_refine_blocks_witness:
  "connection_block toy_busy fst toy_work (snd (connection_run toy_engine
     [Ran (sql_of ''begin''), Ran (sql_of ''insert''), Ran (sql_of ''commit''), Ran (sql_of ''begin''), Refused (sql_of ''delete'')]
     (idle ([], None)))) = ([''insert''], FailedBlock)"
proof -
  let ?evs = "[Ran (sql_of ''begin''), Ran (sql_of ''insert''), Ran (sql_of ''commit''), Ran (sql_of ''begin''), Refused (sql_of ''delete'')]"
  have "list_all (plain_event (\<lambda>_. True)) ?evs" by (auto simp: plain_event_def split: option.split)
  moreover have "sql_Open (Inr ([], None)) = Inr (idle ([], None) :: (gostring list \<times> gostring list option) sql_connection)"
    by (simp add: sql_Open_def idle_def)
  moreover have "snd (spec_run toy_spec ?evs ([], Outside)) = ([''insert''], FailedBlock) \<and> none_denied toy_spec ?evs ([], Outside)" by code_simp
  ultimately show ?thesis using transactions_refine_blocks [OF toy_laws, of ?evs "([], None)" "idle ([], None)"] by (simp add: toy_busy_def)
qed

definition ends_block :: "sql_event \<Rightarrow> bool" where
  "ends_block ev \<longleftrightarrow> op_Kind (event_op ev) = KindCommit \<or> op_Kind (event_op ev) = KindRollback"

lemma spec_statement_inside:
  "b \<noteq> Outside \<Longrightarrow> fst (snd (spec_statement sp st (d, b))) = d \<and> snd (snd (spec_statement sp st (d, b))) \<noteq> Outside"
  by (cases b) (auto split: prod.split sum.split)

lemma spec_step_inside:
  assumes "\<not> ends_block ev" "b \<noteq> Outside"
  shows "fst (snd (spec_step sp ev (d, b))) = d \<and> snd (snd (spec_step sp ev (d, b))) \<noteq> Outside"
  using assms spec_statement_inside [OF assms(2), of sp _ d]
  by (cases ev) (auto simp: ends_block_def spec_begin_def split: option.split block.split)

lemma spec_run_inside:
  "list_all (\<lambda>ev. \<not> ends_block ev) evs \<Longrightarrow> b \<noteq> Outside \<Longrightarrow>
     fst (snd (spec_run sp evs (d, b))) = d \<and> snd (snd (spec_run sp evs (d, b))) \<noteq> Outside"
proof (induction evs arbitrary: b)
  case (Cons ev evs)
  have i: "fst (snd (spec_step sp ev (d, b))) = d" "snd (snd (spec_step sp ev (d, b))) \<noteq> Outside"
    using spec_step_inside [of ev b sp d] Cons.prems by simp_all
  then show ?case using Cons.IH [of "snd (snd (spec_step sp ev (d, b)))"] Cons.prems
    by (simp add: split_beta) (metis prod.collapse)
qed simp

lemma spec_run_append: "snd (spec_run sp (xs @ ys) s) = snd (spec_run sp ys (snd (spec_run sp xs s)))"
  by (induction xs arbitrary: s) (auto simp: split_beta)

lemma connection_run_append: "snd (connection_run e (xs @ ys) c) = snd (connection_run e ys (snd (connection_run e xs c)))"
  by (induction xs arbitrary: c) (auto simp: split_beta)

lemma none_denied_inside: "list_all (\<lambda>ev. \<not> ends_block ev) evs \<Longrightarrow> none_denied sp evs s"
  by (induction evs arbitrary: s) (auto simp: denied_def ends_block_def split: prod.split)

lemma none_denied_append: "none_denied sp (xs @ ys) s \<longleftrightarrow> none_denied sp xs s \<and> none_denied sp ys (snd (spec_run sp xs s))"
  by (induction xs arbitrary: s) (auto simp: split_beta)

text \<open>C6. A COMMIT the control layer refuses leaves nothing of its transaction: whatever was run in the block, what is
  committed is what was committed before it began, the connection is out of the block and usable, and so is
  the engine, which was told to roll back.\<close>

theorem refused_commit_leaves_nothing:
  assumes "engine_laws e busy db work plain sp" "\<not> sc_tx c" "\<not> sc_failed c" "\<not> busy (sc_conn c)" "op_Kind b = KindBegin" "op_Kind o' = KindCommit"
    "list_all (plain_event plain) (Ran b # evs @ [Refused o'])" "list_all (\<lambda>ev. \<not> ends_block ev) evs"
    "c' = snd (connection_run e (Ran b # evs @ [Refused o']) c)"
  shows "db (sc_conn c') = db (sc_conn c) \<and> \<not> busy (sc_conn c') \<and> \<not> sc_tx c' \<and> \<not> sc_failed c'"
proof -
  let ?d = "db (sc_conn c)"
  have start: "connection_block busy db work c = (?d, Outside)" "in_step busy c" using assms(2,3,4) by (simp_all add: connection_block_def in_step_def)
  have first: "snd (spec_step sp (Ran b) (?d, Outside)) = (?d, Inside ?d)"
    using assms(5) by (simp add: spec_begin_def KindConnect_def KindBegin_def KindCommit_def KindRollback_def)
  then have "snd (spec_run sp (Ran b # evs) (?d, Outside)) = snd (spec_run sp evs (?d, Inside ?d))" by (simp add: split_beta)
  then have "fst (snd (spec_run sp (Ran b # evs) (?d, Outside))) = ?d"
    using spec_run_inside [OF assms(8), of "Inside ?d" sp ?d] by simp
  then have finish: "snd (spec_run sp (Ran b # evs @ [Refused o']) (?d, Outside)) = (?d, Outside)"
    using spec_run_append [of sp "Ran b # evs" "[Refused o']"] assms(6) by (simp add: split_beta)
  have "list_all (\<lambda>ev. \<not> ends_block ev) (Ran b # evs)" using assms(5,8) by (simp add: ends_block_def KindBegin_def KindCommit_def KindRollback_def)
  then have "none_denied sp ((Ran b # evs) @ [Refused o']) (?d, Outside)"
    unfolding none_denied_append using none_denied_inside [of "Ran b # evs" sp "(?d, Outside)"]
    by (simp add: denied_def split_beta)
  then have c': "connection_block busy db work c' = (?d, Outside)" "in_step busy c'"
    using connection_run_refines [OF assms(1) start(2) assms(7)] finish start(1) assms(9) by auto
  then show ?thesis by (auto simp: connection_block_def in_step_def split: if_splits)
qed

theorem refused_commit_leaves_nothing_witness:
  "sc_conn (snd (connection_run toy_engine [Ran (sql_of ''begin''), Ran (sql_of ''insert''), Refused (sql_of ''commit'')]
     (idle ([''kept''], None)))) = ([''kept''], None)"
proof -
  have k: "op_Kind (sql_of ''begin'') = KindBegin" "op_Kind (sql_of ''commit'') = KindCommit" by code_simp+
  have "list_all (\<lambda>ev. \<not> ends_block ev) [Ran (sql_of ''insert'')]" by code_simp
  moreover have "list_all (plain_event (\<lambda>_. True)) (Ran (sql_of ''begin'') # [Ran (sql_of ''insert'')] @ [Refused (sql_of ''commit'')])"
    by (auto simp: plain_event_def split: option.split)
  ultimately show ?thesis
    using refused_commit_leaves_nothing [OF toy_laws _ _ _ k, of "idle ([''kept''], None)" "[Ran (sql_of ''insert'')]"]
    by (simp add: idle_def toy_busy_def prod_eq_iff)
qed

text \<open>A COMMIT the engine denies, by a deferred foreign key say, is the case left out above, and for a reason: SQLite then
  stays in the transaction, and whether its driver rolls back is not said in this repository. The
  connection believes it is out of it, and from there on answers COMMIT and ROLLBACK without the engine:
  whatever state the denied COMMIT left it in, they do not change it any more.\<close>

theorem denied_commit_lingers:
  assumes "sc_tx c" "\<not> sc_failed c" "op_Kind o' = KindCommit" "en_commit e (sc_conn c) = (Some err, h)"
    "list_all ends_block evs"
  shows "snd (connection_run e (Ran o' # evs) c) = c\<lparr>sc_conn := h, sc_tx := False, sc_failed := False\<rparr>"
proof -
  let ?c = "c\<lparr>sc_conn := h, sc_tx := False, sc_failed := False\<rparr>"
  have first: "snd (connection_step e (Ran o') c) = ?c"
    using assms(1-4) by (simp add: sql_Exec_def sql_commit_def Let_def KindCommit_def KindConnect_def KindBegin_def)
  have "snd (connection_step e ev ?c) = ?c" if "ends_block ev" for ev
    using that by (cases ev) (auto simp: ends_block_def sql_Exec_def sql_commit_def sql_rollback_def sql_begin_def sql_Abort_def discard_def
        KindCommit_def KindConnect_def KindBegin_def KindRollback_def)
  then have "snd (connection_run e evs ?c) = ?c" using assms(5) by (induction evs) (auto simp: split_beta)
  then show ?thesis using first by (simp add: split_beta)
qed


definition failed_block :: "(gostring list \<times> gostring list option) sql_connection" where
  "failed_block = \<lparr>sc_conn = ([], Some []), sc_tx = True, sc_failed = True\<rparr>"


text \<open>Every result has a cell for every column, so a protocol that describes the columns can send the rows.\<close>

lemma scan_loop_shape: "scan_loop n rows values = Inr out \<Longrightarrow> list_all (\<lambda>row. length row = n) values \<Longrightarrow> list_all (\<lambda>row. length row = n) out"
  by (induction n rows "values" rule: scan_loop.induct) (auto simp: scan_row_def split: sum.splits if_splits)

definition rectangular :: "sqlval Result \<Rightarrow> bool" where
  "rectangular result \<longleftrightarrow> (\<forall>row \<in> set (res_Rows result). length row = length (res_Columns result))"

lemma collect_rectangular: "collect_rows rows = Inr result \<Longrightarrow> rectangular result"
  by (auto simp: collect_rows_def rectangular_def describe_columns_def list_all_iff split: sum.splits option.splits
      dest!: scan_loop_shape)

lemma sql_Exec_rectangular: "fst (sql_Exec e o' c) = Ok result \<Longrightarrow> rectangular result"
proof -
  have t: "rectangular (tagged t)" "rectangular empty_Result" for t by (simp_all add: rectangular_def tagged_def empty_Result_def)
  have "rectangular (r\<lparr>res_Tag := t\<rparr>) = rectangular r" for r t by (simp add: rectangular_def)
  then show "fst (sql_Exec e o' c) = Ok result \<Longrightarrow> ?thesis" using t
    by (auto simp: sql_Exec_def sql_begin_def sql_commit_def sql_rollback_def sql_run_def sql_query_def sql_reject_def Let_def
        dest: collect_rectangular split: if_splits option.splits prod.splits sum.splits)
qed

end
