(* ===== verification/PgSession.thy ===== *)
theory PgSession
  imports SqlTransactions
begin

text \<open>
  One Postgres connection: \<open>internal/pgwire/session.go\<close> and the handshake of \<open>pgwire.go\<close>. The bytes are the business of
  \<open>pgproto3\<close>, so the session reads a list of messages and writes one; a message goes to the client when it is
  flushed, if the client is there. Prepared statements and portals are Go maps of pointers nobody else
  holds. Where the code indexes past the end of a slice or asks for one no memory holds, the process is
  gone: the flag \<open>pg_panicked\<close>.
\<close>

section \<open>Messages\<close>

text \<open>What a client sends, decoded. \<open>FOther\<close> is any other message, by its Go type.\<close>

datatype frontend_message =
    FTerminate
  | FSync
  | FFlush
  | FQuery gostring
  | FParse gostring gostring "nat list"
  | FBind gostring gostring "int list" "gostring option list" "int list"
  | FDescribe char gostring
  | FExecute gostring nat
  | FClose char gostring
  | FOther gostring

datatype startup_message = StartupMessage "(gostring \<times> gostring) list" | SSLRequest | GSSEncRequest | OtherStartup gostring

record field_description =
  fd_Name :: gostring
  fd_DataTypeOID :: nat
  fd_DataTypeSize :: int
  fd_TypeModifier :: int
  fd_Format :: int

datatype backend_message =
    Declined
  | AuthenticationOk
  | ParameterStatus gostring gostring
  | BackendKeyData nat gostring
  | ReadyForQuery char
  | RowDescription "field_description list"
  | DataRow "gostring option list"
  | CommandComplete gostring
  | EmptyQueryResponse
  | NoData
  | ParseComplete
  | BindComplete
  | CloseComplete
  | ParameterDescription "nat list"
  | ErrorResponse gostring gostring

section \<open>The session\<close>

definition pg_Port :: nat where "pg_Port = 5432"
definition pg_name :: gostring where "pg_name = ''postgres''"
definition pg_serverVersion :: gostring where "pg_serverVersion = ''16.0 (emu)''"
definition cancelKey :: gostring where "cancelKey = map char_of [0, 0, 0, 0 :: nat]"
definition pg_defaultFaultState :: gostring where "pg_defaultFaultState = ''40001''"
definition statusIdle :: char where "statusIdle = CHR ''I''"
definition statusInBlock :: char where "statusInBlock = CHR ''T''"
definition statusAborted :: char where "statusAborted = CHR ''E''"
definition driverStatements :: "gostring list" where "driverStatements = [''DEALLOCATE'', ''DISCARD'']"

record pg_task =
  pt_op :: sql_op
  pt_describes :: bool
  pt_extended :: bool
  pt_driver :: bool

record pg_statement =
  pp_statement :: "sqlval Statement"
  pp_oids :: "nat list"

record pg_portal =
  po_statement :: "sqlval Statement"
  po_described :: bool

record pg_protocol =
  pr_connections :: int
  pr_handshakes :: nat

text \<open>How \<open>fmt\<close> quotes a string, beside the library of values.\<close>

record pg_env =
  pv_lib :: pg_lib
  pv_quote :: "gostring \<Rightarrow> gostring"

record pg_session =
  pg_input :: "frontend_message list"
  pg_pending :: "backend_message list"
  pg_sent :: "backend_message list"
  pg_writable :: bool
  pg_protocol :: pg_protocol
  pg_prepared :: "(gostring \<times> pg_statement) list"
  pg_portals :: "(gostring \<times> pg_portal) list"
  pg_queue :: "pg_task list"
  pg_active :: pg_task
  pg_alreadyOpen :: int
  pg_greeted :: bool
  pg_owesReady :: bool
  pg_skipping :: bool
  pg_inBlock :: bool
  pg_aborted :: bool
  pg_panicked :: bool

definition New_pg_protocol :: pg_protocol where "New_pg_protocol = \<lparr>pr_connections = 0, pr_handshakes = 0\<rparr>"

definition no_task :: pg_task where
  "no_task = \<lparr>pt_op = \<lparr>op_Emulator = [], op_Kind = [], op_Target = [], op_Gauges = [], op_Payload = None\<rparr>,
     pt_describes = False, pt_extended = False, pt_driver = False\<rparr>"

definition new_pg_session :: "frontend_message list \<Rightarrow> bool \<Rightarrow> pg_protocol \<Rightarrow> int \<Rightarrow> pg_session" where
  "new_pg_session input writable p alreadyOpen =
     \<lparr>pg_input = input, pg_pending = [], pg_sent = [], pg_writable = writable, pg_protocol = p, pg_prepared = [],
      pg_portals = [], pg_queue = [], pg_active = no_task, pg_alreadyOpen = alreadyOpen, pg_greeted = False,
      pg_owesReady = False, pg_skipping = False, pg_inBlock = False, pg_aborted = False, pg_panicked = False\<rparr>"

definition pg_errRefused :: go_error where
  "pg_errRefused = PlainErr ''pgwire: the connection was refused by a fault rule''"

definition pg_EOF :: go_error where "pg_EOF = PlainErr ''EOF''"

definition pg_put :: "backend_message \<Rightarrow> pg_session \<Rightarrow> pg_session" where
  "pg_put m s = s\<lparr>pg_pending := pg_pending s @ [m]\<rparr>"

definition pg_Flush :: "pg_session \<Rightarrow> bool \<times> pg_session" where
  "pg_Flush s =
     (if pg_writable s then (True, s\<lparr>pg_sent := pg_sent s @ pg_pending s, pg_pending := []\<rparr>) else (False, s))"

definition pg_write_error :: "bool \<Rightarrow> go_error option" where
  "pg_write_error ok = (if ok then None else Some (PlainErr ''write''))"

section \<open>The handshake\<close>

fun pg_negotiate :: "startup_message list \<Rightarrow> backend_message list \<Rightarrow> (go_error + (gostring \<times> gostring) list) \<times> backend_message list" where
  "pg_negotiate [] out = (Inl pg_EOF, out)"
| "pg_negotiate (StartupMessage ps # ms) out = (Inr ps, out)"
| "pg_negotiate (SSLRequest # ms) out = pg_negotiate ms (out @ [Declined])"
| "pg_negotiate (GSSEncRequest # ms) out = pg_negotiate ms (out @ [Declined])"
| "pg_negotiate (OtherStartup name # ms) out = (Inl (PlainErr (''pgwire: '' @ name @ '' is not a connection'')), out)"

definition text_of :: "gostring option \<Rightarrow> gostring" where "text_of v = (case v of None \<Rightarrow> [] | Some t \<Rightarrow> t)"

definition statusReport :: "(gostring \<times> gostring) list \<Rightarrow> backend_message list" where
  "statusReport startup =
     (let settings =
        [(''server_version'', pg_serverVersion), (''server_encoding'', ''UTF8''), (''client_encoding'', ''UTF8''),
         (''DateStyle'', ''ISO, MDY''), (''IntervalStyle'', ''postgres''), (''TimeZone'', ''UTC''),
         (''integer_datetimes'', ''on''), (''standard_conforming_strings'', ''on''), (''is_superuser'', ''off''),
         (''application_name'', text_of (map_of startup ''application_name'')),
         (''session_authorization'', text_of (map_of startup ''user''))];
       order = [''application_name'', ''client_encoding'', ''DateStyle'', ''integer_datetimes'', ''IntervalStyle'',
         ''is_superuser'', ''server_encoding'', ''server_version'', ''session_authorization'',
         ''standard_conforming_strings'', ''TimeZone'']
      in map (\<lambda>key. ParameterStatus key (text_of (map_of settings key))) order)"

definition pg_Accept ::
  "startup_message list \<Rightarrow> frontend_message list \<Rightarrow> bool \<Rightarrow> pg_protocol \<Rightarrow> (go_error + pg_session) \<times> pg_protocol \<times> backend_message list" where
  "pg_Accept startups input writable p =
     (case pg_negotiate startups [] of
        (Inl err, out) \<Rightarrow> (Inl err, p, if writable then out else [])
      | (Inr ps, out) \<Rightarrow>
          (let p = p\<lparr>pr_handshakes := (pr_handshakes p + 1) mod 2 ^ 32\<rparr>;
               p' = p\<lparr>pr_connections := pr_connections p + 1\<rparr>;
               greeting = AuthenticationOk # statusReport ps @ [BackendKeyData (pr_handshakes p) cancelKey];
               s = snd (pg_Flush ((new_pg_session input writable p' (pr_connections p' - 1))\<lparr>pg_pending := greeting\<rparr>))
           in (Inr s, p', if writable then out else [])))"

definition pg_Close :: "pg_session \<Rightarrow> pg_session" where
  "pg_Close s = s\<lparr>pg_protocol := (pg_protocol s)\<lparr>pr_connections := pr_connections (pg_protocol s) - 1\<rparr>\<rparr>"

section \<open>Transaction status and errors\<close>

definition pg_status :: "pg_session \<Rightarrow> char" where
  "pg_status s = (if pg_aborted s then statusAborted else if pg_inBlock s then statusInBlock else statusIdle)"

definition pg_track :: "gostring \<Rightarrow> bool \<Rightarrow> pg_session \<Rightarrow> pg_session" where
  "pg_track kind succeeded s =
     (if kind = KindBegin then s\<lparr>pg_inBlock := succeeded, pg_aborted := False\<rparr>
      else if kind = KindCommit \<or> kind = KindRollback then s\<lparr>pg_inBlock := False, pg_aborted := False\<rparr>
      else s\<lparr>pg_aborted := pg_aborted s \<or> (\<not> succeeded \<and> pg_inBlock s)\<rparr>)"

definition stateOf :: "go_error \<Rightarrow> gostring" where
  "stateOf err =
     (case err of
        FaultErr fault \<Rightarrow> (if f_Code fault \<noteq> [] then f_Code fault else pg_defaultFaultState)
      | SqlErr code message \<Rightarrow> code
      | _ \<Rightarrow> ''XX000'')"

definition errorFrame :: "go_error \<Rightarrow> backend_message" where
  "errorFrame err = ErrorResponse (stateOf err) (error_text err)"

text \<open>A protocol-level mistake: told to the client, who is then not heard until it synchronises.\<close>

definition pg_reject :: "gostring \<Rightarrow> gostring \<Rightarrow> pg_session \<Rightarrow> go_error option \<times> pg_session" where
  "pg_reject message state s = (None, (pg_put (ErrorResponse state message) s)\<lparr>pg_skipping := True\<rparr>)"

definition pg_unsupported :: "gostring \<Rightarrow> pg_session \<Rightarrow> go_error option \<times> pg_session" where
  "pg_unsupported message s = (Some (PlainErr message), snd (pg_Flush (snd (pg_reject message ''0A000'' s))))"

definition reportReady :: "pg_session \<Rightarrow> pg_session" where
  "reportReady s =
     (if \<not> pg_owesReady s then s
      else snd (pg_Flush (pg_put (ReadyForQuery (pg_status s)) (s\<lparr>pg_owesReady := False\<rparr>))))"

section \<open>The messages of a client\<close>

definition statement_op :: "sqlval Statement \<Rightarrow> sql_op" where
  "statement_op statement =
     \<lparr>op_Emulator = [], op_Kind = s_Kind statement, op_Target = s_Table statement, op_Gauges = [], op_Payload = Some statement\<rparr>"

definition pg_enqueue :: "sqlval Statement \<Rightarrow> bool \<Rightarrow> bool \<Rightarrow> pg_session \<Rightarrow> pg_session" where
  "pg_enqueue statement describes extended s =
     s\<lparr>pg_queue := pg_queue s @ [\<lparr>pt_op = statement_op statement, pt_describes = describes, pt_extended = extended,
        pt_driver = (s_Command statement \<in> set driverStatements)\<rparr>]\<rparr>"

definition pg_query :: "gostring \<Rightarrow> pg_session \<Rightarrow> go_error option \<times> pg_session" where
  "pg_query text s =
     (let s = s\<lparr>pg_owesReady := True\<rparr>; statements = Split text
      in if statements = [] then (None, pg_put EmptyQueryResponse s)
         else (None, fold (\<lambda>text s. pg_enqueue (Parse text []) True False s) statements s))"

definition pg_parse :: "gostring \<Rightarrow> gostring \<Rightarrow> nat list \<Rightarrow> pg_session \<Rightarrow> go_error option \<times> pg_session" where
  "pg_parse name sql oids s =
     (None, pg_put ParseComplete
        (s\<lparr>pg_prepared := AList.update name \<lparr>pp_statement = Parse sql [], pp_oids = oids\<rparr> (pg_prepared s)\<rparr>))"

definition wantsBinary :: "int list \<Rightarrow> bool" where "wantsBinary formats \<longleftrightarrow> list_ex (\<lambda>f. f = BinaryFormat) formats"

definition pg_bind ::
  "pg_env \<Rightarrow> gostring \<Rightarrow> gostring \<Rightarrow> int list \<Rightarrow> gostring option list \<Rightarrow> int list \<Rightarrow> pg_session \<Rightarrow> go_error option \<times> pg_session" where
  "pg_bind v portal name formats params results s =
     (case map_of (pg_prepared s) name of
        None \<Rightarrow> pg_reject (''prepared statement '' @ pv_quote v name @ '' does not exist'') ''26000'' s
      | Some known \<Rightarrow>
          if wantsBinary results then pg_reject ''emu returns results in text format only'' ''0A000'' s
          else (case decodeParams (pv_lib v) (pp_oids known) formats params of
                  Inl err \<Rightarrow> pg_reject err ''22P03'' s
                | Inr params \<Rightarrow>
                    (None, pg_put BindComplete (s\<lparr>pg_portals := AList.update portal
                       \<lparr>po_statement = (pp_statement known)\<lparr>s_Params := params\<rparr>, po_described = False\<rparr> (pg_portals s)\<rparr>))))"

text \<open>\<open>make\<close> panics when the slice would need more bytes than an address space has (2^48 on the platforms
  the service is built for).\<close>

definition resolved :: "nat list \<Rightarrow> int \<Rightarrow> nat list option" where
  "resolved oids placeholders =
     (let n = max (int (length oids)) placeholders
      in if 4 * n > 2 ^ 48 then None
         else Some (map (\<lambda>index. if index < length oids \<and> oids ! index \<noteq> 0 then oids ! index else oidText) [0..<nat n]))"

definition pg_describe :: "pg_env \<Rightarrow> char \<Rightarrow> gostring \<Rightarrow> pg_session \<Rightarrow> go_error option \<times> pg_session" where
  "pg_describe v kind name s =
     (if kind = CHR ''S''
      then (case map_of (pg_prepared s) name of
              None \<Rightarrow> pg_reject (''prepared statement '' @ pv_quote v name @ '' does not exist'') ''26000'' s
            | Some known \<Rightarrow>
                (case resolved (pp_oids known) (s_Parameters (pp_statement known)) of
                   None \<Rightarrow> (None, s\<lparr>pg_panicked := True\<rparr>)
                 | Some oids \<Rightarrow> (None, pg_put NoData (pg_put (ParameterDescription oids) s))))
      else (case map_of (pg_portals s) name of
              None \<Rightarrow> pg_reject (''portal '' @ pv_quote v name @ '' does not exist'') ''34000'' s
            | Some target \<Rightarrow>
                (None, s\<lparr>pg_portals := AList.update name (target\<lparr>po_described := True\<rparr>) (pg_portals s)\<rparr>)))"

definition pg_execute :: "pg_env \<Rightarrow> gostring \<Rightarrow> nat \<Rightarrow> pg_session \<Rightarrow> go_error option \<times> pg_session" where
  "pg_execute v portal maxRows s =
     (case map_of (pg_portals s) portal of
        None \<Rightarrow> pg_reject (''portal '' @ pv_quote v portal @ '' does not exist'') ''34000'' s
      | Some target \<Rightarrow>
          if maxRows > 0 then pg_reject ''emu does not implement row-limited Execute'' ''0A000'' s
          else (None, pg_enqueue (po_statement target) (po_described target) True s))"

definition pg_forget :: "char \<Rightarrow> gostring \<Rightarrow> pg_session \<Rightarrow> go_error option \<times> pg_session" where
  "pg_forget kind name s =
     (None, pg_put CloseComplete
        (if kind = CHR ''S'' then s\<lparr>pg_prepared := AList.delete name (pg_prepared s)\<rparr>
         else s\<lparr>pg_portals := AList.delete name (pg_portals s)\<rparr>))"

fun dispatch_message :: "pg_env \<Rightarrow> frontend_message \<Rightarrow> pg_session \<Rightarrow> go_error option \<times> pg_session" where
  "dispatch_message v FTerminate s = (Some pg_EOF, s)"
| "dispatch_message v FSync s = (None, s\<lparr>pg_skipping := False, pg_owesReady := True\<rparr>)"
| "dispatch_message v FFlush s = (case pg_Flush s of (ok, s) \<Rightarrow> (pg_write_error ok, s))"
| "dispatch_message v m s =
     (if pg_skipping s then (None, s)
      else (case m of
              FQuery text \<Rightarrow> pg_query text s
            | FParse name sql oids \<Rightarrow> pg_parse name sql oids s
            | FBind portal name formats params results \<Rightarrow> pg_bind v portal name formats params results s
            | FDescribe kind name \<Rightarrow> pg_describe v kind name s
            | FExecute portal maxRows \<Rightarrow> pg_execute v portal maxRows s
            | FClose kind name \<Rightarrow> pg_forget kind name s
            | FOther name \<Rightarrow> pg_unsupported (''emu does not implement the '' @ name @ '' message'') s
            | _ \<Rightarrow> (None, s)))"

section \<open>Next, Reply and Fail\<close>

definition pg_connectTask :: "pg_session \<Rightarrow> pg_task" where
  "pg_connectTask s =
     no_task\<lparr>pt_op := \<lparr>op_Emulator = [], op_Kind = KindConnect, op_Target = [],
       op_Gauges = [(''connections'', pg_alreadyOpen s)], op_Payload = None\<rparr>\<rparr>"

definition pg_answerDriver :: "pg_session \<Rightarrow> pg_session" where
  "pg_answerDriver s =
     pg_put (CommandComplete (case op_Payload (pt_op (pg_active s)) of None \<Rightarrow> [] | Some st \<Rightarrow> s_Command st)) s"

text \<open>Takes tasks off the queue, answering the driver's own, until one is for the control layer.\<close>

fun drain_queue :: "pg_task list \<Rightarrow> pg_session \<Rightarrow> sql_op option \<times> pg_session" where
  "drain_queue [] s = (None, s\<lparr>pg_queue := []\<rparr>)"
| "drain_queue (t # ts) s =
     (let s = s\<lparr>pg_active := t, pg_queue := ts\<rparr>
      in if \<not> pt_driver t then (Some (pt_op t), s) else drain_queue ts (pg_answerDriver s))"

fun pg_loop :: "pg_env \<Rightarrow> frontend_message list \<Rightarrow> pg_session \<Rightarrow> (go_error + sql_op) \<times> pg_session" where
  "pg_loop v [] s =
     (case drain_queue (pg_queue s) s of
        (Some o', s) \<Rightarrow> (Inr o', s\<lparr>pg_input := []\<rparr>)
      | (None, s) \<Rightarrow> (Inl pg_EOF, (reportReady s)\<lparr>pg_input := []\<rparr>))"
| "pg_loop v (m # ms) s =
     (case drain_queue (pg_queue s) s of
        (Some o', s) \<Rightarrow> (Inr o', s\<lparr>pg_input := m # ms\<rparr>)
      | (None, s) \<Rightarrow>
          (case dispatch_message v m (reportReady s) of
             (Some err, s) \<Rightarrow> (Inl err, s\<lparr>pg_input := ms\<rparr>)
           | (None, s) \<Rightarrow> if pg_panicked s then (Inl pg_EOF, s\<lparr>pg_input := ms\<rparr>) else pg_loop v ms s))"

definition pg_Next :: "pg_env \<Rightarrow> pg_session \<Rightarrow> (go_error + sql_op) \<times> pg_session" where
  "pg_Next v s =
     (if \<not> pg_greeted s
      then (let s = s\<lparr>pg_greeted := True, pg_active := pg_connectTask s\<rparr> in (Inr (pt_op (pg_active s)), s))
      else pg_loop v (pg_input s) s)"

definition describeResult :: "Column list \<Rightarrow> pg_session \<Rightarrow> pg_session" where
  "describeResult columns s =
     (if columns = [] then (if pt_extended (pg_active s) then pg_put NoData s else s)
      else pg_put (RowDescription (map (\<lambda>column.
             \<lparr>fd_Name = c_Name column, fd_DataTypeOID = oidFor (c_Type column), fd_DataTypeSize = widthOf (oidFor (c_Type column)),
              fd_TypeModifier = - 1, fd_Format = TextFormat\<rparr>) columns)) s)"

fun send_rows :: "pg_lib \<Rightarrow> Column list \<Rightarrow> sqlval list list \<Rightarrow> pg_session \<Rightarrow> pg_session" where
  "send_rows l columns [] s = s"
| "send_rows l columns (row # rows) s =
     (case encodeRow l columns row of
        None \<Rightarrow> s\<lparr>pg_panicked := True\<rparr>
      | Some cells \<Rightarrow> send_rows l columns rows (pg_put (DataRow cells) s))"

definition pg_Reply :: "pg_env \<Rightarrow> sqlval Result \<Rightarrow> pg_session \<Rightarrow> bool \<times> pg_session" where
  "pg_Reply v result s =
     (if op_Kind (pt_op (pg_active s)) = KindConnect then (True, s\<lparr>pg_owesReady := True\<rparr>)
      else
        (let s = (if pt_describes (pg_active s) then describeResult (res_Columns result) s else s);
             s = send_rows (pv_lib v) (res_Columns result) (res_Rows result) s
         in if pg_panicked s then (False, s)
            else pg_Flush (pg_track (op_Kind (pt_op (pg_active s))) True (pg_put (CommandComplete (res_Tag result)) s))))"

definition pg_Fail :: "go_error \<Rightarrow> pg_session \<Rightarrow> bool \<times> pg_session" where
  "pg_Fail err s =
     (let kind = op_Kind (pt_op (pg_active s));
          s = pg_track kind False (pg_put (errorFrame err) (s\<lparr>pg_queue := []\<rparr>))
      in if kind = KindConnect then (False, snd (pg_Flush s))
         else if pt_extended (pg_active s) then pg_Flush (s\<lparr>pg_skipping := True\<rparr>)
         else pg_Flush (s\<lparr>pg_owesReady := True\<rparr>))"

definition postgres :: "pg_env \<Rightarrow> 'h engine \<Rightarrow> (pg_session, 'h sql_connection, sqlval Statement option, sqlval) seam" where
  "postgres v e = \<lparr>next_op = pg_Next v, reply = pg_Reply v, fail_frame = pg_Fail, exec = sql_Exec e, abort = sql_Abort e\<rparr>"

end
