(* ===== verification/PgValues.thy ===== *)
theory PgValues
  imports PgTypes
begin

text \<open>
  What the values of \<open>PgTypes\<close> mean: two's complement integers byte by byte, the calendar against a day number
  given by leap-year counts, instants on either side of the epoch, and hexadecimal. The properties say that
  parameters in binary are read as what they stand for and that results read back as parameters; the last
  one is a numeric the code misreads.
\<close>

section \<open>Big-endian integers\<close>

fun int_bytes :: "nat \<Rightarrow> int \<Rightarrow> gostring" where
  "int_bytes 0 i = []"
| "int_bytes (Suc n) i = int_bytes n (drop_bit 8 i) @ [char_of (take_bit 8 i)]"

lemma length_int_bytes [simp]: "length (int_bytes n i) = n"
  by (induction n arbitrary: i) simp_all

lemma shifted_in_snoc: "shifted_in (s @ [c]) = push_bit 8 (shifted_in s) OR word_of_nat (of_char c)"
  by (simp add: shifted_in_def)

lemma of_char_byte: "word_of_nat (of_char (char_of (take_bit 8 i :: int))) = (word_of_int (take_bit 8 i) :: 64 word)"
proof -
  let ?c = "char_of (take_bit 8 i :: int)"
  have "word_of_nat (of_char ?c) = (word_of_int (of_char ?c) :: 64 word)" by (simp only: of_nat_of_char of_int_of_char)
  moreover have "(of_char ?c :: int) = take_bit 8 i" by (simp add: take_bit_eq_mod)
  ultimately show ?thesis by simp
qed

lemma shifted_in_int_bytes: "n \<le> 8 \<Longrightarrow> shifted_in (int_bytes n i) = word_of_int (take_bit (8 * n) i)"
proof (induction n arbitrary: i)
  case 0
  then show ?case by (simp add: shifted_in_def)
next
  case (Suc n)
  then have "shifted_in (int_bytes (Suc n) i) =
      push_bit 8 (word_of_int (take_bit (8 * n) (drop_bit 8 i))) OR word_of_int (take_bit 8 i)"
    by (simp add: shifted_in_snoc of_char_byte)
  also have "\<dots> = word_of_int (take_bit (8 * Suc n) i)"
    by (rule bit_word_eqI) (auto simp: bit_simps)
  finally show ?case .
qed

lemma sign_extended:
  assumes w: "w \<in> {1, 2, 4, 8}" and i: "- (2 ^ (8 * w - 1)) \<le> i" "i < 2 ^ (8 * w - 1)"
  shows "binarySigned (int_bytes w i) w oid = Inr i"
proof -
  have "sint (signed_drop_bit (64 - w * 8) (push_bit (64 - w * 8) (word_of_int (take_bit (8 * w) i) :: 64 word)))
      = signed_take_bit (8 * w - 1) i"
  proof (rule bit_eqI)
    fix k
    show "bit (sint (signed_drop_bit (64 - w * 8) (push_bit (64 - w * 8) (word_of_int (take_bit (8 * w) i) :: 64 word)))) k =
        bit (signed_take_bit (8 * w - 1) i) k"
      using w by (cases "k = 8 * w - 1") (auto simp: bit_simps min_def)
  qed
  moreover have "signed_take_bit (8 * w - 1) i = i"
    using i by (simp add: signed_take_bit_int_eq_self)
  moreover have "w \<le> 8" using w by auto
  ultimately show ?thesis by (simp add: binarySigned_def binaryBits_def shifted_in_int_bytes)
qed

section \<open>The calendar\<close>

text \<open>The number of a day, counting leap years instead of walking through them.\<close>

definition years_before :: "int \<Rightarrow> int" where
  "years_before y = 365 * (y - 2000) + ((y - 1) div 4 - (y - 1) div 100 + (y - 1) div 400) - 484"

definition months_before :: "int \<Rightarrow> nat \<Rightarrow> int" where
  "months_before y m = sum_list (map (month_days y) [1..<m])"

definition valid_date :: "int \<Rightarrow> nat \<Rightarrow> int \<Rightarrow> bool" where
  "valid_date y m d \<longleftrightarrow> 1 \<le> m \<and> m \<le> 12 \<and> 1 \<le> d \<and> d \<le> month_days y m"

definition day_number :: "int \<Rightarrow> nat \<Rightarrow> int \<Rightarrow> int" where
  "day_number y m d = years_before y + months_before y m + d - 1"

lemma div_step:
  fixes y k :: int
  assumes "0 < k"
  shows "y div k = (y - 1) div k + (if y mod k = 0 then 1 else 0)"
proof (cases "y mod k = 0")
  case True
  then obtain q where q: "y = q * k" using mult_div_mod_eq [of k y] by (metis add.right_neutral mult.commute)
  have "(q * k - 1) div k = q - 1" using assms by (intro int_div_pos_eq [of _ _ _ "k - 1"]) (simp_all add: algebra_simps)
  with True q assms show ?thesis by simp
next
  case False
  have r: "0 < y mod k" "y mod k < k" using False assms pos_mod_sign [of k y] pos_mod_bound [of k y] by linarith+
  have "(y - 1) div k = y div k"
    by (rule int_div_pos_eq [of _ _ _ "y mod k - 1"]) (use r in \<open>simp, linarith+\<close>)
  with False show ?thesis by simp
qed

lemma years_before_step: "years_before (y + 1) = years_before y + year_days y"
proof -
  define a b c where "a = (y - 1) div 4" and "b = (y - 1) div 100" and "c = (y - 1) div 400"
  have four: "4 dvd y" if "100 dvd y" using that dvd_trans [of 4 100 y] by simp
  have hundred: "100 dvd y" if "400 dvd y" using that dvd_trans [of 100 400 y] by simp
  have steps: "y div 4 = a + (if 4 dvd y then 1 else 0)" "y div 100 = b + (if 100 dvd y then 1 else 0)"
    "y div 400 = c + (if 400 dvd y then 1 else 0)"
    unfolding a_def b_def c_def using div_step [of 4 y] div_step [of 100 y] div_step [of 400 y]
    by (simp_all only: mod_eq_0_iff_dvd zero_less_numeral simp_thms)
  have leap: "leap_year y \<longleftrightarrow> 4 dvd y \<and> (\<not> 100 dvd y \<or> 400 dvd y)" unfolding leap_year_def mod_eq_0_iff_dvd by blast
  have "y div 4 - y div 100 + y div 400 = a - b + c + (if leap_year y then 1 else 0)"
    unfolding steps leap
  proof (cases "100 dvd y")
    case True
    then show "a + (if 4 dvd y then 1 else 0) - (b + (if 100 dvd y then 1 else 0)) + (c + (if 400 dvd y then 1 else 0)) =
      a - b + c + (if 4 dvd y \<and> (\<not> 100 dvd y \<or> 400 dvd y) then 1 else 0)" using four by simp
  next
    case False
    then have "\<not> 400 dvd y" using hundred by blast
    then show "a + (if 4 dvd y then 1 else 0) - (b + (if 100 dvd y then 1 else 0)) + (c + (if 400 dvd y then 1 else 0)) =
      a - b + c + (if 4 dvd y \<and> (\<not> 100 dvd y \<or> 400 dvd y) then 1 else 0)" using False by simp
  qed
  moreover have "years_before y = 365 * (y - 2000) + (a - b + c) - 484" unfolding years_before_def a_def b_def c_def by linarith
  moreover have "years_before (y + 1) = 365 * (y - 1999) + (y div 4 - y div 100 + y div 400) - 484"
    unfolding years_before_def add_diff_cancel_right' by simp
  ultimately show ?thesis by (simp add: year_days_def)
qed

lemma months_before_year: "months_before y 13 = year_days y"
  by (simp add: months_before_def year_days_def month_days_def upt_conv_Cons)

lemma months_before_Suc: "1 \<le> m \<Longrightarrow> months_before y (Suc m) = months_before y m + month_days y m"
  by (simp add: months_before_def)

lemma months_before_1 [simp]: "months_before y (Suc 0) = 0"
  by (simp add: months_before_def)

lemma month_from_valid:
  "m + left = 12 \<Longrightarrow> 1 \<le> m \<Longrightarrow> 0 \<le> d \<Longrightarrow> months_before y m + d < year_days y \<Longrightarrow> month_from y left m d = (m', k) \<Longrightarrow>
     valid_date y m' (k + 1) \<and> months_before y m' + k = months_before y m + d"
proof (induction y left m d rule: month_from.induct)
  case (1 y m d)
  then have "m = 12" by simp
  moreover have "months_before y (Suc 12) = months_before y 12 + month_days y 12" by (rule months_before_Suc) simp
  ultimately show ?case using 1 months_before_year [of y] by (simp add: valid_date_def)
next
  case (2 y left m d)
  then show ?case
    using months_before_Suc [of m y] by (cases "d < month_days y m") (auto simp: valid_date_def)
qed

lemma year_from_valid:
  "0 \<le> d \<Longrightarrow> year_from y d = (y', d') \<Longrightarrow> 0 \<le> d' \<and> d' < year_days y' \<and> years_before y' + d' = years_before y + d"
proof (induction y d rule: year_from.induct)
  case (1 y d)
  show ?case
  proof (cases "d < year_days y")
    case True
    then show ?thesis using "1.prems" by (subst (asm) year_from.simps) auto
  next
    case False
    then have "year_from (y + 1) (d - year_days y) = (y', d')" using "1.prems"(2) by (subst (asm) year_from.simps) simp
    then show ?thesis using "1.IH" [OF False] False years_before_step [of y] by simp
  qed
qed

lemma cycle_years: "years_before (2000 + 400 * k) = cycle_days * k"
proof -
  have "(1999 + 400 * k) div 4 = 499 + 100 * k" by (rule int_div_pos_eq [of _ _ _ 3]) simp_all
  moreover have "(1999 + 400 * k) div 100 = 19 + 4 * k" by (rule int_div_pos_eq [of _ _ _ 99]) simp_all
  moreover have "(1999 + 400 * k) div 400 = 4 + k" by (rule int_div_pos_eq [of _ _ _ 399]) simp_all
  ultimately show ?thesis by (simp add: years_before_def cycle_days_def algebra_simps)
qed

lemma civil_valid:
  assumes "civil n = (y, m, d)"
  shows "valid_date y m d \<and> day_number y m d = n"
proof -
  obtain y1 d1 where yd: "year_from (2000 + 400 * (n div cycle_days)) (n mod cycle_days) = (y1, d1)" by force
  obtain m1 k where mk: "month_from y1 11 1 d1 = (m1, k)" by force
  have "0 \<le> n mod cycle_days" by (simp add: cycle_days_def)
  from year_from_valid [OF this yd]
  have d1: "0 \<le> d1" "d1 < year_days y1" "years_before y1 + d1 = n"
    by (simp_all add: cycle_years)
  from month_from_valid [OF _ _ d1(1) _ mk] d1(2)
  have "valid_date y1 m1 (k + 1)" "months_before y1 m1 + k = d1" by simp_all
  with d1(3) assms yd mk show ?thesis by (auto simp: civil_def day_number_def)
qed

lemma months_before_mono: "1 \<le> m \<Longrightarrow> m \<le> m' \<Longrightarrow> months_before y m \<le> months_before y m'"
proof (induction m')
  case (Suc m')
  then show ?case using months_before_Suc [of m' y] month_days_positive(1) [of y m'] by (cases "m = Suc m'") auto
qed simp

lemma years_before_mono: "y \<le> y' \<Longrightarrow> years_before y \<le> years_before y'"
proof (induction y' rule: int_ge_induct)
  case (step i)
  then show ?case using years_before_step [of i] year_days_positive(1) [of i] by simp
qed simp

lemma month_unique:
  assumes "valid_date y m d" "valid_date y m' d'" "months_before y m + d = months_before y m' + d'"
  shows "m = m'"
proof (rule ccontr)
  have "months_before y a + c < months_before y b + e" if "a < b" "valid_date y a c" "valid_date y b e" for a b c e
    using that months_before_mono [of "Suc a" b y] months_before_Suc [of a y] by (auto simp: valid_date_def)
  moreover assume "m \<noteq> m'"
  ultimately show False using assms by (metis less_irrefl nat_neq_iff)
qed

lemma day_in_year: "valid_date y m d \<Longrightarrow> years_before y \<le> day_number y m d \<and> day_number y m d < years_before (y + 1)"
  using months_before_mono [of 1 m y] months_before_mono [of "Suc m" 13 y] months_before_Suc [of m y] months_before_year [of y]
  by (simp add: valid_date_def day_number_def years_before_step)

lemma civil_iff: "civil n = (y, m, d) \<longleftrightarrow> valid_date y m d \<and> day_number y m d = n"
proof
  assume new: "valid_date y m d \<and> day_number y m d = n"
  obtain y' m' d' where c: "civil n = (y', m', d')" by (metis prod_cases3)
  note old = civil_valid [OF c]
  have "y = y'"
  proof (rule ccontr)
    assume "y \<noteq> y'"
    then consider "y + 1 \<le> y'" | "y' + 1 \<le> y" by linarith
    then show False
      using new old day_in_year [of y m d] day_in_year [of y' m' d'] years_before_mono [of "y + 1" y'] years_before_mono [of "y' + 1" y]
      by cases auto
  qed
  moreover from this new old have "m = m'" by (intro month_unique [of y m d m' d']) (auto simp: day_number_def)
  ultimately show "civil n = (y, m, d)" using c new old by (auto simp: day_number_def)
qed (rule civil_valid)

section \<open>Instants\<close>

lemma quot_sign: "0 \<le> a \<Longrightarrow> 0 < b \<Longrightarrow> quot a b = a div b" "a \<le> 0 \<Longrightarrow> 0 < b \<Longrightarrow> quot a b = - ((- a) div b)"
  by (cases "a = 0"; simp add: quot_def)+

lemma split_moment:
  "time_Unix (quot i perSecond) ((i - quot i perSecond * perSecond) * 1000) = (i div perSecond, nat (i mod perSecond) * 1000)"
proof (cases "0 \<le> i")
  case True
  moreover have "0 \<le> i mod perSecond" "i mod perSecond < perSecond" by (simp_all add: perSecond_def)
  ultimately show ?thesis
    by (simp add: quot_sign perSecond_def time_Unix_def minus_div_mult_eq_mod nat_mult_distrib)
next
  case False
  define q r where "q = (- i) div perSecond" and "r = (- i) mod perSecond"
  have r: "0 \<le> r" "r < perSecond" "- i = q * perSecond + r"
    unfolding q_def r_def by (simp_all add: perSecond_def)
  have quot: "quot i perSecond = - q" using False by (simp add: quot_sign q_def perSecond_def)
  have rest: "i - quot i perSecond * perSecond = - r" using r(3) quot by simp
  show ?thesis
  proof (cases "r = 0")
    case True
    have "i div perSecond = - q" using r(3) True by (intro int_div_pos_eq [of _ _ _ 0]) (simp_all add: perSecond_def)
    moreover have "i mod perSecond = 0" using r(3) True by (metis add.right_neutral minus_minus mod_minus_eq mod_mult_self2_is_0 mod_minus_cong mod_0 minus_zero)
    ultimately show ?thesis unfolding rest using True quot by (simp add: time_Unix_def)
  next
    case False
    have d: "i div perSecond = - q - 1"
      using r False by (intro int_div_pos_eq [of _ _ _ "perSecond - r"]) (simp_all add: perSecond_def)
    have "i mod perSecond = i - i div perSecond * perSecond" by (simp add: minus_div_mult_eq_mod)
    then have m: "i mod perSecond = perSecond - r" unfolding d using r(3) by (simp add: perSecond_def)
    define v where "v = - r * 1000"
    have v: "- 1000000000 < v" "v < 0" "nat (v + 1000000000) = nat (perSecond - r) * 1000"
      using r False by (simp_all add: v_def perSecond_def nat_mult_distrib [symmetric])
    then have "quot v 1000000000 = 0" by (simp add: quot_sign)
    with v show ?thesis unfolding rest d m v_def [symmetric] unfolding quot by (simp add: time_Unix_def)
  qed
qed

section \<open>Hexadecimal\<close>

lemma hex_value_digit: "n < 16 \<Longrightarrow> hex_value (hex_digit n) = Some n"
  by (simp add: hex_value_def hex_digit_def Let_def)

lemma hex_round_trip: "hex_decode (hex_encode s) = Some s"
proof (induction s)
  case (Cons c s)
  have "(of_char c :: nat) < 256" by simp 
  then have "(of_char c div 16 :: nat) < 16" by (intro less_mult_imp_div_less) simp
  with Cons show ?case by (simp add: hex_encode_def hex_value_digit)
qed (simp add: hex_encode_def)

section \<open>Properties\<close>

definition date_text :: "int \<Rightarrow> nat \<Rightarrow> int \<Rightarrow> gostring" where
  "date_text y m d = pad_int 4 y @ ''-'' @ pad_nat 2 m @ ''-'' @ pad_int 2 d"

lemma dateLayout_text: "valid_date y m d \<Longrightarrow> dateLayout (day_number y m d) = date_text y m d"
  using civil_iff [of "day_number y m d" y m d] by (simp add: dateLayout_def date_text_def)

text \<open>C37. A date or a timestamp that arrives in binary is stored as the text of the calendar date it stands for: the
  count of days since the first of January 2000, for any date of the proleptic Gregorian calendar, before
  the epoch as after it, and the count of microseconds, split into days, hours, minutes, seconds and the
  fraction, which loses its trailing zeros.\<close>

theorem binary_moments_are_calendar_dates:
  assumes "valid_date y m d"
  shows "(- (2 ^ 31) \<le> day_number y m d \<longrightarrow> day_number y m d < 2 ^ 31 \<longrightarrow>
      decodeBinary l oidDate (int_bytes 4 (day_number y m d)) = Inr (SText (date_text y m d)))
    \<and> (oid \<in> {oidTimestamp, oidTimestampTZ} \<longrightarrow> h \<in> {0..<24} \<longrightarrow> mi \<in> {0..<60} \<longrightarrow> s \<in> {0..<60} \<longrightarrow> us < 1000000 \<longrightarrow>
        micros = (((day_number y m d * 24 + h) * 60 + mi) * 60 + s) * 1000000 + int us \<longrightarrow>
        - (2 ^ 63) \<le> micros \<longrightarrow> micros < 2 ^ 63 \<longrightarrow>
      decodeBinary l oid (int_bytes 8 micros) = Inr (SText
        (date_text y m d @ '' '' @ pad_int 2 h @ '':'' @ pad_int 2 mi @ '':'' @ pad_int 2 s @ fraction (us * 1000))))"
proof (intro conjI impI)
  assume "- (2 ^ 31) \<le> day_number y m d" "day_number y m d < 2 ^ 31"
  then show "decodeBinary l oidDate (int_bytes 4 (day_number y m d)) = Inr (SText (date_text y m d))"
    using sign_extended [of 4 "day_number y m d" oidDate] dateLayout_text [OF assms]
    by (simp add: decodeBinary_def binaryWidths_def momentWidths_def binaryMoment_def oid_defs)
next
  let ?n = "day_number y m d"
  assume oid: "oid \<in> {oidTimestamp, oidTimestampTZ}" and h: "h \<in> {0..<24}" and mi: "mi \<in> {0..<60}" and s: "s \<in> {0..<60}"
    and us: "us < 1000000" and u: "micros = (((?n * 24 + h) * 60 + mi) * 60 + s) * 1000000 + int us"
    and range: "- (2 ^ 63) \<le> micros" "micros < 2 ^ 63"
  let ?secs = "((?n * 24 + h) * 60 + mi) * 60 + s"
  have secs: "micros div perSecond = ?secs" using u us by (intro int_div_pos_eq [of _ _ _ "int us"]) (simp_all add: perSecond_def)
  then have rest: "micros mod perSecond = int us"
    using u mult_div_mod_eq [of perSecond micros] by (simp add: perSecond_def)
  let ?t = "(h * 60 + mi) * 60 + s"
  have day: "?secs div 86400 = ?n" using h mi s by (intro int_div_pos_eq [of _ _ _ ?t]) simp_all
  then have t: "?secs mod 86400 = ?t" using mult_div_mod_eq [of 86400 ?secs] by simp
  have hour: "?t div 3600 = h" using mi s by (intro int_div_pos_eq [of _ _ _ "mi * 60 + s"]) simp_all
  then have t': "?t mod 3600 = mi * 60 + s" using mult_div_mod_eq [of 3600 ?t] by simp
  have minute: "(mi * 60 + s) div 60 = mi" using s by (intro int_div_pos_eq [of _ _ _ s]) simp_all
  have second: "?t mod 60 = s" using s by (metis atLeastLessThan_iff mod_mult_self3 mod_pos_pos_trivial)
  have "decodeBinary l oid (int_bytes 8 micros) = Inr (SText (timestampLayout ?secs (us * 1000)))"
    using oid range sign_extended [of 8 micros oid] split_moment [of micros]
    by (auto simp: decodeBinary_def binaryWidths_def momentWidths_def binaryMoment_def oid_defs secs rest)
  then show "decodeBinary l oid (int_bytes 8 micros) = Inr (SText
      (date_text y m d @ '' '' @ pad_int 2 h @ '':'' @ pad_int 2 mi @ '':'' @ pad_int 2 s @ fraction (us * 1000)))"
    unfolding timestampLayout_def Let_def day t hour t' minute second dateLayout_text [OF assms] .
qed

definition sample_lib :: pg_lib where
  "sample_lib = \<lparr>pl_FormatFloat = (\<lambda>x. if x = Fin False 3 (- 1) then ''1.5'' else ''0''),
     pl_ParseFloat = (\<lambda>s. if s = ''1.5'' then Some (Fin False 3 (- 1)) else None),
     pl_Pow10000 = (\<lambda>n. f_of_int (10000 ^ nat n)), pl_Sprint_time = (\<lambda>_ _. [])\<rparr>"

theorem binary_moments_are_calendar_dates_witness:
  "decodeBinary sample_lib oidDate (int_bytes 4 (- 1)) = Inr (SText ''1999-12-31'') \<and>
   decodeBinary sample_lib oidTimestamp (int_bytes 8 (- 10)) = Inr (SText ''1999-12-31 23:59:59.99999'')"
proof -
  have v: "valid_date 1999 12 31" by code_simp
  have n: "day_number 1999 12 31 = - 1" by code_simp
  have digits: "digit_char 0 = CHR ''0''" "digit_char 1 = CHR ''1''" "digit_char 2 = CHR ''2''" "digit_char 3 = CHR ''3''"
    "digit_char 5 = CHR ''5''" "digit_char 9 = CHR ''9''" by code_simp+
  then have t: "date_text 1999 12 31 = ''1999-12-31''" and f: "pad_int 2 23 = ''23''" "pad_int 2 59 = ''59''"
    by (simp_all add: date_text_def pad_int_def pad_nat_def format_nat.simps)
  from digits have "format_nat 999990000 = ''999990000''" by (simp add: format_nat.simps)
  then have p: "fraction (999990 * 1000) = ''.99999''" by (simp add: fraction_def pad_nat_def)
  show ?thesis
    using binary_moments_are_calendar_dates [OF v, of sample_lib oidTimestamp 23 59 59 999990 "- 10"] unfolding n t f p by simp
qed

lemma FormatInt_bool: "boolValue (FormatInt i) = (if i = 1 then 1 else 0)" if "int64_range i"
proof -
  have lower: "list_all (\<lambda>c. \<not> (CHR ''A'' \<le> c \<and> c \<le> CHR ''Z'')) (FormatInt i)"
  proof -
    have "is_digit c \<Longrightarrow> \<not> (CHR ''A'' \<le> c \<and> c \<le> CHR ''Z'')" for c by (auto simp: is_digit_def less_eq_char_def)
    moreover have "list_all is_digit (format_nat n)" for n by (rule format_nat_digits)
    ultimately show ?thesis by (auto simp: FormatInt_def list_all_iff less_eq_char_def)
  qed
  then have same: "ToLower (FormatInt i) = FormatInt i"
    unfolding ToLower_def by (intro map_idI) (auto simp: lower_char_def list_all_iff)
  have one: "FormatInt 1 = ''1''" by code_simp
  have "FormatInt i = ''1'' \<longleftrightarrow> i = 1"
    using Parse_FormatInt [OF that] Parse_FormatInt [of 1] one by (auto simp: int64_range_def)
  moreover have "FormatInt i \<notin> {''t'', ''true'', ''y'', ''yes'', ''on''}"
  proof -
    have "ParseInt (FormatInt i) = Some i" using that by simp
    moreover have "ParseInt ''t'' = None" "ParseInt ''true'' = None" "ParseInt ''y'' = None" "ParseInt ''yes'' = None"
      "ParseInt ''on'' = None" by code_simp+
    ultimately show ?thesis by auto
  qed
  ultimately show ?thesis by (simp add: boolValue_def same)
qed

text \<open>C31. An integer that arrives in binary, two's complement and big-endian at the width of its type, is read as
  the number it stands for, negative ones included, for the three integer types of 2, 4 and 8 bytes, and
  any other number of bytes is refused for them. The one byte of a boolean is read as 1 when it is 1 and as
  0 otherwise.\<close>

theorem binary_integers_are_signed:
  assumes "(oid, w) \<in> {(oidInt2, 2), (oidInt4, 4), (oidInt8, 8)}"
  shows "(- (2 ^ (8 * w - 1)) \<le> i \<longrightarrow> i < 2 ^ (8 * w - 1) \<longrightarrow> decodeBinary l oid (int_bytes w i) = Inr (SInt i))
    \<and> (length raw \<noteq> w \<longrightarrow> (\<exists>err. decodeBinary l oid raw = Inl err))
    \<and> decodeBinary l oidBool [c] = Inr (SInt (if c = CHR 0x01 then 1 else 0))"
proof (intro conjI impI)
  have w: "map_of binaryWidths oid = Some w" "w \<in> {1, 2, 4, 8}" "oid \<noteq> oidBool"
    using assms by (auto simp: binaryWidths_def oid_defs)
  show "decodeBinary l oid (int_bytes w i) = Inr (SInt i)" if "- (2 ^ (8 * w - 1)) \<le> i" "i < 2 ^ (8 * w - 1)"
    using w sign_extended [OF w(2) that, of oid] by (simp add: decodeBinary_def binaryInteger_def)
  show "\<exists>err. decodeBinary l oid raw = Inl err" if "length raw \<noteq> w"
    using w that by (simp add: decodeBinary_def binaryInteger_def binarySigned_def binaryBits_def)
  define i :: int where "i = (if of_char c < (128::nat) then of_char c else of_char c - 256)"
  have c: "(of_char c :: int) < 256" "0 \<le> (of_char c :: int)" 
    by (simp_all flip: of_nat_of_char [where 'a = int])
  have nat_c: "of_char c < (128::nat) \<longleftrightarrow> (of_char c :: int) < 128" by (simp flip: of_nat_of_char [where 'a = int])
  have "take_bit 8 i = of_char c" using c nat_c by (auto simp: i_def take_bit_eq_mod)
  then have bytes: "int_bytes 1 i = [c]" by simp
  have r: "- 128 \<le> i" "i < 128" using c nat_c by (auto simp: i_def)
  then have s: "binarySigned [c] 1 oidBool = Inr i" using sign_extended [of 1 i oidBool] by (simp only: bytes) simp
  have "i = 1 \<longleftrightarrow> c = CHR 0x01"
  proof
    assume "i = 1"
    then have "(of_char c :: int) = of_char (CHR 0x01)" using c by (auto simp: i_def split: if_splits)
    then show "c = CHR 0x01" by (simp only: of_char_eq_iff)
  qed (simp add: i_def)
  then show "decodeBinary l oidBool [c] = Inr (SInt (if c = CHR 0x01 then 1 else 0))"
    using s r FormatInt_bool [of i] by (simp add: decodeBinary_def binaryWidths_def oid_defs binaryInteger_def int64_range_def)
qed

theorem binary_integers_are_signed_witness:
  "decodeBinary sample_lib oidInt4 (map char_of [255, 255, 255, 254 :: nat]) = Inr (SInt (- 2)) \<and>
   (\<exists>err. decodeBinary sample_lib oidInt4 ''123'' = Inl err)"
proof -
  have "int_bytes 4 (- 2) = map char_of [255, 255, 255, 254 :: nat]" by code_simp
  then show ?thesis using binary_integers_are_signed [of oidInt4 4 "- 2" sample_lib "''123''"] by simp
qed

text \<open>What a result column is written as, read back as a text parameter of the type the column was described
  as, is the value it was: integers over their whole range, texts, byte strings; booleans come back as
  the 1 or 0 SQLite compares with, and doubles as equal doubles when the library parses what it prints.\<close>

theorem results_read_back_as_parameters:
  assumes "\<And>x. x \<noteq> NaN \<Longrightarrow> \<exists>y. pl_ParseFloat l (pl_FormatFloat l x) = Some y \<and> f_eq y x"
  shows "(int64_range i \<longrightarrow> decodeText l (oidFor TypeInteger) (encode_value l TypeInteger (SInt i)) = SInt i)
    \<and> decodeText l (oidFor TypeText) (encode_value l TypeText (SText s)) = SText s
    \<and> decodeText l (oidFor TypeBytes) (encode_value l TypeBytes (SBytes s)) = SBytes s
    \<and> decodeText l (oidFor TypeBool) (encode_value l TypeBool v) = SInt (if pg_truthy v then 1 else 0)
    \<and> (x \<noteq> NaN \<longrightarrow> (\<exists>y. decodeText l (oidFor TypeFloat) (encode_value l TypeFloat (SFloat x)) = SFloat y \<and> f_eq y x))"
proof (intro conjI impI)
  show "\<exists>y. decodeText l (oidFor TypeFloat) (encode_value l TypeFloat (SFloat x)) = SFloat y \<and> f_eq y x" if "x \<noteq> NaN"
    using assms [OF that] by (auto simp: decodeText_def oidFor_def type_oids_def encode_value_def integerOIDs_def realOIDs_def oid_defs)
  show "decodeText l (oidFor TypeBytes) (encode_value l TypeBytes (SBytes s)) = SBytes s"
    by (simp add: decodeText_def oidFor_def type_oids_def encode_value_def byteaText_def integerOIDs_def realOIDs_def oid_defs
        TrimPrefix_def hex_round_trip)
  have "boolValue ''t'' = 1" "boolValue ''f'' = 0" by code_simp+
  then show "decodeText l (oidFor TypeBool) (encode_value l TypeBool v) = SInt (if pg_truthy v then 1 else 0)"
    by (simp add: decodeText_def oidFor_def type_oids_def encode_value_def boolText_def integerOIDs_def realOIDs_def oid_defs)
qed (simp_all add: decodeText_def oidFor_def type_oids_def encode_value_def integerOIDs_def realOIDs_def oid_defs)

text \<open>A library that prints and parses doubles exactly: sign, significand and exponent.\<close>

fun exact_format :: "float64 \<Rightarrow> gostring" where
  "exact_format NaN = ''nan''"
| "exact_format (Inf s) = (if s then ''I'' else ''i'')"
| "exact_format (Fin s m e) =
     (if s then CHR ''-'' else CHR ''+'') # format_nat m @ (if e < 0 then CHR ''n'' else CHR ''p'') # format_nat (nat \<bar>e\<bar>)"

definition exact_parse :: "gostring \<Rightarrow> float64 option" where
  "exact_parse s =
     (if s = ''i'' then Some (Inf False) else if s = ''I'' then Some (Inf True)
      else (case (parse_digits (takeWhile is_digit (tl s)), dropWhile is_digit (tl s)) of
          (Some m, k # t) \<Rightarrow> map_option (\<lambda>e. Fin (hd s = CHR ''-'') m (if k = CHR ''n'' then - int e else int e)) (parse_digits t)
        | _ \<Rightarrow> None))"

lemma exact_round_trip: "x \<noteq> NaN \<Longrightarrow> exact_parse (exact_format x) = Some x"
proof (cases x)
  case (Fin s m e)
  have d: "\<forall>c \<in> set (format_nat m). is_digit c" using format_nat_digits [of m] by (simp add: list_all_iff)
  let ?k = "if e < 0 then CHR ''n'' else CHR ''p''"
  have k: "\<not> is_digit ?k" by (simp add: is_digit_def less_eq_char_def)
  have "takeWhile is_digit (format_nat m @ ?k # format_nat (nat \<bar>e\<bar>)) = format_nat m"
    "dropWhile is_digit (format_nat m @ ?k # format_nat (nat \<bar>e\<bar>)) = ?k # format_nat (nat \<bar>e\<bar>)"
    using d k by (simp_all add: takeWhile_append2 dropWhile_append2)
  then show ?thesis using Fin by (auto simp: exact_parse_def)
qed (auto simp: exact_parse_def)

definition exact_lib :: pg_lib where
  "exact_lib = sample_lib\<lparr>pl_FormatFloat := exact_format, pl_ParseFloat := exact_parse\<rparr>"

lemma f_eq_refl: "x \<noteq> NaN \<Longrightarrow> f_eq x x"
  by (cases x) (auto simp: f_eq_def)

theorem results_read_back_as_parameters_witness:
  "decodeText exact_lib (oidFor TypeInteger) (encode_value exact_lib TypeInteger (SInt MinInt64)) = SInt MinInt64 \<and>
   decodeText exact_lib (oidFor TypeBytes) (encode_value exact_lib TypeBytes (SBytes [CHR 0xFF])) = SBytes [CHR 0xFF] \<and>
   decodeText exact_lib (oidFor TypeBool) (encode_value exact_lib TypeBool (SInt 7)) = SInt 1"
proof -
  have "\<And>x. x \<noteq> NaN \<Longrightarrow> \<exists>y. pl_ParseFloat exact_lib (pl_FormatFloat exact_lib x) = Some y \<and> f_eq y x"
    by (auto simp: exact_lib_def exact_round_trip f_eq_refl)
  from results_read_back_as_parameters [OF this, of MinInt64 "[CHR 0xFF]" "SInt 7"] show ?thesis
    by (simp add: int64_range_def)
qed

text \<open>A numeric that is infinite arrives with no digits and a sign of its own; the code takes any sign but
  that of NaN for a minus, so both infinities are stored as minus zero.\<close>

theorem numeric_infinity_is_zero:
  "sign' \<in> {CHR 0xD0, CHR 0xF0} \<Longrightarrow>
     decodeBinary l oidNumeric [CHR 0x00, CHR 0x00, w1, w2, sign', CHR 0x00, d1, d2] = Inr (SFloat (Fin True 0 0))"
  by (auto simp: decodeBinary_def binaryWidths_def momentWidths_def textualOIDs_def oid_defs binaryNumeric_def uint16_at_def
      f_zero_def Let_def)

theorem numeric_infinity_is_zero_witness:
  "decodeBinary sample_lib oidNumeric [CHR 0x00, CHR 0x00, CHR 0x00, CHR 0x00, CHR 0xD0, CHR 0x00, CHR 0x00, CHR 0x00] =
     Inr (SFloat (Fin True 0 0))"
  by (rule numeric_infinity_is_zero) simp

end
