(* ===== verification/PgBehaviour.thy ===== *)
theory PgBehaviour
  imports PgSession PgValues
begin

text \<open>
  The Postgres emulator put together: the session of \<open>PgSession\<close> and the connection of \<open>SqlTransactions\<close> in the serve loop.
  The session keeps its own idea of the transaction, which is what ReadyForQuery reports; the first group
  of lemmas says exactly when it agrees with the backend's. Then what is discarded until a Sync, a script
  of simple queries answered in full, and a prepared statement from Parse to Sync.
\<close>

section \<open>Whose transaction it is\<close>

definition agree :: "pg_session \<Rightarrow> 'h sql_connection \<Rightarrow> bool" where
  "agree s c \<longleftrightarrow> pg_inBlock s = sc_tx c \<and> pg_aborted s = sc_failed c"

lemma kinds_apart [simp]:
  "KindBegin \<noteq> KindCommit" "KindBegin \<noteq> KindRollback" "KindCommit \<noteq> KindRollback" "KindConnect \<noteq> KindBegin"
  "KindConnect \<noteq> KindCommit" "KindConnect \<noteq> KindRollback"
  "KindCommit \<noteq> KindBegin" "KindRollback \<noteq> KindBegin" "KindRollback \<noteq> KindCommit" "KindBegin \<noteq> KindConnect"
  "KindCommit \<noteq> KindConnect" "KindRollback \<noteq> KindConnect"
  by (simp_all add: KindBegin_def KindCommit_def KindRollback_def KindConnect_def)

text \<open>The flags a reply or a failure leaves, whatever else it does.\<close>

lemma pg_put_flags [simp]:
  "pg_inBlock (pg_put m s) = pg_inBlock s" "pg_aborted (pg_put m s) = pg_aborted s" "pg_active (pg_put m s) = pg_active s"
  "pg_panicked (pg_put m s) = pg_panicked s" "pg_writable (pg_put m s) = pg_writable s" "pg_queue (pg_put m s) = pg_queue s"
  "pg_owesReady (pg_put m s) = pg_owesReady s" "pg_skipping (pg_put m s) = pg_skipping s" "pg_sent (pg_put m s) = pg_sent s"
  "pg_input (pg_put m s) = pg_input s" "pg_greeted (pg_put m s) = pg_greeted s"
  "pg_prepared (pg_put m s) = pg_prepared s" "pg_portals (pg_put m s) = pg_portals s" "pg_pending (pg_put m s) = pg_pending s @ [m]"
  by (simp_all add: pg_put_def)

lemma Flush_flags [simp]:
  "pg_inBlock (snd (pg_Flush s)) = pg_inBlock s" "pg_aborted (snd (pg_Flush s)) = pg_aborted s"
  "pg_panicked (snd (pg_Flush s)) = pg_panicked s"
  by (simp_all add: pg_Flush_def)

lemma describe_flags [simp]:
  "pg_inBlock (describeResult cs s) = pg_inBlock s" "pg_aborted (describeResult cs s) = pg_aborted s"
  "pg_active (describeResult cs s) = pg_active s" "pg_panicked (describeResult cs s) = pg_panicked s"
  by (simp_all add: describeResult_def)

lemma encodeRow_fits: "length row = length columns \<Longrightarrow> \<exists>cells. encodeRow l columns row = Some cells"
  by (induction columns row rule: list_induct2') auto

lemma send_rows_flags:
  "pg_inBlock (send_rows l cs rows s) = pg_inBlock s" "pg_aborted (send_rows l cs rows s) = pg_aborted s"
  "pg_active (send_rows l cs rows s) = pg_active s"
  by (induction l cs rows s rule: send_rows.induct) (auto split: option.split)

lemma send_rows_fits:
  "\<forall>row \<in> set rows. length row = length cs \<Longrightarrow> pg_panicked (send_rows l cs rows s) = pg_panicked s"
proof (induction l cs rows s rule: send_rows.induct)
  case (2 l columns row rows s)
  then obtain cells where "encodeRow l columns row = Some cells" using encodeRow_fits [of row columns l] by auto
  with 2 show ?case by simp
qed simp

lemma Reply_flags:
  assumes "rectangular result" "\<not> pg_panicked s" "kind = op_Kind (pt_op (pg_active s))"
  shows "\<not> pg_panicked (snd (pg_Reply v result s))"
    "pg_inBlock (snd (pg_Reply v result s)) = (if kind = KindConnect then pg_inBlock s else pg_inBlock (pg_track kind True s))"
    "pg_aborted (snd (pg_Reply v result s)) = (if kind = KindConnect then pg_aborted s else pg_aborted (pg_track kind True s))"
  using assms send_rows_fits [of "res_Rows result" "res_Columns result"]
  by (auto simp: pg_Reply_def Let_def rectangular_def pg_track_def send_rows_flags)

lemma Fail_flags:
  assumes "kind = op_Kind (pt_op (pg_active s))"
  shows "pg_panicked (snd (pg_Fail err s)) = pg_panicked s"
    "pg_inBlock (snd (pg_Fail err s)) = pg_inBlock (pg_track kind False s)"
    "pg_aborted (snd (pg_Fail err s)) = pg_aborted (pg_track kind False s)"
  using assms by (auto simp: pg_Fail_def Let_def pg_track_def)

lemma Abort_flags:
  "sc_tx (sql_Abort e o' c) \<longleftrightarrow> sc_tx c \<and> op_Kind o' \<noteq> KindCommit \<and> op_Kind o' \<noteq> KindRollback"
  "sc_failed (sql_Abort e o' c) \<longleftrightarrow> sc_tx c \<and> op_Kind o' \<noteq> KindCommit \<and> op_Kind o' \<noteq> KindRollback"
  by (auto simp: sql_Abort_def)

definition carries_statement :: "sql_op \<Rightarrow> bool" where
  "carries_statement o' \<longleftrightarrow> op_Kind o' = KindConnect \<or> op_Payload o' \<noteq> None"

lemma sql_run_no_panic: "fst (sql_run e st c) \<noteq> Panic"
proof -
  have "fst (sql_query e st c) \<noteq> Panic" by (simp add: sql_query_def sql_reject_def split: prod.split sum.split)
  then show ?thesis by (simp add: sql_run_def sql_reject_def split: prod.split sum.split)
qed

lemma sql_Exec_no_panic: "fst (sql_Exec e o' c) \<noteq> Panic"
proof -
  have "fst (sql_begin e c) \<noteq> Panic" by (simp add: sql_begin_def split: option.split prod.split)
  moreover have "fst (sql_commit e c) \<noteq> Panic" by (simp add: sql_commit_def Let_def split: option.split prod.split)
  ultimately show ?thesis by (simp add: sql_Exec_def sql_rollback_def sql_run_no_panic split: option.split)
qed

text \<open>What an operation that went well, and one that failed, leave of the backend's transaction.\<close>

lemma Exec_ok_flags:
  assumes "sql_Exec e o' c = (Ok result, c')" "connection_ok c" "carries_statement o'"
  shows "sc_tx c' \<longleftrightarrow> op_Kind o' = KindBegin \<or> sc_tx c \<and> op_Kind o' \<noteq> KindCommit \<and> op_Kind o' \<noteq> KindRollback"
    "sc_failed c' \<longleftrightarrow> sc_failed c \<and> (op_Kind o' = KindBegin \<or> op_Kind o' = KindConnect)"
    "sc_failed c \<longrightarrow> op_Kind o' \<in> {KindConnect, KindBegin, KindCommit, KindRollback}"
proof -
  have run: "fst (sql_run e st c) = Ok result \<Longrightarrow> \<not> sc_failed c" for st by (auto simp: sql_run_def)
  consider "op_Kind o' = KindConnect" | "op_Kind o' = KindBegin" | "op_Kind o' = KindCommit" | "op_Kind o' = KindRollback"
    | "op_Kind o' \<notin> {KindConnect, KindBegin, KindCommit, KindRollback}" by blast
  then have "(sc_tx c' \<longleftrightarrow> op_Kind o' = KindBegin \<or> sc_tx c \<and> op_Kind o' \<noteq> KindCommit \<and> op_Kind o' \<noteq> KindRollback)
    \<and> (sc_failed c' \<longleftrightarrow> sc_failed c \<and> (op_Kind o' = KindBegin \<or> op_Kind o' = KindConnect))
    \<and> (sc_failed c \<longrightarrow> op_Kind o' \<in> {KindConnect, KindBegin, KindCommit, KindRollback})"
  proof cases
    case 2
    then have "sql_begin e c = (Ok result, c')" using assms(1) by (simp add: sql_Exec_def)
    then show ?thesis using 2 sql_begin_flags [of e c] assms(2) by (auto simp: connection_ok_def)
  next
    case 3
    then have "sql_commit e c = (Ok result, c')" using assms(1) by (simp add: sql_Exec_def)
    then show ?thesis using 3 sql_commit_flags [where e = e and c = c] assms(2) by auto
  next
    case 5
    then obtain st where "sql_run e st c = (Ok result, c')"
      using assms(1,3) by (auto simp: sql_Exec_def carries_statement_def)
    then show ?thesis using 5 sql_run_flags [where e = e and c = c and st = st] run [of st] assms(2)
      by (auto simp: connection_ok_def)
  qed (use assms(1) in \<open>auto simp: sql_Exec_def sql_rollback_def\<close>)
  then show "sc_tx c' \<longleftrightarrow> op_Kind o' = KindBegin \<or> sc_tx c \<and> op_Kind o' \<noteq> KindCommit \<and> op_Kind o' \<noteq> KindRollback"
    "sc_failed c' \<longleftrightarrow> sc_failed c \<and> (op_Kind o' = KindBegin \<or> op_Kind o' = KindConnect)"
    "sc_failed c \<longrightarrow> op_Kind o' \<in> {KindConnect, KindBegin, KindCommit, KindRollback}" by blast+
qed

lemma Exec_fail_flags:
  assumes "sql_Exec e o' c = (Fail err, c')" "connection_ok c" "carries_statement o'"
  shows "sc_tx c' \<longleftrightarrow> sc_tx c \<and> op_Kind o' \<noteq> KindCommit"
    "sc_failed c' \<longleftrightarrow> sc_tx c \<and> op_Kind o' \<noteq> KindCommit"
    "op_Kind o' = KindBegin \<longrightarrow> \<not> sc_tx c" "op_Kind o' \<noteq> KindRollback"
proof -
  have fresh: "sql_begin e c = (Fail err, c') \<Longrightarrow> \<not> sc_tx c" by (auto simp: sql_begin_def split: if_splits)
  consider "op_Kind o' = KindConnect" | "op_Kind o' = KindBegin" | "op_Kind o' = KindCommit" | "op_Kind o' = KindRollback"
    | "op_Kind o' \<notin> {KindConnect, KindBegin, KindCommit, KindRollback}" by blast
  then have "(sc_tx c' \<longleftrightarrow> sc_tx c \<and> op_Kind o' \<noteq> KindCommit) \<and> (sc_failed c' \<longleftrightarrow> sc_tx c \<and> op_Kind o' \<noteq> KindCommit) \<and>
    (op_Kind o' = KindBegin \<longrightarrow> \<not> sc_tx c) \<and> op_Kind o' \<noteq> KindRollback"
  proof cases
    case 2
    then have "sql_begin e c = (Fail err, c')" using assms(1) by (simp add: sql_Exec_def)
    then show ?thesis using 2 sql_begin_flags [of e c] fresh assms(2) by (auto simp: connection_ok_def)
  next
    case 3
    then have "sql_commit e c = (Fail err, c')" using assms(1) by (simp add: sql_Exec_def)
    then show ?thesis using 3 sql_commit_flags [where e = e and c = c] assms(2) by auto
  next
    case 5
    then obtain st where "sql_run e st c = (Fail err, c')"
      using assms(1,3) by (auto simp: sql_Exec_def carries_statement_def)
    then show ?thesis using 5 sql_run_flags [where e = e and c = c and st = st] assms(2)
      by (auto simp: connection_ok_def)
  qed (use assms(1) in \<open>auto simp: sql_Exec_def sql_rollback_def\<close>)
  then show "sc_tx c' \<longleftrightarrow> sc_tx c \<and> op_Kind o' \<noteq> KindCommit" "sc_failed c' \<longleftrightarrow> sc_tx c \<and> op_Kind o' \<noteq> KindCommit"
    "op_Kind o' = KindBegin \<longrightarrow> \<not> sc_tx c" "op_Kind o' \<noteq> KindRollback" by blast+
qed

lemma step_agrees:
  assumes "agree s c" "connection_ok c" "\<not> pg_panicked s" "op_Kind o' = op_Kind (pt_op (pg_active s))"
    "carries_statement o'" "\<not> v_DropConn verdict"
  shows "agree (st_session (step (postgres v e) s c verdict o')) (st_executor (step (postgres v e) s c verdict o')) \<longleftrightarrow>
    \<not> (op_Kind o' = KindBegin \<and> sc_tx c \<and> (sc_failed c \<or> v_Err verdict \<noteq> None))"
proof (cases "v_Err verdict")
  case (Some fault)
  let ?s = "snd (pg_Fail (FaultErr fault) s)"
  have "st_session (step (postgres v e) s c verdict o') = ?s" "st_executor (step (postgres v e) s c verdict o') = sql_Abort e o' c"
    using assms(6) Some by (auto simp: step_def postgres_def Let_def split: prod.split)
  moreover have "pg_inBlock ?s = pg_inBlock (pg_track (op_Kind o') False s)" "pg_aborted ?s = pg_aborted (pg_track (op_Kind o') False s)"
    using Fail_flags(2,3) [OF assms(4)] by blast+
  ultimately show ?thesis
    using assms(1,2) Some by (auto simp: agree_def Abort_flags pg_track_def connection_ok_def)
next
  case None
  obtain r c' where x: "sql_Exec e o' c = (r, c')" by force
  show ?thesis
  proof (cases r)
    case (Ok result)
    let ?s = "snd (pg_Reply v result s)"
    have ends: "st_session (step (postgres v e) s c verdict o') = ?s" "st_executor (step (postgres v e) s c verdict o') = c'"
      using assms(6) None x Ok by (auto simp: step_def postgres_def Let_def split: prod.split)
    have "rectangular result" using sql_Exec_rectangular [of e o' c] x Ok by simp
    note s = Reply_flags(2,3) [OF this assms(3,4), of v]
    note c = Exec_ok_flags [OF x [unfolded Ok] assms(2,5)]
    show ?thesis
      unfolding agree_def ends s c(1,2) using assms(1,2) None c(3) by (auto simp: agree_def pg_track_def connection_ok_def)
  next
    case (Fail err)
    let ?s = "snd (pg_Fail err s)"
    have ends: "st_session (step (postgres v e) s c verdict o') = ?s" "st_executor (step (postgres v e) s c verdict o') = c'"
      using assms(6) None x Fail by (auto simp: step_def postgres_def Let_def split: prod.split)
    note s = Fail_flags(2,3) [OF assms(4), of err]
    note c = Exec_fail_flags [OF x [unfolded Fail] assms(2,5)]
    show ?thesis
      unfolding agree_def ends s c(1,2) using assms(1,2) None c(3,4) by (auto simp: agree_def pg_track_def connection_ok_def)
  qed (use sql_Exec_no_panic [of e o' c] x in simp)
qed

lemma step_consistent:
  assumes "agree s c" "connection_ok c" "\<not> pg_panicked s" "op_Kind o' = op_Kind (pt_op (pg_active s))"
    "\<not> v_DropConn verdict"
  shows "pg_aborted (st_session (step (postgres v e) s c verdict o')) \<longrightarrow> pg_inBlock (st_session (step (postgres v e) s c verdict o'))" (is ?block)
    and "connection_ok (st_executor (step (postgres v e) s c verdict o'))" (is ?ok)
proof -
  have s: "pg_aborted s \<longrightarrow> pg_inBlock s" using assms(1,2) by (auto simp: agree_def connection_ok_def)
  then have track: "pg_aborted (pg_track kind ok s) \<longrightarrow> pg_inBlock (pg_track kind ok s)" for kind ok by (simp add: pg_track_def)
  have fail: "pg_aborted (snd (pg_Fail err s)) \<longrightarrow> pg_inBlock (snd (pg_Fail err s))" for err
    using Fail_flags(2,3) [OF assms(4), of err] track by simp
  have ok: "connection_ok (snd (sql_Exec e o' c))" "connection_ok (sql_Abort e o' c)"
    using connection_step_ok [OF assms(2), of e "Ran o'"] connection_step_ok [OF assms(2), of e "Refused o'"] by simp_all
  have "?block \<and> ?ok"
  proof (cases "v_Err verdict")
    case (Some fault)
    have "st_session (step (postgres v e) s c verdict o') = snd (pg_Fail (FaultErr fault) s)"
        "st_executor (step (postgres v e) s c verdict o') = sql_Abort e o' c"
      using assms(5) Some by (auto simp: step_def postgres_def Let_def split: prod.split)
    then show ?thesis using fail ok(2) by simp
  next
    case None
    obtain r c' where x: "sql_Exec e o' c = (r, c')" by force
    show ?thesis
    proof (cases r)
      case (Ok result)
      have ends: "st_session (step (postgres v e) s c verdict o') = snd (pg_Reply v result s)"
          "st_executor (step (postgres v e) s c verdict o') = c'"
        using assms(5) None x Ok by (auto simp: step_def postgres_def Let_def split: prod.split)
      have "rectangular result" using sql_Exec_rectangular [of e o' c] x Ok by simp
      note r = Reply_flags(2,3) [OF this assms(3,4), of v]
      show ?thesis unfolding ends r using s track ok(1) x by simp
    next
      case (Fail err)
      have "st_session (step (postgres v e) s c verdict o') = snd (pg_Fail err s)"
          "st_executor (step (postgres v e) s c verdict o') = c'"
        using assms(5) None x Fail by (auto simp: step_def postgres_def Let_def split: prod.split)
      then show ?thesis using fail ok(1) x by simp
    qed (use sql_Exec_no_panic [of e o' c] x in simp)
  qed
  then show ?block ?ok by blast+
qed

text \<open>The status of the backend's transaction in the letters of the protocol: I when idle, T in a transaction, E in one
  that has failed.\<close>

definition transaction_status :: "'h sql_connection \<Rightarrow> char" where
  "transaction_status c = (if \<not> sc_tx c then CHR ''I'' else if \<not> sc_failed c then CHR ''T'' else CHR ''E'')"

lemma status_agrees:
  assumes "pg_aborted s \<longrightarrow> pg_inBlock s" "connection_ok c"
  shows "pg_status s = transaction_status c \<longleftrightarrow> agree s c"
  using assms by (auto simp: pg_status_def transaction_status_def agree_def connection_ok_def statusAborted_def statusInBlock_def statusIdle_def)

lemma reportReady_sends:
  "pg_owesReady s \<Longrightarrow> pg_writable s \<Longrightarrow> pg_sent (reportReady s) = pg_sent s @ pg_pending s @ [ReadyForQuery (pg_status s)]"
  by (simp add: reportReady_def pg_Flush_def pg_put_def pg_status_def)

text \<open>C11. The status a client is told stays in step with the backend's transaction: one step of the serve loop, with
  any verdict and over any engine, from a session and a connection that agree, leaves the session so that
  the ReadyForQuery it sends next, when it owes one, carries I, T or E as the connection is out of a
  transaction, in one, or in one that has failed, with one exception, which is exact: a BEGIN inside a
  block that has failed, or one the control layer refuses inside a block. Outside the exception the two
  agree again.\<close>

theorem status_follows_transaction:
  assumes "agree s c" "connection_ok c" "\<not> pg_panicked s" "op_Kind o' = op_Kind (pt_op (pg_active s))"
    "carries_statement o'" "\<not> v_DropConn verdict" "after = step (postgres v e) s c verdict o'"
  shows "(agree (st_session after) (st_executor after) \<longleftrightarrow>
      \<not> (op_Kind o' = KindBegin \<and> sc_tx c \<and> (sc_failed c \<or> v_Err verdict \<noteq> None))) \<and>
    (pg_owesReady (st_session after) \<and> pg_writable (st_session after) \<longrightarrow>
      (\<exists>status. pg_sent (reportReady (st_session after)) =
          pg_sent (st_session after) @ pg_pending (st_session after) @ [ReadyForQuery status] \<and>
        (status = transaction_status (st_executor after) \<longleftrightarrow>
          \<not> (op_Kind o' = KindBegin \<and> sc_tx c \<and> (sc_failed c \<or> v_Err verdict \<noteq> None)))))"
  unfolding assms(7)
  using step_agrees [OF assms(1-6), of v e] status_agrees [OF step_consistent [OF assms(1-4,6)], of v e] reportReady_sends
  by blast

definition commit_refused :: Verdict where
  "commit_refused = zero_verdict\<lparr>v_Err := Some \<lparr>f_Code = [], f_Message = ''no''\<rparr>\<rparr>"

definition sample_env :: pg_env where "sample_env = \<lparr>pv_lib = exact_lib, pv_quote = (\<lambda>s. s)\<rparr>"

definition busy_session :: "sql_op \<Rightarrow> bool \<Rightarrow> pg_session" where
  "busy_session o' failed = (new_pg_session [] True New_pg_protocol 0)
     \<lparr>pg_active := no_task\<lparr>pt_op := o'\<rparr>, pg_inBlock := True, pg_aborted := failed, pg_owesReady := True\<rparr>"

theorem status_follows_transaction_witness:
  "(\<exists>sent. pg_sent (reportReady (st_session (step (postgres sample_env toy_engine) (busy_session (sql_of ''commit'') False)
      \<lparr>sc_conn = ([], Some []), sc_tx = True, sc_failed = False\<rparr> commit_refused (sql_of ''commit'')))) = sent @ [ReadyForQuery (CHR ''I'')]) \<and>
   \<not> agree (st_session (step (postgres sample_env toy_engine) (busy_session (sql_of ''begin'') True) failed_block zero_verdict (sql_of ''begin'')))
    (st_executor (step (postgres sample_env toy_engine) (busy_session (sql_of ''begin'') True) failed_block zero_verdict (sql_of ''begin'')))"
proof -
  have k: "op_Kind (sql_of ''commit'') = KindCommit" "op_Kind (sql_of ''begin'') = KindBegin" by code_simp+
  have p: "carries_statement (sql_of t)" for t by (simp add: carries_statement_def sql_of_def Let_def)
  let ?c = "\<lparr>sc_conn = ([], Some []), sc_tx = True, sc_failed = False\<rparr> :: (gostring list \<times> gostring list option) sql_connection"
  let ?one = "step (postgres sample_env toy_engine) (busy_session (sql_of ''commit'') False) ?c commit_refused (sql_of ''commit'')"
  have "pg_owesReady (st_session ?one) \<and> pg_writable (st_session ?one) \<and> transaction_status (st_executor ?one) = CHR ''I''" by code_simp
  then show ?thesis
    using status_follows_transaction [of "busy_session (sql_of ''commit'') False" ?c "sql_of ''commit''" commit_refused ?one sample_env toy_engine]
      status_follows_transaction [of "busy_session (sql_of ''begin'') True" failed_block "sql_of ''begin''" zero_verdict _ sample_env toy_engine]
    by (simp add: k p agree_def connection_ok_def busy_session_def new_pg_session_def no_task_def failed_block_def
        commit_refused_def zero_verdict_def)
qed

section \<open>Discarding until the client synchronises\<close>

lemma drain_none: "pg_queue s = [] \<Longrightarrow> drain_queue (pg_queue s) s = (None, s)"
  by (cases s) simp

lemma loop_receives:
  assumes "pg_queue s = []" "\<not> pg_owesReady s"
  shows "pg_loop v (m # ms) s = (case dispatch_message v m s of
      (Some err, s) \<Rightarrow> (Inl err, s\<lparr>pg_input := ms\<rparr>)
    | (None, s) \<Rightarrow> if pg_panicked s then (Inl pg_EOF, s\<lparr>pg_input := ms\<rparr>) else pg_loop v ms s)"
  unfolding pg_loop.simps drain_none [OF assms(1)] using assms(2) by (simp add: reportReady_def)

definition discarded :: "frontend_message \<Rightarrow> bool" where
  "discarded m \<longleftrightarrow> (case m of FTerminate \<Rightarrow> False | FSync \<Rightarrow> False | FFlush \<Rightarrow> False | _ \<Rightarrow> True)"

lemma dispatch_discarded: "discarded m \<Longrightarrow> pg_skipping s \<Longrightarrow> dispatch_message v m s = (None, s)"
  by (cases m) (simp_all add: discarded_def)

text \<open>After a mistake in the extended protocol nothing the client sent before its next Sync has any effect: no
  message is answered, no operation reaches the control layer or the backend, and no statement or portal
  is made. The Sync is then answered, and heard again.\<close>

theorem discarded_until_sync:
  assumes "pg_skipping s" "pg_queue s = []" "\<not> pg_owesReady s" "\<not> pg_panicked s" "list_all discarded ms"
  shows "pg_loop v (ms @ FSync # rest) s = pg_loop v rest (s\<lparr>pg_skipping := False, pg_owesReady := True\<rparr>)"
  using assms(5)
proof (induction ms)
  case Nil
  then show ?case using assms(1-4) by (simp add: loop_receives del: pg_loop.simps)
next
  case (Cons m ms)
  then show ?case using assms(1-4) dispatch_discarded [of m s v] by (simp add: loop_receives del: pg_loop.simps)
qed

theorem discarded_until_sync_witness:
  "pg_loop sample_env [FParse ''a'' ''select 1'' [], FExecute [] 0, FSync]
     ((new_pg_session [] True New_pg_protocol 0)\<lparr>pg_skipping := True\<rparr>) =
   pg_loop sample_env [] ((new_pg_session [] True New_pg_protocol 0)\<lparr>pg_skipping := False, pg_owesReady := True\<rparr>)"
  using discarded_until_sync [of "(new_pg_session [] True New_pg_protocol 0)\<lparr>pg_skipping := True\<rparr>"
      "[FParse ''a'' ''select 1'' [], FExecute [] 0]" sample_env "[]"]
  by (simp add: new_pg_session_def discarded_def)

section \<open>What a placeholder costs\<close>

text \<open>The number of parameters a statement is described with is the highest placeholder it names, so one
  message can ask for more memory than there is: describing a prepared statement whose highest
  placeholder is beyond 2^46 panics, and takes every emulator of the process with it.\<close>

theorem huge_placeholder_panics:
  assumes "countPlaceholders sql > 2 ^ 46" "pg_queue s = []" "\<not> pg_owesReady s" "\<not> pg_skipping s" "\<not> pg_panicked s"
  shows "pg_panicked (snd (pg_loop v (FParse name sql oids # FDescribe (CHR ''S'') name # ms) s))"
proof -
  let ?u = "snd (pg_parse name sql oids s)"
  have "resolved oids (s_Parameters (Parse sql [] :: sqlval Statement)) = None"
    using assms(1) by (simp add: resolved_def Parse_def Let_def)
  then have "dispatch_message v (FDescribe (CHR ''S'') name) ?u = (None, ?u\<lparr>pg_panicked := True\<rparr>)"
    using assms(4) by (simp add: pg_parse_def pg_describe_def)
  moreover have "dispatch_message v (FParse name sql oids) s = (None, ?u)" using assms(4) by (simp add: pg_parse_def)
  moreover have "pg_queue ?u = []" "\<not> pg_owesReady ?u" "\<not> pg_panicked ?u" using assms by (simp_all add: pg_parse_def)
  ultimately show ?thesis using assms(2,3) by (simp add: loop_receives del: pg_loop.simps dispatch_message.simps)
qed

theorem huge_placeholder_panics_witness:
  "pg_panicked (snd (pg_loop sample_env [FParse [] ''select $9000000000000000000'' [], FDescribe (CHR ''S'') []]
     (new_pg_session [] True New_pg_protocol 0)))"
proof -
  have "map (\<lambda>w. (w_raw w, w_at w, w_name w)) (tokenize ''select $9000000000000000000'') =
      [(''select'', 0, True), (''$9000000000000000000'', 7, True)]" by code_simp
  then obtain a b where "tokenize ''select $9000000000000000000'' = [a, b]" "w_raw a = ''select''" "w_at a = 0" "w_name a"
      "w_raw b = ''$9000000000000000000''" "w_at b = 7" "w_name b" by (auto simp: map_eq_Cons_conv)
  then have "countPlaceholders ''select $9000000000000000000'' > 2 ^ 46"
    by (simp add: countPlaceholders_def isPlaceholder_def ParseInt_def parse_digits_def value_of_digits_def digit_val_def
        is_digit_def less_eq_char_def int64_range_def)
  from huge_placeholder_panics [OF this, of "new_pg_session [] True New_pg_protocol 0"] show ?thesis
    by (simp add: new_pg_session_def)
qed

section \<open>Simple queries\<close>

definition track_flags :: "gostring \<Rightarrow> bool \<Rightarrow> bool \<times> bool \<Rightarrow> bool \<times> bool" where
  "track_flags kind succeeded f =
     (if kind = KindBegin then (succeeded, False)
      else if kind = KindCommit \<or> kind = KindRollback then (False, False)
      else (fst f, snd f \<or> (\<not> succeeded \<and> fst f)))"

definition flag_status :: "bool \<times> bool \<Rightarrow> char" where
  "flag_status f = (if snd f then statusAborted else if fst f then statusInBlock else statusIdle)"

definition described :: "bool \<Rightarrow> Column list \<Rightarrow> backend_message list" where
  "described extended columns =
     (if columns = [] then (if extended then [NoData] else [])
      else [RowDescription (map (\<lambda>column.
             \<lparr>fd_Name = c_Name column, fd_DataTypeOID = oidFor (c_Type column), fd_DataTypeSize = widthOf (oidFor (c_Type column)),
              fd_TypeModifier = - 1, fd_Format = TextFormat\<rparr>) columns)])"

definition told_rows :: "pg_lib \<Rightarrow> sqlval Result \<Rightarrow> backend_message list" where
  "told_rows l result = map (\<lambda>row. DataRow (the (encodeRow l (res_Columns result) row))) (res_Rows result)"

definition sql_op_of :: "sqlval Statement \<Rightarrow> sql_op" where
  "sql_op_of st = (statement_op st)\<lparr>op_Emulator := pg_name\<rparr>"

text \<open>What the statements of one query are answered, one after the other until one fails: the driver's own are
  acknowledged, every other is run and told.\<close>

fun script :: "pg_env \<Rightarrow> 'h engine \<Rightarrow> gostring list \<Rightarrow> bool \<times> bool \<Rightarrow> 'h sql_connection
    \<Rightarrow> backend_message list \<times> (bool \<times> bool) \<times> 'h sql_connection" where
  "script v e [] f c = ([], f, c)"
| "script v e (text # texts) f c =
     (let st = Parse text []
      in if s_Command st \<in> set driverStatements then apfst (Cons (CommandComplete (s_Command st))) (script v e texts f c)
         else (case sql_Exec e (sql_op_of st) c of
                 (Ok result, c) \<Rightarrow>
                   apfst (\<lambda>ms. described False (res_Columns result) @ told_rows (pv_lib v) result @ CommandComplete (res_Tag result) # ms)
                     (script v e texts (track_flags (s_Kind st) True f) c)
               | (Fail err, c) \<Rightarrow> ([errorFrame err], track_flags (s_Kind st) False f, c)
               | (Panic, c) \<Rightarrow> ([], f, c)))"

definition query_answer :: "pg_env \<Rightarrow> 'h engine \<Rightarrow> gostring \<Rightarrow> bool \<times> bool \<Rightarrow> 'h sql_connection
    \<Rightarrow> backend_message list \<times> (bool \<times> bool) \<times> 'h sql_connection" where
  "query_answer v e text f c = (if Split text = [] then ([EmptyQueryResponse], f, c) else script v e (Split text) f c)"

text \<open>A conversation of queries: each is answered and followed by one ReadyForQuery.\<close>

fun queries :: "pg_env \<Rightarrow> 'h engine \<Rightarrow> gostring list \<Rightarrow> bool \<times> bool \<Rightarrow> 'h sql_connection
    \<Rightarrow> backend_message list \<times> 'h sql_connection" where
  "queries v e [] f c = ([], c)"
| "queries v e (text # texts) f c =
     (case query_answer v e text f c of (ms, f, c) \<Rightarrow>
        apfst (\<lambda>rest. ms @ ReadyForQuery (flag_status f) # rest) (queries v e texts f c))"

definition simple_task :: "gostring \<Rightarrow> pg_task" where
  "simple_task text = (let st = Parse text [] in
     \<lparr>pt_op = statement_op st, pt_describes = True, pt_extended = False, pt_driver = (s_Command st \<in> set driverStatements)\<rparr>)"

lemma pg_enqueue_all:
  "fold (\<lambda>text s. pg_enqueue (Parse text []) True False s) texts s = s\<lparr>pg_queue := pg_queue s @ map simple_task texts\<rparr>"
  by (induction texts arbitrary: s) (simp_all add: pg_enqueue_def simple_task_def Let_def)

lemma send_rows_sends:
  "\<forall>row \<in> set rows. length row = length cs \<Longrightarrow>
     send_rows l cs rows s = s\<lparr>pg_pending := pg_pending s @ map (\<lambda>row. DataRow (the (encodeRow l cs row))) rows\<rparr>"
proof (induction rows arbitrary: s)
  case (Cons row rows)
  then obtain cells where "encodeRow l cs row = Some cells" using encodeRow_fits [of row cs l] by auto
  with Cons show ?case by (simp add: pg_put_def)
qed simp

lemma describeResult_sends: "describeResult cs s = s\<lparr>pg_pending := pg_pending s @ described (pt_extended (pg_active s)) cs\<rparr>"
  by (simp add: describeResult_def described_def pg_put_def)

text \<open>What a reply and a failure do to a session whose client is there.\<close>

lemma Reply_sends:
  assumes "rectangular result" "pg_writable s" "\<not> pg_panicked s" "op_Kind (pt_op (pg_active s)) \<noteq> KindConnect"
  shows "pg_Reply v result s = (True, (pg_track (op_Kind (pt_op (pg_active s))) True s)\<lparr>pg_pending := [],
    pg_sent := pg_sent s @ pg_pending s @ (if pt_describes (pg_active s) then described (pt_extended (pg_active s)) (res_Columns result) else [])
      @ told_rows (pv_lib v) result @ [CommandComplete (res_Tag result)]\<rparr>)"
  using assms send_rows_sends [of "res_Rows result" "res_Columns result"]
  by (simp add: pg_Reply_def rectangular_def describeResult_sends told_rows_def pg_Flush_def pg_put_def pg_track_def Let_def)

lemma Fail_sends:
  assumes "pg_writable s" "op_Kind (pt_op (pg_active s)) \<noteq> KindConnect"
  shows "pg_Fail err s = (True, (pg_track (op_Kind (pt_op (pg_active s))) False s)\<lparr>pg_queue := [], pg_pending := [],
    pg_skipping := pg_skipping s \<or> pt_extended (pg_active s), pg_owesReady := pg_owesReady s \<or> \<not> pt_extended (pg_active s),
    pg_sent := pg_sent s @ pg_pending s @ [errorFrame err]\<rparr>)"
  using assms by (simp add: pg_Fail_def pg_Flush_def pg_put_def pg_track_def Let_def)

lemma step_executed:
  "step (postgres v e) s c zero_verdict o' = (case sql_Exec e o' c of
      (Ok result, c) \<Rightarrow> (case pg_Reply v result s of (ok, s) \<Rightarrow> \<lparr>st_slept = 0, st_fate = fate_of ok, st_session = s, st_executor = c\<rparr>)
    | (Fail err, c) \<Rightarrow> (case pg_Fail err s of (ok, s) \<Rightarrow> \<lparr>st_slept = 0, st_fate = fate_of ok, st_session = s, st_executor = c\<rparr>)
    | (Panic, c) \<Rightarrow> \<lparr>st_slept = 0, st_fate = Crashes, st_session = s, st_executor = c\<rparr>)"
  by (simp add: step_def postgres_def zero_verdict_def split: outcome.split prod.split)

lemma no_rules_pass: "i_rules i = [] \<Longrightarrow> \<exists>i'. Before o' i = (zero_verdict, i') \<and> i_rules i' = []"
  by (simp add: Before_def before_def decide_def zero_verdict_def)

text \<open>One round of the loop, from what \<open>Next\<close> answered.\<close>

lemma postgres_round:
  assumes "pg_Next v s = (Inr o', u)" "i_rules i = []"
    "step (postgres v e) u c zero_verdict (o'\<lparr>op_Emulator := name\<rparr>) = \<lparr>st_slept = 0, st_fate = Lives, st_session = s', st_executor = c'\<rparr>"
  shows "\<exists>i'. i_rules i' = [] \<and> handle_loop (Suc n) (postgres v e) name s c i = handle_loop n (postgres v e) name s' c' i'"
proof -
  obtain i' where "Before (o'\<lparr>op_Emulator := name\<rparr>) i = (zero_verdict, i')" "i_rules i' = []"
    using no_rules_pass [OF assms(2)] by blast
  moreover have "next_op (postgres v e) = pg_Next v" by (simp add: postgres_def)
  ultimately show ?thesis using assms(1,3) by auto
qed

lemma kindOf_not_connect: "kindOf words \<noteq> KindConnect"
proof -
  have "kind \<noteq> KindConnect" if "(w, kind) \<in> set verbs" for w kind
    using that by (auto simp: verbs_def KindSelect_def KindInsert_def KindUpdate_def KindDeleteRows_def KindBegin_def
        KindCommit_def KindRollback_def KindConnect_def)
  moreover have "KindQuery \<noteq> KindConnect" by (simp add: KindQuery_def KindConnect_def)
  ultimately show ?thesis by (auto simp: kindOf_def dest!: map_of_SomeD split: list.split option.split)
qed

lemma Parse_not_connect [simp]: "s_Kind (Parse text ps) \<noteq> KindConnect"
  by (simp add: Parse_def Let_def kindOf_not_connect)

lemma drain_driver:
  "pg_queue u = t # ts \<Longrightarrow> pt_driver t \<Longrightarrow>
     pg_loop v ms u = pg_loop v ms (pg_answerDriver (u\<lparr>pg_active := t, pg_queue := ts\<rparr>))"
  by (cases ms) (simp_all add: pg_answerDriver_def)

lemma drain_task:
  "pg_queue u = t # ts \<Longrightarrow> \<not> pt_driver t \<Longrightarrow>
     pg_loop v ms u = (Inr (pt_op t), u\<lparr>pg_active := t, pg_queue := ts, pg_input := ms\<rparr>)"
  by (cases ms) simp_all

lemma loop_ends:
  assumes "pg_queue u = []"
  shows "pg_loop v [] u = (Inl pg_EOF, (reportReady u)\<lparr>pg_input := []\<rparr>)"
  unfolding pg_loop.simps drain_none [OF assms] by simp

lemma loop_reports:
  assumes "pg_queue u = []" "pg_owesReady u"
  shows "pg_loop v (m # ms) u = pg_loop v (m # ms) (reportReady u)"
proof -
  have ready: "pg_queue (reportReady u) = []" "\<not> pg_owesReady (reportReady u)"
    using assms by (simp_all add: reportReady_def pg_Flush_def)
  then have "reportReady (reportReady u) = reportReady u" by (simp add: reportReady_def [of "reportReady u"])
  then show ?thesis unfolding pg_loop.simps drain_none [OF assms(1)] drain_none [OF ready(1)] by simp
qed

definition in_script :: "pg_session \<Rightarrow> gostring list \<Rightarrow> bool \<times> bool \<Rightarrow> backend_message list \<Rightarrow> bool" where
  "in_script u ts f out \<longleftrightarrow> pg_greeted u \<and> pg_writable u \<and> \<not> pg_skipping u \<and> \<not> pg_panicked u \<and> pg_owesReady u \<and>
     pg_queue u = map simple_task ts \<and> (pg_inBlock u, pg_aborted u) = f \<and> pg_sent u @ pg_pending u = out"

lemma in_script_ready:
  assumes "in_script u [] f out"
  shows "reportReady u = u\<lparr>pg_owesReady := False, pg_pending := [], pg_sent := out @ [ReadyForQuery (flag_status f)]\<rparr>"
  using assms by (auto simp: in_script_def reportReady_def pg_Flush_def pg_put_def pg_status_def flag_status_def)

lemma in_script_query:
  assumes "in_script u [] f out"
  shows "\<exists>u'. pg_loop v (FQuery text # ms) u = pg_loop v ms u' \<and>
    in_script u' (Split text) f (out @ ReadyForQuery (flag_status f) # (if Split text = [] then [EmptyQueryResponse] else []))"
proof -
  let ?r = "reportReady u" and ?u' = "snd (pg_query text (reportReady u))"
  have u: "pg_queue u = []" "pg_owesReady u" using assms by (simp_all add: in_script_def)
  have r: "?r = u\<lparr>pg_owesReady := False, pg_pending := [], pg_sent := out @ [ReadyForQuery (flag_status f)]\<rparr>"
    by (rule in_script_ready [OF assms])
  have ready: "pg_queue ?r = []" "\<not> pg_owesReady ?r" using u unfolding r by simp_all
  have q: "dispatch_message v (FQuery text) ?r = (None, ?u')"
    using assms unfolding r by (simp add: in_script_def pg_query_def Let_def)
  have i: "in_script ?u' (Split text) f (out @ ReadyForQuery (flag_status f) # (if Split text = [] then [EmptyQueryResponse] else []))"
    using assms unfolding r by (simp add: in_script_def pg_query_def pg_enqueue_all Let_def)
  then have "\<not> pg_panicked ?u'" by (simp add: in_script_def)
  then have "pg_loop v (FQuery text # ms) ?r = pg_loop v ms ?u'"
    using loop_receives [OF ready, of v "FQuery text" ms] by (simp only: q prod.case option.case if_False)
  with loop_reports [OF u, of v "FQuery text" ms] i show ?thesis by auto
qed

lemma in_script_driver:
  assumes "in_script u (text # ts) f out" "s_Command (Parse text [] :: sqlval Statement) \<in> set driverStatements"
  shows "\<exists>u'. pg_loop v ms u = pg_loop v ms u' \<and> in_script u' ts f (out @ [CommandComplete (s_Command (Parse text [] :: sqlval Statement))])"
proof -
  let ?u' = "pg_answerDriver (u\<lparr>pg_active := simple_task text, pg_queue := map simple_task ts\<rparr>)"
  have "pg_loop v ms u = pg_loop v ms ?u'"
    using assms by (intro drain_driver) (simp_all add: in_script_def simple_task_def Let_def)
  moreover have "in_script ?u' ts f (out @ [CommandComplete (s_Command (Parse text [] :: sqlval Statement))])"
    using assms(1) by (auto simp: in_script_def pg_answerDriver_def pg_put_def simple_task_def statement_op_def Let_def)
  ultimately show ?thesis by blast
qed

text \<open>A statement of a script, from \<open>Next\<close> to the answer.\<close>

lemma in_script_statement:
  assumes u: "in_script u (text # ts) f out" and t: "s_Command (Parse text [] :: sqlval Statement) \<notin> set driverStatements"
    and nx: "pg_Next v s = pg_loop v ms u" and i: "i_rules i = []" and x: "sql_Exec e (sql_op_of (Parse text [])) c = (r, c')"
  shows "\<exists>i' s'. i_rules i' = [] \<and> pg_Next v s' = pg_loop v ms s' \<and>
    handle_loop (Suc n) (postgres v e) pg_name s c i = handle_loop n (postgres v e) pg_name s' c' i' \<and>
    (case r of
       Ok result \<Rightarrow> in_script s' ts (track_flags (s_Kind (Parse text [] :: sqlval Statement)) True f)
         (out @ described False (res_Columns result) @ told_rows (pv_lib v) result @ [CommandComplete (res_Tag result)])
     | Fail err \<Rightarrow> in_script s' [] (track_flags (s_Kind (Parse text [] :: sqlval Statement)) False f) (out @ [errorFrame err])
     | Panic \<Rightarrow> False)"
proof -
  let ?st = "Parse text [] :: sqlval Statement"
  let ?t = "simple_task text"
  let ?u = "u\<lparr>pg_active := ?t, pg_queue := map simple_task ts, pg_input := ms\<rparr>"
  have u': "pg_greeted u" "pg_writable u" "\<not> pg_skipping u" "\<not> pg_panicked u" "pg_owesReady u"
    "pg_queue u = ?t # map simple_task ts" "(pg_inBlock u, pg_aborted u) = f" "pg_sent u @ pg_pending u = out"
    using u by (simp_all add: in_script_def)
  have next': "pg_Next v s = (Inr (statement_op ?st), ?u)"
    unfolding nx using drain_task [OF u'(6), of v ms] t by (simp add: simple_task_def Let_def)
  have o': "(statement_op ?st)\<lparr>op_Emulator := pg_name\<rparr> = sql_op_of ?st" by (simp add: sql_op_of_def)
  have kind: "op_Kind (pt_op (pg_active ?u)) = s_Kind ?st" "\<not> pt_extended (pg_active ?u)" "pt_describes (pg_active ?u)"
    by (simp_all add: simple_task_def statement_op_def Let_def)
  have "r \<noteq> Panic" using sql_Exec_no_panic [of e "sql_op_of ?st" c] x by simp
  then consider (ok) result where "r = Ok result" | (fail) err where "r = Fail err" by (cases r) auto
  then show ?thesis
  proof cases
    case ok
    have rect: "rectangular result" using sql_Exec_rectangular [of e "sql_op_of ?st" c] x ok by simp
    let ?s' = "(pg_track (s_Kind ?st) True ?u)\<lparr>pg_pending := [], pg_sent := out @ described False (res_Columns result) @
      told_rows (pv_lib v) result @ [CommandComplete (res_Tag result)]\<rparr>"
    have reply: "pg_Reply v result ?u = (True, ?s')"
      using Reply_sends [OF rect, of ?u v] u' kind by simp
    have "step (postgres v e) ?u c zero_verdict ((statement_op ?st)\<lparr>op_Emulator := pg_name\<rparr>) =
        \<lparr>st_slept = 0, st_fate = Lives, st_session = ?s', st_executor = c'\<rparr>"
      unfolding o' step_executed x ok by (simp add: reply fate_of_def)
    from postgres_round [OF next' i this]
    obtain i' where "i_rules i' = []" "handle_loop (Suc n) (postgres v e) pg_name s c i = handle_loop n (postgres v e) pg_name ?s' c' i'"
      by blast
    moreover have "pg_Next v ?s' = pg_loop v ms ?s'" using u'(1) by (simp add: pg_Next_def pg_track_def)
    moreover have "in_script ?s' ts (track_flags (s_Kind ?st) True f)
        (out @ described False (res_Columns result) @ told_rows (pv_lib v) result @ [CommandComplete (res_Tag result)])"
      using u' by (auto simp: in_script_def pg_track_def track_flags_def)
    ultimately show ?thesis unfolding ok outcome.case by blast
  next
    case fail
    let ?s' = "(pg_track (s_Kind ?st) False ?u)\<lparr>pg_queue := [], pg_pending := [], pg_owesReady := True, pg_sent := out @ [errorFrame err]\<rparr>"
    have failed: "pg_Fail err ?u = (True, ?s')"
      using Fail_sends [of ?u err] u' kind by (simp add: pg_track_def)
    have "step (postgres v e) ?u c zero_verdict ((statement_op ?st)\<lparr>op_Emulator := pg_name\<rparr>) =
        \<lparr>st_slept = 0, st_fate = Lives, st_session = ?s', st_executor = c'\<rparr>"
      unfolding o' step_executed x fail by (simp add: failed fate_of_def)
    from postgres_round [OF next' i this]
    obtain i' where "i_rules i' = []" "handle_loop (Suc n) (postgres v e) pg_name s c i = handle_loop n (postgres v e) pg_name ?s' c' i'"
      by blast
    moreover have "pg_Next v ?s' = pg_loop v ms ?s'" using u'(1) by (simp add: pg_Next_def pg_track_def)
    moreover have "in_script ?s' [] (track_flags (s_Kind ?st) False f) (out @ [errorFrame err])"
      using u' by (auto simp: in_script_def pg_track_def track_flags_def)
    ultimately show ?thesis unfolding fail outcome.case by blast
  qed
qed

text \<open>The rest of a script, and the queries after it.\<close>

definition script_tail :: "pg_env \<Rightarrow> 'h engine \<Rightarrow> gostring list \<Rightarrow> gostring list \<Rightarrow> bool \<times> bool \<Rightarrow> 'h sql_connection
    \<Rightarrow> backend_message list \<times> 'h sql_connection" where
  "script_tail v e ts qs f c =
     (case script v e ts f c of (ms, f, c) \<Rightarrow> apfst (\<lambda>rest. ms @ ReadyForQuery (flag_status f) # rest) (queries v e qs f c))"

definition statements_in :: "gostring list \<Rightarrow> nat" where "statements_in qs = length (concat (map Split qs))"

lemma script_tail_Cons:
  "script_tail v e (text # ts) qs f c =
     (let st = Parse text [] in
      if s_Command st \<in> set driverStatements then apfst (Cons (CommandComplete (s_Command st))) (script_tail v e ts qs f c)
      else (case sql_Exec e (sql_op_of st) c of
              (Ok result, c) \<Rightarrow> apfst (\<lambda>ms. described False (res_Columns result) @ told_rows (pv_lib v) result @ CommandComplete (res_Tag result) # ms)
                 (script_tail v e ts qs (track_flags (s_Kind st) True f) c)
            | (Fail err, c) \<Rightarrow> apfst (Cons (errorFrame err)) (script_tail v e [] qs (track_flags (s_Kind st) False f) c)
            | (Panic, c) \<Rightarrow> script_tail v e [] qs f c))"
  by (auto simp: script_tail_def Let_def apfst_def map_prod_def split: prod.split outcome.split)

lemma script_tail_query:
  "script_tail v e [] (q # qs) f c =
     apfst (\<lambda>as. ReadyForQuery (flag_status f) # (if Split q = [] then [EmptyQueryResponse] else []) @ as) (script_tail v e (Split q) qs f c)"
  by (auto simp: script_tail_def query_answer_def apfst_def map_prod_def split: prod.split)

definition served :: "pg_env \<Rightarrow> 'h engine \<Rightarrow> nat \<Rightarrow> pg_session \<Rightarrow> 'h sql_connection \<Rightarrow> interceptor
    \<Rightarrow> backend_message list \<Rightarrow> 'h sql_connection \<Rightarrow> bool" where
  "served v e n s c i out c' \<longleftrightarrow> (\<exists>s' i'. handle_loop n (postgres v e) pg_name s c i = Some (Closes, s', c', i') \<and>
     pg_sent s' = out \<and> \<not> pg_panicked s')"

lemma served_again:
  "served v e n s' c' i' out c'' \<Longrightarrow> handle_loop (Suc n) (postgres v e) pg_name s c i = handle_loop n (postgres v e) pg_name s' c' i' \<Longrightarrow>
     served v e (Suc n) s c i out c''"
  by (simp add: served_def)

lemma served_ready:
  assumes "in_script u [] f out" "pg_Next v s = pg_loop v [] u"
  shows "served v e (Suc n) s c i (out @ [ReadyForQuery (flag_status f)]) c"
proof -
  have "pg_Next v s = (Inl pg_EOF, (reportReady u)\<lparr>pg_input := []\<rparr>)"
    using assms loop_ends [of u v] by (simp add: in_script_def)
  moreover have "next_op (postgres v e) = pg_Next v" by (simp add: postgres_def)
  ultimately show ?thesis
    using assms(1) in_script_ready [OF assms(1)] by (auto simp: served_def in_script_def)
qed

lemma served_script:
  assumes base: "\<And>s u f out i c n answers. in_script u [] f out \<Longrightarrow> pg_Next v s = pg_loop v ms u \<Longrightarrow> i_rules i = [] \<Longrightarrow>
      script_tail v e [] qs f c = (answers, c') \<Longrightarrow> k \<le> n \<Longrightarrow> served v e (Suc n) s c i (out @ answers) c'"
    and "in_script u ts f out" "pg_Next v s = pg_loop v ms u" "i_rules i = []" "script_tail v e ts qs f c = (answers, c')"
      "length ts + k \<le> n"
  shows "served v e (Suc n) s c i (out @ answers) c'"
  using assms(2-)
proof (induction ts arbitrary: u f out s i c n answers)
  case Nil
  then show ?case using base [of u f out s i c answers n] by simp
next
  case (Cons sql ts)
  let ?st = "Parse sql [] :: sqlval Statement"
  show ?case
  proof (cases "s_Command ?st \<in> set driverStatements")
    case True
    obtain as where as: "script_tail v e ts qs f c = (as, c')" "answers = CommandComplete (s_Command ?st) # as"
      using Cons.prems(4) True by (auto simp: script_tail_Cons Let_def apfst_def map_prod_def split: prod.splits)
    obtain u' where u': "pg_loop v ms u = pg_loop v ms u'" "in_script u' ts f (out @ [CommandComplete (s_Command ?st)])"
      using in_script_driver [OF Cons.prems(1) True] by blast
    have "served v e (Suc n) s c i ((out @ [CommandComplete (s_Command ?st)]) @ as) c'"
      using Cons.prems(2,5) u'(1) by (intro Cons.IH [OF u'(2) _ Cons.prems(3) as(1)]) simp_all
    then show ?thesis by (simp add: as(2))
  next
    case False
    obtain r c1 where x: "sql_Exec e (sql_op_of ?st) c = (r, c1)" by force
    obtain m where m: "n = Suc m" "length ts + k \<le> m" using Cons.prems(5) by (cases n) auto
    obtain i' s' where next': "i_rules i' = []" "pg_Next v s' = pg_loop v ms s'"
        "handle_loop (Suc (Suc m)) (postgres v e) pg_name s c i = handle_loop (Suc m) (postgres v e) pg_name s' c1 i'"
      and r: "case r of
         Ok result \<Rightarrow> in_script s' ts (track_flags (s_Kind ?st) True f)
           (out @ described False (res_Columns result) @ told_rows (pv_lib v) result @ [CommandComplete (res_Tag result)])
       | Fail err \<Rightarrow> in_script s' [] (track_flags (s_Kind ?st) False f) (out @ [errorFrame err])
       | Panic \<Rightarrow> False"
      using in_script_statement [OF Cons.prems(1) False Cons.prems(2,3) x, of "Suc m"] by blast
    show ?thesis
    proof (cases r)
      case (Ok result)
      obtain as where as: "script_tail v e ts qs (track_flags (s_Kind ?st) True f) c1 = (as, c')"
          "answers = described False (res_Columns result) @ told_rows (pv_lib v) result @ CommandComplete (res_Tag result) # as"
        using Cons.prems(4) False x Ok by (auto simp: script_tail_Cons Let_def apfst_def map_prod_def split: prod.splits)
      from Cons.IH [OF _ next'(2,1) as(1) m(2)] r Ok
      have "served v e (Suc m) s' c1 i' (out @ answers) c'" unfolding as(2) by fastforce
      then show ?thesis using served_again next'(3) m(1) by blast
    next
      case (Fail err)
      obtain as where as: "script_tail v e [] qs (track_flags (s_Kind ?st) False f) c1 = (as, c')" "answers = errorFrame err # as"
        using Cons.prems(4) False x Fail by (auto simp: script_tail_Cons Let_def apfst_def map_prod_def split: prod.splits)
      have "served v e (Suc m) s' c1 i' ((out @ [errorFrame err]) @ as) c'"
        using r Fail m(2) by (intro base [OF _ next'(2,1) as(1)]) simp_all
      then show ?thesis using served_again [OF _ next'(3)] m(1) by (simp add: as(2))
    qed (use r in simp)
  qed
qed

lemma served_queries:
  assumes "in_script u [] f out" "pg_Next v s = pg_loop v (map FQuery qs) u" "i_rules i = []"
    "script_tail v e [] qs f c = (answers, c')" "statements_in qs \<le> n"
  shows "served v e (Suc n) s c i (out @ answers) c'"
  using assms
proof (induction qs arbitrary: u f out s i c n answers)
  case Nil
  then show ?case using served_ready [of u f out v s e n c i] by (simp add: script_tail_def)
next
  case (Cons q qs)
  obtain as where as: "script_tail v e (Split q) qs f c = (as, c')"
      "answers = ReadyForQuery (flag_status f) # (if Split q = [] then [EmptyQueryResponse] else []) @ as"
    using Cons.prems(4) by (auto simp: script_tail_query apfst_def map_prod_def split: prod.splits)
  obtain u' where u': "pg_loop v (map FQuery (q # qs)) u = pg_loop v (map FQuery qs) u'"
      "in_script u' (Split q) f (out @ ReadyForQuery (flag_status f) # (if Split q = [] then [EmptyQueryResponse] else []))"
    using in_script_query [OF Cons.prems(1), of v q "map FQuery qs"] by auto
  have "served v e (Suc n) s c i ((out @ ReadyForQuery (flag_status f) # (if Split q = [] then [EmptyQueryResponse] else [])) @ as) c'"
  proof (rule served_script [OF Cons.IH u'(2) _ Cons.prems(3) as(1), where k = "statements_in qs" and ms = "map FQuery qs"])
    show "pg_Next v s = pg_loop v (map FQuery qs) u'" unfolding Cons.prems(2) u'(1) ..
    show "length (Split q) + statements_in qs \<le> n" using Cons.prems(5) by (simp add: statements_in_def)
  qed
  then show ?case by (simp add: as(2))
qed

text \<open>C2. A client that sends queries, each with any number of statements, gets exactly what its statements did. With no
  fault rule armed, after the handshake the serve loop ends by itself within two rounds more than there are
  statements, and has sent, query by query: for each statement up to the first that fails its columns, rows
  and tag, or its error; for a query without statements the empty response; and then one ReadyForQuery with
  the transaction's status. The backend is left where those statements leave it.\<close>

theorem simple_queries_served:
  assumes "pg_Accept startups (map FQuery qs) True p = (Inr s, p', declined)" "i_rules i = []"
    "queries v e qs (False, False) c = (answers, c')" "statements_in qs + 2 \<le> n"
  shows "\<exists>s' i'. handle_loop n (postgres v e) pg_name s c i = Some (Closes, s', c', i') \<and>
    pg_sent s' = pg_sent s @ ReadyForQuery statusIdle # answers \<and> \<not> pg_panicked s'"
proof -
  obtain m where m: "n = Suc (Suc m)" "statements_in qs \<le> m" using assms(4) by (cases n; cases "n - 1") auto
  have s: "pg_input s = map FQuery qs" "pg_writable s" "\<not> pg_greeted s" "\<not> pg_skipping s" "\<not> pg_panicked s" "pg_queue s = []"
    "\<not> pg_inBlock s" "\<not> pg_aborted s" "pg_pending s = []"
    using assms(1) by (auto simp: pg_Accept_def new_pg_session_def pg_Flush_def Let_def split: prod.splits sum.splits)
  let ?u = "s\<lparr>pg_greeted := True, pg_active := pg_connectTask s\<rparr>"
  let ?s1 = "?u\<lparr>pg_owesReady := True\<rparr>"
  have connect: "pg_Next v s = (Inr (pt_op (pg_connectTask s)), ?u)" using s(3) by (simp add: pg_Next_def)
  have op: "op_Kind (pt_op (pg_connectTask s)) = KindConnect" by (simp add: pg_connectTask_def)
  have "step (postgres v e) ?u c zero_verdict ((pt_op (pg_connectTask s))\<lparr>op_Emulator := pg_name\<rparr>) =
      \<lparr>st_slept = 0, st_fate = Lives, st_session = ?s1, st_executor = c\<rparr>"
    using op by (simp add: step_executed sql_Exec_def pg_Reply_def fate_of_def)
  from postgres_round [OF connect assms(2) this, of "Suc m"]
  obtain i' where i': "i_rules i' = []" "handle_loop (Suc (Suc m)) (postgres v e) pg_name s c i = handle_loop (Suc m) (postgres v e) pg_name ?s1 c i'"
    by blast
  have u: "in_script ?s1 [] (False, False) (pg_sent s)" using s by (simp add: in_script_def)
  have nx: "pg_Next v ?s1 = pg_loop v (map FQuery qs) ?s1" using s(1) by (simp add: pg_Next_def)
  have "script_tail v e [] qs (False, False) c = (ReadyForQuery statusIdle # answers, c')"
    using assms(3) by (simp add: script_tail_def flag_status_def)
  from served_queries [OF u nx i'(1) this m(2)] show ?thesis
    unfolding m(1) i'(2) served_def by simp
qed

theorem simple_queries_served_witness:
  "\<exists>s p' i s' i'. pg_Accept [SSLRequest, StartupMessage [(''user'', ''ada'')]] (map FQuery [''begin; insert'', [], ''commit'']) True New_pg_protocol
       = (Inr s, p', [Declined]) \<and>
     handle_loop 5 (postgres sample_env toy_engine) pg_name s (idle ([], None)) i = Some (Closes, s', idle ([''insert''], None), i') \<and>
     pg_sent s' = pg_sent s @ [ReadyForQuery (CHR ''I''), CommandComplete ''BEGIN'', CommandComplete ''INSERT 0 1'',
       ReadyForQuery (CHR ''T''), EmptyQueryResponse, ReadyForQuery (CHR ''T''), CommandComplete ''COMMIT'', ReadyForQuery (CHR ''I'')]"
proof -
  let ?qs = "[''begin; insert'', [], ''commit'']"
  obtain s p' where s: "pg_Accept [SSLRequest, StartupMessage [(''user'', ''ada'')]] (map FQuery ?qs) True New_pg_protocol = (Inr s, p', [Declined])"
    by (simp add: pg_Accept_def Let_def)
  have "Split ''begin; insert'' = [''begin'', ''insert'']" "Split [] = []" "Split ''commit'' = [''commit'']" by code_simp+
  then have fuel: "statements_in ?qs + 2 \<le> 5" by (simp add: statements_in_def)
  have q: "queries sample_env toy_engine ?qs (False, False) (idle ([], None)) =
    ([CommandComplete ''BEGIN'', CommandComplete ''INSERT 0 1'', ReadyForQuery (CHR ''T''), EmptyQueryResponse,
      ReadyForQuery (CHR ''T''), CommandComplete ''COMMIT'', ReadyForQuery (CHR ''I'')], idle ([''insert''], None))"
    by code_simp
  have i: "i_rules \<lparr>i_rules = [], i_log = New_log 10\<rparr> = []" by simp
  show ?thesis using simple_queries_served [OF s i q fuel] s by (auto simp: statusIdle_def)
qed

section \<open>Prepared statements\<close>

text \<open>What a client sends to run one: Parse, Bind, a Describe of the portal, Execute, Sync.\<close>

definition prepared_run :: "gostring \<Rightarrow> gostring \<Rightarrow> gostring \<Rightarrow> nat list \<Rightarrow> int list \<Rightarrow> gostring option list \<Rightarrow> int list \<Rightarrow> frontend_message list" where
  "prepared_run name portal sql oids formats params results =
     [FParse name sql oids, FBind portal name formats params results, FDescribe (CHR ''P'') portal, FExecute portal 0, FSync]"

definition pg_waiting :: "pg_session \<Rightarrow> bool" where
  "pg_waiting s \<longleftrightarrow> pg_greeted s \<and> pg_writable s \<and> \<not> pg_skipping s \<and> \<not> pg_panicked s \<and> \<not> pg_owesReady s \<and> pg_queue s = []"

definition prepared_task :: "sqlval Statement \<Rightarrow> pg_task" where
  "prepared_task st = \<lparr>pt_op = statement_op st, pt_describes = True, pt_extended = True, pt_driver = False\<rparr>"

lemma prepared_executes:
  assumes "pg_waiting s" "decodeParams (pv_lib v) oids formats params = Inr ps" "\<not> wantsBinary results"
    "s_Command (Parse sql [] :: sqlval Statement) \<notin> set driverStatements"
  shows "\<exists>u. pg_loop v (prepared_run name portal sql oids formats params results) s =
      (Inr (statement_op ((Parse sql [])\<lparr>s_Params := ps\<rparr>)), u) \<and> pg_input u = [FSync] \<and>
    pg_active u = prepared_task ((Parse sql [])\<lparr>s_Params := ps\<rparr>) \<and> pg_waiting u \<and>
    pg_sent u @ pg_pending u = pg_sent s @ pg_pending s @ [ParseComplete, BindComplete] \<and>
    pg_inBlock u = pg_inBlock s \<and> pg_aborted u = pg_aborted s"
proof -
  have "pg_queue s = []" "\<not> pg_owesReady s" "\<not> pg_skipping s" "\<not> pg_panicked s" using assms(1) by (simp_all add: pg_waiting_def)
  then show ?thesis using assms
    by (simp add: prepared_run_def loop_receives pg_parse_def pg_bind_def pg_describe_def pg_execute_def pg_enqueue_def
        drain_task prepared_task_def pg_waiting_def statement_op_def del: pg_loop.simps)
qed

lemma sync_ends:
  assumes "pg_greeted s" "pg_writable s" "pg_queue s = []" "\<not> pg_owesReady s" "\<not> pg_panicked s"
  shows "\<exists>u. pg_loop v [FSync] s = (Inl pg_EOF, u) \<and> \<not> pg_panicked u \<and>
    pg_sent u = pg_sent s @ pg_pending s @ [ReadyForQuery (flag_status (pg_inBlock s, pg_aborted s))]"
  using assms
  by (simp add: loop_receives loop_ends reportReady_def pg_Flush_def pg_put_def pg_status_def flag_status_def del: pg_loop.simps)

lemma prepared_refuses:
  assumes "pg_waiting s" "decodeParams (pv_lib v) oids formats params = Inl err" "\<not> wantsBinary results"
  shows "\<exists>u. pg_loop v (prepared_run name portal sql oids formats params results) s = (Inl pg_EOF, u) \<and> \<not> pg_panicked u \<and>
    pg_sent u = pg_sent s @ pg_pending s @ [ParseComplete, ErrorResponse ''22P03'' err,
      ReadyForQuery (flag_status (pg_inBlock s, pg_aborted s))]"
proof -
  have "pg_queue s = []" "\<not> pg_owesReady s" "\<not> pg_skipping s" "\<not> pg_panicked s" using assms(1) by (simp_all add: pg_waiting_def)
  then show ?thesis using assms
    by (simp add: prepared_run_def loop_receives loop_ends pg_parse_def pg_bind_def pg_reject_def pg_waiting_def
        reportReady_def pg_Flush_def pg_put_def pg_status_def flag_status_def del: pg_loop.simps)
qed

definition told_of :: "pg_lib \<Rightarrow> sqlres \<Rightarrow> backend_message list" where
  "told_of l r = (case r of
       Ok result \<Rightarrow> described True (res_Columns result) @ told_rows l result @ [CommandComplete (res_Tag result)]
     | Fail err \<Rightarrow> [errorFrame err]
     | Panic \<Rightarrow> [])"

lemma prepared_answered:
  assumes u: "pg_waiting u" "pg_active u = prepared_task st" "pg_input u = [FSync]" and k: "s_Kind st \<noteq> KindConnect"
    and nx: "pg_Next v s = (Inr (statement_op st), u)" and i: "i_rules i = []" and x: "sql_Exec e (sql_op_of st) c = (r, c')"
  shows "served v e (Suc (Suc n)) s c i (pg_sent u @ pg_pending u @ told_of (pv_lib v) r @
    [ReadyForQuery (flag_status (track_flags (s_Kind st) (\<not> is_Fail r) (pg_inBlock u, pg_aborted u)))]) c'"
proof -
  have o': "(statement_op st)\<lparr>op_Emulator := pg_name\<rparr> = sql_op_of st" by (simp add: sql_op_of_def)
  have act: "op_Kind (pt_op (pg_active u)) = s_Kind st" "pt_extended (pg_active u)" "pt_describes (pg_active u)"
    by (simp_all add: u(2) prepared_task_def statement_op_def)
  have w: "pg_writable u" "\<not> pg_panicked u" "pg_greeted u" "pg_queue u = []" "\<not> pg_owesReady u" "\<not> pg_skipping u"
    using u(1) by (simp_all add: pg_waiting_def)
  have "r \<noteq> Panic" using sql_Exec_no_panic [of e "sql_op_of st" c] x by simp
  define s' where "s' = (pg_track (s_Kind st) (\<not> is_Fail r) u)\<lparr>pg_pending := [], pg_skipping := is_Fail r, pg_owesReady := False,
    pg_sent := pg_sent u @ pg_pending u @ told_of (pv_lib v) r\<rparr>"
  have "step (postgres v e) u c zero_verdict ((statement_op st)\<lparr>op_Emulator := pg_name\<rparr>) =
      \<lparr>st_slept = 0, st_fate = Lives, st_session = s', st_executor = c'\<rparr>"
  proof (cases r)
    case (Ok result)
    have rect: "rectangular result" using sql_Exec_rectangular [of e "sql_op_of st" c] x Ok by simp
    have "pg_Reply v result u = (True, s')"
      unfolding s'_def Reply_sends [OF rect w(1,2) k [folded act(1)]] using w act by (simp add: Ok told_of_def pg_track_def)
    then show ?thesis unfolding o' step_executed x Ok by (simp add: fate_of_def)
  next
    case (Fail err)
    have "pg_Fail err u = (True, s')"
      unfolding s'_def Fail_sends [OF w(1) k [folded act(1)]] using w act by (simp add: Fail told_of_def pg_track_def)
    then show ?thesis unfolding o' step_executed x Fail by (simp add: fate_of_def)
  qed (use \<open>r \<noteq> Panic\<close> in simp)
  from postgres_round [OF nx i this]
  obtain i' where i': "handle_loop (Suc (Suc n)) (postgres v e) pg_name s c i = handle_loop (Suc n) (postgres v e) pg_name s' c' i'"
    by blast
  have s': "pg_greeted s'" "pg_writable s'" "pg_queue s' = []" "\<not> pg_owesReady s'" "\<not> pg_panicked s'" "pg_input s' = [FSync]"
    "(pg_inBlock s', pg_aborted s') = track_flags (s_Kind st) (\<not> is_Fail r) (pg_inBlock u, pg_aborted u)"
    "pg_pending s' = []" "pg_sent s' = pg_sent u @ pg_pending u @ told_of (pv_lib v) r"
    using w u(3) by (simp_all add: s'_def pg_track_def track_flags_def)
  obtain z where z: "pg_loop v [FSync] s' = (Inl pg_EOF, z)" "\<not> pg_panicked z"
      "pg_sent z = pg_sent s' @ pg_pending s' @ [ReadyForQuery (flag_status (pg_inBlock s', pg_aborted s'))]"
    using sync_ends [OF s'(1-5), of v] by blast
  have "pg_Next v s' = (Inl pg_EOF, z)" using z(1) s'(1,6) by (simp add: pg_Next_def del: pg_loop.simps)
  moreover have "next_op (postgres v e) = pg_Next v" by (simp add: postgres_def)
  ultimately have "served v e (Suc n) s' c' i' (pg_sent z) c'" using z(2) by (simp add: served_def)
  then show ?thesis using served_again [OF _ i'] z(3) s'(7-9) by simp
qed

text \<open>C12. A prepared statement is parsed, bound, described, executed and synchronised with its messages in order: the
  parameters of the Bind, decoded by the types of the Parse, are those the statement runs with, and the
  client gets ParseComplete, BindComplete, the columns (or NoData), the rows and the tag, or the error, and
  one ReadyForQuery. A parameter that cannot be decoded is told instead of the BindComplete, and then
  nothing is run.\<close>

theorem prepared_statement_served:
  assumes "pg_waiting s" "pg_input s = prepared_run name portal sql oids formats params results" "i_rules i = []"
    "\<not> wantsBinary results" "s_Command (Parse sql [] :: sqlval Statement) \<notin> set driverStatements" "2 \<le> n"
    "st = (\<lambda>ps. (Parse sql [])\<lparr>s_Params := ps\<rparr>)"
  shows "\<exists>s' i'. handle_loop n (postgres v e) pg_name s c i = Some (Closes, s', (case decodeParams (pv_lib v) oids formats params of
        Inl err \<Rightarrow> c | Inr ps \<Rightarrow> snd (sql_Exec e (sql_op_of (st ps)) c)), i') \<and>
    pg_sent s' = pg_sent s @ pg_pending s @ ParseComplete # (case decodeParams (pv_lib v) oids formats params of
        Inl err \<Rightarrow> [ErrorResponse ''22P03'' err, ReadyForQuery (flag_status (pg_inBlock s, pg_aborted s))]
      | Inr ps \<Rightarrow> (let r = fst (sql_Exec e (sql_op_of (st ps)) c)
          in BindComplete # told_of (pv_lib v) r @
             [ReadyForQuery (flag_status (track_flags (s_Kind (st ps)) (\<not> is_Fail r) (pg_inBlock s, pg_aborted s)))]))"
proof -
  obtain m where m: "n = Suc (Suc m)" using assms(6) by (cases n; cases "n - 1") auto
  have nx: "pg_Next v s = pg_loop v (prepared_run name portal sql oids formats params results) s"
    using assms(1,2) by (simp add: pg_Next_def pg_waiting_def)
  show ?thesis
  proof (cases "decodeParams (pv_lib v) oids formats params")
    case (Inl err)
    obtain u where u: "pg_Next v s = (Inl pg_EOF, u)" "pg_sent u = pg_sent s @ pg_pending s @ [ParseComplete, ErrorResponse ''22P03'' err,
        ReadyForQuery (flag_status (pg_inBlock s, pg_aborted s))]"
      using prepared_refuses [OF assms(1) Inl assms(4)] nx by metis
    moreover have "next_op (postgres v e) = pg_Next v" by (simp add: postgres_def)
    ultimately show ?thesis by (simp add: m Inl)
  next
    case (Inr ps)
    obtain u where u: "pg_loop v (prepared_run name portal sql oids formats params results) s = (Inr (statement_op (st ps)), u)"
        "pg_input u = [FSync]" "pg_active u = prepared_task (st ps)" "pg_waiting u"
        "pg_sent u @ pg_pending u = pg_sent s @ pg_pending s @ [ParseComplete, BindComplete]"
        "pg_inBlock u = pg_inBlock s" "pg_aborted u = pg_aborted s"
      using prepared_executes [OF assms(1) Inr assms(4,5)] unfolding assms(7) by blast
    obtain r c' where x: "sql_Exec e (sql_op_of (st ps)) c = (r, c')" by force
    have k: "s_Kind (st ps) \<noteq> KindConnect" by (simp add: assms(7))
    from prepared_answered [OF u(4,3,2) k nx [unfolded u(1)] assms(3) x, of m] show ?thesis
      using u(5-7) by (auto simp: m served_def Inr x)
  qed
qed

definition open_pg :: "frontend_message list \<Rightarrow> pg_session" where
  "open_pg ms = (new_pg_session ms True New_pg_protocol 0)\<lparr>pg_greeted := True\<rparr>"

theorem prepared_statement_served_witness:
  "\<exists>s' i'. handle_loop 2 (postgres sample_env toy_engine) pg_name
       (open_pg (prepared_run ''a'' [] ''select $1'' [oidInt4] [1] [Some (int_bytes 4 (- 7))] [])) (idle ([''x''], None))
       \<lparr>i_rules = [], i_log = New_log 5\<rparr> = Some (Closes, s', idle ([''x''], None), i') \<and>
     map (\<lambda>m. m = DataRow [Some ''1'']) (pg_sent s') = [False, False, False, True, False, False]"
proof -
  let ?run = "prepared_run ''a'' [] ''select $1'' [oidInt4] [1] [Some (int_bytes 4 (- 7))] []"
  have w: "pg_waiting (open_pg ?run)" "pg_input (open_pg ?run) = ?run" "\<not> wantsBinary []"
    by (simp_all add: pg_waiting_def open_pg_def new_pg_session_def wantsBinary_def)
  have d: "s_Command (Parse ''select $1'' [] :: sqlval Statement) \<notin> set driverStatements" by code_simp
  have "decodeBinary l oidInt4 (int_bytes 4 (- 7)) = Inr (SInt (- 7))" for l
    using sign_extended [of 4 "- 7" oidInt4]
    by (simp add: decodeBinary_def binaryWidths_def oid_defs binaryInteger_def)
  then have p: "decodeParams (pv_lib sample_env) [oidInt4] [1] [Some (int_bytes 4 (- 7))] = Inr [SInt (- 7)]"
    by (simp add: decodeParams_def decodeParam_def oidAt_def formatAt_def BinaryFormat_def del: int_bytes.simps)
  have x: "sql_Exec toy_engine (sql_op_of ((Parse ''select $1'' [])\<lparr>s_Params := [SInt (- 7)]\<rparr>)) (idle ([''x''], None)) =
    (Ok (\<lparr>res_Columns = [\<lparr>c_Name = ''n'', c_Type = TypeInteger\<rparr>], res_Rows = [[SInt 1]], res_Tag = ''SELECT 1'', res_Gauges = []\<rparr>),
     idle ([''x''], None))" by code_simp
  have one: "FormatInt 1 = ''1''" by code_simp
  have "i_rules \<lparr>i_rules = [], i_log = New_log 5\<rparr> = []" by simp
  from prepared_statement_served [OF w(1,2) this w(3) d order.refl refl, of sample_env toy_engine "idle ([''x''], None)"]
  show ?thesis
    unfolding p sum.case x fst_conv snd_conv
    by (auto simp: told_of_def described_def told_rows_def encode_value_def one open_pg_def new_pg_session_def Let_def)
qed

end
