(* ===== verification/Supervise.thy ===== *)
theory Supervise
  imports Prelude
begin

text \<open>
  Running a child as PID 1, \<open>internal/supervise/supervise.go\<close>: what \<open>os/signal\<close> delivers, what \<open>wait4\<close> reaps, which
  signals are forwarded, and the code the run ends with. What the operating system answers to locating and
  starting the command is an argument, as is what each \<open>wait4\<close> loop finds. A wait status is the number Linux
  defines: the low seven bits are the signal that ended the process, or 0, and then the next byte is its
  exit status. The channel of \<open>os/signal\<close> is modelled as the package documents it: a notification that finds
  the channel full is dropped.
\<close>

section \<open>Exit codes\<close>

definition exitAfterSignal :: int where "exitAfterSignal = 128"

text \<open>\<open>Signaled\<close>, \<open>Signal\<close> and \<open>ExitStatus\<close> of package \<open>syscall\<close>.\<close>

definition Exited :: "nat \<Rightarrow> bool" where "Exited w \<longleftrightarrow> w mod 128 = 0"
definition Signaled :: "nat \<Rightarrow> bool" where "Signaled w \<longleftrightarrow> w mod 128 \<noteq> 127 \<and> w mod 128 \<noteq> 0"
definition ExitStatus :: "nat \<Rightarrow> int" where "ExitStatus w = (if Exited w then int (w div 256 mod 256) else - 1)"

definition exitCode :: "nat \<Rightarrow> int" where
  "exitCode status = (if Signaled status then exitAfterSignal + int (status mod 128) else ExitStatus status)"

text \<open>\<open>wait4\<close> answers one child after another, then 0 or a failure, which the end of the list or a pid that
  is not positive stands for.\<close>

fun reap_loop :: "int \<Rightarrow> (int \<times> nat) list \<Rightarrow> int \<times> bool \<Rightarrow> int \<times> bool" where
  "reap_loop supervised [] result = result"
| "reap_loop supervised ((pid, status) # rest) result =
     (if pid \<le> 0 then result
      else reap_loop supervised rest (if pid = supervised then (exitCode status, True) else result))"

definition reap :: "int \<Rightarrow> (int \<times> nat) list \<Rightarrow> int \<times> bool" where
  "reap supervised replies = reap_loop supervised replies (0, False)"

section \<open>The run\<close>

definition SIGHUP :: nat where "SIGHUP = 1"
definition SIGINT :: nat where "SIGINT = 2"
definition SIGQUIT :: nat where "SIGQUIT = 3"
definition SIGTERM :: nat where "SIGTERM = 15"
definition SIGCHLD :: nat where "SIGCHLD = 17"

datatype start_error = NoCommand | NotLocated gostring gostring | NotStarted gostring gostring

text \<open>What the system answers: the path of a name, and the pid of what was started there; whether the
  started child gets its own process group is the supervisor's \<open>Group\<close>.\<close>

record launcher =
  la_LookPath :: "gostring \<Rightarrow> gostring + gostring"
  la_StartProcess :: "gostring \<Rightarrow> gostring list \<Rightarrow> bool \<Rightarrow> gostring + int"

definition start_child :: "launcher \<Rightarrow> bool \<Rightarrow> gostring list \<Rightarrow> start_error + int" where
  "start_child la grouped argv =
     (case la_LookPath la (hd argv) of
        Inl err \<Rightarrow> Inl (NotLocated (hd argv) err)
      | Inr path \<Rightarrow>
          (case la_StartProcess la path argv grouped of Inl err \<Rightarrow> Inl (NotStarted (hd argv) err) | Inr pid \<Rightarrow> Inr pid))"

text \<open>A notification is a signal, with what \<open>wait4\<close> would find when it is taken.\<close>

record notification =
  nt_signal :: nat
  nt_waits :: "(int \<times> nat) list"

text \<open>The signals forwarded, and the code once there is one.\<close>

fun wait_loop :: "int \<Rightarrow> notification list \<Rightarrow> nat list \<Rightarrow> nat list \<times> int option" where
  "wait_loop pid [] sent = (sent, None)"
| "wait_loop pid (n # ns) sent =
     (if nt_signal n \<noteq> SIGCHLD then wait_loop pid ns (sent @ [nt_signal n])
      else (case reap pid (nt_waits n) of (code, exited) \<Rightarrow> if exited then (sent, Some code) else wait_loop pid ns sent))"

datatype run_result = NotRun start_error | Waiting "nat list" | Returned int "nat list"

definition Run_supervised :: "launcher \<Rightarrow> bool \<Rightarrow> gostring list \<Rightarrow> notification list \<Rightarrow> run_result" where
  "Run_supervised la grouped argv ns =
     (if argv = [] then NotRun NoCommand
      else (case start_child la grouped argv of
              Inl err \<Rightarrow> NotRun err
            | Inr pid \<Rightarrow> (case wait_loop pid ns [] of (sent, None) \<Rightarrow> Waiting sent | (sent, Some code) \<Rightarrow> Returned code sent)))"

section \<open>The signal channel\<close>

definition signalBuffer :: nat where "signalBuffer = 8"

definition registered :: "nat list" where "registered = [SIGCHLD, SIGTERM, SIGINT, SIGQUIT, SIGHUP]"

text \<open>The kernel sets one bit per signal; the runtime takes a bit away and sends, without blocking, to the
  channel; the supervisor takes from it.\<close>

record signals =
  sg_mask :: "nat list"
  sg_channel :: "nat list"

datatype signal_event = Raised nat | Forwarded nat | Taken

fun signal_step :: "signals \<Rightarrow> signal_event \<Rightarrow> signals" where
  "signal_step g (Raised n) =
     (if n \<in> set registered \<and> n \<notin> set (sg_mask g) then g\<lparr>sg_mask := sg_mask g @ [n]\<rparr> else g)"
| "signal_step g (Forwarded n) =
     (if n \<in> set (sg_mask g)
      then g\<lparr>sg_mask := remove1 n (sg_mask g),
             sg_channel := (if length (sg_channel g) < signalBuffer then sg_channel g @ [n] else sg_channel g)\<rparr>
      else g)"
| "signal_step g Taken = g\<lparr>sg_channel := tl (sg_channel g)\<rparr>"

definition no_signals :: signals where "no_signals = \<lparr>sg_mask = [], sg_channel = []\<rparr>"

section \<open>Lemmas\<close>

lemma reap_loop_other: "\<forall>(pid, status) \<in> set rs. pid \<noteq> child \<Longrightarrow> reap_loop child rs result = result"
  by (induction child rs result rule: reap_loop.induct) auto

lemma reap_loop_found:
  "\<forall>(pid, status) \<in> set (xs @ ys). 0 < pid \<and> pid \<noteq> child \<Longrightarrow> 0 < child \<Longrightarrow>
     reap_loop child (xs @ (child, status) # ys) result = (exitCode status, True)"
  by (induction xs arbitrary: result) (auto intro!: reap_loop_other)

definition quiet :: "int \<Rightarrow> notification \<Rightarrow> bool" where
  "quiet child n \<longleftrightarrow> nt_signal n \<noteq> SIGCHLD \<or> (\<forall>(pid, status) \<in> set (nt_waits n). pid \<noteq> child)"

lemma wait_loop_quiet:
  "list_all (quiet child) ns \<Longrightarrow>
     wait_loop child (ns @ rest) sent = wait_loop child rest (sent @ filter (\<lambda>s. s \<noteq> SIGCHLD) (map nt_signal ns))"
proof (induction ns arbitrary: sent)
  case (Cons n ns)
  then show ?case by (cases "nt_signal n = SIGCHLD") (auto simp: quiet_def reap_def reap_loop_other)
qed simp

section \<open>Properties\<close>

text \<open>C27. The run returns the child's own exit code: the status it exited with, or 128 and the signal that ended it, at the
  first notification whose wait finds it, whatever orphans are reaped before it, with it and after it. Every
  other signal that came before was forwarded to the child, in order and once.\<close>

theorem run_returns_the_exit_code:
  assumes "argv \<noteq> []" "start_child la grouped argv = Inr child" "0 < child"
    "list_all (quiet child) before" "nt_signal n = SIGCHLD" "nt_waits n = xs @ (child, status) # ys"
    "\<forall>(pid, status) \<in> set (xs @ ys). 0 < pid \<and> pid \<noteq> child"
  shows "Run_supervised la grouped argv (before @ n # after) =
      Returned (exitCode status) (filter (\<lambda>s. s \<noteq> SIGCHLD) (map nt_signal before))
    \<and> (e < 256 \<longrightarrow> status = e * 256 \<longrightarrow> exitCode status = int e)
    \<and> (0 < sig \<longrightarrow> sig < 127 \<longrightarrow> status mod 128 = sig \<longrightarrow> exitCode status = 128 + int sig)"
proof -
  have "reap child (nt_waits n) = (exitCode status, True)"
    unfolding reap_def assms(6) by (rule reap_loop_found [OF assms(7,3)])
  then have "Run_supervised la grouped argv (before @ n # after) =
      Returned (exitCode status) (filter (\<lambda>s. s \<noteq> SIGCHLD) (map nt_signal before))"
    using assms(1,2,5) wait_loop_quiet [OF assms(4), of "n # after" "[]"] by (simp add: Run_supervised_def)
  moreover have "e < 256 \<longrightarrow> status = e * 256 \<longrightarrow> exitCode status = int e"
    by (auto simp: exitCode_def Signaled_def ExitStatus_def Exited_def mod_mult_left_eq [of _ 256, symmetric])
  ultimately show ?thesis by (auto simp: exitCode_def Signaled_def exitAfterSignal_def)
qed

definition sample_launcher :: launcher where
  "sample_launcher = \<lparr>la_LookPath = (\<lambda>name. Inr (''/bin/'' @ name)), la_StartProcess = (\<lambda>_ _ _. Inr 42)\<rparr>"

theorem run_returns_the_exit_code_witness:
  "Run_supervised sample_launcher False [''sh'']
     [\<lparr>nt_signal = SIGCHLD, nt_waits = [(7, 0)]\<rparr>, \<lparr>nt_signal = SIGTERM, nt_waits = []\<rparr>,
      \<lparr>nt_signal = SIGCHLD, nt_waits = [(8, 256), (42, 15)]\<rparr>] = Returned 143 [SIGTERM]"
proof -
  have s: "start_child sample_launcher False [''sh''] = Inr 42" by (simp add: start_child_def sample_launcher_def)
  have q: "list_all (quiet 42) [\<lparr>nt_signal = SIGCHLD, nt_waits = [(7, 0)]\<rparr>, \<lparr>nt_signal = SIGTERM, nt_waits = []\<rparr>]"
    by (simp add: quiet_def)
  show ?thesis
    using run_returns_the_exit_code [OF _ s _ q, of "\<lparr>nt_signal = SIGCHLD, nt_waits = [(8, 256), (42, 15)]\<rparr>" "[(8, 256)]" 15 "[]" "[]" 0 15]
    by (simp add: SIGCHLD_def SIGTERM_def)
qed

text \<open>The channel can lose the child's exit: eight deliveries of one signal, each raised again after the runtime has
  taken its bit, fill it, and the SIGCHLD that follows is dropped. Nothing of it is left, and the run goes on
  waiting.\<close>

theorem flooded_exit_is_lost:
  assumes "n \<in> set registered" "n \<noteq> SIGCHLD"
  shows "foldl signal_step no_signals (concat (replicate signalBuffer [Raised n, Forwarded n]) @ [Raised SIGCHLD, Forwarded SIGCHLD])
    = \<lparr>sg_mask = [], sg_channel = replicate signalBuffer n\<rparr>"
  using assms by (simp add: signalBuffer_def no_signals_def numeral_eq_Suc registered_def)

theorem flooded_exit_is_lost_witness:
  "SIGCHLD \<notin> set (sg_channel (foldl signal_step no_signals
     (concat (replicate signalBuffer [Raised SIGHUP, Forwarded SIGHUP]) @ [Raised SIGCHLD, Forwarded SIGCHLD])))"
  using flooded_exit_is_lost [of SIGHUP] by (simp add: registered_def SIGHUP_def SIGCHLD_def)

end
