(* ===== verification/Child.thy ===== *)
theory Child
  imports Supervise Sqltext
begin

text \<open>
  The child the dashboard starts, \<open>internal/control/child.go\<close>: one process at a time, its output kept in numbered
  chunks under a limit. Every method holds the mutex for its whole effect, so what the goroutines of a run
  do is a sequence of events: the supervisor reports the process, the two drains append what they read, and
  the end of the run sets the exit code. Pipes and the supervisor's answer are arguments.
\<close>

definition outputLimit :: nat where "outputLimit = 262144"
definition readChunk :: nat where "readChunk = 8192"
definition exitUnstarted :: int where "exitUnstarted = - 1"

record OutputChunk =
  oc_N :: nat
  oc_Stream :: gostring
  oc_Text :: gostring

record ChildStatus =
  ch_Command :: gostring
  ch_Running :: bool
  ch_Exited :: bool
  ch_ExitCode :: int
  ch_Output :: "OutputChunk list"
  ch_Dropped :: nat

record runner =
  rn_command :: gostring
  rn_running :: bool
  rn_exited :: bool
  rn_code :: int
  rn_process :: "int option"
  rn_chunks :: "OutputChunk list"
  rn_next :: nat
  rn_held :: nat
  rn_dropped :: nat
  rn_shell :: gostring

datatype runner_error =
    NoCommandGiven
  | StillRunning gostring
  | NotCaptured gostring
  | NotSignalled gostring
  | StillStarting
  | NothingRunning

definition NewRunner :: runner where
  "NewRunner = \<lparr>rn_command = [], rn_running = False, rn_exited = False, rn_code = 0, rn_process = None, rn_chunks = [],
     rn_next = 1, rn_held = 0, rn_dropped = 0, rn_shell = ''sh''\<rparr>"

section \<open>Output\<close>

text \<open>Drops the oldest chunks until what is held is under the limit, or one chunk is left.\<close>

fun trim_loop :: "nat \<Rightarrow> OutputChunk list \<Rightarrow> nat \<Rightarrow> OutputChunk list \<times> nat \<times> nat" where
  "trim_loop held (a # b # rest) dropped =
     (if held > outputLimit then trim_loop (held - length (oc_Text a)) (b # rest) (dropped + 1) else (a # b # rest, held, dropped))"
| "trim_loop held chunks dropped = (chunks, held, dropped)"

definition append_output :: "gostring \<Rightarrow> gostring \<Rightarrow> runner \<Rightarrow> runner" where
  "append_output stream text r =
     (case trim_loop (rn_held r + length text) (rn_chunks r @ [\<lparr>oc_N = rn_next r, oc_Stream = stream, oc_Text = text\<rparr>]) (rn_dropped r) of
        (chunks, held, dropped) \<Rightarrow> r\<lparr>rn_chunks := chunks, rn_next := rn_next r + 1, rn_held := held, rn_dropped := dropped\<rparr>)"

definition runner_Status :: "runner \<Rightarrow> int \<Rightarrow> ChildStatus" where
  "runner_Status r since =
     \<lparr>ch_Command = rn_command r, ch_Running = rn_running r, ch_Exited = rn_exited r, ch_ExitCode = rn_code r,
      ch_Output = filter (\<lambda>chunk. int (oc_N chunk) > since) (rn_chunks r), ch_Dropped = rn_dropped r\<rparr>"

section \<open>The life of a child\<close>

definition claim :: "gostring \<Rightarrow> runner \<Rightarrow> runner_error option \<times> runner" where
  "claim command r =
     (if rn_running r then (Some (StillRunning (rn_command r)), r)
      else (None, r\<lparr>rn_command := command, rn_running := True, rn_exited := False\<rparr>))"

definition track_process :: "int \<Rightarrow> runner \<Rightarrow> runner" where "track_process process r = r\<lparr>rn_process := Some process\<rparr>"

definition finish_child :: "int \<Rightarrow> runner \<Rightarrow> runner" where
  "finish_child code r = r\<lparr>rn_running := False, rn_exited := True, rn_code := code, rn_process := None\<rparr>"

text \<open>Two pipes are opened; a failure of the second closes the first.\<close>

definition capture :: "gostring option \<Rightarrow> gostring option \<Rightarrow> gostring option" where
  "capture out err =
     (case out of Some e \<Rightarrow> Some (''capturing stdout: '' @ e)
      | None \<Rightarrow> (case err of Some e \<Rightarrow> Some (''capturing stderr: '' @ e) | None \<Rightarrow> None))"

definition newline :: gostring where "newline = [CHR 0x0A]"

definition start_command :: "gostring option \<Rightarrow> gostring option \<Rightarrow> gostring \<Rightarrow> runner \<Rightarrow> runner_error option \<times> runner" where
  "start_command out err command r =
     (if TrimSpace command = [] then (Some NoCommandGiven, r)
      else (case claim command r of
              (Some e, r) \<Rightarrow> (Some e, r)
            | (None, r) \<Rightarrow>
                (let r = append_output ''emu'' (''$ '' @ command @ newline) r
                 in case capture out err of
                      Some e \<Rightarrow> (Some (NotCaptured e), append_output ''emu'' (e @ newline) (finish_child exitUnstarted r))
                    | None \<Rightarrow> (None, r))))"

definition stop_child :: "(int \<Rightarrow> gostring option) \<Rightarrow> runner \<Rightarrow> runner_error option" where
  "stop_child kill_group r =
     (case rn_process r of
        Some process \<Rightarrow> map_option NotSignalled (kill_group (- process))
      | None \<Rightarrow> if rn_running r then Some StillStarting else Some NothingRunning)"

text \<open>A drain appends every read that got something until one fails.\<close>

fun drain_reads :: "gostring \<Rightarrow> (gostring \<times> bool) list \<Rightarrow> runner \<Rightarrow> runner" where
  "drain_reads stream [] r = r"
| "drain_reads stream ((got, failed) # reads) r =
     (let r = (if got \<noteq> [] then append_output stream got r else r) in if failed then r else drain_reads stream reads r)"

text \<open>What the supervisor answered: it did not start, or the exit code.\<close>

definition end_run :: "gostring + int \<Rightarrow> runner \<Rightarrow> runner" where
  "end_run outcome r =
     (case outcome of
        Inl err \<Rightarrow> append_output ''emu'' (err @ newline) (finish_child exitUnstarted r)
      | Inr code \<Rightarrow> append_output ''emu'' (''exited '' @ FormatInt code @ newline) (finish_child code r))"

section \<open>Sections\<close>

text \<open>What holds the mutex: a claim, the process noted, an append, the end. Goroutines only interleave these.\<close>

datatype runner_event =
    Claimed gostring
  | Tracked int
  | Appended gostring gostring
  | Finished int

fun runner_step :: "runner \<Rightarrow> runner_event \<Rightarrow> runner" where
  "runner_step r (Claimed command) = snd (claim command r)"
| "runner_step r (Tracked process) = track_process process r"
| "runner_step r (Appended stream got) = append_output stream got r"
| "runner_step r (Finished code) = finish_child code r"

fun run_sections :: "runner \<Rightarrow> runner_event list \<Rightarrow> runner" where
  "run_sections r [] = r"
| "run_sections r (ev # evs) = run_sections (runner_step r ev) evs"

text \<open>Every method is a sequence of sections.\<close>

lemma start_sections: "\<exists>evs. snd (start_command out err command r) = run_sections r evs"
proof (cases "TrimSpace command = [] \<or> rn_running r")
  case True
  then have "snd (start_command out err command r) = run_sections r []" by (auto simp: start_command_def claim_def)
  then show ?thesis by blast
next
  case False
  have "snd (start_command out err command r) = run_sections r
      ([Claimed command, Appended ''emu'' (''$ '' @ command @ newline)] @
       (case capture out err of None \<Rightarrow> [] | Some e \<Rightarrow> [Finished exitUnstarted, Appended ''emu'' (e @ newline)]))"
    using False by (simp add: start_command_def claim_def Let_def split: option.splits)
  then show ?thesis by blast
qed

lemma drain_sections: "\<exists>evs. drain_reads stream reads r = run_sections r evs"
proof (induction reads arbitrary: r)
  case Nil
  have "drain_reads stream [] r = run_sections r []" by simp
  then show ?case by blast
next
  case (Cons one reads)
  obtain got failed where one: "one = (got, failed)" by (cases one)
  define r' where "r' = (if got \<noteq> [] then append_output stream got r else r)"
  define said where "said = (if got \<noteq> [] then [Appended stream got] else [])"
  obtain evs where evs: "drain_reads stream reads r' = run_sections r' evs" using Cons by blast
  have "run_sections r (said @ evs) = run_sections r' evs" by (simp add: said_def r'_def)
  moreover have "run_sections r said = r'" by (simp add: said_def r'_def)
  moreover have "drain_reads stream (one # reads) r = (if failed then r' else drain_reads stream reads r')"
    by (simp add: one r'_def)
  ultimately show ?case using evs by (cases failed) (auto intro: exI [of _ said] exI [of _ "said @ evs"])
qed

section \<open>What was said\<close>

text \<open>Everything that was ever appended, in order, whatever was dropped since.\<close>

fun emitted :: "runner_event list \<Rightarrow> (gostring \<times> gostring) list" where
  "emitted [] = []"
| "emitted (Appended stream got # evs) = (stream, got) # emitted evs"
| "emitted (ev # evs) = emitted evs"

fun numbered :: "nat \<Rightarrow> (gostring \<times> gostring) list \<Rightarrow> OutputChunk list" where
  "numbered k [] = []"
| "numbered k ((stream, t) # out) = \<lparr>oc_N = k, oc_Stream = stream, oc_Text = t\<rparr> # numbered (k + 1) out"

definition total_length :: "(gostring \<times> gostring) list \<Rightarrow> nat" where
  "total_length out = sum_list (map (length \<circ> snd) out)"

text \<open>The chunks held are the last of all that was said: as many as fit, or one.\<close>

definition window_of :: "(gostring \<times> gostring) list \<Rightarrow> runner \<Rightarrow> bool" where
  "window_of out r \<longleftrightarrow> rn_next r = length out + 1 \<and> rn_dropped r \<le> length out \<and>
     rn_chunks r = numbered (rn_dropped r + 1) (drop (rn_dropped r) out) \<and> rn_held r = total_length (drop (rn_dropped r) out) \<and>
     (rn_held r \<le> outputLimit \<or> length (rn_chunks r) = 1) \<and>
     (0 < rn_dropped r \<longrightarrow> rn_dropped r < length out \<and> outputLimit < total_length (drop (rn_dropped r - 1) out))"

lemma length_numbered [simp]: "length (numbered k out) = length out"
  by (induction k out rule: numbered.induct) auto

lemma numbered_append: "numbered k (out @ later) = numbered k out @ numbered (k + length out) later"
  by (induction k out rule: numbered.induct) auto

lemma total_length_simps [simp]:
  "total_length [] = 0" "total_length ((stream, t) # out) = length t + total_length out"
  "total_length (out @ later) = total_length out + total_length later"
  by (simp_all add: total_length_def)

text \<open>Trimming keeps a window a window, dropping as long as it must.\<close>

lemma trim_loop_window:
  assumes "trim_loop (total_length tail) (numbered (d + 1) tail) d = (chunks, held, d')" "tail \<noteq> []"
  shows "\<exists>gone kept. tail = gone @ kept \<and> kept \<noteq> [] \<and> d' = d + length gone \<and> chunks = numbered (d' + 1) kept \<and> held = total_length kept \<and>
    (held \<le> outputLimit \<or> length kept = 1) \<and> (gone \<noteq> [] \<longrightarrow> outputLimit < total_length (last gone # kept))"
  using assms
proof (induction tail arbitrary: d)
  case Nil
  then show ?case by simp
next
  case (Cons one tail)
  obtain stream t where one: "one = (stream, t)" by (cases one)
  show ?case
  proof (cases tail)
    case Nil
    have "one # tail = [] @ (one # tail) \<and> one # tail \<noteq> [] \<and> d' = d + length ([] :: (gostring \<times> gostring) list) \<and>
        chunks = numbered (d' + 1) (one # tail) \<and> held = total_length (one # tail) \<and> length (one # tail) = 1"
      using Cons.prems Nil one by auto
    then show ?thesis by blast
  next
    case (Cons two later)
    obtain stream' t' where two: "two = (stream', t')" by (cases two)
    show ?thesis
    proof (cases "total_length (one # tail) > outputLimit")
      case True
      have "trim_loop (total_length tail) (numbered (Suc d + 1) tail) (Suc d) = (chunks, held, d')"
        using Cons.prems(1) True one two Cons by simp
      then obtain gone kept where *: "tail = gone @ kept" "kept \<noteq> []" "d' = Suc d + length gone" "chunks = numbered (d' + 1) kept"
        "held = total_length kept" "held \<le> outputLimit \<or> length kept = 1" "gone \<noteq> [] \<longrightarrow> outputLimit < total_length (last gone # kept)"
        using Cons.IH [of "Suc d"] Cons by blast
      have "one # tail = (one # gone) @ kept \<and> d' = d + length (one # gone) \<and> outputLimit < total_length (last (one # gone) # kept)"
        using * True by (cases "gone = []") (auto simp: one)
      then show ?thesis using * by (intro exI [of _ "one # gone"] exI [of _ kept]) simp
    next
      case False
      then have "d' = d" "chunks = numbered (d' + 1) (one # tail)" "held = total_length (one # tail)"
        using Cons.prems(1) one two Cons by (auto split: if_splits)
      then show ?thesis using False by (intro exI [of _ "[]"] exI [of _ "one # tail"]) simp
    qed
  qed
qed

lemma append_window:
  assumes w: "window_of out r"
  shows "window_of (out @ [(stream, t)]) (append_output stream t r)"
proof -
  define tail where "tail = drop (rn_dropped r) out @ [(stream, t)]"
  have d: "rn_dropped r \<le> length out" using w by (simp add: window_of_def)
  have n: "rn_chunks r @ [\<lparr>oc_N = rn_next r, oc_Stream = stream, oc_Text = t\<rparr>] = numbered (rn_dropped r + 1) tail"
    and h: "rn_held r + length t = total_length tail"
    using w by (simp_all add: window_of_def tail_def numbered_append)
  obtain chunks held d' where trim: "trim_loop (total_length tail) (numbered (rn_dropped r + 1) tail) (rn_dropped r) = (chunks, held, d')"
    by (metis prod_cases3)
  have app: "append_output stream t r = r\<lparr>rn_chunks := chunks, rn_next := rn_next r + 1, rn_held := held, rn_dropped := d'\<rparr>"
    unfolding append_output_def n h trim by simp
  obtain gone kept where *: "tail = gone @ kept" "kept \<noteq> []" "d' = rn_dropped r + length gone" "chunks = numbered (d' + 1) kept"
    "held = total_length kept" "held \<le> outputLimit \<or> length kept = 1" "gone \<noteq> [] \<longrightarrow> outputLimit < total_length (last gone # kept)"
    using trim_loop_window [OF trim] by (auto simp: tail_def)
  define all where "all = out @ [(stream, t)]"
  have all: "drop (rn_dropped r) all = gone @ kept" using d *(1) by (simp add: all_def tail_def)
  have kept: "drop d' all = kept" using all *(3) by (metis add.commute append_eq_conv_conj drop_drop)
  have less: "d' < length all" using kept *(2) by (metis drop_eq_Nil not_le)
  have over: "outputLimit < total_length (drop (d' - 1) all)" if "0 < d'"
  proof (cases "gone = []")
    case True
    then have "rn_dropped r = d'" "outputLimit < total_length (drop (rn_dropped r - 1) out)"
      using *(3) that w by (auto simp: window_of_def)
    then show ?thesis using d by (simp add: all_def)
  next
    case False
    then have "gone = butlast gone @ [last gone]" "d' - 1 = length (butlast gone) + rn_dropped r"
      using *(3) by (cases gone rule: rev_cases; simp)+
    then have "drop (d' - 1) all = drop (length (butlast gone)) (butlast gone @ last gone # kept)"
      using all by (metis append.assoc append_Cons append_Nil drop_drop)
    then have "drop (d' - 1) all = last gone # kept" by simp
    then show ?thesis using * False by simp
  qed
  show ?thesis
    using w app *(4,5,6) kept less over by (auto simp: window_of_def all_def [symmetric]) (simp_all add: all_def)
qed

lemma step_window: "window_of out r \<Longrightarrow> window_of (out @ emitted [ev]) (runner_step r ev)"
  by (cases ev) (auto simp: append_window, auto simp: window_of_def claim_def track_process_def finish_child_def)

lemma emitted_Cons: "emitted (ev # evs) = emitted [ev] @ emitted evs"
  by (cases ev) auto

lemma sections_window: "window_of out r \<Longrightarrow> window_of (out @ emitted evs) (run_sections r evs)"
proof (induction evs arbitrary: out r)
  case (Cons ev evs)
  then show ?case using step_window [OF Cons.prems, of ev] by (metis append.assoc emitted_Cons run_sections.simps(2))
qed simp

lemma new_window: "window_of [] NewRunner"
  by (simp add: window_of_def NewRunner_def)

text \<open>C29. However the sections of the runs interleave, what is held is the end of everything that was said, each chunk
  numbered by its place: the largest end that fits the limit (or the one last chunk, alone above it), with
  the number of chunks before it as the count of what was lost.\<close>
theorem runner_keeps_latest_output:
  "window_of (emitted evs) (run_sections NewRunner evs)"
  using sections_window [OF new_window, of evs] by simp

section \<open>The goroutines of a run\<close>

text \<open>A run claims, says what it runs, opens its pipes, launches, watches its process and says how it ended; the last
  line is said after the claim is given up, so a next run may speak first.\<close>

datatype run_phase = Announcing gostring | Capturing | Launching | Watching int | Saying gostring

fun active :: "run_phase \<Rightarrow> bool" where
  "active (Saying t) = False"
| "active phase = True"

fun has_pipes :: "run_phase \<Rightarrow> bool" where
  "has_pipes Launching = True"
| "has_pipes (Watching process) = True"
| "has_pipes phase = False"

inductive runs_step :: "runner \<times> run_phase list \<Rightarrow> runner \<times> run_phase list \<Rightarrow> bool" where
  Asks: "TrimSpace command \<noteq> [] \<Longrightarrow> claim command r = (None, r') \<Longrightarrow> runs_step (r, runs) (r', runs @ [Announcing command])"
| Announces: "runs_step (r, earlier @ Announcing command # later)
    (append_output ''emu'' (''$ '' @ command @ newline) r, earlier @ Capturing # later)"
| Captures: "capture out err = None \<Longrightarrow> runs_step (r, earlier @ Capturing # later) (r, earlier @ Launching # later)"
| Cannot_capture: "capture out err = Some e \<Longrightarrow>
    runs_step (r, earlier @ Capturing # later) (finish_child exitUnstarted r, earlier @ Saying (e @ newline) # later)"
| Tracks: "runs_step (r, earlier @ Launching # later) (track_process process r, earlier @ Watching process # later)"
| Drains: "has_pipes phase \<Longrightarrow> phase \<in> set runs \<Longrightarrow> runs_step (r, runs) (drain_reads stream [(got, failed)] r, runs)"
| Cannot_launch: "runs_step (r, earlier @ Launching # later) (finish_child exitUnstarted r, earlier @ Saying (err @ newline) # later)"
| Exits: "runs_step (r, earlier @ Watching process # later)
    (finish_child code r, earlier @ Saying (''exited '' @ FormatInt code @ newline) # later)"
| Says: "runs_step (r, earlier @ Saying t # later) (append_output ''emu'' t r, earlier @ later)"

inductive_cases runs_stepE: "runs_step (r, runs) next"

definition exclusive :: "runner \<times> run_phase list \<Rightarrow> bool" where
  "exclusive st = (case st of (r, runs) \<Rightarrow>
     length (filter active runs) = (if rn_running r then 1 else 0) \<and> (\<forall>p. rn_process r = Some p \<longleftrightarrow> Watching p \<in> set runs))"

lemma append_output_life [simp]:
  "rn_running (append_output stream t r) = rn_running r" "rn_process (append_output stream t r) = rn_process r"
  "rn_command (append_output stream t r) = rn_command r"
  by (simp_all add: append_output_def split: prod.splits)

lemma drain_life [simp]:
  "rn_running (drain_reads stream reads r) = rn_running r" "rn_process (drain_reads stream reads r) = rn_process r"
  by (induction stream reads r rule: drain_reads.induct) (simp_all add: Let_def)

lemma none_active: "filter active runs = [] \<Longrightarrow> Watching p \<notin> set runs"
  by (auto simp: filter_empty_conv)

lemma runs_step_exclusive: "runs_step st st' \<Longrightarrow> exclusive st \<Longrightarrow> exclusive st'"
proof (induction rule: runs_step.induct)
  case (Asks command r r' runs)
  then show ?case by (simp add: exclusive_def claim_def split: if_splits) (auto simp: filter_empty_conv)
next
  case (Announces r earlier command later)
  then show ?case by (simp add: exclusive_def split: if_splits)
next
  case (Captures out err r earlier later)
  then show ?case by (simp add: exclusive_def split: if_splits)
next
  case (Cannot_capture out err e r earlier later)
  then show ?case using none_active by (auto simp: exclusive_def finish_child_def split: if_split_asm)
next
  case (Tracks r earlier later process)
  then show ?case using none_active by (auto simp: exclusive_def track_process_def split: if_split_asm)
next
  case (Drains phase runs r stream got failed)
  then show ?case by (simp add: exclusive_def del: drain_reads.simps)
next
  case (Cannot_launch r earlier later err)
  then show ?case using none_active by (auto simp: exclusive_def finish_child_def split: if_split_asm)
next
  case (Exits r earlier process later code)
  then show ?case using none_active by (auto simp: exclusive_def finish_child_def split: if_split_asm)
next
  case (Says r earlier t later)
  then show ?case by (simp add: exclusive_def)
qed

lemma runs_exclusive: "runs_step\<^sup>*\<^sup>* st st' \<Longrightarrow> exclusive st \<Longrightarrow> exclusive st'"
  by (induction rule: rtranclp_induct) (auto intro: runs_step_exclusive)

text \<open>C16. However the goroutines of the runs interleave, at most one run is between its claim and its end, the runner is
  running exactly then, and the process \<open>Stop\<close> would signal is the one that run watches: never one that
  ended, and never two supervisors reaping each other's children.\<close>
theorem one_child_at_a_time:
  "runs_step\<^sup>*\<^sup>* (NewRunner, []) (r, runs) \<Longrightarrow>
   length (filter active runs) = (if rn_running r then 1 else 0) \<and> (\<forall>p. rn_process r = Some p \<longleftrightarrow> Watching p \<in> set runs)"
  using runs_exclusive [of "(NewRunner, [])" "(r, runs)"] by (simp add: exclusive_def NewRunner_def)

lemma sample_run:
  "runs_step\<^sup>*\<^sup>* (NewRunner, [])
     (track_process 7 (append_output ''emu'' (''$ '' @ ''ls'' @ newline) (NewRunner\<lparr>rn_command := ''ls'', rn_running := True\<rparr>)), [Watching 7])"
proof -
  have "runs_step (NewRunner, []) (NewRunner\<lparr>rn_command := ''ls'', rn_running := True\<rparr>, [] @ [Announcing ''ls''])"
    by (rule Asks) (simp_all add: claim_def NewRunner_def, code_simp)
  moreover have "runs_step (r, [] @ [Announcing ''ls'']) (append_output ''emu'' (''$ '' @ ''ls'' @ newline) r, [Capturing])" for r
    using Announces [of r "[]" "''ls''" "[]"] by simp
  moreover have "runs_step (r, [Capturing]) (r, [Launching])" for r
    using Captures [of None None r "[]" "[]"] by (simp add: capture_def)
  moreover have "runs_step (r, [Launching]) (track_process 7 r, [Watching 7])" for r
    using Tracks [of r "[]" "[]" 7] by simp
  ultimately show ?thesis by (meson rtranclp.rtrancl_into_rtrancl rtranclp.rtrancl_refl)
qed

theorem one_child_at_a_time_witness:
  "rn_process (track_process 7 (append_output ''emu'' (''$ '' @ ''ls'' @ newline) (NewRunner\<lparr>rn_command := ''ls'', rn_running := True\<rparr>))) = Some 7"
  using one_child_at_a_time [OF sample_run] by simp

end
