(* ===== verification/Dashboard.thy ===== *)
theory Dashboard
  imports Interceptor Child
begin

text \<open>
  The two ways into a running emu: the page's routes of \<open>internal/control/http.go\<close> and the socket of
  \<open>internal/control/socket.go\<close>. A request arrives decoded, or as the decoder's complaint; what the operating
  system answers (pipes, \<open>kill\<close>, \<open>listen\<close>, \<open>chmod\<close>) is an argument. A handler is one function on the
  interceptor and the runner; an error value keeps what the code formats into a sentence.
\<close>

section \<open>What a request can meet\<close>

datatype plane_error =
    BadBody gostring
  | RuleRefused rule_error
  | NotANumber gostring
  | NoSuchRule control_error
  | NeedsEmulatorAndKind
  | AlreadySupervises gostring
  | ChildRefused runner_error
  | NeedsARule gostring
  | UnknownCommand gostring

section \<open>The page's state\<close>

record About =
  ab_Services :: "gostring list"
  ab_Listening :: "(gostring \<times> gostring) list"
  ab_ConfigPath :: gostring
  ab_Child :: gostring
  ab_CanRun :: bool

record page_state =
  ps_About :: About
  ps_Rules :: "Rule list"
  ps_Entries :: "entry list"
  ps_Dropped :: nat
  ps_Child :: "ChildStatus option"

record verdictView =
  vv_DelayMillis :: int
  vv_DropConn :: bool
  vv_Error :: "FaultError option"
  vv_Fault :: gostring

definition describe_verdict :: "Verdict \<Rightarrow> verdictView" where
  "describe_verdict verdict =
     \<lparr>vv_DelayMillis = quot (v_Delay verdict) 1000000, vv_DropConn = v_DropConn verdict, vv_Error = v_Err verdict,
      vv_Fault = v_Fault verdict\<rparr>"

datatype payload =
    Page
  | State page_state
  | ArmedRules "Rule list"
  | Described verdictView
  | ChildIs ChildStatus
  | Refused plane_error

record plane =
  pl_intercept :: interceptor
  pl_runner :: "runner option"
  pl_about :: About

type_synonym answer = "nat \<times> payload"

definition refuse :: "nat \<Rightarrow> plane_error \<Rightarrow> answer" where "refuse status err = (status, Refused err)"

text \<open>A poll position that cannot be read starts over.\<close>

definition poll_cursor :: "gostring \<Rightarrow> int" where
  "poll_cursor raw = (case Atoi raw of None \<Rightarrow> 0 | Some position \<Rightarrow> position)"

definition childStatus :: "plane \<Rightarrow> int \<Rightarrow> ChildStatus option" where
  "childStatus d since = map_option (\<lambda>r. runner_Status r since) (pl_runner d)"

section \<open>The routes\<close>

definition get_state :: "gostring \<Rightarrow> gostring \<Rightarrow> plane \<Rightarrow> answer" where
  "get_state since output d =
     (200, State \<lparr>ps_About = pl_about d, ps_Rules = armed_rules (pl_intercept d),
                  ps_Entries = Since (i_log (pl_intercept d)) (poll_cursor since), ps_Dropped = Dropped (i_log (pl_intercept d)),
                  ps_Child = childStatus d (poll_cursor output)\<rparr>)"

definition post_fault :: "gostring + Rule \<Rightarrow> plane \<Rightarrow> answer \<times> plane" where
  "post_fault body d =
     (case body of
        Inl err \<Rightarrow> (refuse 400 (BadBody err), d)
      | Inr rule \<Rightarrow>
          (case AddRule rule (pl_intercept d) of
             (Some err, i) \<Rightarrow> (refuse 400 (RuleRefused err), d\<lparr>pl_intercept := i\<rparr>)
           | (None, i) \<Rightarrow> ((200, ArmedRules (armed_rules i)), d\<lparr>pl_intercept := i\<rparr>)))"

definition delete_fault :: "gostring \<Rightarrow> plane \<Rightarrow> answer \<times> plane" where
  "delete_fault raw d =
     (case Atoi raw of
        None \<Rightarrow> (refuse 400 (NotANumber raw), d)
      | Some index \<Rightarrow>
          (case RemoveRule index (pl_intercept d) of
             (Some err, i) \<Rightarrow> (refuse 404 (NoSuchRule err), d\<lparr>pl_intercept := i\<rparr>)
           | (None, i) \<Rightarrow> ((200, ArmedRules (armed_rules i)), d\<lparr>pl_intercept := i\<rparr>)))"

definition reset_faults :: "plane \<Rightarrow> answer \<times> plane" where
  "reset_faults d = (let i = ResetRules (pl_intercept d) in ((200, ArmedRules (armed_rules i)), d\<lparr>pl_intercept := i\<rparr>))"

definition post_op :: "gostring + 'p op \<Rightarrow> plane \<Rightarrow> answer \<times> plane" where
  "post_op body d =
     (case body of
        Inl err \<Rightarrow> (refuse 400 (BadBody err), d)
      | Inr o' \<Rightarrow>
          if op_Emulator o' = [] \<or> op_Kind o' = [] then (refuse 400 NeedsEmulatorAndKind, d)
          else (case Fire o' (pl_intercept d) of (verdict, i) \<Rightarrow> ((200, Described (describe_verdict verdict)), d\<lparr>pl_intercept := i\<rparr>)))"

definition post_child :: "gostring option \<Rightarrow> gostring option \<Rightarrow> gostring + gostring \<Rightarrow> plane \<Rightarrow> answer \<times> plane" where
  "post_child out err body d =
     (case pl_runner d of
        None \<Rightarrow> (refuse 409 (AlreadySupervises (ab_Child (pl_about d))), d)
      | Some r \<Rightarrow>
          (case body of
             Inl e \<Rightarrow> (refuse 400 (BadBody e), d)
           | Inr command \<Rightarrow>
               (case start_command out err command r of
                  (Some e, r) \<Rightarrow> (refuse 409 (ChildRefused e), d\<lparr>pl_runner := Some r\<rparr>)
                | (None, r) \<Rightarrow> ((200, ChildIs (runner_Status r 0)), d\<lparr>pl_runner := Some r\<rparr>))))"

definition delete_child :: "(int \<Rightarrow> gostring option) \<Rightarrow> plane \<Rightarrow> answer" where
  "delete_child kill_group d =
     (case pl_runner d of
        None \<Rightarrow> refuse 409 (AlreadySupervises (ab_Child (pl_about d)))
      | Some r \<Rightarrow>
          (case stop_child kill_group r of
             Some e \<Rightarrow> refuse 409 (ChildRefused e)
           | None \<Rightarrow> (200, ChildIs (runner_Status r 0))))"

datatype 'p page_request =
    GetPage
  | GetState gostring gostring
  | PostFault "gostring + Rule"
  | DeleteFault gostring
  | ResetFaults
  | PostOp "gostring + 'p op"
  | PostChild "gostring option" "gostring option" "gostring + gostring"
  | DeleteChild "int \<Rightarrow> gostring option"

fun routes :: "'p page_request \<Rightarrow> plane \<Rightarrow> answer \<times> plane" where
  "routes GetPage d = ((200, Page), d)"
| "routes (GetState since output) d = (get_state since output d, d)"
| "routes (PostFault body) d = post_fault body d"
| "routes (DeleteFault raw) d = delete_fault raw d"
| "routes ResetFaults d = reset_faults d"
| "routes (PostOp body) d = post_op body d"
| "routes (PostChild out err body) d = post_child out err body d"
| "routes (DeleteChild kill_group) d = (delete_child kill_group d, d)"

section \<open>Binding\<close>

text \<open>\<open>net.SplitHostPort\<close>: the port is after the last colon, a bracketed host may hold colons.\<close>

fun last_colon :: "gostring \<Rightarrow> nat option" where
  "last_colon [] = None"
| "last_colon (c # s) =
     (case last_colon s of Some i \<Rightarrow> Some (Suc i) | None \<Rightarrow> if c = CHR '':'' then Some 0 else None)"

definition SplitHostPort :: "gostring \<Rightarrow> (gostring \<times> gostring) option" where
  "SplitHostPort hostport =
     (case last_colon hostport of
        None \<Rightarrow> None
      | Some i \<Rightarrow>
          let port = drop (i + 1) hostport
          in if hd hostport = CHR ''[''
             then (let close = length (takeWhile (\<lambda>c. c \<noteq> CHR '']'') hostport)
                   in if close = length hostport \<or> close + 1 \<noteq> i then None
                      else if CHR ''['' \<in> set (drop 1 hostport) \<or> CHR '']'' \<in> set (drop (close + 1) hostport) then None
                      else Some (drop 1 (take close hostport), port))
             else if CHR '':'' \<in> set (take i hostport) \<or> CHR ''['' \<in> set hostport \<or> CHR '']'' \<in> set hostport then None
             else Some (take i hostport, port))"

text \<open>\<open>net.ParseIP(host).IsLoopback()\<close>: four decimal fields without leading zeros, the first 127; which of the
  texts whose first separator is a colon are a loopback address (\<open>::1\<close> and the mapped ones) is an argument.\<close>

definition ip_field :: "gostring \<Rightarrow> nat option" where
  "ip_field s =
     (if s = [] \<or> \<not> list_all is_digit s \<or> (1 < length s \<and> hd s = CHR ''0'') \<or> 255 < value_of_digits s then None
      else Some (value_of_digits s))"

definition loopback_quad :: "gostring \<Rightarrow> bool" where
  "loopback_quad host =
     (let parts = map ip_field (Split_on CHR ''.'' host) in length parts = 4 \<and> None \<notin> set parts \<and> hd parts = Some 127)"

definition loopback_ip :: "(gostring \<Rightarrow> bool) \<Rightarrow> gostring \<Rightarrow> bool" where
  "loopback_ip v6 host =
     (case filter (\<lambda>c. c \<in> {CHR ''.'', CHR '':'', CHR ''%''}) host of
        [] \<Rightarrow> False
      | c # cs \<Rightarrow> if c = CHR ''.'' then loopback_quad host else c = CHR '':'' \<and> v6 host)"

datatype bind_error = WantHostPort gostring | NoPort gostring | OnlyLoopback gostring gostring | NoListener gostring

definition requireLoopback :: "(gostring \<Rightarrow> bool) \<Rightarrow> gostring \<Rightarrow> bind_error option" where
  "requireLoopback v6 address =
     (case SplitHostPort address of
        None \<Rightarrow> Some (WantHostPort address)
      | Some (host, port) \<Rightarrow>
          if port = [] then Some (NoPort address)
          else if host = ''localhost'' then None
          else if loopback_ip v6 host then None
          else Some (OnlyLoopback address port))"

text \<open>The bound address, as the listener reports it, and the plane it serves.\<close>

definition Bind_dashboard ::
  "(gostring \<Rightarrow> bool) \<Rightarrow> (gostring \<Rightarrow> gostring + gostring) \<Rightarrow> gostring \<Rightarrow> interceptor \<Rightarrow> About \<Rightarrow> runner option \<Rightarrow> bind_error + gostring \<times> plane" where
  "Bind_dashboard v6 listen address intercept about r =
     (case requireLoopback v6 address of
        Some err \<Rightarrow> Inl err
      | None \<Rightarrow>
          (case listen address of
             Inl err \<Rightarrow> Inl (NoListener err)
           | Inr bound \<Rightarrow> Inr (bound, \<lparr>pl_intercept = intercept, pl_runner = r, pl_about = about\<lparr>ab_CanRun := r \<noteq> None\<rparr>\<rparr>)))"

definition dashboard_URL :: "gostring \<Rightarrow> gostring" where "dashboard_URL bound = ''http://'' @ bound"

section \<open>The socket\<close>

definition CommandFaultAdd :: gostring where "CommandFaultAdd = ''fault.add''"
definition CommandFaultList :: gostring where "CommandFaultList = ''fault.list''"
definition CommandFaultReset :: gostring where "CommandFaultReset = ''fault.reset''"
definition CommandOplog :: gostring where "CommandOplog = ''oplog''"

record socket_request =
  rq_Command :: gostring
  rq_Rule :: "Rule option"

record Response =
  rs_OK :: bool
  rs_Error :: "plane_error option"
  rs_Rules :: "Rule list"
  rs_Oplog :: "entry list"

definition empty_response :: Response where "empty_response = \<lparr>rs_OK = False, rs_Error = None, rs_Rules = [], rs_Oplog = []\<rparr>"

definition refusal :: "plane_error \<Rightarrow> Response" where "refusal err = empty_response\<lparr>rs_Error := Some err\<rparr>"

definition socket_answer :: "socket_request \<Rightarrow> interceptor \<Rightarrow> Response \<times> interceptor" where
  "socket_answer request i =
     (if rq_Command request = CommandFaultAdd then
        (case rq_Rule request of
           None \<Rightarrow> (refusal (NeedsARule CommandFaultAdd), i)
         | Some rule \<Rightarrow>
             (case AddRule rule i of
                (Some err, i) \<Rightarrow> (refusal (RuleRefused err), i)
              | (None, i) \<Rightarrow> (empty_response\<lparr>rs_OK := True, rs_Rules := armed_rules i\<rparr>, i)))
      else if rq_Command request = CommandFaultList then (empty_response\<lparr>rs_OK := True, rs_Rules := armed_rules i\<rparr>, i)
      else if rq_Command request = CommandFaultReset then (empty_response\<lparr>rs_OK := True\<rparr>, ResetRules i)
      else if rq_Command request = CommandOplog then (empty_response\<lparr>rs_OK := True, rs_Oplog := Entries (i_log i)\<rparr>, i)
      else (refusal (UnknownCommand (rq_Command request)), i))"

text \<open>A connection answers each request it can decode; the first it cannot ends it.\<close>

fun socket_handle :: "socket_request option list \<Rightarrow> interceptor \<Rightarrow> Response list \<times> interceptor" where
  "socket_handle [] i = ([], i)"
| "socket_handle (None # incoming) i = ([], i)"
| "socket_handle (Some request # incoming) i =
     (case socket_answer request i of (response, i) \<Rightarrow>
        (case socket_handle incoming i of (responses, i) \<Rightarrow> (response # responses, i)))"

text \<open>Listening fails, or the file's mode cannot be set and the listener is closed again.\<close>

datatype socket_listener = Listening_on gostring | Not_listening gostring "gostring list"

definition listen_socket :: "(gostring \<Rightarrow> gostring option) \<Rightarrow> (gostring \<Rightarrow> nat \<Rightarrow> gostring option) \<Rightarrow> gostring \<Rightarrow> socket_listener" where
  "listen_socket listen chmod path =
     (case listen path of
        Some err \<Rightarrow> Not_listening err []
      | None \<Rightarrow> (case chmod path 384 of Some err \<Rightarrow> Not_listening err [path] | None \<Rightarrow> Listening_on path))"

datatype exchange_error = NotDialled gostring gostring | NotSent gostring gostring | NoReply gostring gostring | EmuRefused gostring "plane_error option"

text \<open>Sending gives an error or nothing, reading the reply an error or a response.\<close>

definition exchange_request :: "gostring option \<Rightarrow> gostring + Response \<Rightarrow> socket_request \<Rightarrow> Response \<times> exchange_error option" where
  "exchange_request sent read request =
     (case sent of
        Some err \<Rightarrow> (empty_response, Some (NotSent (rq_Command request) err))
      | None \<Rightarrow>
          (case read of
             Inl err \<Rightarrow> (empty_response, Some (NoReply (rq_Command request) err))
           | Inr response \<Rightarrow>
               if \<not> rs_OK response then (response, Some (EmuRefused (rq_Command request) (rs_Error response)))
               else (response, None)))"

definition Send_request :: "gostring \<Rightarrow> gostring option \<Rightarrow> gostring option \<Rightarrow> gostring + Response \<Rightarrow> socket_request \<Rightarrow> Response \<times> exchange_error option" where
  "Send_request path dialled sent read request =
     (case dialled of Some err \<Rightarrow> (empty_response, Some (NotDialled path err)) | None \<Rightarrow> exchange_request sent read request)"

section \<open>What a request asks of the interceptor\<close>

text \<open>The abstract request a page or socket request amounts to: none when it only reads or is refused.\<close>

fun page_control :: "'p page_request \<Rightarrow> interceptor \<Rightarrow> 'p request option" where
  "page_control (PostFault (Inr rule)) i = (if Validate rule = None then Some (Add rule) else None)"
| "page_control (DeleteFault raw) i =
     (case Atoi raw of None \<Rightarrow> None | Some k \<Rightarrow> if 0 \<le> k \<and> k < int (length (i_rules i)) then Some (Remove k) else None)"
| "page_control ResetFaults i = Some Reset"
| "page_control (PostOp (Inr o')) i = (if op_Emulator o' = [] \<or> op_Kind o' = [] then None else Some (SyntheticOp o'))"
| "page_control request i = None"

definition socket_control :: "socket_request \<Rightarrow> unit request option" where
  "socket_control request =
     (if rq_Command request = CommandFaultAdd then
        (case rq_Rule request of None \<Rightarrow> None | Some rule \<Rightarrow> if Validate rule = None then Some (Add rule) else None)
      else if rq_Command request = CommandFaultReset then Some Reset else None)"

definition controlled :: "'p request option \<Rightarrow> interceptor \<Rightarrow> interceptor" where
  "controlled asked i = (case asked of None \<Rightarrow> i | Some c \<Rightarrow> control_step i c)"

text \<open>What arming and removing come to, as equations on the whole answer.\<close>

definition armed_with :: "Rule \<Rightarrow> interceptor \<Rightarrow> interceptor" where
  "armed_with rule i = i\<lparr>i_rules := i_rules i @ [arm_rule rule], i_log := record_entry (i_log i) (control_entry (''fault add '' @ r_Match rule))\<rparr>"

lemma AddRule_cases: "AddRule rule i = (case Validate rule of Some err \<Rightarrow> (Some err, i) | None \<Rightarrow> (None, armed_with rule i))"
  by (simp add: AddRule_def arm_def armed_with_def split: option.splits)

lemma RemoveRule_cases:
  "RemoveRule k i = (if 0 \<le> k \<and> k < int (length (i_rules i)) then (None, snd (RemoveRule k i))
                     else (Some (NoRuleAt k (length (i_rules i))), i))"
  by (simp add: RemoveRule_def Let_def)

lemma RemoveRule_some: "0 \<le> k \<Longrightarrow> k < int (length (i_rules i)) \<Longrightarrow> fst (RemoveRule k i) = None"
  "\<not> (0 \<le> k \<and> k < int (length (i_rules i))) \<Longrightarrow> RemoveRule k i = (Some (NoRuleAt k (length (i_rules i))), i)"
  by (auto simp: RemoveRule_def Let_def)

lemma routes_controlled: "pl_intercept (snd (routes request d)) = controlled (page_control request (pl_intercept d)) (pl_intercept d)"
proof (cases request)
  case (PostFault body)
  show ?thesis
  proof (cases body)
    case (Inr rule)
    then show ?thesis using PostFault
      by (cases "Validate rule") (simp_all add: post_fault_def AddRule_cases controlled_def)
  qed (simp add: PostFault post_fault_def controlled_def)
next
  case (DeleteFault raw)
  have "pl_intercept (snd (case RemoveRule k i of (Some err, j) \<Rightarrow> (refuse 404 (NoSuchRule err), d\<lparr>pl_intercept := j\<rparr>)
      | (None, j) \<Rightarrow> ((200, ArmedRules (armed_rules j)), d\<lparr>pl_intercept := j\<rparr>))) = snd (RemoveRule k i)" for k i
    by (simp split: prod.splits option.splits)
  then show ?thesis using DeleteFault RemoveRule_some(2) [of _ "pl_intercept d"]
    by (auto simp: delete_fault_def controlled_def split: option.splits)
next
  case ResetFaults
  then show ?thesis by (simp add: reset_faults_def controlled_def Let_def)
next
  case (PostOp body)
  then show ?thesis by (cases body) (simp_all add: post_op_def controlled_def split: prod.splits)
next
  case (PostChild out err body)
  then show ?thesis by (simp add: post_child_def controlled_def split: option.splits sum.splits prod.splits)
qed (simp_all add: controlled_def)

lemma socket_controlled: "snd (socket_answer request i) = controlled (socket_control request) i"
proof (cases "rq_Rule request")
  case (Some rule)
  then show ?thesis
    by (cases "Validate rule")
      (simp_all add: socket_answer_def socket_control_def AddRule_cases controlled_def CommandFaultAdd_def CommandFaultReset_def
        CommandFaultList_def CommandOplog_def)
qed (simp add: socket_answer_def socket_control_def controlled_def CommandFaultAdd_def CommandFaultReset_def CommandFaultList_def
    CommandOplog_def)

text \<open>Asking records one entry, whatever was asked.\<close>

lemma control_step_logs: "l_next (i_log (control_step i c)) = l_next (i_log i) + (case c of Add rule \<Rightarrow> if Validate rule = None then 1 else 0
    | Remove k \<Rightarrow> if 0 \<le> k \<and> k < int (length (i_rules i)) then 1 else 0 | _ \<Rightarrow> 1)"
  by (cases c) (auto simp: Before_def Fire_def before_log AddRule_def arm_def RemoveRule_def ResetRules_def Let_def split: option.splits)

lemma page_control_logs:
  "l_next (i_log (controlled (page_control request i) i)) = l_next (i_log i) + (if page_control request i = None then 0 else 1)"
  by (cases "(request, i)" rule: page_control.cases) (simp_all add: controlled_def control_step_logs del: control_step.simps split: option.splits)

lemma socket_control_logs:
  "l_next (i_log (controlled (socket_control request) i)) = l_next (i_log i) + (if socket_control request = None then 0 else 1)"
  by (simp add: socket_control_def controlled_def control_step_logs del: control_step.simps split: option.splits)

text \<open>C15. Every way into a running emu is the interceptor's: a page route changes the interceptor by exactly the one
  abstract control request it stands for, recorded by exactly one new entry of the op log, and a route that
  stands for none (it reads, or it is refused) leaves rules, budgets and log alone.\<close>
theorem page_refines_control:
  "pl_intercept (snd (routes request d)) = controlled (page_control request (pl_intercept d)) (pl_intercept d) \<and>
   l_next (i_log (pl_intercept (snd (routes request d))))
     = l_next (i_log (pl_intercept d)) + (if page_control request (pl_intercept d) = None then 0 else 1)"
  using routes_controlled [of request d] page_control_logs [of request "pl_intercept d"] by simp

section \<open>Refusals\<close>

lemma start_command_refuses:
  "start_command out err command r = (Some e, r') \<Longrightarrow> (\<forall>reason. e \<noteq> NotCaptured reason) \<Longrightarrow> r' = r"
  by (auto simp: start_command_def claim_def Let_def split: if_splits option.splits prod.splits)

lemma runner_upd_same: "pl_runner d = Some r \<Longrightarrow> d\<lparr>pl_runner := Some r\<rparr> = d"
  by (cases d) simp

text \<open>C47. A request the page is refused (a status other than 200) has changed nothing at all: not the rules, not the
  log, not the child. The one exception is a child whose pipes could not be opened, which is claimed,
  ended as unstarted and noted in its output.\<close>
theorem refused_requests_change_nothing:
  "routes request d = ((status, Refused e), d') \<Longrightarrow> (\<And>reason. e \<noteq> ChildRefused (NotCaptured reason)) \<Longrightarrow> status \<noteq> 200 \<and> d' = d"
proof (cases request)
  case (PostFault body)
  assume a: "routes request d = ((status, Refused e), d')"
  show ?thesis
  proof (cases body)
    case (Inr rule)
    then show ?thesis using a PostFault by (cases "Validate rule") (auto simp: post_fault_def refuse_def AddRule_cases)
  qed (use a PostFault in \<open>simp add: post_fault_def refuse_def\<close>)
next
  case (DeleteFault raw)
  assume a: "routes request d = ((status, Refused e), d')"
  show ?thesis
  proof (cases "Atoi raw")
    case (Some k)
    then show ?thesis using a DeleteFault RemoveRule_some [of k "pl_intercept d"]
      by (cases "RemoveRule k (pl_intercept d)"; cases "0 \<le> k \<and> k < int (length (i_rules (pl_intercept d)))")
        (auto simp: delete_fault_def refuse_def)
  qed (use a DeleteFault in \<open>simp add: delete_fault_def refuse_def\<close>)
next
  case (PostOp body)
  assume "routes request d = ((status, Refused e), d')"
  then show ?thesis using PostOp by (cases body) (auto simp: post_op_def refuse_def split: if_splits prod.splits)
next
  case (PostChild out err body)
  assume a: "routes request d = ((status, Refused e), d')" "\<And>reason. e \<noteq> ChildRefused (NotCaptured reason)"
  show ?thesis
  proof (cases "pl_runner d")
    case (Some r)
    show ?thesis
    proof (cases body)
      case (Inr command)
      obtain q r' where start: "start_command out err command r = (q, r')" by (cases "start_command out err command r")
      then show ?thesis using a PostChild Some Inr start_command_refuses [of out err command r] runner_upd_same [OF Some]
        by (cases q) (auto simp: post_child_def refuse_def)
    qed (use a PostChild Some in \<open>simp add: post_child_def refuse_def\<close>)
  qed (use a PostChild in \<open>simp add: post_child_def refuse_def\<close>)
next
  case (DeleteChild kill_group)
  assume "routes request d = ((status, Refused e), d')"
  then show ?thesis using DeleteChild by (auto simp: delete_child_def refuse_def split: option.splits)
qed (simp_all add: get_state_def reset_faults_def Let_def)

section \<open>Loopback\<close>

lemma digit_char_val: "is_digit c \<Longrightarrow> digit_val c < 10 \<and> digit_char (digit_val c) = c"
proof -
  assume "is_digit c"
  then have "48 \<le> (of_char c :: nat)" "(of_char c :: nat) \<le> 57" by (simp_all add: is_digit_def less_eq_char_def)
  then show ?thesis by (simp add: digit_val_def digit_char_def)
qed

lemma value_of_digits_pos: "s \<noteq> [] \<Longrightarrow> list_all is_digit s \<Longrightarrow> hd s \<noteq> CHR ''0'' \<Longrightarrow> 0 < value_of_digits s"
proof (induction s rule: rev_induct)
  case (snoc c s)
  show ?case
  proof (cases "s = []")
    case True
    have "digit_char 0 = CHR ''0''" by code_simp
    then have "digit_val c \<noteq> 0" using snoc.prems True digit_char_val [of c] by (intro notI) simp
    then show ?thesis using True by (simp only: value_of_digits_def append_Nil foldl.simps)
  next
    case False
    then show ?thesis using snoc by (simp add: value_of_digits_snoc)
  qed
qed simp

text \<open>A field without leading zeros is the decimal of its value.\<close>

lemma canonical_field: "s \<noteq> [] \<Longrightarrow> list_all is_digit s \<Longrightarrow> (1 < length s \<longrightarrow> hd s \<noteq> CHR ''0'') \<Longrightarrow> format_nat (value_of_digits s) = s"
proof (induction s rule: rev_induct)
  case (snoc c s)
  note c = digit_char_val [of c]
  show ?case
  proof (cases "s = []")
    case True
    then show ?thesis using snoc.prems c by (simp add: value_of_digits_def format_nat.simps [of "digit_val c"])
  next
    case False
    then have pos: "0 < value_of_digits s" using snoc.prems value_of_digits_pos [of s] by (cases s) auto
    have "format_nat (value_of_digits s) = s" using snoc False by (cases s) auto
    then show ?thesis using pos c snoc.prems
      by (subst format_nat.simps) (simp add: value_of_digits_snoc)
  qed
qed simp

lemma ip_field_format: "ip_field s = Some n \<Longrightarrow> s = format_nat n \<and> n \<le> 255"
  using canonical_field [of s] by (auto simp: ip_field_def split: if_splits)

lemma Split_on_Cons: "\<exists>w ws. Split_on c s = w # ws"
  by (cases s) (auto split: list.splits)

lemma Split_on_Join: "Join (Split_on c s) [c] = s"
proof (induction c s rule: Split_on.induct)
  case (2 sep c cs)
  obtain w ws where ws: "Split_on sep cs = w # ws" using Split_on_Cons by blast
  then show ?case using 2 by (cases ws) auto
qed simp

lemma loopback_quad_iff: "loopback_quad host \<longleftrightarrow>
    (\<exists>x y z. map ip_field (Split_on CHR ''.'' host) = [Some 127, Some x, Some y, Some z])"
proof
  assume q: "loopback_quad host"
  define parts where "parts = map ip_field (Split_on CHR ''.'' host)"
  have q: "length parts = 4" "None \<notin> set parts" "hd parts = Some 127" using q by (simp_all add: loopback_quad_def parts_def Let_def)
  then obtain a b c d where "parts = [a, b, c, d]" by (auto simp: numeral_eq_Suc length_Suc_conv)
  then show "\<exists>x y z. map ip_field (Split_on CHR ''.'' host) = [Some 127, Some x, Some y, Some z]"
    unfolding parts_def [symmetric] using q by (cases b; cases c; cases d) auto
next
  assume "\<exists>x y z. map ip_field (Split_on CHR ''.'' host) = [Some 127, Some x, Some y, Some z]"
  then obtain x y z where m: "map ip_field (Split_on CHR ''.'' host) = [Some 127, Some x, Some y, Some z]" by (elim exE)
  show "loopback_quad host" unfolding loopback_quad_def m by simp
qed

lemma loopback_quad_form:
  assumes "loopback_quad host"
  shows "\<exists>x y z. x \<le> 255 \<and> y \<le> 255 \<and> z \<le> 255 \<and>
    host = ''127.'' @ format_nat x @ ''.'' @ format_nat y @ ''.'' @ format_nat z"
proof -
  obtain x y z where m: "map ip_field (Split_on CHR ''.'' host) = [Some 127, Some x, Some y, Some z]"
    using assms by (auto simp: loopback_quad_iff)
  obtain s t u v where parts: "Split_on CHR ''.'' host = [s, t, u, v]"
      "ip_field s = Some 127" "ip_field t = Some x" "ip_field u = Some y" "ip_field v = Some z"
    using m by (simp only: map_eq_Cons_conv) auto
  have b: "x \<le> 255" "y \<le> 255" "z \<le> 255" using parts ip_field_format by blast+
  have "Split_on CHR ''.'' host = [format_nat 127, format_nat x, format_nat y, format_nat z]"
    using parts(1) ip_field_format [OF parts(2)] ip_field_format [OF parts(3)] ip_field_format [OF parts(4)]
      ip_field_format [OF parts(5)] by simp
  moreover have "format_nat 127 = ''127''" by (simp add: format_nat.simps) code_simp
  ultimately have "host = ''127.'' @ format_nat x @ ''.'' @ format_nat y @ ''.'' @ format_nat z"
    using Split_on_Join [of "CHR ''.''" host] by simp
  with b show ?thesis by blast
qed

lemma last_colon_split: "last_colon s = Some i \<Longrightarrow> s = take i s @ '':'' @ drop (i + 1) s \<and> CHR '':'' \<notin> set (drop (i + 1) s)"
proof (induction s arbitrary: i)
  case (Cons c s)
  have none: "last_colon t = None \<Longrightarrow> CHR '':'' \<notin> set t" for t by (induction t) (auto split: option.splits if_splits)
  show ?case using Cons none [of s] by (auto split: option.splits if_splits)
qed simp

lemma SplitHostPort_form:
  assumes "SplitHostPort address = Some (host, port)"
  shows "CHR '':'' \<notin> set port \<and> (address = host @ '':'' @ port \<or> address = ''['' @ host @ '']:'' @ port)"
proof -
  obtain i where i: "last_colon address = Some i" using assms by (auto simp: SplitHostPort_def split: option.splits)
  note form = last_colon_split [OF i]
  have port: "port = drop (i + 1) address" using assms i by (auto simp: SplitHostPort_def Let_def split: if_splits)
  show ?thesis
  proof (cases "hd address = CHR ''[''")
    case False
    then have "host = take i address" using assms i by (auto simp: SplitHostPort_def Let_def split: if_splits)
    then show ?thesis using form port by simp
  next
    case True
    define close where "close = length (takeWhile (\<lambda>c. c \<noteq> CHR '']'') address)"
    have c: "close \<noteq> length address" "close + 1 = i" "host = drop 1 (take close address)"
      using True assms i by (simp_all add: SplitHostPort_def Let_def close_def split: if_splits)
    have less: "close < length address" using c(1) length_takeWhile_le [of "\<lambda>c. c \<noteq> CHR '']''" address] close_def by linarith
    then have bracket: "address ! close = CHR '']''" using nth_length_takeWhile [of "\<lambda>c. c \<noteq> CHR '']''" address] by (simp add: close_def)
    have "address \<noteq> []" using less by auto
    then have "close \<noteq> 0" using True bracket by (auto simp: hd_conv_nth intro: ccontr)
    then have "take close address = ''['' @ host" using c(3) True less by (cases address) (auto simp: take_Cons')
    moreover have "take i address = take close address @ '']''" using c(2) less bracket by (metis Suc_eq_plus1 take_Suc_conv_app_nth)
    ultimately show ?thesis using form port by simp
  qed
qed

text \<open>C28. The page is bound, if at all, to this machine: to \<open>localhost\<close>, to an address \<open>127.x.y.z\<close>, or to what the library
  calls a loopback address in colons. \<open>:9100\<close> and \<open>0.0.0.0:9100\<close>, every interface, are refused; and the page may start a
  child exactly when this emu does not supervise one already.\<close>
theorem only_loopback_bound:
  "Bind_dashboard v6 listen address intercept about r = Inr (bound, d) \<Longrightarrow>
   listen address = Inr bound \<and> (ab_CanRun (pl_about d) \<longleftrightarrow> r \<noteq> None) \<and>
   (\<exists>host port. port \<noteq> [] \<and> CHR '':'' \<notin> set port \<and> (address = host @ '':'' @ port \<or> address = ''['' @ host @ '']:'' @ port) \<and>
      (host = ''localhost'' \<or> (CHR '':'' \<in> set host \<and> v6 host) \<or>
       (\<exists>x y z. x \<le> 255 \<and> y \<le> 255 \<and> z \<le> 255 \<and> host = ''127.'' @ format_nat x @ ''.'' @ format_nat y @ ''.'' @ format_nat z)))"
proof -
  assume bind: "Bind_dashboard v6 listen address intercept about r = Inr (bound, d)"
  then have ok: "requireLoopback v6 address = None" by (simp add: Bind_dashboard_def split: option.splits)
  then obtain host port where hp: "SplitHostPort address = Some (host, port)" "port \<noteq> []" "host = ''localhost'' \<or> loopback_ip v6 host"
    by (auto simp: requireLoopback_def split: option.splits if_splits)
  have "loopback_ip v6 host \<Longrightarrow> (CHR '':'' \<in> set host \<and> v6 host) \<or> loopback_quad host"
    by (auto simp: loopback_ip_def filter_eq_Cons_iff split: list.splits if_splits)
  then have host: "host = ''localhost'' \<or> (CHR '':'' \<in> set host \<and> v6 host) \<or>
      (\<exists>x y z. x \<le> 255 \<and> y \<le> 255 \<and> z \<le> 255 \<and> host = ''127.'' @ format_nat x @ ''.'' @ format_nat y @ ''.'' @ format_nat z)"
    using hp(3) loopback_quad_form [of host] by blast
  have "listen address = Inr bound \<and> (ab_CanRun (pl_about d) \<longleftrightarrow> r \<noteq> None)"
    using bind ok by (auto simp: Bind_dashboard_def split: sum.splits)
  moreover note SplitHostPort_form [OF hp(1)] hp(2) host
  ultimately show ?thesis by blast
qed

definition quiet_interceptor :: interceptor where "quiet_interceptor = \<lparr>i_rules = [], i_log = New_log 10\<rparr>"

definition nothing_about :: About where
  "nothing_about = \<lparr>ab_Services = [], ab_Listening = [], ab_ConfigPath = [], ab_Child = ''app'', ab_CanRun = False\<rparr>"

definition sample_plane :: plane where
  "sample_plane = \<lparr>pl_intercept = quiet_interceptor, pl_runner = None, pl_about = nothing_about\<rparr>"

lemma sample_binds: "Bind_dashboard (\<lambda>_. False) Inr ''127.0.0.1:9100'' quiet_interceptor nothing_about None = Inr (''127.0.0.1:9100'', sample_plane)"
proof -
  have "requireLoopback (\<lambda>_. False) ''127.0.0.1:9100'' = None"
    by (simp add: requireLoopback_def SplitHostPort_def Let_def loopback_ip_def loopback_quad_def ip_field_def is_digit_def
        less_eq_char_def value_of_digits_def digit_val_def)
  then show ?thesis by (simp add: Bind_dashboard_def sample_plane_def nothing_about_def)
qed

theorem only_loopback_bound_witness:
  "ab_CanRun (pl_about sample_plane) = False \<and> requireLoopback (\<lambda>_. True) '':9100'' \<noteq> None \<and> requireLoopback (\<lambda>_. True) ''0.0.0.0:9100'' \<noteq> None"
proof -
  have "requireLoopback (\<lambda>_. True) '':9100'' \<noteq> None"
    by (simp add: requireLoopback_def SplitHostPort_def Let_def loopback_ip_def)
  moreover have "requireLoopback (\<lambda>_. True) ''0.0.0.0:9100'' \<noteq> None"
    by (simp add: requireLoopback_def SplitHostPort_def Let_def loopback_ip_def loopback_quad_def ip_field_def is_digit_def
        less_eq_char_def value_of_digits_def digit_val_def)
  ultimately show ?thesis using only_loopback_bound [OF sample_binds] by simp
qed

theorem refused_requests_change_nothing_witness:
  "routes (DeleteFault ''7'' :: unit page_request) sample_plane = ((404, Refused (NoSuchRule (NoRuleAt 7 0))), sample_plane)"
proof -
  have r: "routes (DeleteFault ''7'' :: unit page_request) sample_plane = ((404, Refused (NoSuchRule (NoRuleAt 7 0))), snd (routes (DeleteFault ''7'' :: unit page_request) sample_plane))"
    by (simp add: delete_fault_def RemoveRule_def ParseInt_def parse_digits_def is_digit_def less_eq_char_def value_of_digits_def
        digit_val_def int64_range_def sample_plane_def quiet_interceptor_def refuse_def)
  show ?thesis using refused_requests_change_nothing [OF r] r by simp
qed

section \<open>Polling\<close>

text \<open>CX. A page that polls with the last number it saw, after at most as many operations as the log holds, is handed
  exactly what was recorded since, in order and numbered on: nothing twice, nothing missing.\<close>
theorem polls_lose_nothing:
  assumes "i_log (pl_intercept d) = foldl record_entry (New_log limit) (seen @ recent)"
    "length recent \<le> nat (if limit \<le> 0 then 10000 else limit)" "int64_range (int (length seen))"
  shows "\<exists>page. get_state (FormatInt (int (length seen))) output d = (200, State page) \<and>
    ps_Entries page = map2 stamp [length seen + 1 ..< length seen + length recent + 1] recent"
proof -
  define bound where "bound = nat (if limit \<le> 0 then 10000 else limit)"
  define all where "all = map2 stamp [1 ..< length (seen @ recent) + 1] (seen @ recent)"
  define new where "new = map2 stamp [length seen + 1 ..< length seen + length recent + 1] recent"
  have cap: "l_cap (New_log limit) = bound" "l_next (New_log limit) = 1" "snapshot (New_log limit) = []"
    by (simp_all add: New_log_def bound_def DefaultLimit_def snapshot_def Let_def)
  have view: "snapshot (i_log (pl_intercept d)) = last_n bound all"
    using ring.run_view [OF New_log_ok, of limit "seen @ recent"] by (simp add: cap all_def assms(1))
  have upt: "[1 ..< length (seen @ recent) + 1] = [1 ..< length seen + 1] @ [length seen + 1 ..< length seen + length recent + 1]"
    using upt_add_eq_append [of 1 "length seen + 1" "length recent"] by simp
  have split: "all = map2 stamp [1 ..< length seen + 1] seen @ new"
    unfolding all_def new_def upt by (simp add: zip_append del: upt_Suc)
  have old: "filter (\<lambda>e. length seen < e_N e) (map2 stamp [1 ..< length seen + 1] seen) = []"
    by (auto simp: filter_empty_conv stamp_def set_zip simp del: upt_Suc)
  have late: "filter (\<lambda>e. length seen < e_N e) new = new"
    by (auto simp: filter_id_conv new_def stamp_def set_zip simp del: upt_Suc)
  have "length new = length recent" by (simp add: new_def del: upt_Suc)
  then have "last_n bound all = drop (length all - bound) (map2 stamp [1 ..< length seen + 1] seen) @ new"
    using assms(2) by (simp add: last_n_def split bound_def del: upt_Suc)
  moreover have "filter (\<lambda>e. length seen < e_N e) (drop k (map2 stamp [1 ..< length seen + 1] seen)) = []" for k
    using old by (metis filter_empty_conv in_set_dropD)
  ultimately have "Since (i_log (pl_intercept d)) (int (length seen)) = new"
    by (simp add: Since_def view late del: upt_Suc)
  then show ?thesis using assms(3) by (simp add: get_state_def poll_cursor_def new_def del: upt_Suc)
qed

theorem polls_lose_nothing_witness:
  "ps_Entries (case snd (get_state ''0'' [] sample_plane) of State page \<Rightarrow> page) = []"
proof -
  have "FormatInt 0 = ''0''" by code_simp
  then show ?thesis
    using polls_lose_nothing [of sample_plane 10 "[]" "[]" "[]"] by (auto simp: sample_plane_def quiet_interceptor_def int64_range_def)
qed

section \<open>The command's side of the socket\<close>

text \<open>CX. \<open>emu ctl fault add\<close> reports success exactly when the rule is sound, and then the rule is the last armed, is what the
  answer lists, and the log has one entry more; otherwise the emu is as it was and the command carries the
  refusal. Neither side can mistake one for the other.\<close>
theorem socket_add_answers_truly:
  "exchange_request None (Inr (fst (socket_answer \<lparr>rq_Command = CommandFaultAdd, rq_Rule = Some rule\<rparr> i))) \<lparr>rq_Command = CommandFaultAdd, rq_Rule = Some rule\<rparr> =
     (case Validate rule of
        None \<Rightarrow> (empty_response\<lparr>rs_OK := True, rs_Rules := armed_rules i @ [rule]\<rparr>, None)
      | Some err \<Rightarrow> (refusal (RuleRefused err), Some (EmuRefused CommandFaultAdd (Some (RuleRefused err))))) \<and>
   armed_rules (snd (socket_answer \<lparr>rq_Command = CommandFaultAdd, rq_Rule = Some rule\<rparr> i)) =
     armed_rules i @ (case Validate rule of None \<Rightarrow> [rule] | Some err \<Rightarrow> []) \<and>
   l_next (i_log (snd (socket_answer \<lparr>rq_Command = CommandFaultAdd, rq_Rule = Some rule\<rparr> i))) =
     l_next (i_log i) + (case Validate rule of None \<Rightarrow> 1 | Some err \<Rightarrow> 0)"
  by (cases "Validate rule")
    (simp_all add: socket_answer_def AddRule_cases exchange_request_def refusal_def empty_response_def armed_with_def armed_rules_def)

end
