(* ===== verification/Spec2Isabelle.thy ===== *)
theory Spec2Isabelle
  imports KvCollections Redis QueueDispatch AmqpBehaviour Sqltext Fleet MongoBehaviour PgBehaviour PgValues Dashboard
begin

text \<open>
  A verification of \<open>emu\<close>, the Go program of \<open>src/emu-service\<close>: emulated services (a Redis cache, an AMQP message
  broker, Postgres, Mongo) that a lesson starts beside a student's program, and a control layer that injects
  faults into their operations and logs them.

  How the program works. Every emulated service is a protocol (a codec that turns one connection's bytes
  into operations and answers back into bytes) and a backend (the state behind it). One serve loop, \<open>handle\<close>
  in \<open>emulator.go\<close>, joins them: it takes the next operation from the session, asks the interceptor for a verdict,
  and then sleeps, drops the connection, tells the client an injected error, or executes the operation and
  replies. Backends are shared by connections under one mutex, so an operation of a backend is one
  transition, and concurrent clients are sequences of such transitions in any order.

  The theories, in the order of the code, with the files under \<open>src/emu-service/internal\<close> they model:

  \<^item> \<open>Prelude\<close>: outcomes with panics as a value, 64-bit wrap-around, Go's string and number functions, association
    lists for maps, and three interfaces as locales: \<open>preserved\<close> (what a step keeps, runs keep), \<open>refinement\<close> (no
    client can tell an implementation from its specification) and \<open>codec\<close> (a reader takes off a stream exactly
    what the writer wrote).
  \<^item> \<open>Oplog\<close> (\<open>oplog/oplog.go\<close>), \<open>Rules\<close> (\<open>control/op.go\<close>, \<open>control/rules.go\<close>), \<open>Interceptor\<close> (\<open>control/interceptor.go\<close>): the log as
    the last entries of all that was recorded; which rules are valid, on which occurrences they fire; the
    independence of a verdict's two halves; the invariant kept by clients and control plane together.
  \<^item> \<open>Emulator\<close> (\<open>emulator/emulator.go\<close>): results, the seam of session and executor, one step of the loop and the loop
    itself with a number of rounds as fuel. \<open>pipeline_served\<close> in \<open>Redis\<close> gives enough rounds: two more than
    there are commands, for the announcement of the connection and the end of the stream.
  \<^item> \<open>KvGlob\<close>, \<open>KvSpace\<close>, \<open>KvCommands\<close>, \<open>Kv\<close>, \<open>KvBehaviour\<close>, \<open>KvCollections\<close> (\<open>kv/*.go\<close>): the cache. The matcher decides the
    language of its pattern; no command panics; commands touch only their own keys and database; strings,
    counters and expiry compute what they promise, up to the bounds where 64-bit arithmetic wraps; list,
    set and hash keys refine a deque, a finite set and a finite map.
  \<^item> \<open>RespWire\<close>, \<open>RespSession\<close>, \<open>Redis\<close> (\<open>resp/*.go\<close>): the wire format in both versions and its round trips, the
    session, and the loop over the cache: pipelines are answered in full, faults touch nothing.
  \<^item> \<open>Mq\<close>, \<open>QueueRouting\<close>, \<open>Queues\<close>, \<open>QueueExec\<close> (\<open>mq/mq.go\<close>, \<open>queues/*.go\<close>): the broker, with Go's queues and
    connections in stores under identifiers. \<open>QueueSafety\<close> and \<open>QueueBooks\<close> hold the invariant of its books
    operation by operation, \<open>QueueRuns\<close> the theorems on whole runs, \<open>QueueDispatch\<close> the turns consumers take,
    prefetch and routing, and two runs in which the code departs from its comments.
  \<^item> \<open>AmqpWire\<close>, \<open>AmqpSession\<close>, \<open>AmqpBehaviour\<close> (\<open>amqp/*.go\<close>): frames, fields, methods, the handshake, the session. Its
    \<open>Next\<close> waits for three things at once, so it is given the order in which they come. Messages survive being
    cut into frames; deliveries and confirms are written once and in order; a failure is one channel
    exception; and two ways a closed channel does more, or less, than it should.
  \<^item> \<open>Sqltext\<close> (\<open>sqltext/*.go\<close>): the SQL scanner by byte positions, against a lexer of five modes.
  \<^item> \<open>Bson\<close>, \<open>Mongocmd\<close> (\<open>mongocmd/*.go\<close>): the values of BSON, doubles bit for bit, and the commands and failures of
    Mongo. \<open>DocQuery\<close>, \<open>DocUpdate\<close>, \<open>DocFind\<close>, \<open>Docstore\<close> (\<open>docstore/*.go\<close>): conditions, updates, finds, pipelines and the
    store's commands. \<open>BsonOrder\<close> and \<open>DocLaws\<close> hold the laws of comparison and update, \<open>DocSafety\<close> the uniqueness of
    identifiers over any run, \<open>DocPaging\<close> cursors and sorting.
  \<^item> \<open>MongoWire\<close>, \<open>MongoSession\<close>, \<open>MongoBehaviour\<close> (\<open>mongowire/*.go\<close>): messages, sections, the driver's own commands, the
    session; a command is one operation and one answer.
  \<^item> \<open>PgTypes\<close>, \<open>PgValues\<close> (\<open>pgwire/types.go\<close>, \<open>pgwire/params.go\<close>): results as text, parameters in both formats, the
    calendar; integers, dates and results read back.
  \<^item> \<open>Sqlitedb\<close>, \<open>SqlTransactions\<close> (\<open>sqlitedb/*.go\<close>): one connection's transaction over an engine, and the refinement of
    transaction blocks: what is committed stays, everything else is as if never run, a failed block refuses.
  \<^item> \<open>PgSession\<close>, \<open>PgBehaviour\<close> (\<open>pgwire/session.go\<close>, \<open>pgwire/pgwire.go\<close>): the session over decoded messages, and the loop
    over the SQL backend: simple queries and prepared statements are answered in full, the status a client is
    told follows its transaction, with the exceptions the code makes.
  \<^item> \<open>Supervise\<close> (\<open>supervise/supervise.go\<close>): the child as PID 1 runs it, the exit code, and the signal channel.
  \<^item> \<open>Child\<close> (\<open>control/child.go\<close>): the child the dashboard starts, as interleaved sections under one mutex: its bounded
    output and that there is one at a time. \<open>Dashboard\<close> (\<open>control/http.go\<close>, \<open>control/socket.go\<close>): the page's routes and the
    socket's commands, each one control request of \<open>Interceptor\<close> or none; the loopback check.
  \<^item> \<open>Config\<close> (\<open>config/config.go\<close>) and \<open>Fleet\<close> (\<open>fleet/fleet.go\<close>): what a lesson may configure, and starting it all or
    not at all.

  This theory imports them all and ends with a property that spans components: bytes of a publisher to
  bytes of a consumer.

  Conventions. A struct is a record, a Go map an association list with distinct keys, a loop that ranges
  over a map takes the order as an argument. An operation returns its result beside the new state; a Go
  error is a constructor of the component's error type, a panic the outcome \<open>Panic\<close> (or \<open>None\<close> for the one
  helper that dereferences). Unsigned integers on the wire are natural numbers cut to their width when
  written; signed ones wrap at 64 bits where the code can reach the bound. Strings are byte strings.

  Parameters. Code that is not in the repository is an argument: the BSON codec and the regular expression
  compiler (\<open>host\<close> in \<open>DocQuery\<close>), object identifiers drawn, what the machine makes of a double no integer holds; the
  SQLite engine (record \<open>engine\<close>; \<open>engine_laws\<close> in \<open>SqlTransactions\<close> is what transactions rely on, said of the
  transaction the engine itself has open and not of the connection's idea of it, with a toy engine that
  has them); \<open>pgproto3\<close>, whose messages are a datatype; \<open>FormatFloat\<close>, \<open>ParseFloat\<close> and \<open>Pow\<close> (record \<open>pg_lib\<close>); what
  \<open>LookPath\<close>, \<open>StartProcess\<close> and \<open>wait4\<close> answer (\<open>launcher\<close>, \<open>notification\<close>); pipes, \<open>kill\<close> and \<open>listen\<close> in \<open>Child\<close> and \<open>Dashboard\<close>.

  Bounds. Recursion over input is bounded by what is left of it (scanners, frame readers), dispatching by
  the messages waiting, a message body by its bytes; all are proved to end. The one loop cut off is the
  splitting of a body at a limit of zero, which the handshake excludes (\<open>handshake_negotiates\<close>). The serve loop
  \<open>handle_loop\<close> has a number of rounds as fuel: \<open>pipeline_served\<close> and \<open>simple_queries_served\<close> give enough, commands or
  statements and two; a cursor ends after at most one request per document found (\<open>cursor_pages_everything\<close>).

  Not modelled, and why. \<open>encoding/json\<close>, sockets, the scheduler and the clock are outside: decoded values,
  bytes, orders of events and instants are arguments. Case folding and trimming are modelled on ASCII.
  \<open>cli\<close> (flags, files, exit codes) and the two calls that open and remove the SQL database's directory are wiring
  around what is modelled; \<open>net/http\<close>'s choice of a route is the constructor of a request. The Python, TypeScript
  and Rust services of the repository are other programs.
\<close>

section \<open>From one client's socket to another's\<close>

lemma publish_to_sole_consumer:
  assumes "m_Exchange m = []" "map_of (br_queues b) (m_RoutingKey m) = Some t" "q_ready (the_queue b t) = []"
    "q_consumers (the_queue b t) = [k]" "cn_prefetch (the_conn b (cs_owner k)) (cs_channel k) = 0"
    "op_Payload o' = Publish m mandatory"
  shows "map handed (cn_sink (the_conn (snd (queue_run order p o' b)) (cs_owner k))) =
    map handed (cn_sink (the_conn b (cs_owner k))) @ [(cs_tag k, cs_channel k, m)]"
proof -
  let ?b = "set_queue t ((the_queue b t)\<lparr>q_ready := [\<lparr>pe_message = m, pe_redelivered = False\<rparr>]\<rparr>) b"
  have "snd (queue_run order p o' b) = dispatch t ?b"
    using assms(1-3,6) by (simp add: queue_run_def publish_op_def publish_message_def hasExchange_def destinations_def
        defaultExchange_def Let_def)
  then show ?thesis
    using dispatch_rota [of ?b t "[k]" "cs_owner k"] assms(4,5) by (simp add: set_queue_def rota_def)
qed

text \<open>C1. From one client's socket to another's: the frames of a publisher's Basic.Publish, header and body, are read
  by its session, staged and run against the broker, and the session of the queue's consumer then
  writes to its own client a Basic.Deliver for that consumer followed by exactly this message, cut to
  the size the consumer's connection agreed on. Nothing is written twice.\<close>

theorem published_reaches_consumer:
  assumes publisher: "usable number s" "a_pending s = None" "a_staged s = []"
    and message: "m_Exchange m = []" "length (m_RoutingKey m) \<le> 255" "length (m_Body m) < 2 ^ 64" "frameOverhead < frameMax"
    and m': "m' = (if m_Properties m = [] then m\<lparr>m_Properties := emptyProperties\<rparr> else m)"
    and queue: "map_of (br_queues b) (m_RoutingKey m) = Some t" "q_ready (the_queue b t) = []" "q_consumers (the_queue b t) = [k]"
      "cn_prefetch (the_conn b (cs_owner k)) (cs_channel k) = 0"
    and consumer: "a_writable u" "the_channel (cs_channel k) u = Some c" "\<not> ch_closing c" "a_buffered u = []"
    and run: "s' = snd (receive_all meter (publish_frame number [] (m_RoutingKey m) mandatory # content_frames frameMax number m) s)"
      "b' = snd (queue_run order p (t_op (hd (a_staged s'))) b)"
      "news = drop (length (cn_sink (the_conn b (cs_owner k)))) (cn_sink (the_conn b' (cs_owner k)))"
      "u' = snd (deliver_waiting (u\<lparr>a_deliveries := \<lparr>ob_waiting = news, ob_woken = True\<rparr>\<rparr>))"
  shows "\<exists>d. news = [d] \<and> d_Consumer d = cs_tag k \<and> d_Channel d = cs_channel k \<and> d_Message d = m' \<and>
    a_sent u' = a_sent u @ encodeFrame (deliver_frame d) @
      concat (map encodeFrame (content_frames (tn_frameMax (a_agreed u)) (cs_channel k) m'))"
proof -
  have key: "m_Exchange m' = []" "m_RoutingKey m' = m_RoutingKey m" using message(1) by (simp_all add: m')
  have o': "op_Payload (t_op (hd (a_staged s'))) = Publish m' mandatory"
    using content_received [OF publisher(1,2), of m frameMax meter mandatory] message publisher(3)
    by (simp add: run(1) m' stage_def queue_op_of_def)
  let ?sink = "\<lambda>b. cn_sink (the_conn b (cs_owner k))"
  have sinks: "map handed (?sink b') = map handed (?sink b) @ [(cs_tag k, cs_channel k, m')]"
    unfolding run(2) using queue key by (intro publish_to_sole_consumer [OF _ _ _ _ _ o', of b t k order p]) simp_all
  then have "map handed news = [(cs_tag k, cs_channel k, m')]"
    unfolding run(3) by (metis append_eq_conv_conj drop_map length_map)
  then obtain d where d: "news = [d]" "handed d = (cs_tag k, cs_channel k, m')" by (auto simp: map_eq_Cons_conv)
  let ?u = "u\<lparr>a_deliveries := \<lparr>ob_waiting = [], ob_woken = True\<rparr>\<rparr>"
  have dd: "d_Consumer d = cs_tag k" "d_Channel d = cs_channel k" "d_Message d = m'" using d(2) by (simp_all add: handed_def)
  have "writable_to ?u d" using consumer dd by (simp add: writable_to_def the_channel_def)
  then have "a_sent u' = a_sent u @ concat (map encodeFrame (delivery_frames ?u d))"
    using consumer unfolding run(4) d(1) by (simp add: deliver_waiting_def outbox_take_def sendDelivery_eq amqp_flush_def Let_def)
  then show ?thesis using d(1) dd by (simp add: delivery_frames_def)
qed

definition listening_broker :: broker where
  "listening_broker = (sample_broker 0)\<lparr>br_store := (\<lambda>_. empty_queue ''jobs'')(0 := (empty_queue ''jobs'')
     \<lparr>q_consumers := [\<lparr>cs_tag = ''w'', cs_queue = 0, cs_owner = 0, cs_channel = 1, cs_noAck = False\<rparr>]\<rparr>)\<rparr>"

theorem published_reaches_consumer_witness:
  "map d_Message (cn_sink (the_conn (snd (queue_run [] 1 (t_op (hd (a_staged (snd (receive_all (\<lambda>_ _. [])
      (publish_frame 1 [] ''jobs'' False # content_frames 4096 1 (parcel ''x'')) open_session))))) listening_broker)) 0)) =
    [(parcel ''x'')\<lparr>m_Properties := emptyProperties\<rparr>]"
proof -
  let ?k = "\<lparr>cs_tag = ''w'', cs_queue = 0, cs_owner = 0, cs_channel = 1, cs_noAck = False\<rparr>"
  have m: "m_Exchange (parcel ''x'') = []" "length (m_RoutingKey (parcel ''x'')) \<le> 255" "length (m_Body (parcel ''x'')) < 2 ^ 64"
    "frameOverhead < 4096" "m_RoutingKey (parcel ''x'') = ''jobs''" "m_Properties (parcel ''x'') = []"
    by (simp_all add: parcel_def frameOverhead_def frameHeaderSize_def)
  have b: "map_of (br_queues listening_broker) (m_RoutingKey (parcel ''x'')) = Some 0" "q_ready (the_queue listening_broker 0) = []"
    "q_consumers (the_queue listening_broker 0) = [?k]" "cn_prefetch (the_conn listening_broker (cs_owner ?k)) (cs_channel ?k) = 0"
    "cn_sink (the_conn listening_broker 0) = []"
    by (simp_all add: listening_broker_def sample_broker_def m(5) empty_queue_def empty_connection_def)
  have c: "the_channel (cs_channel ?k) open_session = Some (new_channel\<lparr>ch_consumers := [(''w'', ''jobs'')]\<rparr>)"
    "\<not> ch_closing (new_channel\<lparr>ch_consumers := [(''w'', ''jobs'')]\<rparr>)" "a_buffered open_session = []"
    using open_usable(5) by (simp_all add: new_channel_def open_session_def new_amqp_session_def)
  show ?thesis
    using published_reaches_consumer [OF open_usable(1,2,4) m(1-4) refl b(1-4) open_usable(3) c refl refl refl refl,
        where meter = "\<lambda>_ _. []" and mandatory = False and order = "[]" and p = 1]
    by (auto simp: b(5) m(5,6))
qed

end
